(* ===== verification/Prelude.thy ===== *)
theory Prelude
  imports Main "HOL-Library.Multiset"
begin

text \<open>
  Shared vocabulary of the development: the Python exceptions the modelled code raises,
  results that are either an exception or a value, the list and string operations of the
  language that the code uses (indexing, slices with negative bounds, \<open>in\<close>,
  \<open>startswith\<close>, \<open>strip\<close>, \<open>split\<close>, the decimal rendering of \<open>%d\<close>), and
  dictionaries. A Python 2 dictionary lists its keys in an order the language leaves
  open, so a dictionary is an association list with distinct keys in insertion order, and
  whoever iterates over it takes the order as a parameter \<open>perm\<close> that permutes the list of
  keys (\<open>key_order\<close>).
\<close>

named_theorems py_defs \<open>definitions of the small language operations\<close>

section \<open>Exceptions and results\<close>

datatype py_error =
    IndexError
  | KeyError
  | ValueError
  | ZeroDivisionError
  | AttributeError
  | TypeError
  | UnboundLocalError
  | NameError
  | IOError
  | OSError
  | AssertionError
  | WafError
  | PyException
  | SystemExit int

type_synonym 'a res = "py_error + 'a"

abbreviation ret :: "'a \<Rightarrow> 'e + 'a" where
  "ret \<equiv> Inr"

abbreviation throw :: "'e \<Rightarrow> 'e + 'a" where
  "throw \<equiv> Inl"

definition rbind :: "'e + 'a \<Rightarrow> ('a \<Rightarrow> 'e + 'b) \<Rightarrow> 'e + 'b" where
  "rbind m f = (case m of Inl e \<Rightarrow> Inl e | Inr a \<Rightarrow> f a)"

lemma rbind_simps [simp]:
  "rbind (Inl e) f = Inl e"
  "rbind (Inr a) f = f a"
  by (simp_all add: rbind_def)

lemma rbind_Inr_iff: "rbind m f = Inr b \<longleftrightarrow> (\<exists>a. m = Inr a \<and> f a = Inr b)"
  by (cases m) auto

lemma rbind_Inl_iff:
  "rbind m f = Inl e \<longleftrightarrow> m = Inl e \<or> (\<exists>a. m = Inr a \<and> f a = Inl e)"
  by (cases m) auto

fun rmap :: "('a \<Rightarrow> 'e + 'b) \<Rightarrow> 'a list \<Rightarrow> 'e + 'b list" where
  "rmap f [] = Inr []"
| "rmap f (x # xs) = rbind (f x) (\<lambda>y. rbind (rmap f xs) (\<lambda>ys. Inr (y # ys)))"

lemma rmap_Inr: "(\<And>x. x \<in> set xs \<Longrightarrow> f x = Inr (g x)) \<Longrightarrow> rmap f xs = Inr (map g xs)"
  by (induction xs) auto

fun rfold :: "('s \<Rightarrow> 'a \<Rightarrow> 'e + 's) \<Rightarrow> 's \<Rightarrow> 'a list \<Rightarrow> 'e + 's" where
  "rfold f s [] = Inr s"
| "rfold f s (x # xs) = rbind (f s x) (\<lambda>s'. rfold f s' xs)"

lemma rfold_append [simp]: "rfold f s (xs @ ys) = rbind (rfold f s xs) (\<lambda>s'. rfold f s' ys)"
  by (induction xs arbitrary: s) (auto simp: rbind_def split: sum.splits)

lemma rmap_append [simp]:
  "rmap f (xs @ ys) = rbind (rmap f xs) (\<lambda>as. rbind (rmap f ys) (\<lambda>bs. Inr (as @ bs)))"
  by (induction xs) (auto simp: rbind_def split: sum.splits)

lemma rmap_cong [fundef_cong]:
  "xs = ys \<Longrightarrow> (\<And>x. x \<in> set ys \<Longrightarrow> f x = g x) \<Longrightarrow> rmap f xs = rmap g ys"
  by (induction xs arbitrary: ys) auto

lemma rmap_length: "rmap f xs = Inr ys \<Longrightarrow> length ys = length xs"
  by (induction xs arbitrary: ys) (auto simp: rbind_Inr_iff)

section \<open>Lists\<close>

text \<open>\<open>xs[i]\<close>, where a negative index counts from the end.\<close>

definition py_get :: "'a list \<Rightarrow> int \<Rightarrow> 'a res" where
  "py_get seq pos =
     (let from_end = int (length seq) + pos in
      if 0 \<le> pos \<and> pos < int (length seq) then ret (seq ! nat pos)
      else if pos < 0 \<and> 0 \<le> from_end then ret (seq ! nat from_end)
      else throw IndexError)"

lemma py_get_nonneg [simp]: "i < length xs \<Longrightarrow> py_get xs (int i) = Inr (xs ! i)"
  by (simp add: py_get_def)

lemma py_get_0_Nil [simp]: "py_get [] i = Inl IndexError"
  by (simp add: py_get_def Let_def)

lemma py_get_0_Cons [simp]: "py_get (x # xs) 0 = Inr x"
  by (simp add: py_get_def)

lemma py_get_last [simp]: "xs \<noteq> [] \<Longrightarrow> py_get xs (-1) = Inr (last xs)"
  by (auto simp: py_get_def last_conv_nth nat_diff_distrib Suc_le_eq)

lemma py_get_neg:
  "0 < i \<Longrightarrow> i \<le> length xs \<Longrightarrow> py_get xs (- int i) = Inr (xs ! (length xs - i))"
  by (auto simp: py_get_def Let_def nat_diff_distrib of_nat_diff)

text \<open>
  The bound of a slice: a negative bound counts from the end and is cut off at 0, a large
  one is cut off at the length.
\<close>

definition py_bound :: "nat \<Rightarrow> int \<Rightarrow> nat" where
  "py_bound n i = (if i < 0 then nat (int n + i) else min n (nat i))"

definition py_slice :: "'a list \<Rightarrow> int \<Rightarrow> int \<Rightarrow> 'a list" where
  "py_slice xs i j =
     take (py_bound (length xs) j - py_bound (length xs) i) (drop (py_bound (length xs) i) xs)"

definition py_slice_from :: "'a list \<Rightarrow> int \<Rightarrow> 'a list" where
  "py_slice_from xs i = drop (py_bound (length xs) i) xs"

definition py_slice_to :: "'a list \<Rightarrow> int \<Rightarrow> 'a list" where
  "py_slice_to xs j = take (py_bound (length xs) j) xs"

lemma py_bound_nonneg [simp]: "py_bound n (int i) = min n i"
  by (simp add: py_bound_def)

lemma py_slice_nat:
  "py_slice xs (int i) (int j) = take (min (length xs) j - min (length xs) i) (drop i xs)"
  by (cases "i \<le> length xs") (simp_all add: py_slice_def)

lemma py_slice_from_nat [simp]: "py_slice_from xs (int i) = drop i xs"
  by (cases "i \<le> length xs") (simp_all add: py_slice_from_def min_def)

lemma py_slice_to_nat [simp]: "py_slice_to xs (int j) = take j xs"
  by (cases "j \<le> length xs") (simp_all add: py_slice_to_def min_def)

text \<open>\<open>xs.index(x)\<close>: the first position of \<open>x\<close>.\<close>

fun py_index :: "'a list \<Rightarrow> 'a \<Rightarrow> nat res" where
  "py_index [] x = Inl ValueError"
| "py_index (y # ys) x = (if x = y then Inr 0 else rbind (py_index ys x) (\<lambda>i. Inr (Suc i)))"

lemma py_index_split:
  "x \<in> set xs \<Longrightarrow> \<exists>us vs. xs = us @ x # vs \<and> x \<notin> set us \<and> py_index xs x = Inr (length us)"
proof (induction xs)
  case (Cons y ys)
  show ?case
  proof (cases "x = y")
    case True
    then have "y # ys = [] @ x # ys \<and> x \<notin> set [] \<and> py_index (y # ys) x = Inr (length [])"
      by simp
    then show ?thesis by blast
  next
    case False
    with Cons.prems have "x \<in> set ys" by simp
    from Cons.IH [OF this] obtain us vs
      where "ys = us @ x # vs" "x \<notin> set us" "py_index ys x = Inr (length us)" by blast
    with False have "y # ys = (y # us) @ x # vs \<and> x \<notin> set (y # us)
        \<and> py_index (y # ys) x = Inr (length (y # us))"
      by simp
    then show ?thesis by blast
  qed
qed simp

text \<open>Replacing one entry of a list in a sum over it.\<close>

lemma sum_list_update_add:
  fixes f :: "'a \<Rightarrow> 'b :: comm_monoid_add"
  shows "i < length xs \<Longrightarrow>
    sum_list (map f (xs[i := x])) + f (xs ! i) = sum_list (map f xs) + f x"
  by (induction xs arbitrary: i) (auto simp: nth_Cons' ac_simps split: nat.splits)

lemma sum_list_map_zero:
  fixes f :: "'a \<Rightarrow> 'b :: comm_monoid_add"
  shows "(\<And>x. x \<in> set xs \<Longrightarrow> f x = 0) \<Longrightarrow> sum_list (map f xs) = 0"
  by (induction xs) auto

lemma length_filter_full: "length (filter P xs) = length xs \<longleftrightarrow> (\<forall>x \<in> set xs. P x)"
proof (induction xs)
  case (Cons x xs)
  have "length (filter P xs) \<noteq> Suc (length xs)" by (metis length_filter_le Suc_n_not_le_n)
  with Cons show ?case by simp
qed simp

text \<open>Neighbours in a list, for paths and orders.\<close>

definition precedes :: "'a list \<Rightarrow> 'a \<Rightarrow> 'a \<Rightarrow> bool" where
  "precedes xs a b \<longleftrightarrow> (\<exists>us vs. xs = us @ vs \<and> a \<in> set us \<and> b \<in> set vs)"

lemma precedes_append_right: "a \<in> set xs \<Longrightarrow> b \<in> set ys \<Longrightarrow> precedes (xs @ ys) a b"
  unfolding precedes_def by blast

lemma precedes_mono_right: "precedes xs a b \<Longrightarrow> precedes (xs @ ys) a b"
  unfolding precedes_def by fastforce

lemma precedes_Nil [simp]: "\<not> precedes [] a b"
  by (simp add: precedes_def)

lemma precedes_Cons [simp]: "precedes (x # xs) a b \<longleftrightarrow> a = x \<and> b \<in> set xs \<or> precedes xs a b"
proof
  assume "precedes (x # xs) a b"
  then obtain us vs where "x # xs = us @ vs" "a \<in> set us" "b \<in> set vs"
    by (auto simp: precedes_def)
  then show "a = x \<and> b \<in> set xs \<or> precedes xs a b"
    by (cases us) (auto simp: precedes_def)
next
  assume "a = x \<and> b \<in> set xs \<or> precedes xs a b"
  then show "precedes (x # xs) a b"
  proof
    assume "a = x \<and> b \<in> set xs"
    then have "x # xs = [x] @ xs" "a \<in> set [x]" "b \<in> set xs" by auto
    then show ?thesis unfolding precedes_def by blast
  next
    assume "precedes xs a b"
    then obtain us vs where "xs = us @ vs" "a \<in> set us" "b \<in> set vs"
      by (auto simp: precedes_def)
    then have "x # xs = (x # us) @ vs" "a \<in> set (x # us)" "b \<in> set vs" by auto
    then show ?thesis unfolding precedes_def by blast
  qed
qed

section \<open>Strings\<close>

definition is_space :: "char \<Rightarrow> bool" where
  "is_space c \<longleftrightarrow> c \<in> set [CHR '' '', CHR 0x09, CHR 0x0A, CHR 0x0B, CHR 0x0C, CHR 0x0D]"

definition nl :: string where
  "nl = [CHR 0x0A]"

definition strip :: "string \<Rightarrow> string" where
  "strip s = rev (dropWhile is_space (rev (dropWhile is_space s)))"

fun startswith :: "'a list \<Rightarrow> 'a list \<Rightarrow> bool" where
  "startswith s [] = True"
| "startswith [] (p # ps) = False"
| "startswith (c # s) (p # ps) = (c = p \<and> startswith s ps)"

lemma startswith_iff: "startswith s p \<longleftrightarrow> (\<exists>r. s = p @ r)"
  by (induction s p rule: startswith.induct) auto

lemma startswith_append [simp]: "startswith (p @ r) p"
  by (simp add: startswith_iff)

text \<open>\<open>sub in s\<close> on strings.\<close>

fun py_in :: "'a list \<Rightarrow> 'a list \<Rightarrow> bool" where
  "py_in sub [] = (sub = [])"
| "py_in sub (c # s) = (startswith (c # s) sub \<or> py_in sub s)"

lemma py_in_iff: "py_in sub s \<longleftrightarrow> (\<exists>a b. s = a @ sub @ b)"
proof (induction s)
  case Nil
  then show ?case by auto
next
  case (Cons c s)
  have "(\<exists>a b. c # s = a @ sub @ b) \<longleftrightarrow> (\<exists>b. c # s = sub @ b) \<or> (\<exists>a b. s = a @ sub @ b)"
    by (metis append_Cons append_Nil append_eq_Cons_conv)
  with Cons show ?case by (simp add: startswith_iff)
qed

text \<open>\<open>s.split(c)\<close> for a one-character separator: always at least one part.\<close>

fun split_on :: "'a \<Rightarrow> 'a list \<Rightarrow> 'a list list" where
  "split_on c [] = [[]]"
| "split_on c (x # xs) =
     (if x = c then [] # split_on c xs
      else (case split_on c xs of [] \<Rightarrow> [[x]] | p # ps \<Rightarrow> (x # p) # ps))"

lemma split_on_nonempty [simp]: "split_on c s \<noteq> []"
  by (induction s) (auto split: list.splits)

lemma split_on_no_sep: "c \<notin> set s \<Longrightarrow> split_on c s = [s]"
  by (induction s) auto

lemma split_on_append: "c \<notin> set a \<Longrightarrow> split_on c (a @ c # b) = a # split_on c b"
  by (induction a) (auto split: list.splits)

lemma split_on_parts_no_sep: "p \<in> set (split_on c s) \<Longrightarrow> c \<notin> set p"
  by (induction s arbitrary: p) (auto split: list.splits if_splits)

definition join_with :: "'a list \<Rightarrow> 'a list list \<Rightarrow> 'a list" where
  "join_with sep ps = concat (case ps of [] \<Rightarrow> [] | p # qs \<Rightarrow> p # map (\<lambda>q. sep @ q) qs)"

text \<open>\<open>%d\<close>.\<close>

definition digit_char :: "nat \<Rightarrow> char" where
  "digit_char d = char_of (48 + d)"

fun nat_str :: "nat \<Rightarrow> string" where
  "nat_str n = (if n < 10 then [digit_char n] else nat_str (n div 10) @ [digit_char (n mod 10)])"

declare nat_str.simps [simp del]

definition int_str :: "int \<Rightarrow> string" where
  "int_str i = (if i < 0 then CHR ''-'' # nat_str (nat (- i)) else nat_str (nat i))"

definition is_digit :: "char \<Rightarrow> bool" where
  "is_digit c \<longleftrightarrow> of_char c \<in> {48 ..< (58 :: nat)}"

definition digit_val :: "char \<Rightarrow> nat" where
  "digit_val c = of_char c - 48"

text \<open>\<open>int(s)\<close> for a string of decimal digits.\<close>

definition str_nat :: "string \<Rightarrow> nat" where
  "str_nat s = foldl (\<lambda>n c. 10 * n + digit_val c) 0 s"

lemma of_char_digit: "d < 10 \<Longrightarrow> of_char (digit_char d) = 48 + d"
  by (simp add: digit_char_def)

lemma digit_char_digit [simp]: "d < 10 \<Longrightarrow> is_digit (digit_char d)"
  by (simp add: is_digit_def of_char_digit)

lemma digit_val_char [simp]: "d < 10 \<Longrightarrow> digit_val (digit_char d) = d"
  by (simp add: digit_val_def of_char_digit)

lemma nat_str_nonempty [simp]: "nat_str n \<noteq> []"
  by (subst nat_str.simps) simp

lemma nat_str_digits: "\<forall>c \<in> set (nat_str n). is_digit c"
proof (induction n rule: nat_str.induct)
  case (1 n)
  then show ?case by (subst nat_str.simps) auto
qed

lemma str_nat_nat_str [simp]: "str_nat (nat_str n) = n"
proof (induction n rule: nat_str.induct)
  case (1 n)
  show ?case
  proof (cases "n < 10")
    case True
    then show ?thesis by (subst nat_str.simps) (simp add: str_nat_def)
  next
    case False
    with 1 have "str_nat (nat_str (n div 10)) = n div 10" by simp
    then show ?thesis
      using False by (subst nat_str.simps) (simp add: str_nat_def)
  qed
qed

section \<open>Dictionaries\<close>

type_synonym ('k, 'v) dict = "('k \<times> 'v) list"

definition dkeys :: "('k, 'v) dict \<Rightarrow> 'k list" where
  "dkeys d = map fst d"

definition dict_ok :: "('k, 'v) dict \<Rightarrow> bool" where
  "dict_ok d \<longleftrightarrow> distinct (dkeys d)"

abbreviation dget :: "('k, 'v) dict \<Rightarrow> 'k \<Rightarrow> 'v option" where
  "dget \<equiv> map_of"

fun dset :: "'k \<Rightarrow> 'v \<Rightarrow> ('k, 'v) dict \<Rightarrow> ('k, 'v) dict" where
  "dset k v [] = [(k, v)]"
| "dset k v ((k', v') # d) = (if k = k' then (k, v) # d else (k', v') # dset k v d)"

definition ddel :: "'k \<Rightarrow> ('k, 'v) dict \<Rightarrow> ('k, 'v) dict" where
  "ddel k d = filter (\<lambda>e. fst e \<noteq> k) d"

text \<open>\<open>d[k]\<close> and \<open>del d[k]\<close> raise \<open>KeyError\<close> for a key that is not there.\<close>

definition dlookup :: "('k, 'v) dict \<Rightarrow> 'k \<Rightarrow> 'v res" where
  "dlookup d k = (case dget d k of None \<Rightarrow> Inl KeyError | Some v \<Rightarrow> Inr v)"

definition ddelete :: "'k \<Rightarrow> ('k, 'v) dict \<Rightarrow> ('k, 'v) dict res" where
  "ddelete k d = (case dget d k of None \<Rightarrow> Inl KeyError | Some _ \<Rightarrow> Inr (ddel k d))"

lemma dget_dset [simp]: "dget (dset k v d) = (dget d)(k \<mapsto> v)"
  by (induction k v d rule: dset.induct) (auto simp: fun_eq_iff)

lemma dkeys_dset: "dkeys (dset k v d) = (if k \<in> set (dkeys d) then dkeys d else dkeys d @ [k])"
  by (induction k v d rule: dset.induct) (auto simp: dkeys_def)

lemma set_dkeys: "set (dkeys d) = dom (dget d)"
  by (simp add: dkeys_def dom_map_of_conv_image_fst)

lemma in_dkeys_iff: "k \<in> set (dkeys d) \<longleftrightarrow> (\<exists>v. dget d k = Some v)"
  by (auto simp: set_dkeys)

lemma dict_ok_dset [simp]: "dict_ok d \<Longrightarrow> dict_ok (dset k v d)"
  by (auto simp: dict_ok_def dkeys_dset)

lemma dict_ok_Nil [simp]: "dict_ok []"
  by (simp add: dict_ok_def dkeys_def)

lemma dget_ddel: "dget (ddel k d) = (dget d)(k := None)"
  by (induction d) (auto simp: ddel_def fun_eq_iff)

lemma dkeys_ddel: "dkeys (ddel k d) = filter (\<lambda>k'. k' \<noteq> k) (dkeys d)"
  by (induction d) (auto simp: ddel_def dkeys_def)

lemma dict_ok_ddel [simp]: "dict_ok d \<Longrightarrow> dict_ok (ddel k d)"
  by (simp add: dict_ok_def dkeys_ddel)

lemma dkeys_Nil_iff [simp]: "dkeys d = [] \<longleftrightarrow> d = []"
  by (simp add: dkeys_def)

text \<open>The order in which a dictionary is walked.\<close>

definition key_order :: "('k list \<Rightarrow> 'k list) \<Rightarrow> bool" where
  "key_order perm \<longleftrightarrow> (\<forall>ks. mset (perm ks) = mset ks)"

lemma key_order_set [simp]: "key_order perm \<Longrightarrow> set (perm ks) = set ks"
  by (metis key_order_def set_mset_mset)

lemma key_order_distinct [simp]: "key_order perm \<Longrightarrow> distinct (perm ks) = distinct ks"
  by (metis key_order_def mset_eq_imp_distinct_iff)

lemma key_order_length [simp]: "key_order perm \<Longrightarrow> length (perm ks) = length ks"
  by (metis key_order_def size_mset)

lemma key_order_rev: "key_order rev"
  by (simp add: key_order_def)

end
