(* ===== verification/Actions.thy ===== *)
theory Actions
  imports Prelude
begin

text \<open>
  Code with effects. An action takes a state and gives a result (an exception or a value) and the
  state it leaves; what was done before an exception is not undone.
\<close>

section \<open>Actions\<close>

type_synonym ('w, 'a) action = "'w \<Rightarrow> 'a res \<times> 'w"

definition io_ret :: "'a \<Rightarrow> ('w, 'a) action" where
  "io_ret a w = (Inr a, w)"

definition io_throw :: "py_error \<Rightarrow> ('w, 'a) action" where
  "io_throw e w = (Inl e, w)"

definition io_lift :: "'a res \<Rightarrow> ('w, 'a) action" where
  "io_lift r w = (r, w)"

definition io_bind :: "('w, 'a) action \<Rightarrow> ('a \<Rightarrow> ('w, 'b) action) \<Rightarrow> ('w, 'b) action" where
  "io_bind m f w = (case m w of (Inl e, w') \<Rightarrow> (Inl e, w') | (Inr a, w') \<Rightarrow> f a w')"

definition io_seq :: "('w, 'a) action \<Rightarrow> ('w, 'b) action \<Rightarrow> ('w, 'b) action" where
  "io_seq m k = io_bind m (\<lambda>_. k)"

definition io_when :: "bool \<Rightarrow> ('w, unit) action \<Rightarrow> ('w, unit) action" where
  "io_when b m = (if b then m else io_ret ())"

fun io_map :: "('a \<Rightarrow> ('w, 'b) action) \<Rightarrow> 'a list \<Rightarrow> ('w, 'b list) action" where
  "io_map f [] = io_ret []"
| "io_map f (x # xs) = io_bind (f x) (\<lambda>y. io_bind (io_map f xs) (\<lambda>ys. io_ret (y # ys)))"

fun io_each :: "('a \<Rightarrow> ('w, unit) action) \<Rightarrow> 'a list \<Rightarrow> ('w, unit) action" where
  "io_each f [] = io_ret ()"
| "io_each f (x # xs) = io_seq (f x) (io_each f xs)"

lemma io_simps [simp]:
  "io_ret a w = (Inr a, w)"
  "io_throw e w = (Inl e, w)"
  "io_lift r w = (r, w)"
  by (simp_all add: io_ret_def io_throw_def io_lift_def)

lemma io_bind_Inr [simp]: "m w = (Inr a, w') \<Longrightarrow> io_bind m f w = f a w'"
  by (simp add: io_bind_def)

lemma io_bind_Inl [simp]: "m w = (Inl e, w') \<Longrightarrow> io_bind m f w = (Inl e, w')"
  by (simp add: io_bind_def)

lemma io_seq_Inr [simp]: "m w = (Inr a, w') \<Longrightarrow> io_seq m k w = k w'"
  by (simp add: io_seq_def)

lemma io_seq_Inl [simp]: "m w = (Inl e, w') \<Longrightarrow> io_seq m k w = (Inl e, w')"
  by (simp add: io_seq_def)

lemma io_bind_ret [simp]: "io_bind (io_ret a) f = f a" "io_bind m io_ret = m"
  by (auto simp: io_bind_def fun_eq_iff split: sum.split prod.split)

lemma io_bind_assoc: "io_bind (io_bind m f) g = io_bind m (\<lambda>a. io_bind (f a) g)"
  by (auto simp: io_bind_def fun_eq_iff split: sum.split prod.split)

lemma io_bind_eq_Inr:
  "io_bind m f w = (Inr b, w'') \<longleftrightarrow> (\<exists>a w'. m w = (Inr a, w') \<and> f a w' = (Inr b, w''))"
  by (auto simp: io_bind_def split: sum.split prod.split)

end
