(* ===== verification/Paths.thy ===== *)
theory Paths
  imports Prelude
begin

text \<open>
  The functions of \<open>os.path\<close> on the paths of a Unix system, shared by the programs that start
  other programs.
\<close>

text \<open>\<open>os.path.join\<close>, \<open>os.path.split\<close> and \<open>os.path.basename\<close> on a POSIX system.\<close>

definition path_join :: "string \<Rightarrow> string \<Rightarrow> string" where
  "path_join a b =
     (if startswith b ''/'' then b
      else if a = [] \<or> last a = CHR ''/'' then a @ b
      else a @ ''/'' @ b)"

definition path_basename :: "string \<Rightarrow> string" where
  "path_basename p = rev (takeWhile (\<lambda>c. c \<noteq> CHR ''/'') (rev p))"

definition path_dirname :: "string \<Rightarrow> string" where
  "path_dirname p =
     (let head = rev (dropWhile (\<lambda>c. c \<noteq> CHR ''/'') (rev p)) in
      if list_all (\<lambda>c. c = CHR ''/'') head then head
      else rev (dropWhile (\<lambda>c. c = CHR ''/'') (rev head)))"

definition path_split :: "string \<Rightarrow> string \<times> string" where
  "path_split p = (path_dirname p, path_basename p)"

lemma path_basename_join:
  assumes "CHR ''/'' \<notin> set b"
  shows "path_basename (path_join a b) = b"
proof -
  have b: "takeWhile (\<lambda>c. c \<noteq> CHR ''/'') (rev b @ r) = rev b" if "r = [] \<or> hd r = CHR ''/''" for r
  proof -
    have "takeWhile (\<lambda>c. c \<noteq> CHR ''/'') (rev b @ r) = rev b @ takeWhile (\<lambda>c. c \<noteq> CHR ''/'') r"
      by (rule takeWhile_append2) (use assms in auto)
    then show ?thesis using that by (cases r) auto
  qed
  have "\<not> startswith b ''/''" using assms by (auto simp: startswith_iff)
  then show ?thesis
    using b [of "[]"] b [of "rev a"] b [of "CHR ''/'' # rev a"]
    by (auto simp: path_join_def path_basename_def hd_rev)
qed

end
