(* ===== verification/BuildModules.thy ===== *)
theory BuildModules
  imports Paths "HOL-Library.List_Lexorder" "HOL-Library.Char_ord"
begin

text \<open>
  Which modules, programs and scripts are built: the module lists of \<open>src/wscript\<close>, the part of \<open>configure\<close>
  in the top \<open>wscript\<close> that chooses the enabled modules, and the part of its \<open>build\<close> that adds the
  modules they depend on and takes out what depends on others. The task generators come from the build system
  \<open>waf\<close>; what is known of one is the record \<open>gen\<close>. They are told apart by a number, as Python does by
  identity. What a missing name does in \<open>get_tgen_by_name\<close> is a parameter: it raises an error or gives
  \<open>None\<close>.
\<close>

section \<open>The lists of \<open>src/wscript\<close>\<close>

definition module_dirs :: "string list \<Rightarrow> (string \<Rightarrow> bool) \<Rightarrow> (string \<Rightarrow> bool) \<Rightarrow> string list" where
  "module_dirs listing isdir exists =
     sort (filter (\<lambda>d. \<not> startswith d ''.'' \<and> isdir (path_join ''src'' d) \<and>
       exists (path_join (path_join ''src'' d) ''wscript'')) listing)"

definition lib_name :: "string \<Rightarrow> string" where
  "lib_name name = ''ns3-'' @ name"

definition ns3_modules_of :: "string list \<Rightarrow> string list" where
  "ns3_modules_of all_modules = map (\<lambda>m. lib_name (last (split_on (CHR ''/'') m))) all_modules"

fun drop_not_built :: "string list \<Rightarrow> string list \<Rightarrow> string list" where
  "drop_not_built [] all_modules = all_modules"
| "drop_not_built (n # ns) all_modules =
     (let not_built = (if n = ''ns3tcp'' \<or> n = ''ns3wifi'' then ''test/'' @ n else n) in
      drop_not_built ns (if not_built \<in> set all_modules then remove1 not_built all_modules else all_modules))"

section \<open>\<open>configure\<close>\<close>

definition enabled_modules :: "string option \<Rightarrow> string list \<Rightarrow> string list \<Rightarrow> string list res" where
  "enabled_modules enable_option modules_enabled ns3_modules =
     (let from_file = rbind (py_get modules_enabled 0) (\<lambda>m0.
        if m0 = ''all_modules'' then Inr ns3_modules else Inr (map lib_name modules_enabled)) in
      case enable_option of
        None \<Rightarrow> from_file
      | Some v \<Rightarrow> if v \<noteq> [] then Inr (map lib_name (split_on (CHR '','') v)) else from_file)"

fun remove_not_built :: "string list \<Rightarrow> string list \<Rightarrow> string list res" where
  "remove_not_built [] enabled = Inr enabled"
| "remove_not_built (n # ns) enabled =
     (if lib_name n \<in> set enabled
      then
        (let rest = remove1 (lib_name n) enabled in
         if rest = [] then Inl WafError else remove_not_built ns rest)
      else remove_not_built ns enabled)"

definition not_built_modules :: "bool \<Rightarrow> bool \<Rightarrow> string list \<Rightarrow> string list" where
  "not_built_modules static darwin not_built = not_built @ (if static \<and> darwin then [''template''] else [])"

text \<open>
  With all modules enabled the two variables \<open>NS3_MODULES\<close> and \<open>NS3_ENABLED_MODULES\<close> are one list, so what is
  removed from one is removed from the other. The result has both.
\<close>

definition configure_modules :: "string option \<Rightarrow> string list \<Rightarrow> string list \<Rightarrow> string list \<Rightarrow>
    (string list \<times> string list) res" where
  "configure_modules enable_option modules_enabled ns3_modules not_built =
     rbind (enabled_modules enable_option modules_enabled ns3_modules) (\<lambda>enabled.
     rbind (remove_not_built not_built enabled) (\<lambda>left.
       Inr (if enable_option \<in> {None, Some []} \<and> hd modules_enabled = ''all_modules'' then left else ns3_modules, left)))"

section \<open>Adding the dependencies\<close>

text \<open>\<open>uses\<close> gives for the name of a task generator the names in its \<open>use\<close>.\<close>

definition add_dep :: "string list \<times> bool \<Rightarrow> string \<Rightarrow> string list \<times> bool" where
  "add_dep st dep =
     (case st of (modules, changed) \<Rightarrow>
        if \<not> startswith dep ''ns3-'' then (modules, changed)
        else if dep \<notin> set modules then (modules @ [dep], True)
        else (modules, changed))"

definition get_use :: "(string, string list) dict \<Rightarrow> py_error option \<Rightarrow> string \<Rightarrow> string list res" where
  "get_use uses missing name =
     (case dget uses name of
        Some use \<Rightarrow> Inr use
      | None \<Rightarrow> (case missing of Some e \<Rightarrow> Inl e | None \<Rightarrow> Inl ValueError))"

definition new_deps :: "(string, string list) dict \<Rightarrow> string list \<Rightarrow> string list" where
  "new_deps uses modules = filter (\<lambda>d. d \<notin> set modules) (remdups (concat (map snd uses)))"

lemma add_deps_grow:
  "foldl add_dep (modules, changed) deps = (modules', changed') \<Longrightarrow>
    \<exists>new. modules' = modules @ new \<and> distinct new \<and> set new = {d \<in> set deps. startswith d ''ns3-''} - set modules \<and>
      (changed' \<longleftrightarrow> changed \<or> new \<noteq> [])"
proof (induction deps arbitrary: modules changed)
  case (Cons d deps)
  show ?case
  proof (cases "startswith d ''ns3-'' \<and> d \<notin> set modules")
    case True
    then have "add_dep (modules, changed) d = (modules @ [d], True)" by (simp add: add_dep_def)
    then have "foldl add_dep (modules @ [d], True) deps = (modules', changed')" using Cons.prems by simp
    from Cons.IH [OF this] obtain new where
      "modules' = (modules @ [d]) @ new" "distinct new" "set new = {d \<in> set deps. startswith d ''ns3-''} - set (modules @ [d])" "changed'"
      by auto
    with True show ?thesis by (intro exI [of _ "d # new"]) auto
  next
    case False
    then have "add_dep (modules, changed) d = (modules, changed)" by (auto simp: add_dep_def)
    then have "foldl add_dep (modules, changed) deps = (modules', changed')" using Cons.prems by simp
    from Cons.IH [OF this] False show ?thesis by fastforce
  qed
qed simp

lemma new_deps_shrink:
  assumes "dget uses name = Some use" "foldl add_dep (modules, changed) use = (modules', changed')"
  shows "length (new_deps uses modules') + length modules' \<le> length (new_deps uses modules) + length modules"
    and "changed' \<longrightarrow> changed \<or> length (new_deps uses modules') < length (new_deps uses modules)"
proof -
  obtain new where new: "modules' = modules @ new" "distinct new" "changed' \<longleftrightarrow> changed \<or> new \<noteq> []"
    "set new = {d \<in> set use. startswith d ''ns3-''} - set modules"
    using add_deps_grow [OF assms(2)] by blast
  have "set use \<subseteq> set (concat (map snd uses))" using map_of_SomeD [OF assms(1)] by force
  then have sub: "set new \<subseteq> set (new_deps uses modules)" using new(4) by (auto simp: new_deps_def)
  have rest: "set (new_deps uses modules') = set (new_deps uses modules) - set new" using new(1) by (auto simp: new_deps_def)
  have "distinct (new_deps uses ms)" for ms by (simp add: new_deps_def)
  then have "length (new_deps uses modules') = length (new_deps uses modules) - length new"
    using rest sub new(2) by (metis card_Diff_subset distinct_card finite_set)
  moreover have "length new \<le> length (new_deps uses modules)"
    using sub new(2) \<open>distinct (new_deps uses modules)\<close> by (metis card_mono distinct_card finite_set)
  moreover have "new \<noteq> [] \<Longrightarrow> 0 < length new" by simp
  moreover have "length modules' = length modules + length new" using new(1) by simp
  ultimately show "length (new_deps uses modules') + length modules' \<le> length (new_deps uses modules) + length modules"
    "changed' \<longrightarrow> changed \<or> length (new_deps uses modules') < length (new_deps uses modules)"
    using new(3) by linarith+
qed

text \<open>One pass: the loop over a list that grows while it runs, at position \<open>i\<close>.\<close>

function module_pass :: "(string, string list) dict \<Rightarrow> py_error option \<Rightarrow> nat \<Rightarrow> string list \<times> bool \<Rightarrow>
    (string list \<times> bool) res" where
  "module_pass uses missing i st =
     (if i < length (fst st) then
        (case get_use uses missing (fst st ! i) of
           Inl e \<Rightarrow> Inl e
         | Inr use \<Rightarrow> module_pass uses missing (Suc i) (foldl add_dep st use))
      else Inr st)"
  by pat_completeness auto
termination
proof (relation "measure (\<lambda>(uses, missing, i, st). length (new_deps uses (fst st)) + length (fst st) - i)", goal_cases)
  case (2 uses missing i st use)
  obtain modules changed where st: "st = (modules, changed)" by (cases st)
  obtain modules' changed' where st': "foldl add_dep (modules, changed) use = (modules', changed')"
    by (cases "foldl add_dep (modules, changed) use")
  have "dget uses (modules ! i) = Some use"
    using 2 by (auto simp: get_use_def st split: option.splits)
  from new_deps_shrink(1) [OF this st'] show ?case using 2(1) by (simp add: st st')
qed simp

declare module_pass.simps [simp del]

text \<open>The loop around it, until a pass adds no module.\<close>

lemma pass_shrinks:
  "module_pass uses missing i st = Inr st' \<Longrightarrow> snd st' \<Longrightarrow>
    snd st \<or> length (new_deps uses (fst st')) < length (new_deps uses (fst st))"
  "module_pass uses missing i st = Inr st' \<Longrightarrow> length (new_deps uses (fst st')) \<le> length (new_deps uses (fst st))"
proof (induction uses missing i st rule: module_pass.induct)
  case (1 uses missing i st)
  obtain modules changed where st: "st = (modules, changed)" by (cases st)
  {
    assume run: "module_pass uses missing i st = Inr st'" and "i < length (fst st)"
    then obtain use where use: "get_use uses missing (fst st ! i) = Inr use"
      "module_pass uses missing (Suc i) (foldl add_dep st use) = Inr st'"
      by (subst (asm) module_pass.simps) (auto split: sum.splits)
    obtain modules' changed' where step: "foldl add_dep (modules, changed) use = (modules', changed')"
      by (cases "foldl add_dep (modules, changed) use")
    have "dget uses (modules ! i) = Some use" using use(1) by (auto simp: get_use_def st split: option.splits)
    note shrink = new_deps_shrink [OF this step]
    have "length modules \<le> length modules'" using add_deps_grow [OF step] by auto
    then have "length (new_deps uses modules') \<le> length (new_deps uses modules)" using shrink(1) by linarith
    then have "length (new_deps uses (fst st')) \<le> length (new_deps uses modules)"
      "snd st' \<Longrightarrow> changed \<or> length (new_deps uses (fst st')) < length (new_deps uses modules)"
      using 1 [OF \<open>i < _\<close> use(1)] use(2) shrink(2) by (auto simp: st step)
  }
  note step = this
  {
    case 1
    then show ?case using step by (cases "i < length (fst st)") (auto simp: st module_pass.simps [of uses missing i])
  next
    case 2
    then show ?case using step by (cases "i < length (fst st)") (auto simp: st module_pass.simps [of uses missing i])
  }
qed

function close_modules :: "(string, string list) dict \<Rightarrow> py_error option \<Rightarrow> string list \<Rightarrow> string list res" where
  "close_modules uses missing modules =
     (case module_pass uses missing 0 (modules, False) of
        Inl e \<Rightarrow> Inl e
      | Inr st \<Rightarrow> if snd st then close_modules uses missing (fst st) else Inr (fst st))"
  by pat_completeness auto
termination
  by (relation "measure (\<lambda>(uses, missing, modules). length (new_deps uses modules))")
    (auto dest: pass_shrinks(1))

declare close_modules.simps [simp del]

section \<open>What is enabled\<close>

definition depends :: "(string, string list) dict \<Rightarrow> string \<Rightarrow> string \<Rightarrow> bool" where
  "depends uses m d \<longleftrightarrow> (\<exists>use. dget uses m = Some use \<and> d \<in> set use \<and> startswith d ''ns3-'')"

definition needed :: "(string, string list) dict \<Rightarrow> string list \<Rightarrow> string set" where
  "needed uses modules = {d. \<exists>m \<in> set modules. (depends uses)\<^sup>*\<^sup>* m d}"

definition not_found :: "py_error option \<Rightarrow> py_error" where
  "not_found missing = (case missing of Some e \<Rightarrow> e | None \<Rightarrow> ValueError)"

lemma get_use_Inr_iff: "get_use uses missing m = Inr use \<longleftrightarrow> dget uses m = Some use"
  by (auto simp: get_use_def split: option.splits)

lemma get_use_Inl: "get_use uses missing m = Inl e \<Longrightarrow> dget uses m = None \<and> e = not_found missing"
  by (auto simp: get_use_def not_found_def split: option.splits)

lemma needed_refl: "set modules \<subseteq> needed uses modules"
  by (auto simp: needed_def)

lemma needed_step: "m \<in> needed uses modules \<Longrightarrow> depends uses m d \<Longrightarrow> d \<in> needed uses modules"
  by (auto simp: needed_def intro: rtranclp.rtrancl_into_rtrancl)

lemma needed_least:
  assumes "set modules \<subseteq> S" "\<And>m d. m \<in> S \<Longrightarrow> depends uses m d \<Longrightarrow> d \<in> S"
  shows "needed uses modules \<subseteq> S"
proof
  fix d
  assume "d \<in> needed uses modules"
  then obtain m where "m \<in> set modules" "(depends uses)\<^sup>*\<^sup>* m d" by (auto simp: needed_def)
  from this(2, 1) show "d \<in> S" using assms by (induction rule: rtranclp_induct) auto
qed

text \<open>A pass adds only what is needed, each name once, and when it ends every name it has seen is served.\<close>

definition served :: "(string, string list) dict \<Rightarrow> string list \<Rightarrow> string \<Rightarrow> bool" where
  "served uses modules m \<longleftrightarrow> m \<in> dom (dget uses) \<and> {d. depends uses m d} \<subseteq> set modules"

lemma pass_result:
  assumes "module_pass uses missing i st = r" "set (fst st) \<subseteq> needed uses req"
  shows "case r of
      Inl e \<Rightarrow> e = not_found missing \<and> \<not> needed uses req \<subseteq> dom (dget uses)
    | Inr st' \<Rightarrow> (\<exists>new. fst st' = fst st @ new \<and> distinct new \<and> set new \<inter> set (fst st) = {} \<and>
        set new \<subseteq> needed uses req \<and> (snd st' \<longleftrightarrow> snd st \<or> new \<noteq> []) \<and>
        list_all (served uses (fst st')) (drop i (fst st')))"
  using assms
proof (induction uses missing i st arbitrary: r rule: module_pass.induct)
  case (1 uses missing i st)
  obtain modules changed where st: "st = (modules, changed)" by (cases st)
  show ?case
  proof (cases "i < length modules")
    case False
    then show ?thesis using "1.prems" by (auto simp: st module_pass.simps [of uses missing i])
  next
    case True
    note less = True
    have at: "modules ! i \<in> needed uses req" using True "1.prems"(2) by (auto simp: st)
    show ?thesis
    proof (cases "get_use uses missing (modules ! i)")
      case (Inl e)
      then have "r = Inl e" using "1.prems"(1) True by (simp add: st module_pass.simps [of uses missing i])
      then show ?thesis using get_use_Inl [OF Inl] at by (auto simp: dom_def)
    next
      case (Inr use)
      then have use: "dget uses (modules ! i) = Some use" by (simp add: get_use_Inr_iff)
      obtain modules' changed' where step: "foldl add_dep (modules, changed) use = (modules', changed')"
        by (cases "foldl add_dep (modules, changed) use")
      obtain new where new: "modules' = modules @ new" "distinct new" "changed' \<longleftrightarrow> changed \<or> new \<noteq> []"
        "set new = {d \<in> set use. startswith d ''ns3-''} - set modules"
        using add_deps_grow [OF step] by blast
      have need: "set new \<subseteq> needed uses req"
        using new(4) needed_step [OF at] use by (auto simp: depends_def)
      have "set (fst (modules', changed')) \<subseteq> needed uses req" using need new(1) "1.prems"(2) by (auto simp: st)
      moreover have "module_pass uses missing (Suc i) (modules', changed') = r"
        using "1.prems"(1) True Inr by (simp add: st step module_pass.simps [of uses missing i])
      ultimately have IH: "case r of
          Inl e \<Rightarrow> e = not_found missing \<and> \<not> needed uses req \<subseteq> dom (dget uses)
        | Inr st' \<Rightarrow> (\<exists>more. fst st' = modules' @ more \<and> distinct more \<and> set more \<inter> set modules' = {} \<and>
            set more \<subseteq> needed uses req \<and> (snd st' \<longleftrightarrow> changed' \<or> more \<noteq> []) \<and>
            list_all (served uses (fst st')) (drop (Suc i) (fst st')))"
        using "1.IH" [of use r] less Inr unfolding st step fst_conv snd_conv by blast
      show ?thesis
      proof (cases r)
        case (Inl e)
        with IH show ?thesis by simp
      next
        case r: (Inr st')
        with IH obtain more where more: "fst st' = modules' @ more" "distinct more" "set more \<inter> set modules' = {}"
          "set more \<subseteq> needed uses req" "snd st' \<longleftrightarrow> changed' \<or> more \<noteq> []" "list_all (served uses (fst st')) (drop (Suc i) (fst st'))"
          by auto
        have "fst st' ! i = modules ! i" "i < length (fst st')" using more(1) new(1) less by (simp_all add: nth_append)
        moreover have "served uses (fst st') (modules ! i)"
          using use new(1, 4) more(1) by (auto simp: served_def depends_def)
        ultimately have "list_all (served uses (fst st')) (drop i (fst st'))"
          using more(6) by (simp add: Cons_nth_drop_Suc [symmetric])
        then show ?thesis unfolding r sum.case
          using more new need by (intro exI [of _ "new @ more"]) (auto simp: st)
      qed
    qed
  qed
qed

lemma close_modules_result:
  "case close_modules uses missing modules of
      Inl e \<Rightarrow> e = not_found missing \<and> \<not> needed uses modules \<subseteq> dom (dget uses)
    | Inr ms \<Rightarrow> needed uses modules \<subseteq> dom (dget uses) \<and> set ms = needed uses modules \<and>
        (\<exists>extra. ms = modules @ extra \<and> distinct extra \<and> set extra \<inter> set modules = {})"
proof -
  have closed: "needed uses modules = set (modules @ new) \<and> needed uses modules \<subseteq> dom (dget uses)"
    if "set new \<subseteq> needed uses modules" "list_all (served uses (modules @ new)) (modules @ new)" for new
  proof -
    have "needed uses modules \<subseteq> set (modules @ new)"
      using that(2) by (intro needed_least) (auto simp: list_all_iff served_def)
    then show ?thesis using that needed_refl [of modules uses] by (auto simp: list_all_iff served_def)
  qed
  show ?thesis
  proof (cases "module_pass uses missing 0 (modules, False)")
    case (Inl e)
    then show ?thesis using pass_result [OF Inl, of modules] needed_refl [of modules uses]
      by (simp add: close_modules.simps [of uses missing modules])
  next
    case (Inr st)
    obtain new where new: "fst st = modules @ new" "distinct new" "set new \<inter> set modules = {}"
      "set new \<subseteq> needed uses modules" "snd st \<longleftrightarrow> new \<noteq> []" "list_all (served uses (fst st)) (fst st)"
      using pass_result [OF Inr, of modules] needed_refl [of modules uses] by auto
    note all = closed [OF new(4) new(6) [unfolded new(1)]]
    have again: "module_pass uses missing 0 (fst st, False) = Inr (fst st, False)" if "snd st"
    proof (cases "module_pass uses missing 0 (fst st, False)")
      case (Inl e)
      have "set (fst (fst st, False)) \<subseteq> needed uses modules" using all new(1) by simp
      from pass_result [OF Inl this] show ?thesis using all by auto
    next
      case second: (Inr st')
      obtain new' where "fst st' = fst st @ new'" "set new' \<inter> set (fst st) = {}" "set new' \<subseteq> needed uses modules" "snd st' \<longleftrightarrow> new' \<noteq> []"
        using pass_result [OF second, of modules] all new(1) by auto
      moreover have "new' = []" using calculation all new(1) by (metis inf.absorb_iff1 set_empty)
      ultimately show ?thesis using second by (cases st') simp
    qed
    have "close_modules uses missing modules = Inr (fst st)"
      using Inr again by (simp add: close_modules.simps [of uses missing "fst st"] close_modules.simps [of uses missing modules])
    then show ?thesis using new all by auto
  qed
qed

text \<open>
  C17: the modules that are enabled in the end are those that were asked for, in their order, and behind them, each once,
  exactly the others that they need directly or through others. If one of all these does not exist it is an error.
  The loop always ends, also when modules depend on each other in a circle.
\<close>

theorem close_modules_spec:
  "if needed uses modules \<subseteq> dom (dget uses)
   then \<exists>extra. close_modules uses missing modules = Inr (modules @ extra) \<and> distinct extra \<and>
     set extra \<inter> set modules = {} \<and> set (modules @ extra) = needed uses modules
   else close_modules uses missing modules = Inl (not_found missing)"
  using close_modules_result [of missing uses modules] by (auto split: sum.splits)

section \<open>Task generators\<close>

text \<open>
  \<open>gen_program_deps\<close> is \<open>ns3_module_dependencies\<close> of a program, \<open>gen_test_of\<close> is \<open>module_name\<close> of the test library of
  a module, \<open>gen_module\<close> the module of headers, and \<open>gen_remove\<close> says that \<open>mode\<close> is \<open>remove\<close>.
\<close>

record gen =
  gen_id :: nat
  gen_name :: string
  gen_features :: "string list"
  gen_use :: "string list"
  gen_module :: string
  gen_program_deps :: "string list option"
  gen_is_module :: bool
  gen_test_of :: "string option"
  gen_remove :: bool

definition new_task_gen :: "nat \<Rightarrow> string list \<Rightarrow> gen" where
  "new_task_gen i features = \<lparr> gen_id = i, gen_name = [], gen_features = features, gen_use = [], gen_module = [],
     gen_program_deps = None, gen_is_module = False, gen_test_of = None, gen_remove = False \<rparr>"

definition create_ns3_module :: "bool \<Rightarrow> nat \<Rightarrow> string \<Rightarrow> string list \<Rightarrow> gen" where
  "create_ns3_module static i name dependencies =
     (new_task_gen i [''cxx'', if static then ''cxxstlib'' else ''cxxshlib'', ''ns3module''])
       \<lparr> gen_name := lib_name name, gen_use := map lib_name dependencies, gen_is_module := True \<rparr>"

text \<open>The second part is the entry in \<open>NS3_MODULES_WITH_TEST_LIBRARIES\<close>.\<close>

definition create_ns3_module_test_library :: "bool \<Rightarrow> nat \<Rightarrow> string \<Rightarrow> gen \<times> (string \<times> string)" where
  "create_ns3_module_test_library static i name =
     (let library = create_ns3_module static i (name @ ''-test'') [name] in
      (library\<lparr> gen_features := gen_features library @ [''ns3testlib''], gen_is_module := False,
         gen_test_of := Some (lib_name name) \<rparr>, (lib_name name, gen_name library)))"

definition create_ns3_program :: "nat \<Rightarrow> string \<Rightarrow> string list \<Rightarrow> gen" where
  "create_ns3_program i name dependencies =
     (new_task_gen i [''cxx'', ''cxxprogram''])
       \<lparr> gen_name := name, gen_use := map lib_name dependencies, gen_program_deps := Some (map lib_name dependencies) \<rparr>"

definition register_ns3_script :: "string \<Rightarrow> string list \<Rightarrow> string \<times> string list" where
  "register_ns3_script name dependencies = (name, map lib_name dependencies)"

text \<open>The names of the programs in the directory \<open>scratch\<close>; each one depends on every enabled module.\<close>

definition endswith :: "string \<Rightarrow> string \<Rightarrow> bool" where
  "endswith s suffix \<longleftrightarrow> drop (length s - length suffix) s = suffix"

definition scratch_names :: "string list \<Rightarrow> (string \<Rightarrow> bool) \<Rightarrow> string list" where
  "scratch_names listing isdir =
     concat (map (\<lambda>f.
       if startswith f ''.'' \<or> f = ''CVS'' then []
       else if isdir (path_join ''scratch'' f) then [f]
       else if endswith f ''.cc'' then [take (length f - 3) f]
       else []) listing)"

definition add_scratch_programs :: "nat \<Rightarrow> string list \<Rightarrow> string list \<Rightarrow> (string \<Rightarrow> bool) \<Rightarrow> gen list" where
  "add_scratch_programs first enabled listing isdir =
     (let all_modules = map (drop 4) enabled; names = scratch_names listing isdir in
      map (\<lambda>(i, name). create_ns3_program i name all_modules) (enumerate first names))"

section \<open>Taking out what is not built\<close>

text \<open>\<open>_exclude_taskgen\<close>: the first place where the generator stands.\<close>

fun exclude_taskgen :: "nat \<Rightarrow> gen list list \<Rightarrow> gen list list" where
  "exclude_taskgen i [] = []"
| "exclude_taskgen i (g # gs) =
     (if i \<in> gen_id ` set g
      then (takeWhile (\<lambda>x. gen_id x \<noteq> i) g @ tl (dropWhile (\<lambda>x. gen_id x \<noteq> i) g)) # gs
      else g # exclude_taskgen i gs)"

definition mark_removed :: "nat \<Rightarrow> gen list list \<Rightarrow> gen list list" where
  "mark_removed i groups = map (map (\<lambda>x. if gen_id x = i then x\<lparr> gen_remove := True \<rparr> else x)) groups"

definition visit_gen :: "bool \<Rightarrow> string list \<Rightarrow> gen list list \<times> string list \<Rightarrow> gen \<Rightarrow> gen list list \<times> string list" where
  "visit_gen tests modules st obj =
     (let (groups, programs) = st;
          i = gen_id obj;
          groups = (if ''ns3moduleheader'' \<in> set (gen_features obj) \<and> lib_name (gen_module obj) \<notin> set modules
                    then mark_removed i groups else groups);
          (groups, programs) =
            (case gen_program_deps obj of
               None \<Rightarrow> (groups, programs)
             | Some deps \<Rightarrow>
                 if list_ex (\<lambda>d. d \<notin> set modules) deps then (exclude_taskgen i groups, programs)
                 else (groups, programs @ [gen_name obj]));
          groups = (if gen_is_module obj \<and> gen_name obj \<notin> set modules then exclude_taskgen i groups else groups);
          groups =
            (case gen_test_of obj of
               None \<Rightarrow> groups
             | Some m \<Rightarrow> if \<not> tests \<or> m \<notin> set modules then exclude_taskgen i groups else groups);
          groups = (if ''ns3header'' \<in> set (gen_features obj) \<and> lib_name (gen_module obj) \<notin> set modules
                    then mark_removed i groups else groups)
      in (groups, programs))"

definition exclude_disabled :: "bool \<Rightarrow> string list \<Rightarrow> gen list list \<Rightarrow> gen list list \<times> string list" where
  "exclude_disabled tests modules groups = foldl (visit_gen tests modules) (groups, []) (concat groups)"

text \<open>\<open>modules\<close> is \<open>None\<close> when the variable was never set.\<close>

definition script_runnable :: "string list option \<Rightarrow> string list \<Rightarrow> bool res" where
  "script_runnable modules dependencies =
     (case modules of
        None \<Rightarrow> if dependencies = [] then Inr True else Inl UnboundLocalError
      | Some ms \<Rightarrow> Inr (list_all (\<lambda>d. d \<in> set ms) dependencies))"

definition runnable_scripts :: "string list option \<Rightarrow> (string \<times> string list) list \<Rightarrow> string list res" where
  "runnable_scripts modules scripts =
     rbind (rmap (\<lambda>(name, deps). script_runnable modules deps) scripts) (\<lambda>oks.
       Inr (map (fst \<circ> fst) (filter snd (zip scripts oks))))"

record build_result =
  built_modules :: "string list"
  built_test_libraries :: "string list"
  built_groups :: "gen list list"
  built_programs :: "string list"
  built_scripts :: "string list"

text \<open>
  \<open>groups\<close> are the generators that the modules declare, \<open>late\<close> adds those of the examples and of the directory
  \<open>scratch\<close>, which depend on the enabled modules.
\<close>

definition build_enabled :: "py_error option \<Rightarrow> bool \<Rightarrow> (string \<times> string) list \<Rightarrow> (string \<times> string list) list \<Rightarrow>
    gen list list \<Rightarrow> (string list \<Rightarrow> gen list list) \<Rightarrow> string list \<Rightarrow> build_result res" where
  "build_enabled missing tests test_libraries scripts groups late enabled =
     (if enabled \<noteq> [] then
        rbind (close_modules (map (\<lambda>g. (gen_name g, gen_use g)) (concat groups)) missing enabled) (\<lambda>modules.
          let libs = (if tests then map snd (filter (\<lambda>(m, lib). m \<in> set modules) test_libraries) else []);
              (left, programs) = exclude_disabled tests modules (groups @ late modules) in
          rbind (runnable_scripts (Some modules) scripts) (\<lambda>runnable.
            Inr \<lparr> built_modules = modules, built_test_libraries = libs, built_groups = left,
              built_programs = programs, built_scripts = runnable \<rparr>))
      else
        rbind (runnable_scripts None scripts) (\<lambda>runnable.
          Inr \<lparr> built_modules = [], built_test_libraries = [], built_groups = groups @ late [],
            built_programs = [], built_scripts = runnable \<rparr>))"

text \<open>The file \<open>build-status.py\<close>, which \<open>test.py\<close> reads; \<open>py_repr\<close> writes a list of strings.\<close>

definition py_repr :: "string list \<Rightarrow> string" where
  "py_repr names = ''['' @ join_with '', '' (map (\<lambda>n. [CHR 0x27] @ n @ [CHR 0x27]) names) @ '']''"

definition build_status :: "build_result \<Rightarrow> string" where
  "build_status b =
     ''#! /usr/bin/env python'' @ nl @ nl @ ''# Programs that are runnable.'' @ nl @
     ''ns3_runnable_programs = '' @ py_repr (built_programs b) @ nl @ nl @
     ''# Scripts that are runnable.'' @ nl @
     ''ns3_runnable_scripts = '' @ py_repr (built_scripts b) @ nl @ nl"

section \<open>What is left\<close>

definition stale :: "string list \<Rightarrow> gen \<Rightarrow> bool" where
  "stale modules g \<longleftrightarrow> {''ns3header'', ''ns3moduleheader''} \<inter> set (gen_features g) \<noteq> {} \<and> lib_name (gen_module g) \<notin> set modules"

definition program_ok :: "string list \<Rightarrow> gen \<Rightarrow> bool" where
  "program_ok modules g \<longleftrightarrow> (case gen_program_deps g of None \<Rightarrow> True | Some deps \<Rightarrow> set deps \<subseteq> set modules)"

definition kept :: "bool \<Rightarrow> string list \<Rightarrow> gen \<Rightarrow> bool" where
  "kept tests modules g \<longleftrightarrow> program_ok modules g \<and> (gen_is_module g \<longrightarrow> gen_name g \<in> set modules) \<and>
     (case gen_test_of g of None \<Rightarrow> True | Some m \<Rightarrow> tests \<and> m \<in> set modules)"

definition built_program :: "string list \<Rightarrow> gen \<Rightarrow> bool" where
  "built_program modules g \<longleftrightarrow> gen_program_deps g \<noteq> None \<and> program_ok modules g"

definition mark_stale :: "string list \<Rightarrow> gen \<Rightarrow> gen" where
  "mark_stale modules g = (if stale modules g then g\<lparr> gen_remove := True \<rparr> else g)"

abbreviation gen_ids :: "gen list list \<Rightarrow> nat list" where
  "gen_ids groups \<equiv> map gen_id (concat groups)"

lemma remove_first:
  "distinct (map gen_id g) \<Longrightarrow>
    takeWhile (\<lambda>x. gen_id x \<noteq> i) g @ tl (dropWhile (\<lambda>x. gen_id x \<noteq> i) g) = filter (\<lambda>x. gen_id x \<noteq> i) g"
proof (induction g)
  case (Cons x g)
  show ?case
  proof (cases "gen_id x = i")
    case True
    then have "\<forall>y \<in> set g. gen_id y \<noteq> i" using Cons.prems by (auto simp: image_iff)
    then show ?thesis using True by simp
  next
    case False
    then show ?thesis using Cons by simp
  qed
qed simp

lemma exclude_filter:
  "distinct (gen_ids groups) \<Longrightarrow> exclude_taskgen i groups = map (filter (\<lambda>x. gen_id x \<noteq> i)) groups"
proof (induction groups)
  case (Cons g gs)
  show ?case
  proof (cases "i \<in> gen_id ` set g")
    case True
    then have "i \<notin> gen_id ` set (concat gs)" using Cons.prems by auto
    then have "map (filter (\<lambda>x. gen_id x \<noteq> i)) gs = gs" by (intro map_idI) (auto intro!: filter_True)
    then show ?thesis using True Cons.prems by (simp add: remove_first)
  next
    case False
    then have "filter (\<lambda>x. gen_id x \<noteq> i) g = g" by (auto intro!: filter_True)
    then show ?thesis using False Cons by simp
  qed
qed simp

text \<open>What the visits of some generators do to a group.\<close>

definition after_visits :: "bool \<Rightarrow> string list \<Rightarrow> gen list \<Rightarrow> gen list \<Rightarrow> gen list" where
  "after_visits tests modules seen g =
     map (\<lambda>x. if \<exists>y \<in> set seen. gen_id y = gen_id x \<and> stale modules y then x\<lparr> gen_remove := True \<rparr> else x)
       (filter (\<lambda>x. \<forall>y \<in> set seen. gen_id y = gen_id x \<longrightarrow> kept tests modules y) g)"

lemma after_visits_Nil [simp]: "after_visits tests modules [] g = g"
  by (simp add: after_visits_def)

lemma after_visits_Cons:
  "after_visits tests modules (y # ys) g = after_visits tests modules ys (after_visits tests modules [y] g)"
  by (auto simp: after_visits_def filter_map comp_def intro!: arg_cong [where f = "map _"] filter_cong map_cong)

lemma ids_after_visits: "distinct (gen_ids gs) \<Longrightarrow> distinct (gen_ids (map (after_visits tests modules seen) gs))"
proof -
  have "map gen_id (after_visits tests modules seen g) =
      filter (\<lambda>i. \<forall>y \<in> set seen. gen_id y = i \<longrightarrow> kept tests modules y) (map gen_id g)" for g
    by (auto simp: after_visits_def filter_map comp_def)
  then have "gen_ids (map (after_visits tests modules seen) gs) =
      filter (\<lambda>i. \<forall>y \<in> set seen. gen_id y = i \<longrightarrow> kept tests modules y) (gen_ids gs)"
    by (induction gs) simp_all
  then show "distinct (gen_ids gs) \<Longrightarrow> distinct (gen_ids (map (after_visits tests modules seen) gs))" by simp
qed

lemma distinct_marked [simp]: "gen_ids (mark_removed i gs) = gen_ids gs"
  by (induction gs) (auto simp: mark_removed_def)

lemma distinct_excluded: "distinct (gen_ids gs) \<Longrightarrow> distinct (gen_ids (map (filter P) gs))"
  by (metis distinct_map_filter filter_concat)

lemma marks_and_filters:
  "mark_removed i (mark_removed i gs) = mark_removed i gs"
  "map (filter (\<lambda>x. gen_id x \<noteq> i)) (map (filter (\<lambda>x. gen_id x \<noteq> i)) gs) = map (filter (\<lambda>x. gen_id x \<noteq> i)) gs"
  "map (filter (\<lambda>x. gen_id x \<noteq> i)) (mark_removed i gs) = map (filter (\<lambda>x. gen_id x \<noteq> i)) gs"
  "mark_removed i (map (filter (\<lambda>x. gen_id x \<noteq> i)) gs) = map (filter (\<lambda>x. gen_id x \<noteq> i)) gs"
proof -
  have "filter (\<lambda>x. gen_id x \<noteq> i) (map (\<lambda>x. if gen_id x = i then x\<lparr> gen_remove := True \<rparr> else x) g) =
      filter (\<lambda>x. gen_id x \<noteq> i) g" for g :: "gen list"
    by (induction g) auto
  then show "map (filter (\<lambda>x. gen_id x \<noteq> i)) (mark_removed i gs) = map (filter (\<lambda>x. gen_id x \<noteq> i)) gs"
    by (simp add: mark_removed_def)
qed (auto simp: mark_removed_def intro: map_idI)

lemma after_visit:
  "map (after_visits tests modules [y]) gs =
    (if \<not> kept tests modules y then map (filter (\<lambda>x. gen_id x \<noteq> gen_id y)) gs
     else if stale modules y then mark_removed (gen_id y) gs else gs)"
proof -
  have "after_visits tests modules [y] g = filter (\<lambda>x. gen_id x \<noteq> gen_id y) g" if "\<not> kept tests modules y" for g
    using that by (auto simp: after_visits_def eq_commute intro!: map_idI [symmetric] filter_cong)
  moreover have "after_visits tests modules [y] g =
      map (\<lambda>x. if gen_id x = gen_id y then x\<lparr> gen_remove := True \<rparr> else x) g" if "kept tests modules y" "stale modules y" for g
    using that by (auto simp: after_visits_def)
  moreover have "after_visits tests modules [y] g = g" if "kept tests modules y" "\<not> stale modules y" for g
    using that by (auto simp: after_visits_def intro: map_idI)
  ultimately show ?thesis by (auto simp: mark_removed_def intro: map_idI)
qed

lemma visit_gen_eq:
  assumes "distinct (gen_ids gs)"
  shows "visit_gen tests modules (gs, programs) y =
    (map (after_visits tests modules [y]) gs, programs @ (if built_program modules y then [gen_name y] else []))"
proof -
  let ?E = "map (filter (\<lambda>x. gen_id x \<noteq> gen_id y))"
  have ex: "exclude_taskgen (gen_id y) gs = ?E gs"
    "exclude_taskgen (gen_id y) (mark_removed (gen_id y) gs) = ?E gs"
    "exclude_taskgen (gen_id y) (?E gs) = ?E gs"
    using exclude_filter assms distinct_excluded [OF assms] by (simp_all only: distinct_marked marks_and_filters)
  define stale1 stale2 where "stale1 \<longleftrightarrow> ''ns3moduleheader'' \<in> set (gen_features y) \<and> lib_name (gen_module y) \<notin> set modules"
    and "stale2 \<longleftrightarrow> ''ns3header'' \<in> set (gen_features y) \<and> lib_name (gen_module y) \<notin> set modules"
  define off1 off2 off3 where "off1 \<longleftrightarrow> \<not> program_ok modules y"
    and "off2 \<longleftrightarrow> gen_is_module y \<and> gen_name y \<notin> set modules"
    and "off3 \<longleftrightarrow> (case gen_test_of y of None \<Rightarrow> False | Some m \<Rightarrow> \<not> tests \<or> m \<notin> set modules)"
  let ?M = "mark_removed (gen_id y)" and ?X = "exclude_taskgen (gen_id y)"
  have programs: "(case gen_program_deps y of None \<Rightarrow> (g, programs)
      | Some deps \<Rightarrow> if list_ex (\<lambda>d. d \<notin> set modules) deps then (?X g, programs) else (g, programs @ [gen_name y])) =
    (if off1 then ?X g else g, programs @ (if built_program modules y then [gen_name y] else []))" for g
    by (auto simp: off1_def program_ok_def built_program_def list_ex_iff split: option.split)
  have test: "(case gen_test_of y of None \<Rightarrow> g | Some m \<Rightarrow> if \<not> tests \<or> m \<notin> set modules then ?X g else g) =
    (if off3 then ?X g else g)" for g
    by (auto simp: off3_def split: option.split)
  have "visit_gen tests modules (gs, programs) y =
    (let g = (if stale1 then ?M gs else gs); g = (if off1 then ?X g else g); g = (if off2 then ?X g else g);
         g = (if off3 then ?X g else g)
     in if stale2 then ?M g else g, programs @ (if built_program modules y then [gen_name y] else []))"
    unfolding visit_gen_def Let_def split_def fst_conv snd_conv programs test stale1_def stale2_def off2_def by (rule refl)
  moreover have "kept tests modules y \<longleftrightarrow> \<not> off1 \<and> \<not> off2 \<and> \<not> off3" "stale modules y \<longleftrightarrow> stale1 \<or> stale2"
    by (auto simp: kept_def off1_def off2_def off3_def stale_def stale1_def stale2_def split: option.split)
  ultimately show ?thesis unfolding after_visit Let_def
    by (cases stale1; cases stale2; cases off1; cases off2; cases off3) (simp_all only: ex marks_and_filters if_True if_False simp_thms)
qed

lemma visits_eq:
  "distinct (gen_ids gs) \<Longrightarrow> foldl (visit_gen tests modules) (gs, programs) ys =
    (map (after_visits tests modules ys) gs, programs @ map gen_name (filter (built_program modules) ys))"
proof (induction ys arbitrary: gs programs)
  case Nil
  then show ?case by (auto intro: map_idI)
next
  case (Cons y ys)
  have "map (after_visits tests modules (y # ys)) gs =
      map (after_visits tests modules ys) (map (after_visits tests modules [y]) gs)"
    by (simp add: after_visits_Cons [of tests modules y ys])
  then show ?case using Cons.IH [OF ids_after_visits [OF Cons.prems]] Cons.prems by (simp add: visit_gen_eq)
qed

lemma same_id: "distinct (gen_ids gs) \<Longrightarrow> x \<in> set (concat gs) \<Longrightarrow> y \<in> set (concat gs) \<Longrightarrow> gen_id x = gen_id y \<Longrightarrow> x = y"
  by (metis distinct_map inj_on_eq_iff)

lemma exclude_disabled_parts:
  assumes "distinct (gen_ids groups)"
  shows "fst (exclude_disabled tests modules groups) = map (\<lambda>g. map (mark_stale modules) (filter (kept tests modules) g)) groups"
    and "snd (exclude_disabled tests modules groups) = map gen_name (filter (built_program modules) (concat groups))"
proof -
  have "after_visits tests modules (concat groups) g = map (mark_stale modules) (filter (kept tests modules) g)"
    if "g \<in> set groups" for g
  proof -
    have sub: "x \<in> set (concat groups)" if "x \<in> set g" for x using that \<open>g \<in> set groups\<close> by auto
    have "filter (\<lambda>x. \<forall>y \<in> set (concat groups). gen_id y = gen_id x \<longrightarrow> kept tests modules y) g = filter (kept tests modules) g"
      using same_id [OF assms] sub by (intro filter_cong) (blast, metis)
    moreover have "(\<exists>y \<in> set (concat groups). gen_id y = gen_id x \<and> stale modules y) \<longleftrightarrow> stale modules x" if "x \<in> set g" for x
      using same_id [OF assms] sub [OF that] by metis
    ultimately show ?thesis by (auto simp: after_visits_def mark_stale_def)
  qed
  then show "fst (exclude_disabled tests modules groups) = map (\<lambda>g. map (mark_stale modules) (filter (kept tests modules) g)) groups"
    "snd (exclude_disabled tests modules groups) = map gen_name (filter (built_program modules) (concat groups))"
    using visits_eq [OF assms] by (simp_all add: exclude_disabled_def)
qed

text \<open>
  Taking out, when each generator stands once. Exactly the programs of which a needed module is missing go,
  and the libraries of modules that are not enabled, and the test libraries of those or when there are no tests;
  the headers of modules that are not enabled are marked for removal, nothing else changes, and the list
  of programs has all programs that are left, in the order of their declaration.
\<close>

theorem exclude_disabled_spec:
  assumes "distinct (gen_ids groups)"
  shows "exclude_disabled tests modules groups =
    (map (\<lambda>g. map (mark_stale modules) (filter (kept tests modules) g)) groups,
     map gen_name (filter (built_program modules) (concat groups)))"
  using exclude_disabled_parts [OF assms] by (simp add: prod_eq_iff)

definition uses_of :: "gen list list \<Rightarrow> (string, string list) dict" where
  "uses_of groups = map (\<lambda>g. (gen_name g, gen_use g)) (concat groups)"

text \<open>The libraries with a name, as \<open>create_ns3_module\<close> makes them.\<close>

definition libraries :: "gen list list \<Rightarrow> string \<Rightarrow> gen set" where
  "libraries groups m =
     {g \<in> set (concat groups). gen_is_module g \<and> gen_program_deps g = None \<and> gen_test_of g = None \<and>
       {''ns3header'', ''ns3moduleheader''} \<inter> set (gen_features g) = {} \<and> gen_name g = m}"

text \<open>
  C18: every program that is built can be linked. What its modules need, directly or through others, is enabled and
  declared, and the libraries of it are not taken out.
\<close>

theorem build_complete:
  assumes "build_enabled missing tests test_libraries scripts groups late enabled = Inr b" "enabled \<noteq> []"
    and "distinct (gen_ids (groups @ late (built_modules b)))"
    and "p \<in> set (concat (built_groups b))" "gen_program_deps p = Some deps" "m \<in> needed (uses_of groups) deps"
  shows "m \<in> set (built_modules b) \<and> m \<in> gen_name ` set (concat groups) \<and> libraries groups m \<subseteq> set (concat (built_groups b))"
proof -
  let ?uses = "uses_of groups" and ?modules = "built_modules b"
  have b: "close_modules ?uses missing enabled = Inr ?modules"
    "built_groups b = fst (exclude_disabled tests ?modules (groups @ late ?modules))"
    using assms(1, 2) by (auto simp: build_enabled_def uses_of_def rbind_Inr_iff Let_def split_def)
  have closed: "needed ?uses enabled \<subseteq> dom (dget ?uses)" "set ?modules = needed ?uses enabled"
    using close_modules_result [of missing ?uses enabled] b(1) by simp_all
  have left: "concat (built_groups b) = map (mark_stale ?modules) (filter (kept tests ?modules) (concat (groups @ late ?modules)))"
    unfolding b(2) exclude_disabled_parts(1) [OF assms(3)] by (simp add: map_concat filter_concat comp_def)
  obtain q where q: "p = mark_stale ?modules q" "kept tests ?modules q" using assms(4) unfolding left by auto
  then have "set deps \<subseteq> set ?modules" using assms(5) by (auto simp: mark_stale_def kept_def program_ok_def split: if_splits)
  then have "needed ?uses deps \<subseteq> set ?modules" unfolding closed(2) using needed_step by (intro needed_least)
  then have m: "m \<in> set ?modules" using assms(6) by auto
  then obtain use where "dget ?uses m = Some use" using closed by auto
  then have "m \<in> gen_name ` set (concat groups)" using map_of_SomeD by (fastforce simp: uses_of_def)
  moreover have "g \<in> set (concat (built_groups b))" if "g \<in> libraries groups m" for g
  proof -
    have "kept tests ?modules g" "\<not> stale ?modules g" "g \<in> set (concat (groups @ late ?modules))"
      using that m by (auto simp: libraries_def kept_def program_ok_def stale_def)
    then show ?thesis unfolding left by (force simp: mark_stale_def)
  qed
  ultimately show ?thesis using m by blast
qed

lemma runnable_scripts_spec:
  "runnable_scripts (Some ms) scripts = Inr (map fst (filter (\<lambda>(name, deps). set deps \<subseteq> set ms) scripts))"
proof -
  have "rmap (\<lambda>(name, deps). script_runnable (Some ms) deps) scripts =
      Inr (map (\<lambda>(name, deps). set deps \<subseteq> set ms) scripts)"
    by (induction scripts) (auto simp: script_runnable_def list_all_iff)
  moreover have "map (fst \<circ> fst) (filter snd (zip scripts (map P scripts))) = map fst (filter P scripts)" for P
    by (induction scripts) auto
  ultimately show ?thesis by (simp add: runnable_scripts_def)
qed

text \<open>When no module is enabled the variable is not set, and a script that needs a module ends the build.\<close>

lemma scripts_without_modules: "runnable_scripts None [(s, d # ds)] = Inl UnboundLocalError"
  by (simp add: runnable_scripts_def script_runnable_def)

text \<open>
  Modules that can not be built are taken from the enabled ones. When no name is in the list twice none of them
  is left, the others stay in their order, and it is an error when nothing is left.
\<close>

theorem remove_not_built_spec:
  assumes "distinct enabled" "enabled \<noteq> []"
  shows "remove_not_built not_built enabled =
    (let left = filter (\<lambda>m. m \<notin> lib_name ` set not_built) enabled in if left = [] then Inl WafError else Inr left)"
  using assms
proof (induction not_built arbitrary: enabled)
  case (Cons n ns)
  let ?rest = "remove1 (lib_name n) enabled"
  have rest: "?rest = filter (\<lambda>m. m \<noteq> lib_name n) enabled" using Cons.prems(1) by (simp add: distinct_remove1_removeAll removeAll_filter_not_eq eq_commute)
  have "filter (\<lambda>m. m \<notin> lib_name ` set ns) ?rest = filter (\<lambda>m. m \<notin> lib_name ` set (n # ns)) enabled"
    unfolding rest by (auto simp: conj_commute intro: filter_cong)
  moreover have "?rest = enabled" if "lib_name n \<notin> set enabled" using that by (simp add: remove1_idem)
  ultimately show ?case using Cons.IH [of ?rest] Cons.prems by (auto simp: Let_def)
qed simp

text \<open>A name that is in the list twice stays.\<close>

lemma not_built_twice: "remove_not_built [''mpi''] (map lib_name [''mpi'', ''mpi'']) = Inr [lib_name ''mpi'']"
  by (simp add: lib_name_def)

section \<open>Examples\<close>

definition sample_gens :: "gen list list" where
  "sample_gens =
     [[create_ns3_module False 0 ''core'' [], create_ns3_module False 1 ''net'' [''core''],
       create_ns3_module False 2 ''mpi'' [''net'']],
      [create_ns3_program 3 ''echo'' [''net''], create_ns3_program 4 ''ring'' [''mpi'']]]"

lemma exclude_disabled_witness:
  "exclude_disabled True [''ns3-net'', ''ns3-core''] sample_gens =
    ([[create_ns3_module False 0 ''core'' [], create_ns3_module False 1 ''net'' [''core'']],
      [create_ns3_program 3 ''echo'' [''net'']]], [''echo''])"
  using exclude_disabled_spec [of sample_gens True "[''ns3-net'', ''ns3-core'']"]
  by (simp add: sample_gens_def create_ns3_module_def create_ns3_program_def new_task_gen_def lib_name_def kept_def
      program_ok_def mark_stale_def stale_def built_program_def)

definition sample_build :: build_result where
  "sample_build =
     \<lparr> built_modules = [''ns3-net'', ''ns3-core''], built_test_libraries = [],
       built_groups = [[create_ns3_module False 0 ''core'' [], create_ns3_module False 1 ''net'' [''core'']],
         [create_ns3_program 3 ''echo'' [''net'']]],
       built_programs = [''echo''], built_scripts = [''first.py''] \<rparr>"

lemma sample_build_run:
  "build_enabled (Some WafError) False [] [(''first.py'', [''ns3-net''])] (take 1 sample_gens)
     (\<lambda>modules. drop 1 sample_gens) [''ns3-net''] = Inr sample_build"
  by (simp add: sample_gens_def sample_build_def) code_simp

lemma build_complete_witness:
  "''ns3-core'' \<in> set (built_modules sample_build) \<and> ''ns3-core'' \<in> gen_name ` set (concat (take 1 sample_gens)) \<and>
    libraries (take 1 sample_gens) ''ns3-core'' \<subseteq> set (concat (built_groups sample_build))"
proof (rule build_complete [OF sample_build_run])
  show "distinct (gen_ids (take 1 sample_gens @ drop 1 sample_gens))"
    by (simp add: sample_gens_def create_ns3_module_def create_ns3_program_def new_task_gen_def)
  show "create_ns3_program 3 ''echo'' [''net''] \<in> set (concat (built_groups sample_build))"
    by (simp add: sample_build_def)
  show "gen_program_deps (create_ns3_program 3 ''echo'' [''net'']) = Some [''ns3-net'']"
    by (simp add: create_ns3_program_def lib_name_def)
  have "depends (uses_of (take 1 sample_gens)) ''ns3-net'' ''ns3-core''"
    by (simp add: depends_def uses_of_def sample_gens_def create_ns3_module_def new_task_gen_def lib_name_def)
  then show "''ns3-core'' \<in> needed (uses_of (take 1 sample_gens)) [''ns3-net'']" by (auto simp: needed_def)
qed simp

lemma remove_not_built_witness: "remove_not_built [''mpi''] [''ns3-core'', ''ns3-mpi''] = Inr [''ns3-core'']"
  using remove_not_built_spec [of "[''ns3-core'', ''ns3-mpi'']" "[''mpi'']"] by (simp add: lib_name_def)

text \<open>A module that needs one that is not built can not be built, whatever is enabled.\<close>

lemma needs_not_built:
  assumes "m \<in> needed uses modules" "m \<notin> dom (dget uses)"
  shows "close_modules uses missing modules = Inl (not_found missing)"
  using close_modules_result [of missing uses modules] assms by (auto split: sum.splits)

end
