(* ===== verification/Timeline.thy ===== *)
theory Timeline
  imports Complex_Main Prelude
begin

text \<open>
  The data of \<open>utils/grid.py\<close>: ranges and events on a time axis, kept by name in timelines, their
  binary searches, the colours of the values, and the reader of the input file. Times are the
  integers that \<open>int\<close> makes of digits; the keys of the searches are the ends of the interval shown,
  which are fractions. An object that is looked up and then changed is changed
  in the list that holds it.
\<close>

section \<open>Ranges and events\<close>

record data_range =
  r_start :: int
  r_end :: int
  r_value :: string

datatype ev_value = StrValue string | IntValue nat

record event =
  ev_at :: int
  ev_value :: ev_value

definition ranges_cmp :: "data_range \<Rightarrow> data_range \<Rightarrow> int" where
  "ranges_cmp a b = (let diff = r_start a - r_start b in if diff < 0 then -1 else if diff > 0 then 1 else 0)"

definition events_cmp :: "event \<Rightarrow> event \<Rightarrow> int" where
  "events_cmp a b = (let diff = ev_at a - ev_at b in if diff < 0 then -1 else if diff > 0 then 1 else 0)"

text \<open>\<open>list.sort(cmp)\<close> is stable; comparing by differences is comparing the keys.\<close>

definition sort_ranges :: "data_range list \<Rightarrow> data_range list" where
  "sort_ranges = sort_key r_start"

definition sort_events :: "event list \<Rightarrow> event list" where
  "sort_events = sort_key ev_at"

lemma sort_cmp:
  "sorted_wrt (\<lambda>a b. ranges_cmp a b \<le> 0) (sort_ranges rs)" "sorted_wrt (\<lambda>a b. events_cmp a b \<le> 0) (sort_events es)"
  using sorted_sort_key [of r_start rs] sorted_sort_key [of ev_at es]
  by (auto simp: ranges_cmp_def events_cmp_def sort_ranges_def sort_events_def Let_def sorted_wrt_map
      elim!: sorted_wrt_mono_rel [rotated])

section \<open>Searching\<close>

text \<open>
  The loop of the two \<open>__search\<close> methods: it probes the middle, stops on a hit, and goes left or
  right otherwise. The result is the position of the hit, or the last lower bound.
\<close>

function bisect_loop :: "(nat \<Rightarrow> bool) \<Rightarrow> (nat \<Rightarrow> bool) \<Rightarrow> int \<Rightarrow> int \<Rightarrow> int + nat" where
  "bisect_loop hit left l u =
     (if l \<le> u then
        let i = (l + u) div 2 in
        if hit (nat i) then Inr (nat i)
        else if left (nat i) then bisect_loop hit left l (i - 1)
        else bisect_loop hit left (i + 1) u
      else Inl l)"
  by pat_completeness auto
termination by (relation "measure (\<lambda>(hit, left, l, u). nat (u + 1 - l))") auto

declare bisect_loop.simps [simp del]

definition range_search :: "data_range list \<Rightarrow> rat \<Rightarrow> int" where
  "range_search rs key =
     (case bisect_loop (\<lambda>i. of_int (r_start (rs ! i)) \<le> key \<and> key \<le> of_int (r_end (rs ! i)))
             (\<lambda>i. key < of_int (r_start (rs ! i)))
             0 (int (length rs) - 1) of
        Inr i \<Rightarrow> int i
      | Inl l \<Rightarrow> -1)"

definition event_search :: "event list \<Rightarrow> rat \<Rightarrow> int" where
  "event_search es key =
     (case bisect_loop (\<lambda>i. key = of_int (ev_at (es ! i))) (\<lambda>i. key < of_int (ev_at (es ! i))) 0 (int (length es) - 1) of
        Inr i \<Rightarrow> int i
      | Inl l \<Rightarrow> l)"

definition get_ranges :: "data_range list \<Rightarrow> rat \<Rightarrow> rat \<Rightarrow> data_range list" where
  "get_ranges rs start stop =
     (let s = range_search rs start; e = range_search rs stop in
      if s = -1 \<and> e = -1 then []
      else if s = -1 then py_slice rs 0 (e + 1)
      else if e = -1 then py_slice rs s (int (length rs))
      else py_slice rs s (e + 1))"

definition get_ranges_bounds :: "data_range list \<Rightarrow> rat \<Rightarrow> rat \<Rightarrow> int \<times> int" where
  "get_ranges_bounds rs start stop =
     (let s = range_search rs start; e = range_search rs stop in
      if s = -1 \<and> e = -1 then (0, 0)
      else if s = -1 then (0, e + 1)
      else if e = -1 then (s, int (length rs))
      else (s, e + 1))"

definition get_events :: "event list \<Rightarrow> rat \<Rightarrow> rat \<Rightarrow> event list" where
  "get_events es start stop = py_slice es (event_search es start) (event_search es stop + 1)"

definition get_events_bounds :: "event list \<Rightarrow> rat \<Rightarrow> rat \<Rightarrow> int \<times> int" where
  "get_events_bounds es start stop = (event_search es start, event_search es stop + 1)"

definition range_list_bounds :: "data_range list \<Rightarrow> int \<times> int" where
  "range_list_bounds rs = (if rs \<noteq> [] then (r_start (rs ! 0), r_end (rs ! (length rs - 1))) else (0, 0))"

definition event_list_bounds :: "event list \<Rightarrow> int \<times> int" where
  "event_list_bounds es = (if es \<noteq> [] then (ev_at (es ! 0), ev_at (last es)) else (0, 0))"

text \<open>
  What the loop finds, when the positions before a miss to the right are all to the right and
  those after a miss to the left all to the left.
\<close>

lemma bisect_loop_spec:
  assumes "0 \<le> l" "l \<le> u + 1" "u < int n"
    and "\<And>i j. i < j \<Longrightarrow> j < n \<Longrightarrow> left i \<Longrightarrow> left j" "\<And>i. i < n \<Longrightarrow> left i \<Longrightarrow> \<not> hit i"
    and "\<And>i j. i < j \<Longrightarrow> j < n \<Longrightarrow> \<not> left j \<Longrightarrow> \<not> hit j \<Longrightarrow> \<not> left i \<and> \<not> hit i"
    and "\<And>i. int i < l \<Longrightarrow> \<not> left i \<and> \<not> hit i" "\<And>i. u < int i \<Longrightarrow> i < n \<Longrightarrow> left i"
  shows "case bisect_loop hit left l u of
      Inr i \<Rightarrow> i < n \<and> hit i
    | Inl k \<Rightarrow> 0 \<le> k \<and> k \<le> int n \<and> (\<forall>i. int i < k \<longrightarrow> \<not> left i \<and> \<not> hit i) \<and> (\<forall>i < n. k \<le> int i \<longrightarrow> left i)"
  using assms
proof (induction hit left l u rule: bisect_loop.induct)
  case (1 hit left l u)
  let ?i = "(l + u) div 2"
  show ?case
  proof (cases "l \<le> u")
    case False
    then have "l = u + 1" using "1.prems"(2) by simp
    then show ?thesis using "1.prems" by (subst bisect_loop.simps) auto
  next
    case True
    then have i: "0 \<le> ?i" "?i < int n" "l \<le> ?i" "?i \<le> u" using "1.prems"(1,3) by auto
    consider "hit (nat ?i)" | "\<not> hit (nat ?i)" "left (nat ?i)" | "\<not> hit (nat ?i)" "\<not> left (nat ?i)" by blast
    then show ?thesis
    proof cases
      case 1
      then show ?thesis using True i by (subst bisect_loop.simps) (simp add: Let_def nat_less_iff)
    next
      case 2
      have out: "left j" if "?i - 1 < int j" "j < n" for j
        using that 2(2) "1.prems"(4) [of "nat ?i" j] i by (cases "j = nat ?i") auto
      have "case bisect_loop hit left l (?i - 1) of
          Inr i \<Rightarrow> i < n \<and> hit i
        | Inl k \<Rightarrow> 0 \<le> k \<and> k \<le> int n \<and> (\<forall>i. int i < k \<longrightarrow> \<not> left i \<and> \<not> hit i) \<and> (\<forall>i < n. k \<le> int i \<longrightarrow> left i)"
      proof (rule "1.IH"(1) [OF True refl 2])
        show "l \<le> ?i - 1 + 1" "?i - 1 < int n" using i by linarith+
      qed (fact "1.prems" out)+
      then show ?thesis using True 2 by (subst bisect_loop.simps) (simp add: Let_def)
    next
      case 3
      have out: "\<not> left j \<and> \<not> hit j" if "int j < ?i + 1" for j
        using that 3 "1.prems"(6) [of j "nat ?i"] i by (cases "j = nat ?i") auto
      have "case bisect_loop hit left (?i + 1) u of
          Inr i \<Rightarrow> i < n \<and> hit i
        | Inl k \<Rightarrow> 0 \<le> k \<and> k \<le> int n \<and> (\<forall>i. int i < k \<longrightarrow> \<not> left i \<and> \<not> hit i) \<and> (\<forall>i < n. k \<le> int i \<longrightarrow> left i)"
      proof (rule "1.IH"(2) [OF True refl 3])
        show "0 \<le> ?i + 1" "?i + 1 \<le> u + 1" using i by linarith+
      qed (fact "1.prems" out)+
      then show ?thesis using True 3 by (subst bisect_loop.simps) (simp add: Let_def)
    qed
  qed
qed

section \<open>What the searches find\<close>

lemma filter_slice:
  "(\<And>j. j < length xs \<Longrightarrow> P (xs ! j) \<longleftrightarrow> i \<le> j \<and> j < k) \<Longrightarrow> filter P xs = take (k - i) (drop i xs)"
proof (induction xs arbitrary: i k)
  case (Cons x xs)
  have head: "P x \<longleftrightarrow> i = 0 \<and> 0 < k" using Cons.prems [of 0] by simp
  have tail: "filter P xs = take (k - 1 - (i - 1)) (drop (i - 1) xs)" if "0 < k"
    using that Cons.prems [of "Suc j" for j] by (intro Cons.IH) (auto simp: Suc_le_eq)
  show ?case
  proof (cases "k = 0")
    case True
    then have "filter P xs = []" using Cons.prems [of "Suc j" for j] by (auto simp: filter_empty_conv in_set_conv_nth)
    with True head show ?thesis by simp
  next
    case False
    with head tail show ?thesis by (cases i; cases k) auto
  qed
qed simp

definition covers :: "data_range \<Rightarrow> rat \<Rightarrow> bool" where
  "covers r key \<longleftrightarrow> of_int (r_start r) \<le> key \<and> key \<le> of_int (r_end r)"

definition covered :: "data_range list \<Rightarrow> rat \<Rightarrow> bool" where
  "covered rs key \<longleftrightarrow> list_ex (\<lambda>r. covers r key) rs"

definition ranges_ok :: "data_range list \<Rightarrow> bool" where
  "ranges_ok rs \<longleftrightarrow> list_all (\<lambda>r. r_start r \<le> r_end r) rs \<and> sorted_wrt (\<lambda>a b. r_end a < r_start b) rs"

lemma ranges_okD:
  assumes "ranges_ok rs"
  shows "i < length rs \<Longrightarrow> rat_of_int (r_start (rs ! i)) \<le> rat_of_int (r_end (rs ! i))"
    and "i < j \<Longrightarrow> j < length rs \<Longrightarrow> rat_of_int (r_end (rs ! i)) < rat_of_int (r_start (rs ! j))"
  using assms by (auto simp: ranges_ok_def list_all_length sorted_wrt_iff_nth_less)

lemma range_search_cases:
  assumes "ranges_ok rs"
  obtains "range_search rs key = -1" "\<not> covered rs key"
  | i where "range_search rs key = int i" "i < length rs" "covers (rs ! i) key" "covered rs key"
proof -
  let ?hit = "\<lambda>i. of_int (r_start (rs ! i)) \<le> key \<and> key \<le> of_int (r_end (rs ! i))" and ?left = "\<lambda>i. key < of_int (r_start (rs ! i))"
  note ok = ranges_okD [OF assms]
  have mono: "?left j" if "i < j" "j < length rs" "?left i" for i j
    using ok(1) [of i] ok(2) [of i j] that by linarith
  have right: "\<not> ?left i \<and> \<not> ?hit i" if "i < j" "j < length rs" "\<not> ?left j" for i j
    using ok(1) [of i] ok(2) [of i j] that by linarith
  have found: "case bisect_loop ?hit ?left 0 (int (length rs) - 1) of
      Inr i \<Rightarrow> i < length rs \<and> ?hit i
    | Inl k \<Rightarrow> 0 \<le> k \<and> k \<le> int (length rs) \<and> (\<forall>i. int i < k \<longrightarrow> \<not> ?left i \<and> \<not> ?hit i) \<and>
        (\<forall>i < length rs. k \<le> int i \<longrightarrow> ?left i)"
    by (rule bisect_loop_spec) (use mono right in auto)
  show thesis
  proof (cases "bisect_loop ?hit ?left 0 (int (length rs) - 1)")
    case (Inl k)
    have "\<not> ?hit i" if "i < length rs" for i
      using found Inl that by (cases "int i < k") auto
    then have "\<not> covered rs key" by (auto simp: covered_def covers_def list_ex_length)
    then show thesis using that(1) Inl by (simp add: range_search_def)
  next
    case (Inr i)
    then have "i < length rs" "?hit i" using found by auto
    then show thesis using that(2) [of i] Inr by (auto simp: range_search_def covered_def covers_def list_ex_length)
  qed
qed

lemma covers_split:
  assumes "ranges_ok rs" "i < length rs" "covers (rs ! i) key" "j < length rs"
  shows "key \<le> of_int (r_end (rs ! j)) \<longleftrightarrow> i \<le> j" "of_int (r_start (rs ! j)) \<le> key \<longleftrightarrow> j \<le> i"
  using ranges_okD(1) [OF assms(1,2)] ranges_okD(1) [OF assms(1,4)] ranges_okD(2) [OF assms(1), of i j]
    ranges_okD(2) [OF assms(1), of j i] assms(2-4)
  by (cases i j rule: linorder_cases; auto simp: covers_def)+

text \<open>
  On ranges that are sorted and disjoint, \<open>get_ranges\<close> returns those that meet the interval
  if a range covers its start and a range covers its end. An end of the interval that no range
  covers is not a bound at all, and when both are uncovered nothing is returned, not even the
  ranges inside.
\<close>

theorem get_ranges_spec:
  assumes "ranges_ok rs"
  shows "get_ranges rs start stop =
    (if \<not> covered rs start \<and> \<not> covered rs stop then []
     else filter (\<lambda>r. (covered rs start \<longrightarrow> start \<le> of_int (r_end r)) \<and> (covered rs stop \<longrightarrow> of_int (r_start r) \<le> stop)) rs)"
proof (rule range_search_cases [OF assms, of start])
  assume s: "range_search rs start = -1" "\<not> covered rs start"
  show ?thesis
  proof (rule range_search_cases [OF assms, of stop])
    assume "range_search rs stop = -1" "\<not> covered rs stop"
    with s show ?thesis by (simp add: get_ranges_def)
  next
    fix e assume e: "range_search rs stop = int e" "e < length rs" "covers (rs ! e) stop" "covered rs stop"
    have "filter (\<lambda>r. of_int (r_start r) \<le> stop) rs = take (Suc e - 0) (drop 0 rs)"
      by (rule filter_slice) (use covers_split(2) [OF assms e(2,3)] in auto)
    with s e show ?thesis using py_slice_nat [of rs 0 "Suc e"] by (simp add: get_ranges_def min_def ac_simps)
  qed
next
  fix i assume s: "range_search rs start = int i" "i < length rs" "covers (rs ! i) start" "covered rs start"
  show ?thesis
  proof (rule range_search_cases [OF assms, of stop])
    assume e: "range_search rs stop = -1" "\<not> covered rs stop"
    have "filter (\<lambda>r. start \<le> of_int (r_end r)) rs = take (length rs - i) (drop i rs)"
      by (rule filter_slice) (use covers_split(1) [OF assms s(2,3)] in auto)
    with s e show ?thesis using py_slice_nat [of rs i "length rs"] by (simp add: get_ranges_def)
  next
    fix e assume e: "range_search rs stop = int e" "e < length rs" "covers (rs ! e) stop" "covered rs stop"
    have "filter (\<lambda>r. start \<le> of_int (r_end r) \<and> of_int (r_start r) \<le> stop) rs = take (Suc e - i) (drop i rs)"
      by (rule filter_slice)
        (use covers_split(1) [OF assms s(2,3)] covers_split(2) [OF assms e(2,3)] in auto)
    with s e show ?thesis using py_slice_nat [of rs i "Suc e"] by (simp add: get_ranges_def min_def ac_simps)
  qed
qed

definition two_ranges :: "data_range list" where
  "two_ranges = [\<lparr> r_start = 10, r_end = 20, r_value = ''a'' \<rparr>, \<lparr> r_start = 30, r_end = 40, r_value = ''b'' \<rparr>]"

theorem get_ranges_witness:
  "get_ranges two_ranges 15 50 = two_ranges \<and> get_ranges two_ranges 5 50 = []"
proof -
  have ok: "ranges_ok two_ranges" by (simp add: two_ranges_def ranges_ok_def)
  show ?thesis
    unfolding get_ranges_spec [OF ok] by (simp add: two_ranges_def covered_def covers_def)
qed

definition events_ok :: "event list \<Rightarrow> bool" where
  "events_ok es \<longleftrightarrow> sorted_wrt (\<lambda>a b. ev_at a < ev_at b) es"

lemma event_search_index:
  assumes "events_ok es"
  obtains m where "event_search es key = int m" "m \<le> length es"
    "\<And>j. j < length es \<Longrightarrow> of_int (ev_at (es ! j)) < key \<longleftrightarrow> j < m"
proof -
  let ?hit = "\<lambda>i. key = of_int (ev_at (es ! i))" and ?left = "\<lambda>i. key < of_int (ev_at (es ! i))"
  have mono: "rat_of_int (ev_at (es ! i)) < rat_of_int (ev_at (es ! j))" if "i < j" "j < length es" for i j
    using assms that by (simp add: events_ok_def sorted_wrt_iff_nth_less)
  have found: "case bisect_loop ?hit ?left 0 (int (length es) - 1) of
      Inr i \<Rightarrow> i < length es \<and> ?hit i
    | Inl k \<Rightarrow> 0 \<le> k \<and> k \<le> int (length es) \<and> (\<forall>i. int i < k \<longrightarrow> \<not> ?left i \<and> \<not> ?hit i) \<and>
        (\<forall>i < length es. k \<le> int i \<longrightarrow> ?left i)"
    by (rule bisect_loop_spec) (use mono in \<open>fastforce+\<close>)
  show thesis
  proof (cases "bisect_loop ?hit ?left 0 (int (length es) - 1)")
    case (Inl k)
    with found have k: "0 \<le> k" "k \<le> int (length es)" "\<And>i. int i < k \<Longrightarrow> \<not> ?left i \<and> \<not> ?hit i"
      "\<And>i. i < length es \<Longrightarrow> k \<le> int i \<Longrightarrow> ?left i" by auto
    have "of_int (ev_at (es ! j)) < key \<longleftrightarrow> j < nat k" if "j < length es" for j
      using k(3) [of j] k(4) [OF that] by (cases "int j < k") auto
    then show thesis using that [of "nat k"] k(1,2) Inl by (simp add: event_search_def)
  next
    case (Inr i)
    with found have i: "i < length es" "key = of_int (ev_at (es ! i))" by auto
    have "of_int (ev_at (es ! j)) < key \<longleftrightarrow> j < i" if "j < length es" for j
      using mono [of i j] mono [of j i] that i by (cases i j rule: linorder_cases) auto
    then show thesis using that [of i] i(1) Inr by (simp add: event_search_def)
  qed
qed

lemma get_events_sorted:
  assumes "events_ok es"
  shows "sorted_wrt (\<lambda>e f. ev_at e < ev_at f) (get_events es start stop)"
    and "e \<in> set (get_events es start stop) \<Longrightarrow> start \<le> of_int (ev_at e)"
proof -
  obtain s where s: "event_search es start = int s" "s \<le> length es"
    "\<And>j. j < length es \<Longrightarrow> of_int (ev_at (es ! j)) < start \<longleftrightarrow> j < s" by (rule event_search_index [OF assms, of start]) blast
  obtain k where slice: "get_events es start stop = take k (drop s es)"
    using s(1,2) by (simp add: get_events_def py_slice_def)
  show "sorted_wrt (\<lambda>e f. ev_at e < ev_at f) (get_events es start stop)"
    using assms unfolding slice events_ok_def by (intro sorted_wrt_take sorted_wrt_drop)
  assume "e \<in> set (get_events es start stop)"
  then have "e \<in> set (drop s es)" unfolding slice by (rule in_set_takeD)
  then obtain j where "j < length (drop s es)" "e = drop s es ! j" by (metis in_set_conv_nth)
  then have "s + j < length es" "e = es ! (s + j)" by simp_all
  then show "start \<le> of_int (ev_at e)" using s(3) [of "s + j"] by simp
qed

text \<open>
  On events in strict order, \<open>get_events\<close> returns those of the closed interval, and when no
  event is at its end the next event after it as well.
\<close>

theorem get_events_spec:
  assumes "events_ok es" "start \<le> stop"
  shows "get_events es start stop =
    filter (\<lambda>e. start \<le> of_int (ev_at e) \<and> of_int (ev_at e) \<le> stop) es @
    (if list_ex (\<lambda>e. of_int (ev_at e) = stop) es then [] else take 1 (filter (\<lambda>e. stop < of_int (ev_at e)) es))"
proof -
  obtain s where s: "event_search es start = int s" "s \<le> length es"
    "\<And>j. j < length es \<Longrightarrow> of_int (ev_at (es ! j)) < start \<longleftrightarrow> j < s" by (rule event_search_index [OF assms(1), of start]) blast
  obtain e where e: "event_search es stop = int e" "e \<le> length es"
    "\<And>j. j < length es \<Longrightarrow> of_int (ev_at (es ! j)) < stop \<longleftrightarrow> j < e" by (rule event_search_index [OF assms(1), of stop]) blast
  have mono: "rat_of_int (ev_at (es ! i)) < rat_of_int (ev_at (es ! j))" if "i < j" "j < length es" for i j
    using assms that by (simp add: events_ok_def sorted_wrt_iff_nth_less)
  have "s \<le> e"
  proof (rule ccontr)
    assume "\<not> s \<le> e"
    then show False using s(2) s(3) [of e] e(3) [of e] assms(2) by simp
  qed
  have slice: "get_events es start stop = take (Suc e - s) (drop s es)"
    using py_slice_nat [of es s "Suc e"] s(1,2) e(1,2) \<open>s \<le> e\<close>
    by (cases "e = length es") (simp_all add: get_events_def ac_simps)
  show ?thesis
  proof (cases "list_ex (\<lambda>e. of_int (ev_at e) = stop) es")
    case True
    then obtain k where k: "k < length es" "of_int (ev_at (es ! k)) = stop" by (auto simp: list_ex_length)
    have "k = e"
    proof (rule linorder_cases [of k e])
      assume "e < k"
      then show ?thesis using e(3) [of e] mono [of e k] k by simp
    qed (use e(3) [of k] k in auto)
    have "filter (\<lambda>e. start \<le> of_int (ev_at e) \<and> of_int (ev_at e) \<le> stop) es = take (Suc e - s) (drop s es)"
    proof (rule filter_slice)
      fix j assume j: "j < length es"
      have "of_int (ev_at (es ! j)) \<le> stop \<longleftrightarrow> j < Suc e"
        using mono [of k j] mono [of j k] j k \<open>k = e\<close> by (cases j e rule: linorder_cases) auto
      then show "start \<le> of_int (ev_at (es ! j)) \<and> of_int (ev_at (es ! j)) \<le> stop \<longleftrightarrow> s \<le> j \<and> j < Suc e"
        using s(3) [OF j] by auto
    qed
    with True slice show ?thesis by simp
  next
    case False
    then have ne: "of_int (ev_at (es ! j)) \<noteq> stop" if "j < length es" for j
      using that by (simp add: list_ex_length)
    have "filter (\<lambda>e. start \<le> of_int (ev_at e) \<and> of_int (ev_at e) \<le> stop) es = take (e - s) (drop s es)"
    proof (rule filter_slice)
      fix j assume j: "j < length es"
      show "start \<le> of_int (ev_at (es ! j)) \<and> of_int (ev_at (es ! j)) \<le> stop \<longleftrightarrow> s \<le> j \<and> j < e"
        using s(3) [OF j] e(3) [OF j] ne [OF j] by auto
    qed
    moreover have "filter (\<lambda>x. stop < of_int (ev_at x)) es = take (length es - e) (drop e es)"
    proof (rule filter_slice)
      fix j assume j: "j < length es"
      show "stop < of_int (ev_at (es ! j)) \<longleftrightarrow> e \<le> j \<and> j < length es" using e(3) [OF j] ne [OF j] j by auto
    qed
    moreover have "take (Suc e - s) (drop s es) = take (e - s) (drop s es) @ take 1 (drop e es)"
      using take_add [of "e - s" 1 "drop s es"] \<open>s \<le> e\<close> by (simp add: Suc_diff_le)
    ultimately show ?thesis using False slice by simp
  qed
qed

definition three_events :: "event list" where
  "three_events = map (\<lambda>t. \<lparr> ev_at = t, ev_value = IntValue 0 \<rparr>) [10, 20, 30]"

theorem get_events_witness:
  "map ev_at (get_events three_events 15 20) = [20] \<and> map ev_at (get_events three_events 5 15) = [10, 20]"
proof -
  have ok: "events_ok three_events" by (simp add: three_events_def events_ok_def)
  show ?thesis
    using get_events_spec [OF ok, of 15 20] get_events_spec [OF ok, of 5 15] by (simp add: three_events_def)
qed

end
