(* ===== verification/Files.thy ===== *)
theory Files
  imports Actions
begin

text \<open>
  Programs that work on files. A world holds the contents of the files, how many temporary
  files were made, and what was written to the two output streams; an action takes a world and
  gives a result (an exception or a value) and the world it leaves. Files and streams are
  changed even when the action ends in an exception.
\<close>

section \<open>Worlds and actions\<close>

record world =
  files :: "string \<Rightarrow> string option"
  temps :: nat
  stdout :: "string list"
  stderr :: "string list"

type_synonym 'a io = "(world, 'a) action"

section \<open>Streams and files\<close>

definition print_err :: "string \<Rightarrow> unit io" where
  "print_err s w = (Inr (), w\<lparr> stderr := stderr w @ [s] \<rparr>)"

definition print_out :: "string \<Rightarrow> unit io" where
  "print_out s w = (Inr (), w\<lparr> stdout := stdout w @ [s] \<rparr>)"

text \<open>Reading a missing file raises \<open>IOError\<close>; writing creates or replaces a file.\<close>

definition read_file :: "string \<Rightarrow> string io" where
  "read_file f w = (case files w f of None \<Rightarrow> (Inl IOError, w) | Some s \<Rightarrow> (Inr s, w))"

definition write_file :: "string \<Rightarrow> string \<Rightarrow> unit io" where
  "write_file f s w = (Inr (), w\<lparr> files := (files w)(f \<mapsto> s) \<rparr>)"

definition copy :: "string \<Rightarrow> string \<Rightarrow> unit io" where
  "copy src dst = io_bind (read_file src) (write_file dst)"

text \<open>\<open>tempfile.mkstemp\<close> makes an empty file under a name not used before.\<close>

definition temp_name :: "nat \<Rightarrow> string" where
  "temp_name n = ''/tmp/tmp'' @ nat_str n"

definition mkstemp :: "string io" where
  "mkstemp w =
     (Inr (temp_name (temps w)),
      w\<lparr> files := (files w)(temp_name (temps w) \<mapsto> []), temps := Suc (temps w) \<rparr>)"

definition temps_fresh :: "world \<Rightarrow> bool" where
  "temps_fresh w \<longleftrightarrow> (\<forall>n \<ge> temps w. files w (temp_name n) = None)"

lemma temp_name_inj [simp]: "temp_name m = temp_name n \<longleftrightarrow> m = n"
  unfolding temp_name_def same_append_eq by (metis str_nat_nat_str)

lemmas io_ops = print_err_def print_out_def write_file_def mkstemp_def

lemma io_each_stdout:
  "io_each print_out ss w = (Inr (), w\<lparr> stdout := stdout w @ ss \<rparr>)"
  by (induction ss arbitrary: w) (simp_all add: print_out_def)

lemma io_each_stderr:
  "io_each print_err ss w = (Inr (), w\<lparr> stderr := stderr w @ ss \<rparr>)"
  by (induction ss arbitrary: w) (simp_all add: print_err_def)

text \<open>What an action that only makes and fills temporary files does to the other files.\<close>

definition extends :: "world \<Rightarrow> world \<Rightarrow> bool" where
  "extends w w' \<longleftrightarrow> temps w \<le> temps w' \<and>
     (\<forall>f. (\<forall>n. temps w \<le> n \<and> n < temps w' \<longrightarrow> f \<noteq> temp_name n) \<longrightarrow> files w' f = files w f)"

lemma extends_refl [simp]: "extends w w"
  by (simp add: extends_def)

lemma extends_trans: "extends w w' \<Longrightarrow> extends w' w'' \<Longrightarrow> extends w w''"
  unfolding extends_def by (metis le_trans less_le_trans)

lemma temps_fresh_extends: "temps_fresh w \<Longrightarrow> extends w w' \<Longrightarrow> temps_fresh w'"
  unfolding extends_def temps_fresh_def by (metis le_trans not_le temp_name_inj)

lemma extends_Some: "temps_fresh w \<Longrightarrow> extends w w' \<Longrightarrow> files w f = Some s \<Longrightarrow> files w' f = Some s"
  unfolding extends_def temps_fresh_def by (metis option.distinct(1))

section \<open>Lines\<close>

text \<open>\<open>readlines\<close>: the lines of a text, each with its newline.\<close>

fun lines_of :: "string \<Rightarrow> string list" where
  "lines_of [] = []"
| "lines_of (c # s) =
     (if c = CHR 0x0A then [c] # lines_of s
      else case lines_of s of [] \<Rightarrow> [[c]] | l # ls \<Rightarrow> (c # l) # ls)"

definition is_line :: "string \<Rightarrow> bool" where
  "is_line l \<longleftrightarrow> (\<exists>b. l = b @ nl \<and> CHR 0x0A \<notin> set b)"

lemma concat_lines_of [simp]: "concat (lines_of s) = s"
  by (induction s) (auto split: list.split)

lemma lines_of_line: "CHR 0x0A \<notin> set b \<Longrightarrow> lines_of (b @ nl @ s) = (b @ nl) # lines_of s"
  by (induction b) (auto simp: nl_def)

lemma lines_of_concat: "list_all is_line ls \<Longrightarrow> lines_of (concat ls) = ls"
proof (induction ls)
  case (Cons l ls)
  then obtain b where "l = b @ nl" "CHR 0x0A \<notin> set b" by (auto simp: is_line_def)
  with Cons show ?case using lines_of_line [of b "concat ls"] by simp
qed simp

end
