(* ===== verification/GridData.thy ===== *)
theory GridData
  imports Timeline Files
begin

text \<open>
  The collections of \<open>utils/grid.py\<close> (\<open>TimelineDataRange\<close>, \<open>TimelineEvent\<close>, \<open>Timeline\<close>, \<open>Timelines\<close>),
  the colours (\<open>Colors\<close>), the reader \<open>read_data\<close> and the preparation of the legend in \<open>main\<close>. The
  four methods that get an object by its name and make it when it is not there share one
  contract, the locale \<open>registry\<close>.
\<close>

section \<open>Objects by name\<close>

text \<open>
  The object with the name is changed where it is; when there is none, a new one is changed and
  put at the end. \<open>f\<close> is what the caller does to the object it gets.
\<close>

fun update_named :: "('a \<Rightarrow> string) \<Rightarrow> (string \<Rightarrow> 'a) \<Rightarrow> string \<Rightarrow> ('a \<Rightarrow> 'a) \<Rightarrow> 'a list \<Rightarrow> 'a list" where
  "update_named name_of create name f [] = [f (create name)]"
| "update_named name_of create name f (x # xs) =
     (if name_of x = name then f x # xs else x # update_named name_of create name f xs)"

definition find_named :: "('a \<Rightarrow> string) \<Rightarrow> string \<Rightarrow> 'a list \<Rightarrow> 'a option" where
  "find_named name_of name xs = find (\<lambda>x. name_of x = name) xs"

locale registry =
  fixes name_of :: "'a \<Rightarrow> string" and create :: "string \<Rightarrow> 'a"
  assumes name_create: "name_of (create name) = name"
begin

lemma find_update:
  assumes "\<And>x. name_of (f x) = name_of x"
  shows "find_named name_of m (update_named name_of create n f xs) =
    (if m = n then Some (f (case find_named name_of n xs of None \<Rightarrow> create n | Some x \<Rightarrow> x))
     else find_named name_of m xs)"
  using assms by (induction xs) (auto simp: find_named_def name_create)

lemma names_update:
  assumes "\<And>x. name_of (f x) = name_of x"
  shows "map name_of (update_named name_of create n f xs) =
    (if n \<in> set (map name_of xs) then map name_of xs else map name_of xs @ [n])"
  using assms by (induction xs) (auto simp: name_create)

lemma distinct_update:
  assumes "\<And>x. name_of (f x) = name_of x" "distinct (map name_of xs)"
  shows "distinct (map name_of (update_named name_of create n f xs))"
  using assms by (simp add: names_update)

lemma find_map:
  assumes "\<And>x. name_of (f x) = name_of x"
  shows "find_named name_of m (map f xs) = map_option f (find_named name_of m xs)"
  using assms by (induction xs) (auto simp: find_named_def)

end

section \<open>The collections\<close>

record named_ranges =
  tr_name :: string
  tr_ranges :: "data_range list"

record named_events =
  te_name :: string
  te_events :: "event list"

record timeline =
  tl_name :: string
  tl_ranges :: "named_ranges list"
  tl_event_str :: "named_events list"
  tl_event_int :: "named_events list"

definition new_ranges :: "string \<Rightarrow> named_ranges" where
  "new_ranges name = \<lparr> tr_name = name, tr_ranges = [] \<rparr>"

definition new_events :: "string \<Rightarrow> named_events" where
  "new_events name = \<lparr> te_name = name, te_events = [] \<rparr>"

definition new_timeline :: "string \<Rightarrow> timeline" where
  "new_timeline name = \<lparr> tl_name = name, tl_ranges = [], tl_event_str = [], tl_event_int = [] \<rparr>"

definition add_range :: "data_range \<Rightarrow> named_ranges \<Rightarrow> named_ranges" where
  "add_range r t = t\<lparr> tr_ranges := tr_ranges t @ [r] \<rparr>"

definition add_event :: "event \<Rightarrow> named_events \<Rightarrow> named_events" where
  "add_event e t = t\<lparr> te_events := te_events t @ [e] \<rparr>"

definition with_range :: "string \<Rightarrow> (named_ranges \<Rightarrow> named_ranges) \<Rightarrow> timeline \<Rightarrow> timeline" where
  "with_range name f t = t\<lparr> tl_ranges := update_named tr_name new_ranges name f (tl_ranges t) \<rparr>"

definition with_event_str :: "string \<Rightarrow> (named_events \<Rightarrow> named_events) \<Rightarrow> timeline \<Rightarrow> timeline" where
  "with_event_str name f t = t\<lparr> tl_event_str := update_named te_name new_events name f (tl_event_str t) \<rparr>"

definition with_event_int :: "string \<Rightarrow> (named_events \<Rightarrow> named_events) \<Rightarrow> timeline \<Rightarrow> timeline" where
  "with_event_int name f t = t\<lparr> tl_event_int := update_named te_name new_events name f (tl_event_int t) \<rparr>"

definition with_timeline :: "string \<Rightarrow> (timeline \<Rightarrow> timeline) \<Rightarrow> timeline list \<Rightarrow> timeline list" where
  "with_timeline name f ts = update_named tl_name new_timeline name f ts"

definition sort_named_ranges :: "named_ranges \<Rightarrow> named_ranges" where
  "sort_named_ranges t = t\<lparr> tr_ranges := sort_ranges (tr_ranges t) \<rparr>"

definition sort_named_events :: "named_events \<Rightarrow> named_events" where
  "sort_named_events t = t\<lparr> te_events := sort_events (te_events t) \<rparr>"

definition sort_timeline :: "timeline \<Rightarrow> timeline" where
  "sort_timeline t = t\<lparr> tl_ranges := map sort_named_ranges (tl_ranges t),
     tl_event_int := map sort_named_events (tl_event_int t),
     tl_event_str := map sort_named_events (tl_event_str t) \<rparr>"

definition sort_timelines :: "timeline list \<Rightarrow> timeline list" where
  "sort_timelines ts = map sort_timeline ts"

interpretation ranges_reg: registry tr_name new_ranges
  by unfold_locales (simp add: new_ranges_def)

interpretation events_reg: registry te_name new_events
  by unfold_locales (simp add: new_events_def)

interpretation timelines_reg: registry tl_name new_timeline
  by unfold_locales (simp add: new_timeline_def)

text \<open>The bounds start at 0 and are only moved outwards.\<close>

definition widen :: "int \<times> int \<Rightarrow> int \<times> int \<Rightarrow> int \<times> int" where
  "widen b x = (case (b, x) of ((lo, hi), (l, h)) \<Rightarrow> (if l < lo then l else lo, if h > hi then h else hi))"

definition timeline_bounds :: "timeline \<Rightarrow> int \<times> int" where
  "timeline_bounds t =
     foldl widen (foldl widen (foldl widen (0, 0) (map (\<lambda>r. range_list_bounds (tr_ranges r)) (tl_ranges t)))
         (map (\<lambda>e. event_list_bounds (te_events e)) (tl_event_str t)))
       (map (\<lambda>e. event_list_bounds (te_events e)) (tl_event_int t))"

definition timelines_bounds :: "timeline list \<Rightarrow> int \<times> int" where
  "timelines_bounds ts = foldl widen (0, 0) (map timeline_bounds ts)"

text \<open>The keys of a dictionary, each once; the order is that of the dictionary.\<close>

definition get_all_range_values :: "timeline list \<Rightarrow> string list" where
  "get_all_range_values ts =
     dkeys (foldl (\<lambda>d r. dset (r_value r) (1 :: nat) d) []
       (concat (map (\<lambda>t. concat (map tr_ranges (tl_ranges t))) ts)))"

section \<open>Colours\<close>

record color =
  red :: int
  green :: int
  blue :: int

text \<open>\<open>default_colors\<close> belongs to the class and is used up by \<open>pop\<close>.\<close>

record colors =
  known :: "(string, color) dict"
  spare :: "color list"

definition default_colors :: "color list" where
  "default_colors = [\<lparr> red = 1, green = 0, blue = 0 \<rparr>, \<lparr> red = 0, green = 1, blue = 0 \<rparr>, \<lparr> red = 0, green = 0, blue = 1 \<rparr>,
     \<lparr> red = 1, green = 1, blue = 0 \<rparr>, \<lparr> red = 1, green = 0, blue = 1 \<rparr>, \<lparr> red = 0, green = 1, blue = 1 \<rparr>]"

definition new_colors :: colors where
  "new_colors = \<lparr> known = [], spare = default_colors \<rparr>"

definition add_color :: "string \<Rightarrow> color \<Rightarrow> colors \<Rightarrow> colors" where
  "add_color name c cs = cs\<lparr> known := dset name c (known cs) \<rparr>"

definition lookup_color :: "string \<Rightarrow> colors \<Rightarrow> (color \<times> colors) res" where
  "lookup_color name cs =
     (case dget (known cs) name of
        Some c \<Rightarrow> Inr (c, cs)
      | None \<Rightarrow>
          if spare cs = [] then Inl IndexError
          else Inr (last (spare cs), add_color name (last (spare cs)) (cs\<lparr> spare := butlast (spare cs) \<rparr>)))"

definition lookup_step :: "color list \<times> colors \<Rightarrow> string \<Rightarrow> (color list \<times> colors) res" where
  "lookup_step st name =
     (case st of (found, cs) \<Rightarrow> rbind (lookup_color name cs) (\<lambda>(c, cs'). Inr (found @ [c], cs')))"

definition legend_colors :: "colors \<Rightarrow> string list \<Rightarrow> (color list \<times> colors) res" where
  "legend_colors cs names = rfold lookup_step ([], cs) names"

section \<open>Reading the data\<close>

datatype entry =
    RangeEntry string string data_range
  | StrEntry string string event
  | IntEntry string string event
  | ColorEntry string color

text \<open>
  The expressions match from the start of the line; their parts are separated by one blank each,
  so they are the words of the line. A part \<open>[^ ]+\<close> is a word that is not empty, a part \<open>[0-9]+\<close>
  inside is a word of digits, and ev_at the end the digits a word starts with.
\<close>

definition number_word :: "string \<Rightarrow> bool" where
  "number_word s \<longleftrightarrow> s \<noteq> [] \<and> list_all is_digit s"

definition leading_number :: "string \<Rightarrow> nat option" where
  "leading_number s = (let ds = takeWhile is_digit s in if ds = [] then None else Some (str_nat ds))"

definition hex_val :: "char \<Rightarrow> nat option" where
  "hex_val c =
     (let n = of_char c in
      if 48 \<le> n \<and> n < 58 then Some (n - 48)
      else if 97 \<le> n \<and> n < 103 then Some (n - 87)
      else if 65 \<le> n \<and> n < 71 then Some (n - 55)
      else None)"

definition hex_byte :: "char \<Rightarrow> char \<Rightarrow> nat option" where
  "hex_byte a b = Option.bind (hex_val a) (\<lambda>x. Option.bind (hex_val b) (\<lambda>y. Some (16 * x + y)))"

definition match_range :: "string list \<Rightarrow> entry option" where
  "match_range ws =
     (case ws of
        k # t # n # v # s # e # _ \<Rightarrow>
          if k = ''range'' \<and> t \<noteq> [] \<and> n \<noteq> [] \<and> v \<noteq> [] \<and> number_word s then
            map_option (\<lambda>e'. RangeEntry t n \<lparr> r_start = int (str_nat s), r_end = int e', r_value = v \<rparr>)
              (leading_number e)
          else None
      | _ \<Rightarrow> None)"

definition match_event_str :: "string list \<Rightarrow> entry option" where
  "match_event_str ws =
     (case ws of
        k # t # n # v # a # _ \<Rightarrow>
          if k = ''event-str'' \<and> t \<noteq> [] \<and> n \<noteq> [] \<and> v \<noteq> [] then
            map_option (\<lambda>a'. StrEntry t n \<lparr> ev_at = int a', ev_value = StrValue v \<rparr>) (leading_number a)
          else None
      | _ \<Rightarrow> None)"

definition match_event_int :: "string list \<Rightarrow> entry option" where
  "match_event_int ws =
     (case ws of
        k # t # n # v # a # _ \<Rightarrow>
          if k = ''event-int'' \<and> t \<noteq> [] \<and> n \<noteq> [] \<and> number_word v then
            map_option (\<lambda>a'. IntEntry t n \<lparr> ev_at = int a', ev_value = IntValue (str_nat v) \<rparr>) (leading_number a)
          else None
      | _ \<Rightarrow> None)"

text \<open>The three numbers of a colour are divided as integers.\<close>

definition match_color :: "string list \<Rightarrow> entry option" where
  "match_color ws =
     (case ws of
        k # n # (h # r1 # r2 # g1 # g2 # b1 # b2 # _) # _ \<Rightarrow>
          if k = ''color'' \<and> n \<noteq> [] \<and> h = CHR ''#'' then
            Option.bind (hex_byte r1 r2) (\<lambda>r. Option.bind (hex_byte g1 g2) (\<lambda>g.
            Option.bind (hex_byte b1 b2) (\<lambda>b.
              Some (ColorEntry n \<lparr> red = int r div 255, green = int g div 255, blue = int b div 255 \<rparr>))))
          else None
      | _ \<Rightarrow> None)"

definition parse_entry :: "string \<Rightarrow> entry option" where
  "parse_entry line =
     (let ws = split_on (CHR '' '') line in
      case match_range ws of
        Some e \<Rightarrow> Some e
      | None \<Rightarrow>
         (case match_event_str ws of
            Some e \<Rightarrow> Some e
          | None \<Rightarrow> (case match_event_int ws of Some e \<Rightarrow> Some e | None \<Rightarrow> match_color ws)))"

fun apply_entry :: "colors \<times> timeline list \<Rightarrow> entry \<Rightarrow> colors \<times> timeline list" where
  "apply_entry (cs, ts) (RangeEntry t n r) = (cs, with_timeline t (with_range n (add_range r)) ts)"
| "apply_entry (cs, ts) (StrEntry t n e) = (cs, with_timeline t (with_event_str n (add_event e)) ts)"
| "apply_entry (cs, ts) (IntEntry t n e) = (cs, with_timeline t (with_event_int n (add_event e)) ts)"
| "apply_entry (cs, ts) (ColorEntry n c) = (add_color n c cs, ts)"

definition read_line :: "colors \<times> timeline list \<Rightarrow> string \<Rightarrow> colors \<times> timeline list" where
  "read_line st line = (case parse_entry line of None \<Rightarrow> st | Some e \<Rightarrow> apply_entry st e)"

definition read_data :: "string option \<Rightarrow> (colors \<times> timeline list) res" where
  "read_data file =
     (case file of
        None \<Rightarrow> Inl IOError
      | Some text \<Rightarrow>
          (case foldl read_line (new_colors, []) (lines_of text) of (cs, ts) \<Rightarrow> Inr (cs, sort_timelines ts)))"

section \<open>What is read\<close>

definition entries_of :: "string list \<Rightarrow> entry list" where
  "entries_of ls = concat (map (\<lambda>l. case parse_entry l of None \<Rightarrow> [] | Some e \<Rightarrow> [e]) ls)"

definition ranges_in :: "timeline list \<Rightarrow> string \<Rightarrow> string \<Rightarrow> data_range list" where
  "ranges_in ts t n =
     (case find_named tl_name t ts of
        None \<Rightarrow> []
      | Some x \<Rightarrow> (case find_named tr_name n (tl_ranges x) of None \<Rightarrow> [] | Some r \<Rightarrow> tr_ranges r))"

definition events_in :: "(timeline \<Rightarrow> named_events list) \<Rightarrow> timeline list \<Rightarrow> string \<Rightarrow> string \<Rightarrow> event list" where
  "events_in kind ts t n =
     (case find_named tl_name t ts of
        None \<Rightarrow> []
      | Some x \<Rightarrow> (case find_named te_name n (kind x) of None \<Rightarrow> [] | Some e \<Rightarrow> te_events e))"

fun range_of :: "string \<Rightarrow> string \<Rightarrow> entry \<Rightarrow> data_range list" where
  "range_of t n (RangeEntry t' n' r) = (if t' = t \<and> n' = n then [r] else [])"
| "range_of t n _ = []"

fun str_of :: "string \<Rightarrow> string \<Rightarrow> entry \<Rightarrow> event list" where
  "str_of t n (StrEntry t' n' e) = (if t' = t \<and> n' = n then [e] else [])"
| "str_of t n _ = []"

fun int_of :: "string \<Rightarrow> string \<Rightarrow> entry \<Rightarrow> event list" where
  "int_of t n (IntEntry t' n' e) = (if t' = t \<and> n' = n then [e] else [])"
| "int_of t n _ = []"

lemma with_names [simp]:
  "tl_name (with_range n f t) = tl_name t" "tl_name (with_event_str n h t) = tl_name t"
  "tl_name (with_event_int n h t) = tl_name t" "tl_name (sort_timeline t) = tl_name t"
  "tr_name (add_range r x) = tr_name x" "te_name (add_event e y) = te_name y"
  "tr_name (sort_named_ranges x) = tr_name x" "te_name (sort_named_events y) = te_name y"
  by (simp_all add: with_range_def with_event_str_def with_event_int_def sort_timeline_def add_range_def
      add_event_def sort_named_ranges_def sort_named_events_def)

lemmas find_with = timelines_reg.find_update ranges_reg.find_update events_reg.find_update
lemmas find_sorted = timelines_reg.find_map ranges_reg.find_map events_reg.find_map

lemma find_Nil [simp]: "find_named f n [] = None"
  by (simp add: find_named_def)

lemma apply_entry_ranges:
  "ranges_in (snd (apply_entry (cs, ts) e)) t n = ranges_in ts t n @ range_of t n e"
  by (cases e) (auto simp: ranges_in_def with_timeline_def find_with with_range_def with_event_str_def
      with_event_int_def new_timeline_def new_ranges_def add_range_def split: option.split)

lemma apply_entry_str:
  "events_in tl_event_str (snd (apply_entry (cs, ts) e)) t n = events_in tl_event_str ts t n @ str_of t n e"
  by (cases e) (auto simp: events_in_def with_timeline_def find_with with_range_def with_event_str_def
      with_event_int_def new_timeline_def new_events_def add_event_def split: option.split)

lemma apply_entry_int:
  "events_in tl_event_int (snd (apply_entry (cs, ts) e)) t n = events_in tl_event_int ts t n @ int_of t n e"
  by (cases e) (auto simp: events_in_def with_timeline_def find_with with_range_def with_event_str_def
      with_event_int_def new_timeline_def new_events_def add_event_def split: option.split)

lemma apply_entry_names:
  "distinct (map tl_name ts) \<Longrightarrow> distinct (map tl_name (snd (apply_entry (cs, ts) e)))"
  by (cases e) (auto simp: with_timeline_def timelines_reg.distinct_update)

fun color_of :: "entry \<Rightarrow> (string \<times> color) list" where
  "color_of (ColorEntry n c) = [(n, c)]"
| "color_of _ = []"

lemma apply_entry_colors:
  "dget (known (fst (apply_entry (cs, ts) e))) = dget (known cs) ++ map_of (color_of e)"
  "spare (fst (apply_entry (cs, ts) e)) = spare cs"
  by (cases e; auto simp: add_color_def fun_eq_iff map_add_def split: option.split)+

lemma sorted_collections:
  "ranges_in (sort_timelines ts) t n = sort_ranges (ranges_in ts t n)"
  "events_in tl_event_str (sort_timelines ts) t n = sort_events (events_in tl_event_str ts t n)"
  "events_in tl_event_int (sort_timelines ts) t n = sort_events (events_in tl_event_int ts t n)"
  by (auto simp: ranges_in_def events_in_def sort_timelines_def find_sorted sort_timeline_def
      sort_named_ranges_def sort_named_events_def sort_ranges_def sort_events_def split: option.split)

lemma read_line_step:
  assumes "read_line (cs, ts) l = (cs1, ts1)"
  shows "ranges_in ts1 t n = ranges_in ts t n @ concat (map (range_of t n) (entries_of [l]))"
    and "events_in tl_event_str ts1 t n = events_in tl_event_str ts t n @ concat (map (str_of t n) (entries_of [l]))"
    and "events_in tl_event_int ts1 t n = events_in tl_event_int ts t n @ concat (map (int_of t n) (entries_of [l]))"
    and "distinct (map tl_name ts) \<Longrightarrow> distinct (map tl_name ts1)"
    and "dget (known cs1) = dget (known cs) ++ map_of (rev (concat (map color_of (entries_of [l]))))"
    and "spare cs1 = spare cs"
proof -
  have st: "(case parse_entry l of None \<Rightarrow> (cs, ts) | Some e \<Rightarrow> apply_entry (cs, ts) e) = (cs1, ts1)"
    using assms by (simp add: read_line_def)
  have e: "entries_of [l] = (case parse_entry l of None \<Rightarrow> [] | Some e \<Rightarrow> [e])"
    by (simp add: entries_of_def)
  have rev: "rev (color_of e) = color_of e" for e by (cases e) simp_all
  have "parse_entry l = None \<Longrightarrow> cs1 = cs \<and> ts1 = ts" using st by simp
  moreover have "parse_entry l = Some e \<Longrightarrow> cs1 = fst (apply_entry (cs, ts) e) \<and> ts1 = snd (apply_entry (cs, ts) e)" for e
    using st by simp
  ultimately show "ranges_in ts1 t n = ranges_in ts t n @ concat (map (range_of t n) (entries_of [l]))"
    "events_in tl_event_str ts1 t n = events_in tl_event_str ts t n @ concat (map (str_of t n) (entries_of [l]))"
    "events_in tl_event_int ts1 t n = events_in tl_event_int ts t n @ concat (map (int_of t n) (entries_of [l]))"
    "distinct (map tl_name ts) \<Longrightarrow> distinct (map tl_name ts1)"
    "dget (known cs1) = dget (known cs) ++ map_of (rev (concat (map color_of (entries_of [l]))))"
    "spare cs1 = spare cs"
    by (cases "parse_entry l";
        simp add: e rev apply_entry_ranges apply_entry_str apply_entry_int apply_entry_names apply_entry_colors)+
qed

lemma entries_Cons: "entries_of (l # ls) = entries_of [l] @ entries_of ls"
  by (simp add: entries_of_def)

lemma read_lines:
  assumes "foldl read_line (cs, ts) ls = (cs', ts')"
  shows "ranges_in ts' t n = ranges_in ts t n @ concat (map (range_of t n) (entries_of ls)) \<and>
    events_in tl_event_str ts' t n = events_in tl_event_str ts t n @ concat (map (str_of t n) (entries_of ls)) \<and>
    events_in tl_event_int ts' t n = events_in tl_event_int ts t n @ concat (map (int_of t n) (entries_of ls)) \<and>
    (distinct (map tl_name ts) \<longrightarrow> distinct (map tl_name ts')) \<and>
    dget (known cs') = dget (known cs) ++ map_of (rev (concat (map color_of (entries_of ls)))) \<and>
    spare cs' = spare cs"
  using assms
proof (induction ls arbitrary: cs ts)
  case (Cons l ls)
  obtain cs1 ts1 where step: "read_line (cs, ts) l = (cs1, ts1)" by (cases "read_line (cs, ts) l")
  have rest: "foldl read_line (cs1, ts1) ls = (cs', ts')" using Cons.prems step by simp
  show ?case
    using Cons.IH [OF rest] read_line_step [OF step] unfolding entries_Cons [of l ls] by simp
qed (simp add: entries_of_def)


section \<open>The legend\<close>

definition unknown :: "colors \<Rightarrow> string list \<Rightarrow> string list" where
  "unknown cs names = filter (\<lambda>n. dget (known cs) n = None) names"

text \<open>
  What looking up the names one after the other should give: an exception when there are more
  unknown names than spare colours; otherwise each name has its colour, the unknown names the
  spare colours from the last one on, and nothing else has changed.
\<close>

definition legend_ok :: "color list \<Rightarrow> colors \<Rightarrow> string list \<Rightarrow> bool" where
  "legend_ok acc cs names \<longleftrightarrow>
    (if length (unknown cs names) \<le> length (spare cs)
     then \<exists>cols cs'. rfold lookup_step (acc, cs) names = Inr (acc @ cols, cs') \<and>
       length cols = length names \<and>
       map (dget (known cs')) names = map Some cols \<and>
       map (dget (known cs')) (unknown cs names) = map Some (take (length (unknown cs names)) (rev (spare cs))) \<and>
       (\<forall>n. n \<notin> set names \<or> dget (known cs) n \<noteq> None \<longrightarrow> dget (known cs') n = dget (known cs) n)
     else rfold lookup_step (acc, cs) names = Inl IndexError)"

lemma legend_okI:
  assumes "length (unknown cs names) \<le> length (spare cs)"
    and "rfold lookup_step (acc, cs) names = Inr (acc @ cols, cs')" "length cols = length names"
    and "map (dget (known cs')) names = map Some cols"
    and "map (dget (known cs')) (unknown cs names) = map Some (take (length (unknown cs names)) (rev (spare cs)))"
    and "\<And>n. n \<notin> set names \<or> dget (known cs) n \<noteq> None \<Longrightarrow> dget (known cs') n = dget (known cs) n"
  shows "legend_ok acc cs names"
  unfolding legend_ok_def using assms by (simp only: if_True) blast

lemma legend_ok_known:
  assumes "dget (known cs) n = Some c" "legend_ok (acc @ [c]) cs names"
  shows "legend_ok acc cs (n # names)"
proof -
  have step: "lookup_step (acc, cs) n = Inr (acc @ [c], cs)"
    using assms(1) by (simp add: lookup_step_def lookup_color_def)
  have u: "unknown cs (n # names) = unknown cs names" using assms(1) by (simp add: unknown_def)
  show ?thesis
  proof (cases "length (unknown cs names) \<le> length (spare cs)")
    case True
    then obtain cols cs' where ok: "rfold lookup_step (acc @ [c], cs) names = Inr ((acc @ [c]) @ cols, cs')"
      "length cols = length names" "map (dget (known cs')) names = map Some cols"
      "map (dget (known cs')) (unknown cs names) = map Some (take (length (unknown cs names)) (rev (spare cs)))"
      "\<forall>n. n \<notin> set names \<or> dget (known cs) n \<noteq> None \<longrightarrow> dget (known cs') n = dget (known cs) n"
      using assms(2) by (auto simp: legend_ok_def)
    have c: "dget (known cs') n = Some c" using ok(5) assms(1) by simp
    have old: "dget (known cs') m = dget (known cs) m" if "m \<notin> set (n # names) \<or> dget (known cs) m \<noteq> None" for m
      using ok(5) that by auto
    show ?thesis
      by (rule legend_okI [of _ _ _ "c # cols" cs'])
        (use True step ok(1-4) c old in \<open>simp_all add: u\<close>)
  next
    case False
    then show ?thesis using assms(2) step u by (simp add: legend_ok_def)
  qed
qed

lemma legend_ok_exhausted:
  "dget (known cs) n = None \<Longrightarrow> spare cs = [] \<Longrightarrow> legend_ok acc cs (n # names)"
  by (simp add: legend_ok_def unknown_def lookup_step_def lookup_color_def)

lemma legend_ok_new:
  assumes "dget (known cs) n = None" "n \<notin> set names" "spare cs = rest @ [c]"
    and "legend_ok (acc @ [c]) (add_color n c (cs\<lparr> spare := rest \<rparr>)) names"
  shows "legend_ok acc cs (n # names)"
proof -
  let ?cs1 = "add_color n c (cs\<lparr> spare := rest \<rparr>)"
  have step: "lookup_step (acc, cs) n = Inr (acc @ [c], ?cs1)"
    using assms(1,3) by (simp add: lookup_step_def lookup_color_def)
  have k1: "dget (known ?cs1) = (dget (known cs))(n \<mapsto> c)" "spare ?cs1 = rest"
    by (simp_all add: add_color_def)
  have same: "unknown ?cs1 names = unknown cs names"
    using assms(2) unfolding unknown_def k1(1) by (intro filter_cong) auto
  have u: "unknown cs (n # names) = n # unknown cs names" using assms(1) by (simp add: unknown_def)
  show ?thesis
  proof (cases "length (unknown cs names) \<le> length rest")
    case True
    then obtain cols cs' where ok: "rfold lookup_step (acc @ [c], ?cs1) names = Inr ((acc @ [c]) @ cols, cs')"
      "length cols = length names" "map (dget (known cs')) names = map Some cols"
      "map (dget (known cs')) (unknown cs names) = map Some (take (length (unknown cs names)) (rev rest))"
      "\<forall>m. m \<notin> set names \<or> dget (known ?cs1) m \<noteq> None \<longrightarrow> dget (known cs') m = dget (known ?cs1) m"
      using assms(4) unfolding legend_ok_def same k1(2) by auto
    have keep: "dget (known cs') m = ((dget (known cs))(n \<mapsto> c)) m"
      if "m \<notin> set names \<or> dget (known ?cs1) m \<noteq> None" for m
      using ok(5) that unfolding k1(1) by blast
    have c: "dget (known cs') n = Some c" using keep [of n] assms(2) by simp
    have old: "dget (known cs') m = dget (known cs) m" if "m \<notin> set (n # names) \<or> dget (known cs) m \<noteq> None" for m
      using keep [of m] that assms(1) by (cases "m = n") (auto simp: k1(1))
    show ?thesis
      by (rule legend_okI [of _ _ _ "c # cols" cs'])
        (use True step ok(1-4) c old in \<open>simp_all add: u assms(3)\<close>)
  next
    case False
    then show ?thesis using assms(3,4) step unfolding legend_ok_def same k1(2) u by simp
  qed
qed

lemma legend_ok_all: "distinct names \<Longrightarrow> legend_ok acc cs names"
proof (induction names arbitrary: acc cs)
  case Nil
  then show ?case by (simp add: legend_ok_def unknown_def)
next
  case (Cons n names)
  then have IH: "legend_ok acc cs names" and n: "n \<notin> set names" for acc cs by auto
  show ?case
  proof (cases "dget (known cs) n")
    case None
    then show ?thesis
      using legend_ok_exhausted legend_ok_new [OF None n _ IH] by (cases "spare cs" rule: rev_cases) auto
  qed (rule legend_ok_known [OF _ IH])
qed

text \<open>
  The colours of the legend. Each value of the file has the colour the file gives it; the
  values without one get the six default colours, each a different one, from the last to the
  first. With a seventh such value \<open>lookup\<close> raises \<open>IndexError\<close>.
\<close>

theorem legend_colors_spec:
  assumes "distinct names" "spare cs = default_colors"
  shows "(6 < length (unknown cs names) \<longrightarrow> legend_colors cs names = Inl IndexError) \<and>
    (length (unknown cs names) \<le> 6 \<longrightarrow> (\<exists>cols cs'. legend_colors cs names = Inr (cols, cs') \<and>
       map (dget (known cs')) names = map Some cols \<and>
       map (dget (known cs')) (unknown cs names) = map Some (take (length (unknown cs names)) (rev default_colors)) \<and>
       distinct (map (dget (known cs')) (unknown cs names)) \<and>
       (\<forall>n. dget (known cs) n \<noteq> None \<longrightarrow> dget (known cs') n = dget (known cs) n)))"
proof -
  have six: "length default_colors = 6" "distinct default_colors" by (simp_all add: default_colors_def)
  then have dist: "distinct (map Some (take k (rev default_colors)))" for k by (simp add: distinct_map)
  note ok = legend_ok_all [OF assms(1), of "[]" cs, unfolded legend_ok_def assms(2) six(1) append_Nil]
  show ?thesis
  proof (cases "length (unknown cs names) \<le> 6")
    case True
    with ok obtain cols cs' where "legend_colors cs names = Inr (cols, cs')" "map (dget (known cs')) names = map Some cols"
      "map (dget (known cs')) (unknown cs names) = map Some (take (length (unknown cs names)) (rev default_colors))"
      "\<forall>n. n \<notin> set names \<or> dget (known cs) n \<noteq> None \<longrightarrow> dget (known cs') n = dget (known cs) n"
      unfolding legend_colors_def by auto
    with True dist show ?thesis by auto
  next
    case False
    with ok show ?thesis by (simp add: legend_colors_def)
  qed
qed

definition seven :: "string list" where
  "seven = map (\<lambda>c. [c]) ''abcdefg''"

theorem legend_colors_witness:
  "legend_colors new_colors seven = Inl IndexError"
proof -
  have "unknown new_colors seven = seven" by (simp add: unknown_def new_colors_def)
  moreover have "length seven = 7" "distinct seven" by (simp_all add: seven_def)
  ultimately show ?thesis
    using legend_colors_spec [of seven new_colors] by (simp add: new_colors_def)
qed

end
