(* ===== verification/PyNum.thy ===== *)
theory PyNum
  imports Complex_Main Prelude
begin

text \<open>
  The numbers of \<open>utils/grid.py\<close>: integers, and floats, which are taken as exact rationals. An
  operation on two integers gives an integer, where \<open>/\<close> rounds down; with a float it gives a
  float.
\<close>

datatype pynum = PInt int | PFloat rat

fun val :: "pynum \<Rightarrow> rat" where
  "val (PInt i) = of_int i"
| "val (PFloat q) = q"

fun py_float :: "pynum \<Rightarrow> pynum" where
  "py_float x = PFloat (val x)"

definition lift2 :: "(int \<Rightarrow> int \<Rightarrow> int) \<Rightarrow> (rat \<Rightarrow> rat \<Rightarrow> rat) \<Rightarrow> pynum \<Rightarrow> pynum \<Rightarrow> pynum" where
  "lift2 f g x y = (case (x, y) of (PInt i, PInt j) \<Rightarrow> PInt (f i j) | _ \<Rightarrow> PFloat (g (val x) (val y)))"

definition nadd :: "pynum \<Rightarrow> pynum \<Rightarrow> pynum" where
  "nadd = lift2 (+) (+)"

definition nsub :: "pynum \<Rightarrow> pynum \<Rightarrow> pynum" where
  "nsub = lift2 (-) (-)"

definition nmul :: "pynum \<Rightarrow> pynum \<Rightarrow> pynum" where
  "nmul = lift2 (*) (*)"

definition nneg :: "pynum \<Rightarrow> pynum" where
  "nneg x = nsub (PInt 0) x"

definition ndiv :: "pynum \<Rightarrow> pynum \<Rightarrow> pynum res" where
  "ndiv x y = (if val y = 0 then Inl ZeroDivisionError else Inr (lift2 (div) (/) x y))"

definition nmod :: "pynum \<Rightarrow> pynum \<Rightarrow> pynum res" where
  "nmod x y =
     (if val y = 0 then Inl ZeroDivisionError
      else Inr (lift2 (mod) (\<lambda>a b. a - b * of_int \<lfloor>a / b\<rfloor>) x y))"

definition nlt :: "pynum \<Rightarrow> pynum \<Rightarrow> bool" where
  "nlt x y \<longleftrightarrow> val x < val y"

definition nle :: "pynum \<Rightarrow> pynum \<Rightarrow> bool" where
  "nle x y \<longleftrightarrow> val x \<le> val y"

text \<open>\<open>max\<close> and \<open>min\<close> give the first of equal arguments.\<close>

definition nmax :: "pynum \<Rightarrow> pynum \<Rightarrow> pynum" where
  "nmax x y = (if nlt x y then y else x)"

definition nmin :: "pynum \<Rightarrow> pynum \<Rightarrow> pynum" where
  "nmin x y = (if nlt y x then y else x)"

definition nabs :: "pynum \<Rightarrow> pynum" where
  "nabs x = (if val x < 0 then nneg x else x)"

text \<open>\<open>int(x)\<close> cuts off towards zero.\<close>

fun py_int :: "pynum \<Rightarrow> int" where
  "py_int (PInt i) = i"
| "py_int (PFloat q) = (if q < 0 then \<lceil>q\<rceil> else \<lfloor>q\<rfloor>)"

text \<open>Rounding to an integer as the formats do, halves to the even neighbour.\<close>

definition round_half_even :: "rat \<Rightarrow> int" where
  "round_half_even x =
     (let f = \<lfloor>x\<rfloor>; d = x - of_int f
      in if d < 1 / 2 then f else if d > 1 / 2 then f + 1 else if even f then f else f + 1)"

text \<open>\<open>range(a, b, step)\<close>.\<close>

definition py_range :: "int \<Rightarrow> int \<Rightarrow> int \<Rightarrow> int list res" where
  "py_range a b step =
     (if step = 0 then Inl ValueError
      else if step > 0 then Inr (map (\<lambda>k. a + int k * step) [0 ..< nat ((b - a + step - 1) div step)])
      else Inr (map (\<lambda>k. a + int k * step) [0 ..< nat ((a - b - step - 1) div (- step))]))"

lemmas num_ops = nadd_def nsub_def nmul_def nneg_def ndiv_def nmod_def lift2_def

lemma val_ops [simp]:
  "val (nadd x y) = val x + val y" "val (nsub x y) = val x - val y" "val (nmul x y) = val x * val y"
  "val (nneg x) = - val x" "val (nmax x y) = max (val x) (val y)" "val (nmin x y) = min (val x) (val y)"
  "val (nabs x) = \<bar>val x\<bar>"
  by (cases x; cases y; simp add: num_ops nmax_def nmin_def nlt_def nabs_def)+

lemma le_div_iff: "0 < (n :: int) \<Longrightarrow> k \<le> a div n \<longleftrightarrow> k * n \<le> a"
proof
  assume n: "0 < n" and k: "k * n \<le> a"
  show "k \<le> a div n" using zdiv_mono1 [OF k n] n by simp
next
  assume n: "0 < n" and "k \<le> a div n"
  then have "k * n \<le> (a div n) * n" by (intro mult_right_mono) simp_all
  also have "\<dots> \<le> a" using n pos_mod_sign [of n a] div_mult_mod_eq [of a n] by linarith
  finally show "k * n \<le> a" .
qed

lemma py_range_pos:
  assumes "0 < step" "py_range a b step = Inr xs"
  shows "x \<in> set xs \<longleftrightarrow> a \<le> x \<and> x < b \<and> step dvd x - a" and "distinct xs"
    and "length xs = nat ((b - a + step - 1) div step)"
proof -
  have xs: "xs = map (\<lambda>k. a + int k * step) [0 ..< nat ((b - a + step - 1) div step)]"
    using assms by (simp add: py_range_def)
  then show "distinct xs" "length xs = nat ((b - a + step - 1) div step)"
    using assms(1) by (simp_all add: distinct_map inj_on_def)
  have bound: "k < (b - a + step - 1) div step \<longleftrightarrow> a + k * step < b" for k
  proof -
    have "k < (b - a + step - 1) div step \<longleftrightarrow> k + 1 \<le> (b - a + step - 1) div step" by linarith
    also have "\<dots> \<longleftrightarrow> (k + 1) * step \<le> b - a + step - 1"
      using assms(1) by (rule le_div_iff)
    also have "\<dots> \<longleftrightarrow> a + k * step < b" by (auto simp: algebra_simps)
    finally show ?thesis .
  qed
  show "x \<in> set xs \<longleftrightarrow> a \<le> x \<and> x < b \<and> step dvd x - a"
  proof
    assume "x \<in> set xs"
    then obtain k where "k < nat ((b - a + step - 1) div step)" "x = a + int k * step"
      unfolding xs by (auto simp del: mult_cancel_right)
    then show "a \<le> x \<and> x < b \<and> step dvd x - a" using bound [of "int k"] assms(1) by (auto simp: zless_nat_eq_int_zless)
  next
    assume x: "a \<le> x \<and> x < b \<and> step dvd x - a"
    then obtain k where "x - a = step * k" by (auto elim: dvdE)
    then have k: "x = a + k * step" by (simp add: algebra_simps)
    with x have "0 \<le> k * step" by simp
    then have "0 \<le> k" using assms(1) by (simp add: zero_le_mult_iff)
    moreover have "k < (b - a + step - 1) div step" using bound [of k] x k by blast
    ultimately have "nat k < nat ((b - a + step - 1) div step)" "x = a + int (nat k) * step" using k by simp_all
    then show "x \<in> set xs"
      unfolding xs set_map set_upt by (intro rev_image_eqI [of "nat k"]) (simp_all only: atLeastLessThan_iff le0 conj_assoc)
  qed
qed

end
