(* ===== verification/Scale.thy ===== *)
theory Scale
  imports PyNum
begin

text \<open>
  The scale of \<open>utils/grid.py\<close> (\<open>ScaleRenderer\<close>): the distance of its marks, the marks and their
  positions. Drawing the marks and their labels is left to the graphics library.
\<close>

section \<open>The marks\<close>

text \<open>The loop of \<open>layout\<close>; \<open>closest\<close> starts at 1 and stays positive.\<close>

function closest_loop :: "rat \<Rightarrow> int \<Rightarrow> int" where
  "closest_loop data_delta closest =
     (if 0 < closest \<and> of_int (closest * 10) < data_delta then closest_loop data_delta (closest * 10) else closest)"
  by pat_completeness auto
termination
proof (relation "measure (\<lambda>(d, c). nat (\<lceil>d\<rceil> - c))")
  fix d c assume *: "0 < c \<and> rat_of_int (c * 10) < d"
  then have "c * 10 < \<lceil>d\<rceil>" using less_ceiling_iff by blast
  then show "((d, c * 10), d, c) \<in> measure (\<lambda>(d, c). nat (\<lceil>d\<rceil> - c))" using * by simp
qed simp

declare closest_loop.simps [simp del]

definition first_tick :: "pynum \<Rightarrow> pynum \<Rightarrow> pynum res" where
  "first_tick lo delta = rbind (nmod lo delta) (\<lambda>m. Inr (nadd (nsub lo m) delta))"

definition last_tick :: "pynum \<Rightarrow> pynum \<Rightarrow> pynum res" where
  "last_tick hi delta = rbind (nmod hi delta) (\<lambda>m. Inr (nsub hi m))"

definition scale_delta :: "pynum \<Rightarrow> pynum \<Rightarrow> pynum res" where
  "scale_delta lo hi =
     (let data_delta = nsub hi lo; closest = closest_loop (val data_delta) 1 in
      rbind (ndiv data_delta (PInt closest)) (\<lambda>q.
      let delta = (if val q = 0 then PInt closest else if val q = 1 then PInt (closest div 10) else PInt closest) in
      rbind (first_tick lo delta) (\<lambda>start. rbind (last_tick hi delta) (\<lambda>stop. Inr delta))))"

definition ticks :: "pynum \<Rightarrow> pynum \<Rightarrow> pynum \<Rightarrow> int list res" where
  "ticks lo hi delta =
     rbind (first_tick lo delta) (\<lambda>start. rbind (last_tick hi delta) (\<lambda>stop.
       py_range (py_int start) (py_int (nadd stop delta)) (py_int delta)))"

definition get_position :: "pynum \<Rightarrow> pynum \<Rightarrow> pynum \<Rightarrow> pynum \<Rightarrow> pynum res" where
  "get_position lo hi width x = ndiv (nmul (nsub x lo) width) (nsub hi lo)"

definition marks :: "pynum \<Rightarrow> pynum \<Rightarrow> pynum \<Rightarrow> pynum \<Rightarrow> (int \<times> pynum) list res" where
  "marks lo hi width delta =
     rbind (ticks lo hi delta)
       (rmap (\<lambda>x. rbind (get_position lo hi width (PInt x)) (\<lambda>real_x. Inr (x, real_x))))"

text \<open>What is drawn: the marks, and the finer ones between them.\<close>

definition draw_scale :: "pynum \<Rightarrow> pynum \<Rightarrow> pynum \<Rightarrow> pynum \<Rightarrow> ((int \<times> pynum) list \<times> (int \<times> pynum) list) res" where
  "draw_scale lo hi width delta =
     rbind (marks lo hi width delta) (\<lambda>coarse.
     rbind (ndiv delta (PInt 10)) (\<lambda>delta'.
     rbind (if 0 < val delta' then marks lo hi width delta' else Inr []) (\<lambda>fine.
       Inr (coarse, fine))))"

section \<open>How many marks there are\<close>

lemma closest_loop_spec:
  "0 < c \<Longrightarrow> \<exists>k. closest_loop d c = c * 10 ^ k \<and> d \<le> of_int (closest_loop d c * 10) \<and>
     (k = 0 \<or> of_int (closest_loop d c) < d)"
proof (induction d c rule: closest_loop.induct)
  case (1 d c)
  show ?case
  proof (cases "rat_of_int (c * 10) < d")
    case True
    then have "0 < c \<and> rat_of_int (c * 10) < d" "0 < c * 10" using 1(2) by simp_all
    from 1(1) [OF this] obtain k where k: "closest_loop d (c * 10) = c * 10 * 10 ^ k"
      "d \<le> of_int (closest_loop d (c * 10) * 10)" "k = 0 \<or> of_int (closest_loop d (c * 10)) < d" by blast
    have step: "closest_loop d c = closest_loop d (c * 10)" using True 1(2) by (subst closest_loop.simps) simp
    have "of_int (closest_loop d (c * 10)) < d" using k True by (cases "k = 0") simp_all
    with k(1,2) show ?thesis unfolding step by (intro exI [of _ "Suc k"]) simp
  next
    case False
    then have "closest_loop d c = c" by (subst closest_loop.simps) simp
    with False show ?thesis by (intro exI [of _ 0]) simp
  qed
qed

lemma tick_ends:
  "first_tick (PInt lo) (PInt d) = (if d = 0 then Inl ZeroDivisionError else Inr (PInt ((lo div d + 1) * d)))"
  "last_tick (PInt hi) (PInt d) = (if d = 0 then Inl ZeroDivisionError else Inr (PInt (hi div d * d)))"
  by (simp_all add: first_tick_def last_tick_def num_ops minus_mod_eq_div_mult algebra_simps)

lemma ticks_int:
  assumes "0 < d"
  shows "\<exists>ts. ticks (PInt lo) (PInt hi) (PInt d) = Inr ts \<and> distinct ts \<and>
    set ts = {t. lo < t \<and> t \<le> hi \<and> d dvd t} \<and> length ts = nat (hi div d - lo div d)"
proof -
  let ?a = "(lo div d + 1) * d" and ?b = "hi div d * d + d"
  have t: "ticks (PInt lo) (PInt hi) (PInt d) = py_range ?a ?b d"
    using assms by (simp add: ticks_def tick_ends num_ops)
  obtain ts where ts: "py_range ?a ?b d = Inr ts" using assms by (simp add: py_range_def)
  have mult: "?a \<le> k * d \<and> k * d < ?b \<longleftrightarrow> lo < k * d \<and> k * d \<le> hi" for k
  proof -
    have "?a \<le> k * d \<longleftrightarrow> lo div d < k" using assms mult_le_cancel_right [of "lo div d + 1" d k] by linarith
    also have "\<dots> \<longleftrightarrow> lo < k * d" using le_div_iff [OF assms, of k lo] by linarith
    finally have 1: "?a \<le> k * d \<longleftrightarrow> lo < k * d" .
    have "k * d < ?b \<longleftrightarrow> k * d < (hi div d + 1) * d" by (simp add: algebra_simps)
    also have "\<dots> \<longleftrightarrow> k \<le> hi div d" using assms mult_less_cancel_right [of k d "hi div d + 1"] by linarith
    also have "\<dots> \<longleftrightarrow> k * d \<le> hi" by (rule le_div_iff [OF assms])
    finally show ?thesis using 1 by blast
  qed
  have "x \<in> set ts \<longleftrightarrow> lo < x \<and> x \<le> hi \<and> d dvd x" for x
  proof -
    have "x \<in> set ts \<longleftrightarrow> ?a \<le> x \<and> x < ?b \<and> d dvd x"
      using py_range_pos(1) [OF assms ts] by (simp add: dvd_diff_left_iff)
    moreover have "d dvd x \<Longrightarrow> ?a \<le> x \<and> x < ?b \<longleftrightarrow> lo < x \<and> x \<le> hi"
      using mult [of "x div d"] by (simp only: dvd_div_mult_self)
    ultimately show ?thesis by blast
  qed
  moreover have "length ts = nat (hi div d - lo div d)"
  proof -
    have "?b - ?a + d - 1 = (d - 1) + (hi div d - lo div d) * d" by (simp add: algebra_simps)
    then have "(?b - ?a + d - 1) div d = hi div d - lo div d"
      using assms by (simp only: div_mult_self1 less_imp_neq [symmetric] div_pos_pos_trivial) simp
    then show ?thesis using py_range_pos(3) [OF assms ts] by simp
  qed
  ultimately show ?thesis using t ts py_range_pos(2) [OF assms ts] by auto
qed

lemma div_add_bounds:
  assumes "0 < (d :: int)"
  shows "a div d + b div d \<le> (a + b) div d" "(a + b) div d \<le> a div d + b div d + 1"
proof -
  have a: "a div d * d \<le> a" "a < (a div d + 1) * d" for a
    using le_div_iff [OF assms, of "a div d" a] le_div_iff [OF assms, of "a div d + 1" a] by simp_all
  show "a div d + b div d \<le> (a + b) div d"
    using a(1) [of a] a(1) [of b] le_div_iff [OF assms] by (simp add: algebra_simps)
  have "\<not> a div d + b div d + 2 \<le> (a + b) div d"
    using a(2) [of a] a(2) [of b] le_div_iff [OF assms] by (simp add: algebra_simps)
  then show "(a + b) div d \<le> a div d + b div d + 1" by simp
qed

lemma scale_delta_cases:
  assumes "lo \<le> hi"
  obtains "hi - lo = 1" "scale_delta (PInt lo) (PInt hi) = Inl ZeroDivisionError"
  | k q where "hi - lo \<noteq> 1" "scale_delta (PInt lo) (PInt hi) = Inr (PInt (10 ^ k))"
      "q \<le> (hi - lo) div 10 ^ k" "(hi - lo) div 10 ^ k \<le> 19" "lo < hi \<Longrightarrow> q = 2" "lo = hi \<Longrightarrow> q = 0"
proof -
  let ?D = "hi - lo" and ?c = "closest_loop (of_int (hi - lo)) 1"
  obtain k where k: "?c = 10 ^ k" "rat_of_int ?D \<le> of_int (?c * 10)" "k = 0 \<or> rat_of_int ?c < of_int ?D"
    using closest_loop_spec [OF zero_less_one, of "rat_of_int ?D"] unfolding mult_1_left by blast
  then have le: "?D \<le> 10 ^ k * 10" and gt: "k = 0 \<or> 10 ^ k < ?D"
    by (simp_all only: of_int_le_iff of_int_less_iff)
  have pos: "0 < (10 :: int) ^ k" by simp
  have q10: "?D div 10 ^ k \<le> 10"
    using zdiv_mono1 [OF le pos] by simp
  have delta: "scale_delta (PInt lo) (PInt hi) =
      (let delta = (if ?D div 10 ^ k = 1 then 10 ^ k div 10 else (10 :: int) ^ k) in
       if delta = 0 then Inl ZeroDivisionError else Inr (PInt delta))"
    using k(1) by (auto simp: scale_delta_def Let_def num_ops tick_ends)
  show thesis
  proof (cases "?D div 10 ^ k = 1")
    case True
    show thesis
    proof (cases k)
      case 0
      with True delta show thesis using that(1) by simp
    next
      case (Suc j)
      then have D: "10 ^ Suc j \<le> ?D" "?D < 2 * 10 ^ Suc j"
        using True le_div_iff [OF pos, of 1 ?D] le_div_iff [OF pos, of 2 ?D] by simp_all
      have d: "scale_delta (PInt lo) (PInt hi) = Inr (PInt (10 ^ j))" using delta True Suc by simp
      have "10 \<le> ?D div 10 ^ j" "\<not> 20 \<le> ?D div 10 ^ j"
        using D le_div_iff [of "10 ^ j" 10 ?D] le_div_iff [of "10 ^ j" 20 ?D] by simp_all
      moreover have "?D \<noteq> 1" using D(1) by (metis linorder_not_less one_less_numeral_iff one_less_power semiring_norm(76) zero_less_Suc)
      ultimately show thesis using that(2) [of j 2] d D(1) by (cases "lo = hi") simp_all
    qed
  next
    case False
    have d: "scale_delta (PInt lo) (PInt hi) = Inr (PInt (10 ^ k))" using delta False by simp
    have one: "?D \<noteq> 1"
    proof
      assume "?D = 1"
      then have "\<not> 10 ^ k < ?D" using pos by linarith
      with gt have "k = 0" by blast
      with \<open>?D = 1\<close> False show False by simp
    qed
    have "2 \<le> ?D div 10 ^ k" if "lo < hi"
    proof (cases "k = 0")
      case True
      then show ?thesis using that one by simp
    next
      case False
      then have "1 \<le> ?D div 10 ^ k" using gt le_div_iff [OF pos, of 1 ?D] by simp
      with \<open>?D div 10 ^ k \<noteq> 1\<close> show ?thesis by simp
    qed
    then show thesis
      using that(2) [of k 2] that(2) [of k 0] d one q10 assms by (cases "lo < hi") simp_all
  qed
qed

text \<open>
  C33: the marks of a scale between two integers. \<open>layout\<close> finds a power of ten so that the
  marks are its multiples behind the lower and up to the upper bound, each once and at least two
  and at most twenty of them (none on an empty interval). Only for bounds that differ by 1 the
  distance is 0, and \<open>layout\<close> raises \<open>ZeroDivisionError\<close>.
\<close>

theorem scale_marks_spec:
  assumes "lo \<le> hi"
  shows "if hi - lo = 1 then scale_delta (PInt lo) (PInt hi) = Inl ZeroDivisionError
    else \<exists>k ts. scale_delta (PInt lo) (PInt hi) = Inr (PInt (10 ^ k)) \<and>
      ticks (PInt lo) (PInt hi) (PInt (10 ^ k)) = Inr ts \<and> distinct ts \<and>
      set ts = {t. lo < t \<and> t \<le> hi \<and> 10 ^ k dvd t} \<and> length ts \<le> 20 \<and>
      (if lo < hi then 2 \<le> length ts else ts = [])"
proof (rule scale_delta_cases [OF assms])
  fix k q assume d: "hi - lo \<noteq> 1" "scale_delta (PInt lo) (PInt hi) = Inr (PInt (10 ^ k))"
    "q \<le> (hi - lo) div 10 ^ k" "(hi - lo) div 10 ^ k \<le> 19" "lo < hi \<Longrightarrow> q = 2" "lo = hi \<Longrightarrow> q = 0"
  let ?d = "10 ^ k :: int"
  obtain ts where ts: "ticks (PInt lo) (PInt hi) (PInt ?d) = Inr ts" "distinct ts"
    "set ts = {t. lo < t \<and> t \<le> hi \<and> ?d dvd t}" "length ts = nat (hi div ?d - lo div ?d)"
    using ticks_int [of ?d lo hi] by auto
  have split: "hi = lo + (hi - lo)" by simp
  have "lo div ?d + (hi - lo) div ?d \<le> hi div ?d" "hi div ?d \<le> lo div ?d + (hi - lo) div ?d + 1"
    using div_add_bounds [of ?d lo "hi - lo"] by simp_all
  then have len: "length ts \<le> 20" "lo < hi \<Longrightarrow> 2 \<le> length ts"
    using ts(4) d(3-5) by auto
  have "if lo < hi then 2 \<le> length ts else ts = []" using ts(4) len(2) assms by auto
  then have "\<exists>k ts. scale_delta (PInt lo) (PInt hi) = Inr (PInt (10 ^ k)) \<and>
      ticks (PInt lo) (PInt hi) (PInt (10 ^ k)) = Inr ts \<and> distinct ts \<and>
      set ts = {t. lo < t \<and> t \<le> hi \<and> 10 ^ k dvd t} \<and> length ts \<le> 20 \<and>
      (if lo < hi then 2 \<le> length ts else ts = [])"
    using d(2) ts(1-3) len(1) by blast
  with d(1) show ?thesis by (simp only: if_False)
qed (simp only: if_True simp_thms)

theorem scale_marks_witness:
  "scale_delta (PInt 3) (PInt 4) = Inl ZeroDivisionError \<and>
   (\<exists>k ts. ticks (PInt 0) (PInt 250) (PInt (10 ^ k)) = Inr ts \<and> 2 \<le> length ts \<and> length ts \<le> 20)"
  using scale_marks_spec [of 3 4] scale_marks_spec [of 0 250] by auto

end
