(* ===== verification/GridView.thy ===== *)
theory GridView
  imports GridData Scale
begin

text \<open>
  The layout of the picture of \<open>utils/grid.py\<close>: \<open>TopLegendRenderer.layout\<close>,
  \<open>TimelinesRenderer.layout\<close> and \<open>GraphicRenderer\<close> but for the drawing itself. The measures of a
  text come from the graphics library: its bearing, width and height are the parameter \<open>extents\<close>.
\<close>

section \<open>The legend and the timelines\<close>

record measures =
  y_bearing :: pynum
  text_width :: pynum
  text_height :: pynum

type_synonym extents = "string \<Rightarrow> measures"

definition padding :: pynum where
  "padding = PInt 10"

text \<open>The state of the loop is the height of the line, the height so far and the width used.\<close>

definition legend_step :: "extents \<Rightarrow> pynum \<Rightarrow> pynum \<times> pynum \<times> pynum \<Rightarrow> string \<Rightarrow> pynum \<times> pynum \<times> pynum" where
  "legend_step ext width st legend =
     (case st of (line_height, total_height, line_used) \<Rightarrow>
      let item_width = nadd (nadd (nadd padding padding) (text_width (ext legend))) padding;
          item_height = nadd (text_height (ext legend)) padding;
          line_height' = (if nlt line_height item_height then item_height else line_height)
      in if nlt width (nadd line_used item_width)
         then (line_height', nadd total_height line_height', nadd padding item_width)
         else (line_height', total_height, nadd line_used item_width))"

definition legend_height :: "extents \<Rightarrow> string list \<Rightarrow> pynum \<Rightarrow> pynum" where
  "legend_height ext legends width =
     (case foldl (legend_step ext width) (PInt 0, padding, padding) legends of
        (line_height, total_height, line_used) \<Rightarrow> nadd total_height line_height)"

definition alphabet :: string where
  "alphabet = ''ABCDEFGHIJKLMNOPQRSTUVWXYZabcedefghijklmnopqrstuvwxyz0123456789''"

definition max_text_height :: "extents \<Rightarrow> pynum" where
  "max_text_height ext = text_height (ext alphabet)"

definition widest :: "extents \<Rightarrow> string list \<Rightarrow> pynum" where
  "widest ext names = foldl (\<lambda>w n. nmax w (text_width (ext n))) (PInt 0) names"

definition row_names :: "timeline \<Rightarrow> string list" where
  "row_names t = map tr_name (tl_ranges t) @ map te_name (tl_event_int t) @ map te_name (tl_event_str t)"

definition left_width :: "extents \<Rightarrow> timeline list \<Rightarrow> pynum" where
  "left_width ext ts = widest ext (map tl_name ts)"

definition right_width :: "extents \<Rightarrow> timeline list \<Rightarrow> pynum" where
  "right_width ext ts = widest ext (concat (map row_names ts))"

definition data_x_start :: "extents \<Rightarrow> timeline list \<Rightarrow> pynum" where
  "data_x_start ext ts =
     nadd (nadd (nadd (nadd (PInt 5) (left_width ext ts)) padding) (right_width ext ts)) (PInt 5)"

definition data_height :: "extents \<Rightarrow> timeline list \<Rightarrow> pynum" where
  "data_height ext ts =
     (let h = max_text_height ext;
          left_n_lines = PInt (int (length ts));
          range_n = PInt (int (length (concat (map tl_ranges ts))));
          event_n = PInt (int (length (concat (map tl_event_int ts)) + length (concat (map tl_event_str ts))));
          right_n_lines = nadd range_n event_n;
          left_height = nadd (nmul left_n_lines h) (nmul (nsub left_n_lines (PInt 1)) padding);
          right_height = nadd (nmul (nsub right_n_lines (PInt 1)) padding) (nmul right_n_lines h);
          right_data_height = nadd (nadd (nmul event_n (nadd h (PInt 5))) (nmul range_n (PInt 10)))
            (nmul (nsub right_n_lines (PInt 1)) padding)
      in nadd (nmax (nmax left_height right_height) right_data_height) padding)"

text \<open>The height of a scale.\<close>

definition scale_height :: "extents \<Rightarrow> pynum" where
  "scale_height ext = nadd (max_text_height ext) (PInt 10)"

section \<open>The picture\<close>

record graphic =
  g_extents :: extents
  g_legends :: "string list"
  g_timelines :: "timeline list"
  g_start :: pynum
  g_end :: pynum
  bot_lo :: pynum
  bot_hi :: pynum
  bot_width :: pynum
  bot_delta :: pynum
  mid_width :: pynum
  mid_delta :: pynum
  g_width :: pynum
  g_height :: pynum
  r_lo :: pynum
  r_hi :: pynum

text \<open>
  \<open>GraphicRenderer.__init__\<close> with the data of \<open>main\<close>; the range shown is set by the first
  \<open>set_range\<close>, and the widths and distances of the scales by the first \<open>layout\<close>. The bounds of the
  scale in the middle are the range shown.
\<close>

definition new_graphic :: "extents \<Rightarrow> string list \<Rightarrow> timeline list \<Rightarrow> pynum \<Rightarrow> pynum \<Rightarrow> graphic" where
  "new_graphic ext legends ts lo hi =
     \<lparr> g_extents = ext, g_legends = legends, g_timelines = ts, g_start = py_float lo, g_end = py_float hi,
       bot_lo = lo, bot_hi = hi, bot_width = PInt 1, bot_delta = PInt 1,
       mid_width = PInt 1, mid_delta = PInt 1, g_width = PInt 1, g_height = PInt 1, r_lo = lo, r_hi = hi \<rparr>"

definition g_x_start :: "graphic \<Rightarrow> pynum" where
  "g_x_start g = data_x_start (g_extents g) (g_timelines g)"

definition legend_h :: "graphic \<Rightarrow> pynum" where
  "legend_h g = legend_height (g_extents g) (g_legends g) (g_width g)"

definition data_h :: "graphic \<Rightarrow> pynum" where
  "data_h g = data_height (g_extents g) (g_timelines g)"

text \<open>An action on the picture changes it even when it raises an exception.\<close>

definition g_layout :: "pynum \<Rightarrow> pynum \<Rightarrow> graphic \<Rightarrow> unit res \<times> graphic" where
  "g_layout width height g =
     (let g1 = g\<lparr> g_width := width, g_height := height \<rparr> in
      case scale_delta (r_lo g) (r_hi g) of
        Inl e \<Rightarrow> (Inl e, g1)
      | Inr delta \<Rightarrow>
         (let g2 = g1\<lparr> mid_width := nsub width (g_x_start g), mid_delta := delta \<rparr> in
          case scale_delta (bot_lo g) (bot_hi g) of
            Inl e \<Rightarrow> (Inl e, g2)
          | Inr delta' \<Rightarrow> (Inr (), g2\<lparr> bot_width := width, bot_delta := delta' \<rparr>)))"

definition set_range :: "pynum \<Rightarrow> pynum \<Rightarrow> graphic \<Rightarrow> unit res \<times> graphic" where
  "set_range start stop g =
     (let s = nmin start stop; e = nmax start stop in
      g_layout (g_width g) (g_height g) (g\<lparr> r_lo := nmax (g_start g) s, r_hi := nmin (g_end g) e \<rparr>))"

definition get_range :: "graphic \<Rightarrow> pynum \<times> pynum" where
  "get_range g = (r_lo g, r_hi g)"

definition get_data_rectangle :: "graphic \<Rightarrow> pynum \<times> pynum \<times> pynum \<times> pynum" where
  "get_data_rectangle g = (g_x_start g, legend_h g, nsub (g_width g) (g_x_start g), data_h g)"

definition get_selection_rectangle :: "graphic \<Rightarrow> (pynum \<times> pynum \<times> pynum \<times> pynum) res" where
  "get_selection_rectangle g =
     (let y_start = nadd (nadd (nadd (legend_h g) (data_h g)) (scale_height (g_extents g))) (PInt 20);
          y_height = nadd (scale_height (g_extents g)) (PInt 20) in
      rbind (get_position (bot_lo g) (bot_hi g) (bot_width g) (r_lo g)) (\<lambda>x_start.
      rbind (get_position (bot_lo g) (bot_hi g) (bot_width g) (r_hi g)) (\<lambda>x_end.
        Inr (x_start, y_start, nsub x_end x_start, y_height))))"

definition scale_data :: "pynum \<Rightarrow> graphic \<Rightarrow> pynum res" where
  "scale_data x g =
     rbind (ndiv x (nsub (g_width g) (g_x_start g))) (\<lambda>q. Inr (nmul q (nsub (r_hi g) (r_lo g))))"

definition scale_selection :: "pynum \<Rightarrow> graphic \<Rightarrow> pynum res" where
  "scale_selection x g = rbind (ndiv x (g_width g)) (\<lambda>q. Inr (nmul q (nsub (g_end g) (g_start g))))"

text \<open>The range that \<open>main\<close> shows first: a tenth of the whole around its middle.\<close>

definition first_range :: "pynum \<Rightarrow> pynum \<Rightarrow> (pynum \<times> pynum) res" where
  "first_range lower upper =
     rbind (ndiv (nsub upper lower) (PInt 2)) (\<lambda>range_mid.
     rbind (ndiv (nsub upper lower) (PInt 10)) (\<lambda>range_width.
     rbind (ndiv range_width (PInt 2)) (\<lambda>half.
       Inr (nsub range_mid half, nadd range_mid half))))"

section \<open>The range shown\<close>

definition in_bounds :: "graphic \<Rightarrow> bool" where
  "in_bounds g \<longleftrightarrow> val (g_start g) \<le> val (r_lo g) \<and> val (r_hi g) \<le> val (g_end g)"

lemma g_layout_keeps [simp]:
  "g_start (snd (g_layout a b g)) = g_start g" "g_end (snd (g_layout a b g)) = g_end g"
  "r_lo (snd (g_layout a b g)) = r_lo g" "r_hi (snd (g_layout a b g)) = r_hi g"
  by (simp_all add: g_layout_def Let_def split: sum.split)

lemma set_range_range:
  "val (r_lo (snd (set_range a b g))) = max (val (g_start g)) (min (val a) (val b))"
  "val (r_hi (snd (set_range a b g))) = min (val (g_end g)) (max (val a) (val b))"
  "g_start (snd (set_range a b g)) = g_start g" "g_end (snd (set_range a b g)) = g_end g"
  by (simp_all add: set_range_def Let_def)

lemma set_range_in_bounds: "in_bounds (snd (set_range a b g))"
  by (simp add: in_bounds_def set_range_range)

lemma g_layout_in_bounds: "in_bounds g \<Longrightarrow> in_bounds (snd (g_layout a b g))"
  by (simp add: in_bounds_def)

text \<open>
  The range is turned around when it lies outside of the data: \<open>set_range\<close> cuts each end off by
  itself.
\<close>

lemma set_range_order:
  assumes "val (g_start g) \<le> val (g_end g)"
  shows "val (r_lo (snd (set_range a b g))) \<le> val (r_hi (snd (set_range a b g))) \<longleftrightarrow>
    min (val a) (val b) \<le> val (g_end g) \<and> val (g_start g) \<le> max (val a) (val b)"
  using assms by (auto simp: set_range_range max_def min_def)

end
