(* ===== verification/Canvas.thy ===== *)
theory Canvas
  imports GridView
begin

text \<open>
  The drawing of \<open>utils/grid.py\<close>: the calls that \<open>TopLegendRenderer.draw\<close>, the methods of
  \<open>TimelinesRenderer\<close>, \<open>ScaleRenderer.draw\<close> and \<open>GraphicRenderer.draw\<close> make to the graphics library,
  in their order. When an exception is raised the calls made before it are not recorded: the
  picture is then not shown, and the next redraw starts afresh.
\<close>

section \<open>The calls to the library\<close>

datatype cairo =
    Save
  | Restore
  | Translate pynum pynum
  | Rectangle pynum pynum pynum pynum
  | MoveTo pynum pynum
  | LineTo pynum pynum
  | RelLineTo pynum pynum
  | ClosePath
  | SetOperatorSource
  | SetSourceRgb rat rat rat
  | SetLineWidth rat
  | SetDash "int list" int
  | Stroke
  | StrokePreserve
  | Fill
  | ShowText string
  | Clip
  | PaintBuffer

abbreviation black :: cairo where "black \<equiv> SetSourceRgb 0 0 0"

abbreviation grey :: cairo where "grey \<equiv> SetSourceRgb (9 / 10) (9 / 10) (9 / 10)"

abbreviation nat_num :: "nat \<Rightarrow> pynum" where "nat_num n \<equiv> PInt (int n)"

definition source_of :: "color \<Rightarrow> cairo" where
  "source_of c = SetSourceRgb (of_int (red c)) (of_int (green c)) (of_int (blue c))"

section \<open>The legend\<close>

text \<open>The loop repeats the one of \<open>layout\<close>, with the legends numbered.\<close>

definition legend_box :: "extents \<Rightarrow> pynum \<Rightarrow> string \<Rightarrow> pynum \<times> pynum \<times> pynum \<Rightarrow> color \<Rightarrow> cairo list" where
  "legend_box ext width legend st c =
     (case st of (line_height, total_height, line_used) \<Rightarrow>
      let item_width = nadd (nadd (nadd padding padding) (text_width (ext legend))) padding;
          x = nsub line_used item_width
      in [Rectangle x total_height padding padding, black, SetLineWidth 2, StrokePreserve, source_of c, Fill,
          MoveTo (nadd x (nmul padding (PInt 2))) (nadd total_height (text_height (ext legend))), black,
          ShowText legend])"

definition legend_item :: "extents \<Rightarrow> pynum \<Rightarrow> color list \<Rightarrow>
    (pynum \<times> pynum \<times> pynum) \<times> nat \<times> cairo list \<Rightarrow> string \<Rightarrow>
    ((pynum \<times> pynum \<times> pynum) \<times> nat \<times> cairo list) res" where
  "legend_item ext width cs state legend =
     (case state of (st, i, calls) \<Rightarrow>
      let st' = legend_step ext width st legend in
      rbind (py_get cs (int i)) (\<lambda>c. Inr (st', i + 1, calls @ legend_box ext width legend st' c)))"

definition draw_legend :: "extents \<Rightarrow> pynum \<Rightarrow> string list \<Rightarrow> color list \<Rightarrow> cairo list res" where
  "draw_legend ext width legends cs =
     rbind (rfold (legend_item ext width cs) ((PInt 0, padding, padding), 0, []) legends)
       (\<lambda>(st, i, calls). Inr calls)"

section \<open>The timelines\<close>

definition draw_line :: "pynum \<Rightarrow> pynum \<Rightarrow> pynum \<Rightarrow> pynum \<Rightarrow> cairo list" where
  "draw_line x y width height =
     [MoveTo x y, RelLineTo width height, ClosePath, SetOperatorSource, SetLineWidth 1, black, Stroke]"

definition row_background :: "nat \<Rightarrow> pynum \<Rightarrow> pynum \<Rightarrow> pynum \<Rightarrow> pynum \<Rightarrow> cairo list" where
  "row_background grey_background x y width height =
     (if grey_background mod 2 = 0
      then [Rectangle x (nsub y (PInt 5)) width (nadd height padding), grey, Fill]
      else [])"

text \<open>The pixel of a time, where \<open>view\<close> holds the bounds of the time shown, the left end and the width.\<close>

definition time_pixel :: "pynum \<times> pynum \<Rightarrow> pynum \<Rightarrow> pynum \<Rightarrow> pynum \<Rightarrow> int res" where
  "time_pixel view x width t =
     (case view of (start, stop) \<Rightarrow>
        rbind (ndiv (nmul (nsub t start) width) (nsub stop start)) (\<lambda>q. Inr (py_int (nadd x q))))"

fun value_text :: "ev_value \<Rightarrow> string" where
  "value_text (StrValue s) = s"
| "value_text (IntValue n) = nat_str n"

definition event_mark :: "pynum \<Rightarrow> pynum \<Rightarrow> int \<Rightarrow> event \<Rightarrow> cairo list" where
  "event_mark max_h y real_x e =
     [Rectangle (PInt real_x) y (PInt 1) (PInt 1), SetSourceRgb 1 0 0, Stroke,
      MoveTo (PInt real_x) (nadd y max_h), black, ShowText (value_text (ev_value e))]"

text \<open>The marks of the events with their positions; the first position is that of the left end.\<close>

definition draw_event :: "pynum \<times> pynum \<Rightarrow> pynum \<Rightarrow> pynum \<Rightarrow>
    int \<times> (int \<times> event) list \<Rightarrow> event \<Rightarrow> (int \<times> (int \<times> event) list) res" where
  "draw_event view x width state e =
     (case state of (last_x_drawn, drawn) \<Rightarrow>
        rbind (time_pixel view x width (PInt (ev_at e))) (\<lambda>real_x.
          Inr (if real_x > last_x_drawn + 2 then (real_x, drawn @ [(real_x, e)]) else (last_x_drawn, drawn))))"

definition event_marks :: "pynum \<times> pynum \<Rightarrow> pynum \<Rightarrow> pynum \<Rightarrow> event list \<Rightarrow> (int \<times> event) list res" where
  "event_marks view x width es =
     (case get_events_bounds es (val (fst view)) (val (snd view)) of (lo, hi) \<Rightarrow>
        rbind (rfold (draw_event view x width) (py_int x, []) (py_slice es lo hi)) (\<lambda>(last, drawn). Inr drawn))"

definition draw_events :: "pynum \<times> pynum \<Rightarrow> pynum \<Rightarrow> nat \<Rightarrow> pynum \<Rightarrow> pynum \<Rightarrow> pynum \<Rightarrow> pynum \<Rightarrow>
    event list \<Rightarrow> cairo list res" where
  "draw_events view max_h grey_background x y width height es =
     rbind (event_marks view x width es) (\<lambda>drawn.
       Inr (row_background grey_background x y width height @
            concat (map (\<lambda>(real_x, e). event_mark max_h y real_x e) drawn)))"

text \<open>The box of a range; the colour of a value is looked up when the box is drawn.\<close>

definition draw_range :: "pynum \<times> pynum \<Rightarrow> pynum \<Rightarrow> pynum \<Rightarrow> pynum \<Rightarrow>
    int \<times> colors \<times> cairo list \<Rightarrow> data_range \<Rightarrow> (int \<times> colors \<times> cairo list) res" where
  "draw_range view x y width state r =
     (case state of (last_x_drawn, cs, calls) \<Rightarrow>
      let s = nmax (PInt (r_start r)) (fst view); e = nmin (PInt (r_end r)) (snd view) in
      rbind (time_pixel view x width s) (\<lambda>x_start.
      rbind (time_pixel view x width e) (\<lambda>x_end.
        if x_end > last_x_drawn then
          rbind (lookup_color (r_value r) cs) (\<lambda>(c, cs').
            Inr (x_end, cs', calls @ [Rectangle (PInt x_start) y (PInt (x_end - x_start)) (PInt 10), black,
                                      StrokePreserve, source_of c, Fill]))
        else Inr (last_x_drawn, cs, calls))))"

definition draw_ranges :: "pynum \<times> pynum \<Rightarrow> nat \<Rightarrow> pynum \<Rightarrow> pynum \<Rightarrow> pynum \<Rightarrow> pynum \<Rightarrow> colors \<Rightarrow>
    data_range list \<Rightarrow> (colors \<times> cairo list) res" where
  "draw_ranges view grey_background x y width height cs rs =
     (case get_ranges_bounds rs (val (fst view)) (val (snd view)) of (lo, hi) \<Rightarrow>
        rbind (rfold (draw_range view x y width) (py_int (nsub x (PInt 1)), cs, []) (py_slice rs lo hi))
          (\<lambda>(last, cs', calls). Inr (cs', row_background grey_background x y width height @ calls)))"

definition draw_name :: "extents \<Rightarrow> pynum \<Rightarrow> pynum \<Rightarrow> string \<Rightarrow> cairo list" where
  "draw_name ext x cur_y name =
     [MoveTo x (nsub (nadd cur_y (max_text_height ext)) (nadd (text_height (ext name)) (y_bearing (ext name)))),
      ShowText name]"

text \<open>The columns: where the names of the timelines, the names of the rows and the data start.\<close>

record columns =
  left_x :: pynum
  right_x :: pynum
  right_w :: pynum
  data_x :: pynum
  data_w :: pynum
  full_w :: pynum

definition columns_of :: "extents \<Rightarrow> timeline list \<Rightarrow> pynum \<Rightarrow> columns" where
  "columns_of ext ts width =
     (let left_x_start = PInt 5;
          left_x_end = nadd left_x_start (left_width ext ts);
          right_x_start = nadd left_x_end padding;
          right_x_end = nadd right_x_start (right_width ext ts);
          data_x_start = nadd right_x_end (PInt 5)
      in \<lparr> left_x = left_x_start, right_x = right_x_start, right_w = right_width ext ts, data_x = data_x_start,
           data_w = nsub width data_x_start, full_w = width \<rparr>)"

definition row_line :: "columns \<Rightarrow> pynum \<Rightarrow> cairo list" where
  "row_line cols cur_y =
     draw_line (nsub (right_x cols) (PInt 5)) (nsub cur_y (PInt 5)) (nadd (right_w cols) padding) (PInt 0)"

text \<open>The state of the loops: \<open>cur_y\<close>, \<open>grey_background\<close>, the colours and the calls.\<close>

type_synonym rows = "pynum \<times> nat \<times> colors \<times> cairo list"

definition draw_event_row :: "extents \<Rightarrow> columns \<Rightarrow> pynum \<times> pynum \<Rightarrow> rows \<Rightarrow> named_events \<Rightarrow> rows res" where
  "draw_event_row ext cols view state ev =
     (case state of (cur_y, grey_background, cs, calls) \<Rightarrow>
      let h = nadd (max_text_height ext) (PInt 5); cur_y' = nadd cur_y (nadd h padding) in
      rbind (draw_events view (max_text_height ext) grey_background (data_x cols) cur_y (data_w cols) h (te_events ev))
        (\<lambda>marks. Inr (cur_y', grey_background + 1, cs,
           calls @ draw_name ext (right_x cols) cur_y (te_name ev) @ marks @ row_line cols cur_y')))"

definition draw_range_row :: "extents \<Rightarrow> columns \<Rightarrow> pynum \<times> pynum \<Rightarrow> rows \<Rightarrow> named_ranges \<Rightarrow> rows res" where
  "draw_range_row ext cols view state rs =
     (case state of (cur_y, grey_background, cs, calls) \<Rightarrow>
      let cur_y' = nadd cur_y (nadd (max_text_height ext) padding) in
      rbind (draw_ranges view grey_background (data_x cols) cur_y (data_w cols) (PInt 10) cs (tr_ranges rs))
        (\<lambda>(cs', boxes). Inr (cur_y', grey_background + 1, cs',
           calls @ draw_name ext (right_x cols) cur_y (tr_name rs) @ boxes @ row_line cols cur_y')))"

definition draw_timeline :: "extents \<Rightarrow> columns \<Rightarrow> pynum \<times> pynum \<Rightarrow> rows \<Rightarrow> timeline \<Rightarrow> rows res" where
  "draw_timeline ext cols view state t =
     (case state of (cur_y, grey_background, cs, calls) \<Rightarrow>
      rbind (rfold (draw_event_row ext cols view)
               (cur_y, grey_background, cs, calls @ draw_name ext (left_x cols) cur_y (tl_name t)) (tl_event_int t)) (\<lambda>s1.
      rbind (rfold (draw_event_row ext cols view) s1 (tl_event_str t)) (\<lambda>s2.
      rbind (rfold (draw_range_row ext cols view) s2 (tl_ranges t)) (\<lambda>(cur_y', grey', cs', calls').
        Inr (cur_y', grey', cs', calls' @ draw_line (PInt 0) (nsub cur_y' (PInt 5)) (full_w cols) (PInt 0))))))"

definition draw_timelines :: "extents \<Rightarrow> timeline list \<Rightarrow> pynum \<times> pynum \<Rightarrow> pynum \<Rightarrow> colors \<Rightarrow> (colors \<times> cairo list) res" where
  "draw_timelines ext ts view width cs =
     (let cols = columns_of ext ts width in
      rbind (rfold (draw_timeline ext cols view) (PInt 5, 1, cs, draw_line (PInt 0) (PInt 0) width (PInt 0)) ts)
        (\<lambda>(cur_y, grey_background, cs', calls).
          let bot_y = nsub cur_y (PInt 5) in
          Inr (cs', calls @ draw_line (nadd (nadd (left_x cols) (left_width ext ts)) (PInt 5)) (PInt 0) (PInt 0) bot_y @
                 draw_line (nadd (nadd (right_x cols) (right_w cols)) (PInt 5)) (PInt 0) (PInt 0) bot_y)))"

section \<open>The scales and the whole picture\<close>

definition scale_mark :: "extents \<Rightarrow> bool \<Rightarrow> int \<times> pynum \<Rightarrow> cairo list res" where
  "scale_mark ext on_top mark =
     (case mark of (x, real_x) \<Rightarrow>
      let s = PInt (if on_top then -1 else 1); m = ext (int_str x);
          text_delta = (if on_top then nadd (text_height m) (y_bearing m) else nneg (y_bearing m)) in
      rbind (ndiv (text_width m) (PInt 2)) (\<lambda>half.
        Inr [MoveTo real_x (PInt 0), LineTo real_x (nmul (PInt 5) s), ClosePath, Stroke,
             MoveTo (nsub real_x half) (nmul (nadd (PInt 10) text_delta) s), ShowText (int_str x)]))"

definition scale_submark :: "bool \<Rightarrow> int \<times> pynum \<Rightarrow> cairo list" where
  "scale_submark on_top mark =
     [MoveTo (snd mark) (PInt 0), LineTo (snd mark) (nmul (PInt 3) (PInt (if on_top then -1 else 1))), ClosePath, Stroke]"

definition scale_calls :: "extents \<Rightarrow> bool \<Rightarrow> pynum \<Rightarrow> pynum \<Rightarrow> pynum \<Rightarrow> pynum \<Rightarrow> cairo list res" where
  "scale_calls ext on_top lo hi width delta =
     rbind (draw_scale lo hi width delta) (\<lambda>(coarse, fine).
     rbind (rmap (scale_mark ext on_top) coarse) (\<lambda>labelled.
       Inr ([black, SetLineWidth 1] @ concat labelled @ concat (map (scale_submark on_top) fine))))"

text \<open>The lines between the parts, and the frame around the part of the lower scale that is shown.\<close>

definition separation :: "pynum \<Rightarrow> pynum \<Rightarrow> cairo list" where
  "separation width y = [MoveTo (PInt 0) y, LineTo width y, ClosePath, SetLineWidth 2, black, Stroke]"

definition pane_line :: "pynum \<Rightarrow> pynum \<Rightarrow> pynum \<Rightarrow> cairo list" where
  "pane_line x y height = [MoveTo x y, RelLineTo (PInt 0) (nneg height), ClosePath, black, SetLineWidth 2, Stroke]"

definition shade :: "cairo list" where
  "shade = [black, SetLineWidth 1, StrokePreserve, grey, Fill]"

definition connections :: "pynum \<Rightarrow> pynum \<Rightarrow> pynum \<Rightarrow> pynum \<Rightarrow> pynum \<Rightarrow> cairo list" where
  "connections x_start width y select_start select_end =
     (let below = nadd y (PInt 20) in
      [MoveTo (PInt 0) y, LineTo x_start y, LineTo select_start below, LineTo (PInt 0) below, LineTo (PInt 0) y] @ shade @
      [MoveTo width y, LineTo width below, LineTo select_end below, LineTo width y] @ shade)"

definition unused_area :: "pynum \<Rightarrow> pynum \<Rightarrow> pynum \<Rightarrow> pynum \<Rightarrow> pynum \<Rightarrow> cairo list" where
  "unused_area width y unused_start unused_end unused_height =
     (let bottom = nadd y unused_height in
      [Rectangle (PInt 0) y unused_start unused_height, Rectangle unused_end y (nsub width unused_end) unused_height,
       grey, Fill] @
      [MoveTo unused_end y, LineTo width y, LineTo width bottom, LineTo (PInt 0) bottom, LineTo (PInt 0) y,
       LineTo unused_start y, ClosePath, SetLineWidth 2, black, Stroke,
       MoveTo unused_start y, LineTo unused_end y, ClosePath, SetLineWidth 1, grey, Stroke] @
      [Save, MoveTo (nmax unused_start (PInt 2)) y, RelLineTo (PInt 0) unused_height,
       MoveTo (nmin unused_end (nsub width (PInt 2))) y, RelLineTo (PInt 0) unused_height,
       SetDash [5] 0, black, SetLineWidth 1, Stroke, Restore])"

definition draw_background :: "pynum \<Rightarrow> pynum \<Rightarrow> cairo list" where
  "draw_background width height =
     [Save, SetSourceRgb 1 1 1, SetOperatorSource, Rectangle (PInt 0) (PInt 0) width height, Fill]"

definition inside :: "cairo list \<Rightarrow> cairo list \<Rightarrow> cairo list" where
  "inside before calls = [Save] @ before @ calls @ [Restore]"

text \<open>\<open>GraphicRenderer.draw\<close>; the colours of the legend were looked up by \<open>main\<close>.\<close>

definition draw_graphic :: "graphic \<Rightarrow> color list \<Rightarrow> colors \<Rightarrow> (colors \<times> cairo list) res" where
  "draw_graphic g legend_cs cs =
     (let ext = g_extents g; w = g_width g; x_start = g_x_start g; h = scale_height ext; view = (r_lo g, r_hi g);
          y = nadd (nadd (legend_h g) (data_h g)) h; y' = nadd y (PInt 20) in
      rbind (draw_legend ext w (g_legends g) legend_cs) (\<lambda>legend.
      rbind (draw_timelines ext (g_timelines g) view w cs) (\<lambda>(cs', rows).
      rbind (scale_calls ext True (r_lo g) (r_hi g) (mid_width g) (mid_delta g)) (\<lambda>mid.
      rbind (get_position (bot_lo g) (bot_hi g) (bot_width g) (r_lo g)) (\<lambda>sel_start.
      rbind (get_position (bot_lo g) (bot_hi g) (bot_width g) (r_hi g)) (\<lambda>sel_end.
      rbind (scale_calls ext False (bot_lo g) (bot_hi g) (bot_width g) (bot_delta g)) (\<lambda>bot.
        Inr (cs', draw_background w (g_height g) @ inside [] legend @ separation w (legend_h g) @
             inside [Translate (PInt 0) (legend_h g)] rows @
             inside [Translate x_start y] mid @ pane_line x_start y h @ separation w y @
             connections x_start w y sel_start sel_end @
             unused_area w y' sel_start sel_end (nadd h (PInt 20)) @
             inside [Translate (PInt 0) y'] bot))))))))"

section \<open>Saving and restoring\<close>

text \<open>The depth of the stack of saved states; \<open>None\<close> when a state is restored that was not saved.\<close>

fun depth :: "nat \<Rightarrow> cairo list \<Rightarrow> nat option" where
  "depth n [] = Some n"
| "depth n (Save # cs) = depth (Suc n) cs"
| "depth n (Restore # cs) = (if n = 0 then None else depth (n - 1) cs)"
| "depth n (c # cs) = depth n cs"

definition flat :: "cairo list \<Rightarrow> bool" where
  "flat calls \<longleftrightarrow> list_all (\<lambda>c. c \<noteq> Save \<and> c \<noteq> Restore) calls"

lemma flat_simps [simp]:
  "flat []" "flat (c # cs) \<longleftrightarrow> c \<noteq> Save \<and> c \<noteq> Restore \<and> flat cs" "flat (as @ bs) \<longleftrightarrow> flat as \<and> flat bs"
  by (auto simp: flat_def)

lemma flat_concat: "flat (concat cs) \<longleftrightarrow> list_all flat cs"
  by (induction cs) auto

lemma depth_append: "depth n (as @ bs) = Option.bind (depth n as) (\<lambda>m. depth m bs)"
  by (induction n as rule: depth.induct) auto

lemma depth_flat [simp]: "flat cs \<Longrightarrow> depth n cs = Some n"
  by (induction n cs rule: depth.induct) auto

lemma depth_inside [simp]: "flat before \<Longrightarrow> flat calls \<Longrightarrow> depth n (inside before calls) = Some n"
  by (simp add: inside_def depth_append)

lemma flat_parts [simp]:
  "flat (legend_box ext w l st c)" "flat (draw_line x y a b)" "flat (row_background k x y a b)"
  "flat (event_mark h y i ev)" "flat (draw_name ext x y s)" "flat (row_line cols y)" "flat (scale_submark on_top m)"
  "flat (separation x y)" "flat (pane_line x y a)" "flat (connections x y a b z)"
  by (simp_all add: legend_box_def draw_line_def row_background_def event_mark_def draw_name_def row_line_def
      scale_submark_def separation_def pane_line_def connections_def shade_def source_of_def Let_def split: prod.split)

lemma source_of_flat [simp]: "source_of c \<noteq> Save" "source_of c \<noteq> Restore"
  by (simp_all add: source_of_def)

lemma depth_unused_area [simp]: "depth n (unused_area x y a b z) = Some n"
  by (simp add: unused_area_def Let_def depth_append)

lemma depth_background [simp]: "depth n (draw_background w h) = Some (Suc n)"
  by (simp add: draw_background_def)

section \<open>Drawing raises no exception\<close>

text \<open>A loop whose every step succeeds and keeps \<open>P\<close>.\<close>

lemma rfold_ok:
  assumes "P s" "\<And>s x. x \<in> set xs \<Longrightarrow> P s \<Longrightarrow> \<exists>s'. f s x = Inr s' \<and> P s'"
  shows "\<exists>t. rfold f s xs = Inr t \<and> P t"
  using assms
proof (induction xs arbitrary: s)
  case (Cons x xs)
  obtain s' where "f s x = Inr s'" "P s'" using Cons.prems(1) Cons.prems(2) [of x s] by auto
  then show ?case using Cons.IH [of s'] Cons.prems(2) by simp
qed simp

lemma time_pixel_ok: "val a \<noteq> val b \<Longrightarrow> \<exists>i. time_pixel (a, b) x w t = Inr i"
  by (simp add: time_pixel_def ndiv_def)

lemma draw_event_ok:
  assumes "val a \<noteq> val b"
  shows "\<exists>s'. draw_event (a, b) x w s e = Inr s'"
  using time_pixel_ok [OF assms, of x w "PInt (ev_at e)"] by (auto simp: draw_event_def split: prod.split)

lemma draw_events_ok:
  assumes "val a \<noteq> val b"
  shows "\<exists>calls. draw_events (a, b) max_h k x y w h es = Inr calls \<and> flat calls"
proof -
  obtain lo hi where b: "get_events_bounds es (val a) (val b) = (lo, hi)" by fastforce
  obtain last drawn where "rfold (draw_event (a, b) x w) (py_int x, []) (py_slice es lo hi) = Inr (last, drawn)"
    using rfold_ok [of "\<lambda>_. True" _ _ "draw_event (a, b) x w"] draw_event_ok [OF assms] by fastforce
  then show ?thesis using b
    by (auto simp: draw_events_def event_marks_def flat_concat list_all_iff)
qed

definition all_known :: "colors \<Rightarrow> data_range list \<Rightarrow> bool" where
  "all_known cs rs \<longleftrightarrow> list_all (\<lambda>r. dget (known cs) (r_value r) \<noteq> None) rs"

lemma draw_range_ok:
  assumes "val a \<noteq> val b" "dget (known cs) (r_value r) \<noteq> None" "flat calls"
  shows "\<exists>last' calls'. draw_range (a, b) x y w (lst, cs, calls) r = Inr (last', cs, calls') \<and> flat calls'"
proof -
  obtain i j where "time_pixel (a, b) x w (nmax (PInt (r_start r)) a) = Inr i"
    "time_pixel (a, b) x w (nmin (PInt (r_end r)) b) = Inr j"
    using time_pixel_ok [OF assms(1)] by blast
  then show ?thesis using assms(2,3) by (auto simp: draw_range_def lookup_color_def Let_def)
qed

lemma slice_subset: "set (py_slice xs i j) \<subseteq> set xs"
  by (auto simp: py_slice_def dest!: in_set_takeD in_set_dropD)

lemma draw_ranges_ok:
  assumes "val a \<noteq> val b" "all_known cs rs"
  shows "\<exists>calls. draw_ranges (a, b) k x y w h cs rs = Inr (cs, calls) \<and> flat calls"
proof -
  obtain lo hi where b: "get_ranges_bounds rs (val a) (val b) = (lo, hi)" by fastforce
  have "\<exists>t. rfold (draw_range (a, b) x y w) (py_int (nsub x (PInt 1)), cs, []) (py_slice rs lo hi) = Inr t \<and>
      (\<exists>lst calls. t = (lst, cs, calls) \<and> flat calls)"
  proof (rule rfold_ok)
    fix s :: "int \<times> colors \<times> cairo list" and r assume *: "r \<in> set (py_slice rs lo hi)" "\<exists>lst calls. s = (lst, cs, calls) \<and> flat calls"
    then have "dget (known cs) (r_value r) \<noteq> None"
      using assms(2) slice_subset [of rs lo hi] by (auto simp: all_known_def list_all_iff)
    then show "\<exists>s'. draw_range (a, b) x y w s r = Inr s' \<and> (\<exists>lst calls. s' = (lst, cs, calls) \<and> flat calls)"
      using draw_range_ok [OF assms(1), of cs r _ x y w] *(2) by fastforce
  qed simp
  then show ?thesis using b by (auto simp: draw_ranges_def)
qed

text \<open>The rows: what the loops keep of their state is that the colours are \<open>cs\<close> and the calls flat.\<close>

definition rows_ok :: "colors \<Rightarrow> rows \<Rightarrow> bool" where
  "rows_ok cs s = (case s of (y, k, cs', calls) \<Rightarrow> cs' = cs \<and> flat calls)"

lemma draw_event_row_ok:
  assumes "val a \<noteq> val b" "rows_ok cs s"
  shows "\<exists>s'. draw_event_row ext cols (a, b) s ev = Inr s' \<and> rows_ok cs s'"
proof -
  obtain y k calls where s: "s = (y, k, cs, calls)" "flat calls" using assms(2) by (cases s) (simp add: rows_ok_def)
  obtain marks where "draw_events (a, b) (max_text_height ext) k (data_x cols) y (data_w cols)
      (nadd (max_text_height ext) (PInt 5)) (te_events ev) = Inr marks" "flat marks"
    using draw_events_ok [OF assms(1)] by blast
  with s show ?thesis by (simp add: draw_event_row_def rows_ok_def Let_def)
qed

lemma draw_range_row_ok:
  assumes "val a \<noteq> val b" "rows_ok cs s" "all_known cs (tr_ranges rs)"
  shows "\<exists>s'. draw_range_row ext cols (a, b) s rs = Inr s' \<and> rows_ok cs s'"
proof -
  obtain y k calls where s: "s = (y, k, cs, calls)" "flat calls" using assms(2) by (cases s) (simp add: rows_ok_def)
  obtain boxes where "draw_ranges (a, b) k (data_x cols) y (data_w cols) (PInt 10) cs (tr_ranges rs) = Inr (cs, boxes)"
    "flat boxes"
    using draw_ranges_ok [OF assms(1,3)] by blast
  with s show ?thesis by (simp add: draw_range_row_def rows_ok_def Let_def)
qed

definition all_ranges :: "timeline list \<Rightarrow> data_range list" where
  "all_ranges ts = concat (map (\<lambda>t. concat (map tr_ranges (tl_ranges t))) ts)"

lemma draw_timeline_ok:
  assumes "val a \<noteq> val b" "rows_ok cs s" "all_known cs (all_ranges [t])"
  shows "\<exists>s'. draw_timeline ext cols (a, b) s t = Inr s' \<and> rows_ok cs s'"
proof -
  obtain y k calls where s: "s = (y, k, cs, calls)" "flat calls" using assms(2) by (cases s) (simp add: rows_ok_def)
  have "rows_ok cs (y, k, cs, calls @ draw_name ext (left_x cols) y (tl_name t))" using s(2) by (simp add: rows_ok_def)
  then obtain s1 where 1: "rfold (draw_event_row ext cols (a, b))
      (y, k, cs, calls @ draw_name ext (left_x cols) y (tl_name t)) (tl_event_int t) = Inr s1" "rows_ok cs s1"
    using rfold_ok [of "rows_ok cs" _ "tl_event_int t"] draw_event_row_ok [OF assms(1)] by metis
  obtain s2 where 2: "rfold (draw_event_row ext cols (a, b)) s1 (tl_event_str t) = Inr s2" "rows_ok cs s2"
    using rfold_ok [of "rows_ok cs" s1 "tl_event_str t"] 1(2) draw_event_row_ok [OF assms(1)] by metis
  have known: "rs \<in> set (tl_ranges t) \<Longrightarrow> all_known cs (tr_ranges rs)" for rs
    using assms(3) by (auto simp: all_known_def all_ranges_def list_all_iff)
  obtain s3 where 3: "rfold (draw_range_row ext cols (a, b)) s2 (tl_ranges t) = Inr s3" "rows_ok cs s3"
    using rfold_ok [of "rows_ok cs" s2 "tl_ranges t"] 2(2) draw_range_row_ok [OF assms(1) _ known] by metis
  show ?thesis
    using s 1 2 3 by (cases s3) (simp add: draw_timeline_def rows_ok_def)
qed

lemma draw_timelines_ok:
  assumes "val a \<noteq> val b" "all_known cs (all_ranges ts)"
  shows "\<exists>calls. draw_timelines ext ts (a, b) w cs = Inr (cs, calls) \<and> flat calls"
proof -
  have known: "t \<in> set ts \<Longrightarrow> all_known cs (all_ranges [t])" for t
    using assms(2) by (auto simp: all_known_def all_ranges_def list_all_iff)
  have "rows_ok cs (PInt 5, 1, cs, draw_line (PInt 0) (PInt 0) w (PInt 0))" by (simp add: rows_ok_def)
  then obtain s where "rfold (draw_timeline ext (columns_of ext ts w) (a, b))
      (PInt 5, 1, cs, draw_line (PInt 0) (PInt 0) w (PInt 0)) ts = Inr s" "rows_ok cs s"
    using rfold_ok [of "rows_ok cs" _ ts] draw_timeline_ok [OF assms(1) _ known] by metis
  then show ?thesis by (cases s) (simp add: draw_timelines_def rows_ok_def Let_def)
qed

text \<open>The scales.\<close>

lemma marks_ok:
  assumes "val lo \<noteq> val hi" "0 < d"
  shows "\<exists>ms. marks lo hi w (PInt d) = Inr ms"
proof -
  obtain t0 t1 where "first_tick lo (PInt d) = Inr t0" "last_tick hi (PInt d) = Inr t1"
    using assms(2) by (auto simp: first_tick_def last_tick_def nmod_def)
  then obtain ts where "ticks lo hi (PInt d) = Inr ts"
    using assms(2) by (simp add: ticks_def py_range_def)
  moreover have "\<exists>p. get_position lo hi w x = Inr p" for x
    using assms(1) by (simp add: get_position_def ndiv_def)
  then obtain p where "get_position lo hi w x = Inr (p x)" for x by metis
  ultimately show ?thesis by (simp add: marks_def rmap_Inr [of _ _ "\<lambda>x. (x, p (PInt x))"])
qed

lemma scale_calls_ok:
  assumes "val lo \<noteq> val hi" "0 < d"
  shows "\<exists>calls. scale_calls ext on_top lo hi w (PInt d) = Inr calls \<and> flat calls"
proof -
  obtain coarse where 1: "marks lo hi w (PInt d) = Inr coarse" using marks_ok [OF assms] by blast
  have "\<exists>fine. (if 0 < val (PInt (d div 10)) then marks lo hi w (PInt (d div 10)) else Inr []) = Inr fine"
    using marks_ok [OF assms(1), of "d div 10" w] by simp
  then obtain fine where 2: "draw_scale lo hi w (PInt d) = Inr (coarse, fine)"
    using 1 by (auto simp: draw_scale_def num_ops)
  have "\<exists>c. scale_mark ext on_top m = Inr c \<and> flat c" for m
    by (cases m) (simp add: scale_mark_def ndiv_def Let_def)
  then obtain f where "scale_mark ext on_top m = Inr (f m)" "flat (f m)" for m by metis
  with 2 show ?thesis by (simp add: scale_calls_def rmap_Inr [of _ _ f] flat_concat list_all_iff)
qed

lemma scale_delta_pos:
  assumes "scale_delta lo hi = Inr d"
  shows "\<exists>n. d = PInt n \<and> 0 < n"
proof -
  define c where "c = closest_loop (val (nsub hi lo)) 1"
  have c: "0 < c" using closest_loop_spec [of 1 "val (nsub hi lo)"] by (auto simp: c_def)
  have "0 \<le> c div 10" using c by (simp add: pos_imp_zdiv_nonneg_iff)
  then show ?thesis
    using assms c unfolding scale_delta_def c_def [symmetric] Let_def
    by (auto simp: rbind_Inr_iff first_tick_def nmod_def split: if_splits)
qed

text \<open>The legend has a colour for each of its values.\<close>

lemma draw_legend_ok:
  assumes "length legends \<le> length cols"
  shows "\<exists>calls. draw_legend ext w legends cols = Inr calls \<and> flat calls"
proof -
  have "\<exists>st' i' calls'. rfold (legend_item ext w cols) (st, i, calls) legends = Inr (st', i', calls') \<and> flat calls'"
    if "i + length legends \<le> length cols" "flat calls" for st i calls
    using that
  proof (induction legends arbitrary: st i calls)
    case (Cons l ls)
    let ?st = "legend_step ext w st l"
    have "legend_item ext w cols (st, i, calls) l = Inr (?st, i + 1, calls @ legend_box ext w l ?st (cols ! i))"
      using Cons.prems(1) by (simp add: legend_item_def Let_def)
    then show ?case
      using Cons.IH [of "i + 1" "calls @ legend_box ext w l ?st (cols ! i)" ?st] Cons.prems by simp
  next
    case Nil
    then show ?case by (cases st) auto
  qed
  from this [of 0 "[]" "(PInt 0, padding, padding)"] show ?thesis
    using assms by (auto simp: draw_legend_def)
qed

lemma lookup_color_known:
  assumes "lookup_color n cs = Inr (c, cs')"
  shows "dget (known cs') n \<noteq> None" and "dget (known cs) m \<noteq> None \<Longrightarrow> dget (known cs') m \<noteq> None"
  using assms by (auto simp: lookup_color_def add_color_def split: option.splits if_splits)

lemma lookups_known:
  assumes "rfold lookup_step (acc, cs) names = Inr (found, cs')"
  shows "length found = length acc + length names \<and>
    (\<forall>n. n \<in> set names \<or> dget (known cs) n \<noteq> None \<longrightarrow> dget (known cs') n \<noteq> None)"
  using assms
proof (induction names arbitrary: acc cs)
  case (Cons n names)
  then obtain c cs1 where step: "lookup_color n cs = Inr (c, cs1)"
    and rest: "rfold lookup_step (acc @ [c], cs1) names = Inr (found, cs')"
    by (auto simp: lookup_step_def [of "(acc, cs)"] rbind_Inr_iff)
  show ?case using Cons.IH [OF rest] lookup_color_known [OF step] by auto
qed simp

lemma range_values: "set (get_all_range_values ts) = r_value ` set (all_ranges ts)"
proof -
  have "set (dkeys (foldl (\<lambda>d r. dset (r_value r) (1 :: nat) d) d rs)) = set (dkeys d) \<union> r_value ` set rs" for d rs
    by (induction rs arbitrary: d) (auto simp: dkeys_dset)
  from this [of "[]" "all_ranges ts"] show ?thesis
    unfolding get_all_range_values_def all_ranges_def by (simp add: dkeys_def del: set_concat)
qed

lemma set_range_deltas:
  assumes "set_range a b g0 = (Inr (), g)"
  shows "\<exists>m n. mid_delta g = PInt m \<and> 0 < m \<and> bot_delta g = PInt n \<and> 0 < n"
    and "g_legends g = g_legends g0" "g_timelines g = g_timelines g0"
  using assms scale_delta_pos
  by (auto simp: set_range_def g_layout_def Let_def split: sum.splits)

text \<open>
  C31: when the colours of the legend have been looked up, as \<open>main\<close> does before the window is
  opened, and a range that is not empty has been set without an exception, drawing the picture
  raises no exception and uses up no further colour. Its calls never restore more than they have
  saved, but one saved state is left over.
\<close>

theorem draw_graphic_spec:
  assumes "g_legends g0 = get_all_range_values (g_timelines g0)"
    and "legend_colors cs0 (g_legends g0) = Inr (legend_cs, cs)"
    and "set_range a b g0 = (Inr (), g)"
    and "val (r_lo g) \<noteq> val (r_hi g)" "val (bot_lo g) \<noteq> val (bot_hi g)"
  shows "\<exists>calls. draw_graphic g legend_cs cs = Inr (cs, calls) \<and> depth 0 calls = Some 1"
proof -
  note same = set_range_deltas(2,3) [OF assms(3)]
  have found: "length legend_cs = length (g_legends g)" "n \<in> set (g_legends g) \<Longrightarrow> dget (known cs) n \<noteq> None" for n
    using lookups_known [of "[]" cs0 "g_legends g0" legend_cs cs] assms(2) same by (auto simp: legend_colors_def)
  then have known: "all_known cs (all_ranges (g_timelines g))"
    using range_values [of "g_timelines g0"] assms(1) same by (auto simp: all_known_def list_all_iff)
  obtain legend where 1: "draw_legend (g_extents g) (g_width g) (g_legends g) legend_cs = Inr legend" "flat legend"
    using draw_legend_ok found(1) by (metis order_refl)
  obtain rows where 2: "draw_timelines (g_extents g) (g_timelines g) (r_lo g, r_hi g) (g_width g) cs = Inr (cs, rows)" "flat rows"
    using draw_timelines_ok [OF assms(4) known] by blast
  obtain m n where "mid_delta g = PInt m" "0 < m" "bot_delta g = PInt n" "0 < n"
    using set_range_deltas(1) [OF assms(3)] by blast
  then obtain mid bot where 3: "scale_calls (g_extents g) True (r_lo g) (r_hi g) (mid_width g) (mid_delta g) = Inr mid" "flat mid"
    "scale_calls (g_extents g) False (bot_lo g) (bot_hi g) (bot_width g) (bot_delta g) = Inr bot" "flat bot"
    using scale_calls_ok [OF assms(4), of m] scale_calls_ok [OF assms(5), of n] by metis
  obtain p q where "get_position (bot_lo g) (bot_hi g) (bot_width g) (r_lo g) = Inr p"
    "get_position (bot_lo g) (bot_hi g) (bot_width g) (r_hi g) = Inr q"
    using assms(5) by (simp add: get_position_def ndiv_def)
  with 1 2 3 show ?thesis by (simp add: draw_graphic_def Let_def depth_append)
qed

section \<open>The marks of the events\<close>

lemma py_int_val: "py_int v = (if val v < 0 then \<lceil>val v\<rceil> else \<lfloor>val v\<rfloor>)"
  by (cases v) auto

lemma py_int_mono: "val u \<le> val v \<Longrightarrow> py_int u \<le> py_int v"
  unfolding py_int_val
  by (cases "val u < 0"; cases "val v < 0")
    (auto intro: ceiling_mono floor_mono order_trans [of _ 0])

text \<open>The pixel of a time as a total function, for bounds that differ.\<close>

definition pixel_of :: "pynum \<times> pynum \<Rightarrow> pynum \<Rightarrow> pynum \<Rightarrow> int \<Rightarrow> int" where
  "pixel_of view x w t = (case time_pixel view x w (PInt t) of Inr p \<Rightarrow> p | Inl e \<Rightarrow> 0)"

lemma time_pixel_of: "val a \<noteq> val b \<Longrightarrow> time_pixel (a, b) x w (PInt t) = Inr (pixel_of (a, b) x w t)"
  using time_pixel_ok [of a b x w "PInt t"] by (auto simp: pixel_of_def)

lemma pixel_of_mono:
  assumes "val a < val b" "0 \<le> val w" "s \<le> t"
  shows "pixel_of (a, b) x w s \<le> pixel_of (a, b) x w t"
proof -
  let ?q = "\<lambda>t. lift2 (div) (/) (nmul (nsub (PInt t) a) w) (nsub b a)"
  have pixel: "pixel_of (a, b) x w t = py_int (nadd x (?q t))" for t
    using assms(1) by (simp add: pixel_of_def time_pixel_def ndiv_def)
  have scaled: "(of_int s - val a) * val w \<le> (of_int t - val a) * val w"
    using assms(2,3) by (intro mult_right_mono) simp_all
  have "val (?q s) \<le> val (?q t)"
  proof (cases a; cases b; cases w)
    fix i j k assume "a = PInt i" "b = PInt j" "w = PInt k"
    then show ?thesis
      using assms by (simp add: num_ops zdiv_mono1 mult_right_mono)
  qed (use assms(1) scaled in \<open>simp_all add: num_ops divide_right_mono\<close>)
  then show ?thesis unfolding pixel by (intro py_int_mono) simp
qed

lemma pixel_of_start:
  assumes "val a < val b" "0 \<le> val w" "val a \<le> of_int t"
  shows "py_int x \<le> pixel_of (a, b) x w t"
proof -
  let ?q = "lift2 (div) (/) (nmul (nsub (PInt t) a) w) (nsub b a)"
  have "0 \<le> (of_int t - val a) * val w" using assms(2,3) by simp
  then have "0 \<le> val ?q"
    using assms by (cases a; cases b; cases w) (simp_all add: num_ops pos_imp_zdiv_nonneg_iff)
  then have "py_int x \<le> py_int (nadd x ?q)" by (intro py_int_mono) simp
  then show ?thesis using assms(1) by (simp add: pixel_of_def time_pixel_def ndiv_def)
qed

text \<open>The loop, for events whose pixels do not decrease from the last mark on.\<close>

lemma draw_event_loop:
  assumes "\<And>e. time_pixel view x w (PInt (ev_at e)) = Inr (f e)"
    and "sorted_wrt (\<le>) (last_x # map f es)"
  shows "\<exists>new last'. rfold (draw_event view x w) (last_x, drawn) es = Inr (last', drawn @ new) \<and>
    sorted_wrt (\<lambda>p q. p + 2 < q) (last_x # map fst new) \<and> list_all (\<lambda>(p, e). e \<in> set es \<and> p = f e) new \<and>
    list_all (\<lambda>e. list_ex (\<lambda>p. p \<le> f e \<and> f e \<le> p + 2) (last_x # map fst new)) es"
  using assms(2)
proof (induction es arbitrary: last_x drawn)
  case (Cons e es)
  show ?case
  proof (cases "f e > last_x + 2")
    case True
    have step: "draw_event view x w (last_x, drawn) e = Inr (f e, drawn @ [(f e, e)])"
      using True assms(1) by (simp add: draw_event_def)
    obtain new last' where new: "rfold (draw_event view x w) (f e, drawn @ [(f e, e)]) es = Inr (last', (drawn @ [(f e, e)]) @ new)"
      "sorted_wrt (\<lambda>p q. p + 2 < q) (f e # map fst new)" "list_all (\<lambda>(p, e). e \<in> set es \<and> p = f e) new"
      "list_all (\<lambda>e'. list_ex (\<lambda>p. p \<le> f e' \<and> f e' \<le> p + 2) (f e # map fst new)) es"
      using Cons.IH [of "f e" "drawn @ [(f e, e)]"] Cons.prems by auto
    have "rfold (draw_event view x w) (last_x, drawn) (e # es) = Inr (last', drawn @ ((f e, e) # new))"
      using step new(1) by simp
    moreover have "sorted_wrt (\<lambda>p q. p + 2 < q) (last_x # map fst ((f e, e) # new))"
      using True new(2) by fastforce
    moreover have "list_all (\<lambda>(p, e'). e' \<in> set (e # es) \<and> p = f e') ((f e, e) # new)"
      using new(3) by (auto simp: list_all_iff)
    moreover have "list_all (\<lambda>e'. list_ex (\<lambda>p. p \<le> f e' \<and> f e' \<le> p + 2) (last_x # map fst ((f e, e) # new))) (e # es)"
      using new(4) by (auto simp: list_all_iff list_ex_iff)
    ultimately show ?thesis by blast
  next
    case False
    have step: "draw_event view x w (last_x, drawn) e = Inr (last_x, drawn)"
      using False assms(1) by (simp add: draw_event_def)
    obtain new last' where new: "rfold (draw_event view x w) (last_x, drawn) es = Inr (last', drawn @ new)"
      "sorted_wrt (\<lambda>p q. p + 2 < q) (last_x # map fst new)" "list_all (\<lambda>(p, e). e \<in> set es \<and> p = f e) new"
      "list_all (\<lambda>e'. list_ex (\<lambda>p. p \<le> f e' \<and> f e' \<le> p + 2) (last_x # map fst new)) es"
      using Cons.IH [of last_x drawn] Cons.prems by auto
    have "list_all (\<lambda>(p, e'). e' \<in> set (e # es) \<and> p = f e') new"
      using new(3) by (auto simp: list_all_iff)
    moreover have "list_all (\<lambda>e'. list_ex (\<lambda>p. p \<le> f e' \<and> f e' \<le> p + 2) (last_x # map fst new)) (e # es)"
      using new(4) False Cons.prems by auto
    ultimately show ?thesis using step new(1,2) by auto
  qed
qed simp

text \<open>
  The marks of the events. On events in strict order and an interval that is not empty they
  are more than two pixels apart and from the left end; each mark stands at the pixel of its event;
  and an event found by the search is left out only when a mark or the left end is at most two
  pixels to its left.
\<close>

theorem event_marks_spec:
  assumes "events_ok es" "val a < val b" "0 \<le> val w"
  shows "\<exists>drawn. event_marks (a, b) x w es = Inr drawn \<and>
    sorted_wrt (\<lambda>p q. p + 2 < q) (py_int x # map fst drawn) \<and>
    list_all (\<lambda>(p, e). e \<in> set (get_events es (val a) (val b)) \<and> time_pixel (a, b) x w (PInt (ev_at e)) = Inr p) drawn \<and>
    list_all (\<lambda>e. list_ex (\<lambda>p. p \<le> pixel_of (a, b) x w (ev_at e) \<and> pixel_of (a, b) x w (ev_at e) \<le> p + 2)
      (py_int x # map fst drawn)) (get_events es (val a) (val b))"
proof -
  let ?f = "\<lambda>e. pixel_of (a, b) x w (ev_at e)" and ?found = "get_events es (val a) (val b)"
  have pix: "time_pixel (a, b) x w (PInt (ev_at e)) = Inr (?f e)" for e
    using assms(2) by (simp add: time_pixel_of)
  have "sorted_wrt (\<le>) (py_int x # map ?f ?found)"
    using get_events_sorted(1) [OF assms(1), of "val a" "val b"] get_events_sorted(2) [OF assms(1)] assms(2,3)
    by (auto simp: sorted_wrt_map pixel_of_mono pixel_of_start elim!: sorted_wrt_mono_rel [rotated])
  from draw_event_loop [OF pix this, of "[]"]
  obtain new last' where new: "rfold (draw_event (a, b) x w) (py_int x, []) ?found = Inr (last', new)"
    "sorted_wrt (\<lambda>p q. p + 2 < q) (py_int x # map fst new)" "list_all (\<lambda>(p, e). e \<in> set ?found \<and> p = ?f e) new"
    "list_all (\<lambda>e. list_ex (\<lambda>p. p \<le> ?f e \<and> ?f e \<le> p + 2) (py_int x # map fst new)) ?found" by auto
  have "event_marks (a, b) x w es = Inr new"
    using new(1) by (simp add: event_marks_def get_events_bounds_def get_events_def)
  moreover have "list_all (\<lambda>(p, e). e \<in> set ?found \<and> time_pixel (a, b) x w (PInt (ev_at e)) = Inr p) new"
    using new(3) by (auto simp: pix list_all_iff)
  ultimately show ?thesis using new(2,4) by blast
qed

section \<open>Examples\<close>

definition plain :: extents where
  "plain s = \<lparr> y_bearing = PInt 0, text_width = PInt 8, text_height = PInt 8 \<rparr>"

definition one_range :: "timeline list" where
  "one_range = [(new_timeline ''t'')\<lparr> tl_ranges :=
     [(new_ranges ''r'')\<lparr> tr_ranges := [\<lparr> r_start = 0, r_end = 100, r_value = ''a'' \<rparr>] \<rparr>] \<rparr>]"

definition one_graphic :: graphic where
  "one_graphic = new_graphic plain [''a''] one_range (PInt 0) (PInt 100)"

lemma closest_at: "closest_loop 20 1 = 10" "closest_loop 100 1 = 10"
  by (simp_all add: closest_loop.simps)

lemma one_set_range: "fst (set_range (PInt 20) (PInt 40) one_graphic) = Inr ()"
  by (simp add: set_range_def g_layout_def one_graphic_def new_graphic_def scale_delta_def first_tick_def last_tick_def
      closest_at num_ops nmax_def nmin_def nlt_def Let_def)

theorem draw_graphic_witness:
  "\<exists>calls. draw_graphic (snd (set_range (PInt 20) (PInt 40) one_graphic)) [last default_colors]
     (add_color ''a'' (last default_colors) (new_colors\<lparr> spare := butlast default_colors \<rparr>)) =
       Inr (add_color ''a'' (last default_colors) (new_colors\<lparr> spare := butlast default_colors \<rparr>), calls) \<and>
     depth 0 calls = Some 1"
proof (rule draw_graphic_spec)
  show "g_legends one_graphic = get_all_range_values (g_timelines one_graphic)"
    by (simp add: one_graphic_def new_graphic_def one_range_def get_all_range_values_def new_timeline_def new_ranges_def dkeys_def)
  show "legend_colors new_colors (g_legends one_graphic) = Inr ([last default_colors],
      add_color ''a'' (last default_colors) (new_colors\<lparr> spare := butlast default_colors \<rparr>))"
    by (simp add: one_graphic_def new_graphic_def legend_colors_def lookup_step_def lookup_color_def new_colors_def default_colors_def)
  show "set_range (PInt 20) (PInt 40) one_graphic = (Inr (), snd (set_range (PInt 20) (PInt 40) one_graphic))"
    using one_set_range by (metis prod.collapse)
  show "val (r_lo (snd (set_range (PInt 20) (PInt 40) one_graphic))) \<noteq> val (r_hi (snd (set_range (PInt 20) (PInt 40) one_graphic)))"
    by (simp add: set_range_range one_graphic_def new_graphic_def)
  show "val (bot_lo (snd (set_range (PInt 20) (PInt 40) one_graphic))) \<noteq> val (bot_hi (snd (set_range (PInt 20) (PInt 40) one_graphic)))"
    by (simp add: set_range_def g_layout_def one_graphic_def new_graphic_def Let_def split: sum.split)
qed

theorem event_marks_witness:
  "\<exists>drawn. event_marks (PFloat 5, PFloat 35) (PInt 0) (PInt 60) three_events = Inr drawn \<and>
     sorted_wrt (\<lambda>p q. p + 2 < q) (0 # map fst drawn)"
proof -
  have "events_ok three_events" by (simp add: three_events_def events_ok_def)
  from event_marks_spec [OF this, of "PFloat 5" "PFloat 35" "PInt 60" "PInt 0"] show ?thesis by auto
qed

end
