(* ===== verification/Cflags.thy ===== *)
theory Cflags
  imports Prelude
begin

text \<open>
  \<open>waf-tools/cflags.py\<close>: the compiler flags of a build profile. Profiles are those of \<open>wscript\<close>, which replaces the table
  of the module, or any other table. A level for which a class has no flags gives \<open>None\<close>, and appending or
  unpacking that is a \<open>TypeError\<close>.
\<close>

section \<open>The traits of the compilers\<close>

datatype compiler = Gcc | Icc | Msvc

fun warnings_flags :: "compiler \<Rightarrow> string list list" where
  "warnings_flags Gcc = [[''-Wall''], [''-Werror''], [''-Wextra'']]"
| "warnings_flags Icc = [[], [], [''-Wall'']]"
| "warnings_flags Msvc = [[''/W2''], [''/WX''], [''/Wall'']]"

fun warnings_loop :: "string list list \<Rightarrow> nat \<Rightarrow> nat \<Rightarrow> string list \<Rightarrow> string list" where
  "warnings_loop flags l 0 warnings = warnings"
| "warnings_loop flags l (Suc n) warnings =
     (if l < length flags then warnings_loop flags (Suc l) n (warnings @ flags ! l) else warnings)"

definition get_warnings_flags :: "compiler \<Rightarrow> int \<Rightarrow> string list" where
  "get_warnings_flags c level = warnings_loop (warnings_flags c) 0 (nat level) []"

definition get_optimization_flags :: "compiler \<Rightarrow> int \<Rightarrow> string list option" where
  "get_optimization_flags c level =
     (case c of
        Msvc \<Rightarrow>
          (if level = 0 then Some [''/Od''] else if level = 1 then Some [] else if level = 2 then Some [''/O2'']
           else if level = 3 then Some [''/Ox''] else None)
      | _ \<Rightarrow>
          (if level = 0 then Some [''-O0''] else if level = 1 then Some [''-O''] else if level = 2 then Some [''-O2'']
           else if level = 3 then Some [''-O3''] else None))"

definition get_debug_flags :: "compiler \<Rightarrow> int \<Rightarrow> (string list \<times> string list) option" where
  "get_debug_flags c level =
     (case c of
        Msvc \<Rightarrow>
          (if level = 0 then Some ([], [''NDEBUG'']) else if level = 1 then Some ([''/ZI'', ''/RTC1''], [])
           else if level \<ge> 2 then Some ([''/ZI'', ''/RTC1''], [''_DEBUG'']) else None)
      | _ \<Rightarrow>
          (if level = 0 then Some ([''-g0''], [''NDEBUG'']) else if level = 1 then Some ([''-g''], [])
           else if level \<ge> 2 then Some ([''-ggdb'', ''-g3''], [''_DEBUG'']) else None))"

definition compiler_mapping :: "(string, compiler) dict" where
  "compiler_mapping = [(''gcc'', Gcc), (''g++'', Gcc), (''msvc'', Msvc), (''icc'', Icc), (''icpc'', Icc)]"

type_synonym profiles = "(string, int \<times> int \<times> int) dict"

definition default_profiles :: profiles where
  "default_profiles = [(''default'', (2, 1, 1)), (''debug'', (0, 2, 3)), (''release'', (3, 1, 0))]"

definition wscript_profiles :: profiles where
  "wscript_profiles = [(''debug'', (0, 2, 3)), (''optimized'', (3, 2, 1)), (''release'', (3, 2, 0))]"

section \<open>\<open>configure\<close>\<close>

record flag_env =
  ccflags :: "string list"
  ccdefines :: "string list"
  cxxflags :: "string list"
  cxxdefines :: "string list"

definition find_compiler :: "string option \<Rightarrow> string option \<Rightarrow> compiler option" where
  "find_compiler cc cxx =
     (case Option.bind cc (dget compiler_mapping) of
        Some c \<Rightarrow> Some c
      | None \<Rightarrow> Option.bind cxx (dget compiler_mapping))"

definition add_cc_flags :: "string list \<Rightarrow> string list \<Rightarrow> string list \<Rightarrow> string list \<Rightarrow> flag_env \<Rightarrow> flag_env" where
  "add_cc_flags optimizations debug warnings debug_defs env =
     env\<lparr> ccflags := ccflags env @ optimizations @ debug @ warnings, ccdefines := ccdefines env @ debug_defs \<rparr>"

definition add_cxx_flags :: "string list \<Rightarrow> string list \<Rightarrow> string list \<Rightarrow> string list \<Rightarrow> flag_env \<Rightarrow> flag_env" where
  "add_cxx_flags optimizations debug warnings debug_defs env =
     env\<lparr> cxxflags := cxxflags env @ optimizations @ debug @ warnings, cxxdefines := cxxdefines env @ debug_defs \<rparr>"

text \<open>An empty name of a compiler is read as none.\<close>

definition or_None :: "string option \<Rightarrow> string option" where
  "or_None name = (if name = Some [] then None else name)"

definition configure_flags :: "profiles \<Rightarrow> string \<Rightarrow> string option \<Rightarrow> string option \<Rightarrow> flag_env \<Rightarrow> flag_env res" where
  "configure_flags profiles build_profile compiler_cc compiler_cxx env =
     (let cc = or_None compiler_cc; cxx = or_None compiler_cxx in
      if cc = None \<and> cxx = None then Inl WafError
      else
        (case find_compiler cc cxx of
           None \<Rightarrow> Inr env
         | Some c \<Rightarrow>
             rbind (dlookup profiles build_profile) (\<lambda>(opt_level, warn_level, dbg_level).
               case get_debug_flags c dbg_level of
                 None \<Rightarrow> Inl TypeError
               | Some (debug, debug_defs) \<Rightarrow>
                   let optimizations = get_optimization_flags c opt_level;
                       warnings = get_warnings_flags c warn_level;
                       need_cc = (cc \<noteq> None \<and> ccflags env = []);
                       need_cxx = (cxx \<noteq> None \<and> cxxflags env = []) in
                   case optimizations of
                     None \<Rightarrow> if need_cc \<or> need_cxx then Inl TypeError else Inr env
                   | Some opts \<Rightarrow>
                       let env = (if need_cc then add_cc_flags opts debug warnings debug_defs env else env) in
                       Inr (if need_cxx then add_cxx_flags opts debug warnings debug_defs env else env))))"

section \<open>Properties\<close>

lemma warnings_loop_eq: "warnings_loop flags l n warnings = warnings @ concat (take n (drop l flags))"
proof (induction flags l n warnings rule: warnings_loop.induct)
  case (2 flags l n warnings)
  then show ?case by (cases "l < length flags") (simp_all add: Cons_nth_drop_Suc [symmetric])
qed simp

text \<open>The warnings of a level include those of the levels below.\<close>

lemma get_warnings_flags_eq: "get_warnings_flags c level = concat (take (nat level) (warnings_flags c))"
  by (simp add: get_warnings_flags_def warnings_loop_eq)

lemma warnings_cumulative: "i \<le> j \<Longrightarrow> set (get_warnings_flags c i) \<subseteq> set (get_warnings_flags c j)"
  using set_take_subset_set_take [of "nat i" "nat j" "warnings_flags c"] nat_mono [of i j]
  unfolding get_warnings_flags_eq set_concat by blast

text \<open>
  Configuring for one of the profiles never fails when a compiler is known by name, and leaves flags that
  the user has set alone. Otherwise the flags are those of the profile: assertions are switched off exactly
  in the profile \<open>release\<close>, and the macro for debug code is set exactly in \<open>debug\<close>.
\<close>

theorem configure_flags_spec:
  assumes "profiles \<in> {default_profiles, wscript_profiles}" "dget profiles profile = Some (o_level, w_level, d_level)"
    and "cxx \<noteq> []" "dget compiler_mapping cxx = Some c"
  shows "\<exists>opts debug defs. get_optimization_flags c o_level = Some opts \<and> get_debug_flags c d_level = Some (debug, defs) \<and>
    configure_flags profiles profile None (Some cxx) env =
      Inr (if cxxflags env \<noteq> [] then env
           else env\<lparr> cxxflags := opts @ debug @ concat (take (nat w_level) (warnings_flags c)),
                     cxxdefines := cxxdefines env @ defs \<rparr>) \<and>
    (''NDEBUG'' \<in> set defs \<longleftrightarrow> profile = ''release'') \<and> (''_DEBUG'' \<in> set defs \<longleftrightarrow> profile = ''debug'')"
proof -
  have levels: "(profile = ''release'' \<longleftrightarrow> d_level = 0) \<and> (profile = ''debug'' \<longleftrightarrow> d_level = 3) \<and>
      d_level \<in> {0, 1, 3} \<and> o_level \<in> {0, 2, 3}"
    using assms(1) map_of_SomeD [OF assms(2)] by (auto simp: default_profiles_def wscript_profiles_def)
  obtain opts where opts: "get_optimization_flags c o_level = Some opts"
    using levels by (cases c; elim conjE insertE emptyE; simp add: get_optimization_flags_def)
  obtain debug defs where debug: "get_debug_flags c d_level = Some (debug, defs)"
    "''NDEBUG'' \<in> set defs \<longleftrightarrow> d_level = 0" "''_DEBUG'' \<in> set defs \<longleftrightarrow> d_level = 3"
    using levels by (cases c; elim conjE insertE emptyE; simp add: get_debug_flags_def)
  have "configure_flags profiles profile None (Some cxx) env =
      Inr (if cxxflags env \<noteq> [] then env
           else env\<lparr> cxxflags := opts @ debug @ concat (take (nat w_level) (warnings_flags c)), cxxdefines := cxxdefines env @ defs \<rparr>)"
    using assms(2-4) opts debug(1)
    by (simp add: configure_flags_def or_None_def find_compiler_def dlookup_def get_warnings_flags_eq add_cxx_flags_def)
  then show ?thesis using opts debug levels by blast
qed

definition no_flags :: flag_env where
  "no_flags = \<lparr> ccflags = [], ccdefines = [], cxxflags = [], cxxdefines = [] \<rparr>"

lemma configure_flags_witness:
  "configure_flags wscript_profiles ''release'' None (Some ''g++'') no_flags =
    Inr (no_flags\<lparr> cxxflags := [''-O3'', ''-g0'', ''-Wall'', ''-Werror''], cxxdefines := [''NDEBUG''] \<rparr>)"
  using configure_flags_spec [of wscript_profiles "''release''" 3 2 0 "''g++''" Gcc no_flags]
  by (auto simp: wscript_profiles_def compiler_mapping_def get_optimization_flags_def get_debug_flags_def no_flags_def
      numeral_2_eq_2)

end
