(* ===== verification/Shlex.thy ===== *)
theory Shlex
  imports Prelude
begin

text \<open>
  \<open>shlex.split\<close> of the standard library, which \<open>waf-tools/shellcmd.py\<close> and \<open>wutils.py\<close> use to split
  a command line: the tokenizer in its POSIX mode, with splitting at white space only and without
  comments.
\<close>

section \<open>The tokenizer\<close>

text \<open>
  The states of \<open>read_token\<close>: between tokens, inside a token, inside quotes, and behind a
  backslash together with the state to go back to.
\<close>

datatype lex_state = Blank | InWord | InQuote char | Escaped lex_state

definition is_blank :: "char \<Rightarrow> bool" where
  "is_blank c \<longleftrightarrow> c \<in> set [CHR '' '', CHR 0x09, CHR 0x0D, CHR 0x0A]"

definition is_quote :: "char \<Rightarrow> bool" where
  "is_quote c \<longleftrightarrow> c = CHR 0x27 \<or> c = CHR 0x22"

definition backslash :: char where
  "backslash = CHR 0x5C"

text \<open>
  \<open>tok\<close> is the token so far and \<open>quoted\<close> whether it had quotes, which makes an empty token count.
  Inside double quotes a backslash escapes only itself and the quote.
\<close>

definition emit :: "string \<Rightarrow> bool \<Rightarrow> string list" where
  "emit tok quoted = (if tok \<noteq> [] \<or> quoted then [tok] else [])"

fun lex :: "lex_state \<Rightarrow> string \<Rightarrow> bool \<Rightarrow> string \<Rightarrow> string list res" where
  "lex Blank tok quoted [] = Inr (emit tok quoted)"
| "lex InWord tok quoted [] = Inr (emit tok quoted)"
| "lex (InQuote q) tok quoted [] = Inl ValueError"
| "lex (Escaped back) tok quoted [] = Inl ValueError"
| "lex Blank tok quoted (c # cs) =
     (if is_blank c then lex Blank [] False cs
      else if c = backslash then lex (Escaped InWord) tok quoted cs
      else if is_quote c then lex (InQuote c) tok quoted cs
      else lex InWord [c] quoted cs)"
| "lex InWord tok quoted (c # cs) =
     (if is_blank c then rbind (lex Blank [] False cs) (\<lambda>ts. Inr (emit tok quoted @ ts))
      else if is_quote c then lex (InQuote c) tok quoted cs
      else if c = backslash then lex (Escaped InWord) tok quoted cs
      else lex InWord (tok @ [c]) quoted cs)"
| "lex (InQuote q) tok quoted (c # cs) =
     (if c = q then lex InWord tok True cs
      else if c = backslash \<and> q = CHR 0x22 then lex (Escaped (InQuote q)) tok True cs
      else lex (InQuote q) (tok @ [c]) True cs)"
| "lex (Escaped back) tok quoted (c # cs) =
     (case back of
        InQuote q \<Rightarrow> lex back (if c \<noteq> backslash \<and> c \<noteq> q then tok @ [backslash, c] else tok @ [c]) quoted cs
      | _ \<Rightarrow> lex back (tok @ [c]) quoted cs)"

definition shlex_split :: "string \<Rightarrow> string list res" where
  "shlex_split s = lex Blank [] False s"

section \<open>Words\<close>

definition plain_char :: "char \<Rightarrow> bool" where
  "plain_char c \<longleftrightarrow> \<not> is_blank c \<and> \<not> is_quote c \<and> c \<noteq> backslash"

definition plain_word :: "string \<Rightarrow> bool" where
  "plain_word s \<longleftrightarrow> s \<noteq> [] \<and> list_all plain_char s"

lemma lex_plain:
  "list_all plain_char s \<Longrightarrow> lex InWord tok quoted (s @ cs) = lex InWord (tok @ s) quoted cs"
  by (induction s arbitrary: tok) (simp_all add: plain_char_def)

lemma lex_word:
  assumes "plain_word s"
  shows "lex Blank [] False (s @ cs) = lex InWord s False cs"
proof -
  obtain c r where s: "s = c # r" "plain_char c" "list_all plain_char r"
    using assms by (cases s) (auto simp: plain_word_def)
  then show ?thesis using lex_plain [of r "[c]" False cs] by (simp add: plain_char_def)
qed

text \<open>A text that is read as one token, whatever follows it.\<close>

definition renders :: "string \<Rightarrow> string \<Rightarrow> bool" where
  "renders r w \<longleftrightarrow> (\<exists>quoted. (w \<noteq> [] \<or> quoted) \<and> (\<forall>cs. lex Blank [] False (r @ cs) = lex InWord w quoted cs))"

lemma shlex_split_rendered:
  "list_all2 renders rs ws \<Longrightarrow> shlex_split (join_with '' '' rs) = Inr ws"
proof (induction rule: list_all2_induct)
  case Nil
  then show ?case by (simp add: shlex_split_def join_with_def emit_def)
next
  case (Cons r rs w ws)
  then obtain quoted where r: "w \<noteq> [] \<or> quoted" "\<And>cs. lex Blank [] False (r @ cs) = lex InWord w quoted cs"
    by (auto simp: renders_def)
  show ?case
  proof (cases rs)
    case Nil
    then have "ws = []" using Cons.hyps(2) by simp
    then show ?thesis using Nil r(1) r(2) [of "[]"] by (simp add: shlex_split_def join_with_def emit_def)
  next
    case (Cons v vs)
    then have "join_with '' '' (r # rs) = r @ CHR '' '' # join_with '' '' rs"
      by (simp add: join_with_def)
    then show ?thesis
      using Cons.IH r by (simp add: shlex_split_def is_blank_def emit_def)
  qed
qed

lemma renders_plain: "plain_word w \<Longrightarrow> renders w w"
  using lex_word by (auto simp: renders_def plain_word_def)

text \<open>
  A way to write words such that the lexer reads each back: the contract between the parts that make command lines and
  those that split them.
\<close>

locale quoting =
  fixes writable_word :: "string \<Rightarrow> bool"
    and write_word :: "string \<Rightarrow> string"
  assumes renders_written: "writable_word w \<Longrightarrow> renders (write_word w) w"
begin

lemma split_written: "list_all writable_word ws \<Longrightarrow> shlex_split (join_with '' '' (map write_word ws)) = Inr ws"
  by (rule shlex_split_rendered) (auto simp: list_all2_conv_all_nth list_all_length renders_written)

end

text \<open>Words without quotes, backslashes and blanks are written as they are.\<close>

interpretation bare: quoting plain_word "\<lambda>w. w"
  by unfold_locales (rule renders_plain)

text \<open>The lexer raises no exception but \<open>ValueError\<close>, and only when a quote or an escape is left open.\<close>

lemma lex_error: "lex st tok quoted s = Inl e \<Longrightarrow> e = ValueError"
  by (induction st tok quoted s rule: lex.induct) (auto simp: rbind_Inl_iff split: if_splits lex_state.splits)

text \<open>A token in double quotes, with its quotes and backslashes escaped.\<close>

definition quote_char :: "char \<Rightarrow> string" where
  "quote_char c = (if c = backslash \<or> c = CHR 0x22 then [backslash, c] else [c])"

definition quote_word :: "string \<Rightarrow> string" where
  "quote_word s = [CHR 0x22] @ concat (map quote_char s) @ [CHR 0x22]"

lemma lex_quoted:
  "lex (InQuote (CHR 0x22)) tok True (concat (map quote_char s) @ cs) = lex (InQuote (CHR 0x22)) (tok @ s) True cs"
  by (induction s arbitrary: tok) (auto simp: quote_char_def backslash_def)

lemma renders_quoted: "renders (quote_word w) w"
proof -
  have "lex Blank [] False (quote_word w @ cs) = lex InWord w True cs" for cs
  proof -
    have "lex Blank [] False (quote_word w @ cs) =
        lex (InQuote (CHR 0x22)) [] False (concat (map quote_char w) @ CHR 0x22 # cs)"
      by (simp add: quote_word_def is_blank_def is_quote_def backslash_def)
    also have "\<dots> = lex (InQuote (CHR 0x22)) [] True (concat (map quote_char w) @ CHR 0x22 # cs)"
      by (cases w) (simp_all add: quote_char_def backslash_def)
    finally show ?thesis by (simp add: lex_quoted)
  qed
  then show ?thesis unfolding renders_def by (intro exI [of _ True]) simp
qed

text \<open>Every list of words can be written as a line.\<close>

interpretation quoted: quoting "\<lambda>w. True" quote_word
  by unfold_locales (rule renders_quoted)

lemma shlex_split_quoted: "shlex_split (join_with '' '' (map quote_word ws)) = Inr ws"
  using quoted.split_written [of ws] by (simp add: list_all_iff)

end
