(* ===== verification/Wutils.thy ===== *)
theory Wutils
  imports Shlex Paths
begin

text \<open>
  \<open>wutils.py\<close>: finding a program of the build, the environment for it, its command line and running
  it. The build system \<open>waf\<close> (the programs it knows and the paths of its nodes), the options and the
  start of a process are parameters. The texts of the errors are left out, and so is the replacement
  of the loop that hands out tasks (\<open>monkey_patch_Runner_start\<close>), which is a copy of a part of \<open>waf\<close>.
\<close>

section \<open>Finding a program\<close>

definition get_command_template :: "string option \<Rightarrow> string list \<Rightarrow> string" where
  "get_command_template option arguments =
     (let cmd = (case option of None \<Rightarrow> ''%s'' | Some t \<Rightarrow> if t = [] then ''%s'' else t) in
      foldl (\<lambda>c arg. c @ '' '' @ arg) cmd arguments)"

text \<open>\<open>os.path.commonprefix\<close> of two lists, and \<open>os.path.join\<close> of several parts.\<close>

fun common_prefix :: "'a list \<Rightarrow> 'a list \<Rightarrow> 'a list" where
  "common_prefix (x # xs) (y # ys) = (if x = y then x # common_prefix xs ys else [])"
| "common_prefix _ _ = []"

definition path_join_all :: "string list \<Rightarrow> string" where
  "path_join_all parts = (case parts of [] \<Rightarrow> [] | p # ps \<Rightarrow> foldl path_join p ps)"

definition rel_list :: "string list \<Rightarrow> string list \<Rightarrow> string list" where
  "rel_list path_list start_list =
     (let i = length (common_prefix start_list path_list) in
      replicate (length start_list - i) ''..'' @ drop i path_list)"

text \<open>The arguments are what \<open>os.path.abspath\<close> makes of the path and the start.\<close>

definition relpath :: "string \<Rightarrow> string \<Rightarrow> string res" where
  "relpath path start =
     (if path = [] then Inl ValueError
      else
        (let l = rel_list (split_on (CHR ''/'') path) (split_on (CHR ''/'') start) in
         Inr (if l = [] then ''.'' else path_join_all l)))"

record program =
  is_ns3_program :: bool
  prog_path :: string
  prog_build :: string
  prog_target :: string

definition in_subtree :: "string \<Rightarrow> program \<Rightarrow> bool" where
  "in_subtree launch_dir p \<longleftrightarrow> startswith (prog_path p) launch_dir \<or> startswith (prog_build p) launch_dir"

fun find_program_loop :: "string \<Rightarrow> string \<Rightarrow> program list \<Rightarrow> program res" where
  "find_program_loop name launch_dir [] = Inl ValueError"
| "find_program_loop name launch_dir (p # ps) =
     (if \<not> is_ns3_program p \<or> \<not> in_subtree launch_dir p then find_program_loop name launch_dir ps
      else
        rbind (relpath (prog_path p) launch_dir) (\<lambda>rel.
          if name = prog_target p \<or> name = path_join rel (prog_target p) then Inr p
          else find_program_loop name launch_dir ps))"

definition find_program :: "program list \<Rightarrow> string \<Rightarrow> string \<Rightarrow> program res" where
  "find_program all_task_gen launch_dir program_name = find_program_loop program_name launch_dir all_task_gen"

section \<open>The environment of a program\<close>

definition path_variable :: "string \<Rightarrow> string" where
  "path_variable platform =
     (if platform = ''linux2'' then ''LD_LIBRARY_PATH''
      else if platform = ''darwin'' then ''DYLD_LIBRARY_PATH''
      else if platform = ''win32'' then ''PATH''
      else if platform = ''cygwin'' then ''PATH''
      else ''LD_LIBRARY_PATH'')"

definition pathsep :: "string \<Rightarrow> string" where
  "pathsep platform = (if platform = ''win32'' then '';'' else '':'')"

text \<open>Directories are put in front of a variable.\<close>

definition prepend :: "string \<Rightarrow> string \<Rightarrow> string list \<Rightarrow> (string, string) dict \<Rightarrow> (string, string) dict" where
  "prepend sep var dirs env =
     (case dget env var of
        Some v \<Rightarrow> dset var (join_with sep (dirs @ [v])) env
      | None \<Rightarrow> dset var (join_with sep dirs) env)"

record build =
  module_path :: "string list"
  executable_path :: "string list"
  pymoddir :: string
  pyvizdir :: string

definition get_proc_env :: "string \<Rightarrow> build \<Rightarrow> (string, string) dict \<Rightarrow> (string, string) dict option \<Rightarrow>
    (string, string) dict" where
  "get_proc_env platform bld environ os_env =
     (let sep = pathsep platform;
          env0 = (case os_env of None \<Rightarrow> environ | Some d \<Rightarrow> foldl (\<lambda>e (k, v). dset k v e) environ d);
          env1 = prepend sep (path_variable platform) (module_path bld) env0;
          env2 = prepend sep ''PYTHONPATH'' [pymoddir bld, pyvizdir bld] env1
      in prepend sep ''PATH'' (executable_path bld) env2)"

section \<open>Running\<close>

record waf_options =
  wo_valgrind :: bool
  wo_command_template :: string
  wo_cwd_launch :: "string option"

text \<open>
  Starting a process gives its exit code and the lines of its error stream, or an exception. The result
  has the lines passed on to the error stream of the build.
\<close>

type_synonym launcher =
  "string list \<Rightarrow> (string, string) dict \<Rightarrow> string option \<Rightarrow> (int \<times> string list) res"

definition leak_summary :: string where
  "leak_summary = ''== LEAK SUMMARY''"

definition valgrind_argv :: "string \<Rightarrow> string list \<Rightarrow> string list" where
  "valgrind_argv valgrind argv =
     [valgrind, ''--leak-check=full'', ''--show-reachable=yes'', ''--error-exitcode=1''] @ argv"

definition run_argv :: "launcher \<Rightarrow> bool \<Rightarrow> waf_options \<Rightarrow> string \<Rightarrow> (string, string) dict \<Rightarrow> string list \<Rightarrow>
    string option \<Rightarrow> bool \<Rightarrow> (int \<times> string list) res" where
  "run_argv launch windows opts valgrind proc_env argv cwd force_no_valgrind =
     rbind
       (if wo_valgrind opts \<and> \<not> force_no_valgrind then
          (if wo_command_template opts \<noteq> [] then Inl WafError
           else if valgrind = [] then Inl WafError
           else
             rbind (launch (valgrind_argv valgrind argv) proc_env cwd) (\<lambda>(retval, lines).
               Inr (if retval = 0 \<and> list_ex (py_in leak_summary) lines then 1 else retval, lines)))
        else
          (case launch argv proc_env cwd of
             Inl e \<Rightarrow> Inl (if windows \<and> e = OSError then WafError else e)
           | Inr (retval, lines) \<Rightarrow> Inr (retval, [])))
       (\<lambda>(retval, lines). if retval \<noteq> 0 then Inl WafError else Inr (retval, lines))"

text \<open>
  \<open>template % (arg,)\<close> for the conversions \<open>%s\<close> and \<open>%%\<close>; what other conversions do with a text is not
  modelled, they count as an error here.
\<close>

fun percent_format :: "string \<Rightarrow> string list \<Rightarrow> string res" where
  "percent_format [] args = (if args = [] then Inr [] else Inl TypeError)"
| "percent_format [c] args =
     (if c = CHR ''%'' then Inl ValueError else rbind (percent_format [] args) (\<lambda>s. Inr (c # s)))"
| "percent_format (c # d # s) args =
     (if c \<noteq> CHR ''%'' then rbind (percent_format (d # s) args) (\<lambda>t. Inr (c # t))
      else if d = CHR ''%'' then rbind (percent_format s args) (\<lambda>t. Inr (CHR ''%'' # t))
      else if d = CHR ''s'' then
        (case args of
           [] \<Rightarrow> Inl TypeError
         | a # as \<Rightarrow> rbind (percent_format s as) (\<lambda>t. Inr (a @ t)))
      else Inl ValueError)"

definition double_backslashes :: "string \<Rightarrow> string" where
  "double_backslashes s = concat (map (\<lambda>c. if c = backslash then [backslash, backslash] else [c]) s)"

text \<open>\<open>node_path\<close> is the path of the program file that \<open>waf\<close> finds or declares for a program.\<close>

definition waf_find :: "program list \<Rightarrow> string \<Rightarrow> string \<Rightarrow> program res" where
  "waf_find progs launch_dir name =
     (case find_program progs launch_dir name of
        Inl e \<Rightarrow> Inl (if e = ValueError then WafError else e)
      | Inr p \<Rightarrow> Inr p)"

definition get_run_program :: "program list \<Rightarrow> string \<Rightarrow> (program \<Rightarrow> string) \<Rightarrow> string \<Rightarrow> string option \<Rightarrow>
    (string \<times> string list) res" where
  "get_run_program progs launch_dir node_path program_string command_template =
     (case command_template of
        Some template \<Rightarrow>
          if template \<noteq> ''%s'' then
            rbind (waf_find progs launch_dir program_string) (\<lambda>p.
            rbind (percent_format template [node_path p]) (\<lambda>tmpl.
            rbind (shlex_split (double_backslashes tmpl)) (\<lambda>execvec. Inr (program_string, execvec))))
          else
            rbind (shlex_split program_string) (\<lambda>argv. rbind (py_get argv 0) (\<lambda>program_name.
            rbind (waf_find progs launch_dir program_name) (\<lambda>p. Inr (program_name, node_path p # tl argv))))
      | None \<Rightarrow>
          rbind (shlex_split program_string) (\<lambda>argv. rbind (py_get argv 0) (\<lambda>program_name.
          rbind (waf_find progs launch_dir program_name) (\<lambda>p. Inr (program_name, node_path p # tl argv)))))"

definition visual_arguments :: "bool \<Rightarrow> string list" where
  "visual_arguments visualize =
     (if visualize then [''--SimulatorImplementationType=ns3::VisualSimulatorImpl''] else [])"

definition launch_cwd :: "waf_options \<Rightarrow> string option \<Rightarrow> string option" where
  "launch_cwd opts default_cwd =
     (case wo_cwd_launch opts of Some d \<Rightarrow> if d \<noteq> [] then Some d else default_cwd | None \<Rightarrow> default_cwd)"

definition run_program :: "launcher \<Rightarrow> bool \<Rightarrow> waf_options \<Rightarrow> string \<Rightarrow> (string, string) dict \<Rightarrow>
    program list \<Rightarrow> string \<Rightarrow> (program \<Rightarrow> string) \<Rightarrow> string option \<Rightarrow>
    string \<Rightarrow> string option \<Rightarrow> string option \<Rightarrow> bool \<Rightarrow> (int \<times> string list) res" where
  "run_program launch windows opts valgrind proc_env progs launch_dir node_path default_cwd
       program_string command_template cwd visualize =
     rbind (get_run_program progs launch_dir node_path program_string command_template) (\<lambda>(name, execvec).
       run_argv launch windows opts valgrind proc_env (execvec @ visual_arguments visualize)
         (case cwd of None \<Rightarrow> launch_cwd opts default_cwd | Some d \<Rightarrow> Some d) False)"

definition run_python_program :: "launcher \<Rightarrow> bool \<Rightarrow> waf_options \<Rightarrow> string \<Rightarrow> (string, string) dict \<Rightarrow>
    string \<Rightarrow> string option \<Rightarrow> string \<Rightarrow> bool \<Rightarrow> (int \<times> string list) res" where
  "run_python_program launch windows opts valgrind proc_env python default_cwd program_string visualize =
     rbind (shlex_split program_string) (\<lambda>execvec.
       run_argv launch windows opts valgrind proc_env ([python] @ execvec @ visual_arguments visualize)
         (launch_cwd opts default_cwd) False)"

section \<open>Properties\<close>

text \<open>Walking from the start along the relative path, where two dots go up.\<close>

definition walk :: "string list \<Rightarrow> string list \<Rightarrow> string list" where
  "walk start parts = foldl (\<lambda>at part. if part = ''..'' then butlast at else at @ [part]) start parts"

lemma common_prefix_split:
  "\<exists>r s. xs = common_prefix xs ys @ r \<and> ys = common_prefix xs ys @ s"
  by (induction xs ys rule: common_prefix.induct) auto

lemma walk_up: "k \<le> length xs \<Longrightarrow> walk xs (replicate k ''..'') = take (length xs - k) xs"
proof (induction k arbitrary: xs)
  case (Suc k)
  then have "walk xs (replicate (Suc k) ''..'') = walk (butlast xs) (replicate k ''..'')"
    by (simp add: walk_def)
  also have "\<dots> = take (length (butlast xs) - k) (butlast xs)" using Suc by simp
  finally show ?case using Suc.prems by (simp add: butlast_conv_take min_def)
qed (simp add: walk_def)

lemma walk_down: "''..'' \<notin> set parts \<Longrightarrow> walk xs parts = xs @ parts"
  by (induction parts arbitrary: xs) (auto simp: walk_def)

lemma walk_append: "walk xs (as @ bs) = walk (walk xs as) bs"
  by (simp add: walk_def)

lemma walk_rel_list:
  assumes "''..'' \<notin> set path_list"
  shows "walk start_list (rel_list path_list start_list) = path_list"
proof -
  let ?p = "common_prefix start_list path_list"
  obtain r s where rs: "start_list = ?p @ r" "path_list = ?p @ s" using common_prefix_split by blast
  have len: "length ?p \<le> length start_list" "length start_list = length ?p + length r"
    "drop (length ?p) path_list = s" "take (length ?p) start_list = ?p"
    using rs by (metis append_eq_conv_conj length_append le_add1)+
  have "walk start_list (rel_list path_list start_list) = walk ?p s"
    using len by (simp add: rel_list_def walk_append walk_up)
  also have "\<dots> = ?p @ s" using assms rs(2) by (intro walk_down) (metis Un_iff set_append)
  finally show ?thesis using rs(2) by simp
qed

text \<open>The paths of a list variable.\<close>

definition search_path :: "char \<Rightarrow> string \<Rightarrow> (string, string) dict \<Rightarrow> string list" where
  "search_path sep var env = (case dget env var of None \<Rightarrow> [] | Some v \<Rightarrow> split_on sep v)"

lemma join_with_Cons: "ps \<noteq> [] \<Longrightarrow> join_with sep (p # ps) = p @ sep @ join_with sep ps"
  by (cases ps) (simp_all add: join_with_def)

lemma split_join:
  "list_all (\<lambda>d. c \<notin> set d) ds \<Longrightarrow> split_on c (join_with [c] (ds @ [v])) = ds @ split_on c v"
proof (induction ds)
  case (Cons d ds)
  then show ?case by (simp add: join_with_Cons split_on_append)
qed (simp add: join_with_def)

lemma split_join_only:
  assumes "ds \<noteq> []" "list_all (\<lambda>d. c \<notin> set d) ds"
  shows "split_on c (join_with [c] ds) = ds"
proof -
  obtain es e where ds: "ds = es @ [e]" using assms(1) by (cases ds rule: rev_cases) auto
  with assms(2) show ?thesis using split_join [of c es e] by (simp add: split_on_no_sep)
qed

lemma prepend_search_path:
  assumes "dirs \<noteq> []" "list_all (\<lambda>d. c \<notin> set d) dirs"
  shows "search_path c x (prepend [c] var dirs env) = (if x = var then dirs @ search_path c x env else search_path c x env)"
  using split_join [OF assms(2)] split_join_only [OF assms]
  by (simp add: prepend_def search_path_def split: option.split)


text \<open>Without modules the variable becomes empty, which means the current directory.\<close>

lemma no_modules:
  assumes "module_path bld = []" "dget environ ''LD_LIBRARY_PATH'' = None" "platform = ''linux2''"
  shows "dget (get_proc_env platform bld environ None) ''LD_LIBRARY_PATH'' = Some []"
  using assms by (simp add: get_proc_env_def prepend_def path_variable_def join_with_def Let_def split: option.split)

definition matches :: "string \<Rightarrow> string \<Rightarrow> program \<Rightarrow> bool" where
  "matches name launch_dir p \<longleftrightarrow> is_ns3_program p \<and> in_subtree launch_dir p \<and>
     (name = prog_target p \<or>
      (case relpath (prog_path p) launch_dir of Inr rel \<Rightarrow> name = path_join rel (prog_target p) | Inl e \<Rightarrow> False))"

text \<open>
  \<open>find_program\<close> gives the first program of ns-3 below the directory of the call that has the name,
  bare or with its path from there, and raises \<open>ValueError\<close> when there is none.
\<close>

theorem find_program_spec:
  assumes "list_all (\<lambda>p. prog_path p \<noteq> []) progs"
  shows "find_program progs launch_dir name =
    (case find (matches name launch_dir) progs of None \<Rightarrow> Inl ValueError | Some p \<Rightarrow> Inr p)"
  using assms
proof (induction progs)
  case (Cons p ps)
  then obtain rel where "relpath (prog_path p) launch_dir = Inr rel"
    by (simp add: relpath_def Let_def)
  with Cons show ?case by (auto simp: find_program_def matches_def)
qed (simp add: find_program_def)

lemma find_program_mem: "find_program progs launch_dir name = Inr p \<Longrightarrow> p \<in> set progs"
  unfolding find_program_def
  by (induction progs) (auto simp: rbind_Inr_iff split: if_splits)

text \<open>The test for the directory compares texts: a directory whose name only starts the same is below it.\<close>

lemma sibling_in_subtree: "in_subtree ''/src/core'' (p\<lparr> prog_path := ''/src/core-extra'' \<rparr>)"
  by (simp add: in_subtree_def)

text \<open>
  When running a program returns. The process was started (under valgrind with its options, if it was
  asked for), its exit code was 0, and under valgrind no line of its error stream reported a leak;
  in every other case there is an exception.
\<close>

theorem run_argv_spec:
  "(\<exists>lines. run_argv launch windows opts valgrind env argv cwd force = Inr (0, lines)) \<longleftrightarrow>
     (if wo_valgrind opts \<and> \<not> force
      then wo_command_template opts = [] \<and> valgrind \<noteq> [] \<and>
        (\<exists>lines. launch (valgrind_argv valgrind argv) env cwd = Inr (0, lines) \<and> \<not> list_ex (py_in leak_summary) lines)
      else \<exists>lines. launch argv env cwd = Inr (0, lines))"
  by (auto simp: run_argv_def rbind_Inr_iff split: sum.splits if_splits)

lemma run_argv_value: "run_argv launch windows opts valgrind env argv cwd force = Inr (r, lines) \<Longrightarrow> r = 0"
  by (auto simp: run_argv_def rbind_Inr_iff split: sum.splits if_splits)

section \<open>Command lines\<close>

definition bare_word :: "string \<Rightarrow> bool" where
  "bare_word s \<longleftrightarrow> s \<noteq> [] \<and> list_all (\<lambda>c. \<not> is_blank c \<and> \<not> is_quote c) s"

lemma lex_doubled:
  "list_all (\<lambda>c. \<not> is_blank c \<and> \<not> is_quote c) s \<Longrightarrow>
    lex InWord tok quoted (double_backslashes s @ cs) = lex InWord (tok @ s) quoted cs"
proof (induction s arbitrary: tok)
  case (Cons c s)
  have "\<not> is_blank backslash" "\<not> is_quote backslash" by (simp_all add: is_blank_def is_quote_def backslash_def)
  with Cons show ?case by (simp add: double_backslashes_def)
qed (simp add: double_backslashes_def)

lemma renders_doubled:
  assumes "bare_word s"
  shows "renders (double_backslashes s) s"
proof -
  obtain c r where s: "s = c # r" using assms by (cases s) (auto simp: bare_word_def)
  have b: "\<not> is_blank backslash" "\<not> is_quote backslash" by (simp_all add: is_blank_def is_quote_def backslash_def)
  have "lex Blank [] False (double_backslashes s @ cs) = lex InWord s False cs" for cs
    using assms b lex_doubled [of r "[c]" False cs]
    by (auto simp: s bare_word_def double_backslashes_def)
  then show ?thesis using s by (auto simp: renders_def)
qed

lemma double_append: "double_backslashes (a @ b) = double_backslashes a @ double_backslashes b"
  by (simp add: double_backslashes_def)

lemma double_blank: "double_backslashes '' '' = '' ''"
  by (simp add: double_backslashes_def backslash_def)

lemma double_join: "double_backslashes (join_with '' '' ws) = join_with '' '' (map double_backslashes ws)"
proof (induction ws)
  case (Cons w ws)
  show ?case
  proof (cases "ws = []")
    case True
    then show ?thesis by (simp add: join_with_def)
  next
    case False
    then have m: "map double_backslashes ws \<noteq> []" by simp
    show ?thesis
      unfolding join_with_Cons [OF False] list.map join_with_Cons [OF m] double_append double_blank Cons.IH ..
  qed
qed (simp add: join_with_def double_backslashes_def)

interpretation doubled: quoting bare_word double_backslashes
  by unfold_locales (rule renders_doubled)

lemma split_doubled: "list_all bare_word ws \<Longrightarrow> shlex_split (double_backslashes (join_with '' '' ws)) = Inr ws"
  unfolding double_join by (rule doubled.split_written)

lemma percent_plain:
  "CHR ''%'' \<notin> set s \<Longrightarrow> percent_format (s @ r) args = rbind (percent_format r args) (\<lambda>t. Inr (s @ t))"
proof (induction s)
  case (Cons c s)
  then have "percent_format (c # (s @ r)) args = rbind (percent_format (s @ r) args) (\<lambda>t. Inr (c # t))"
    by (cases "s @ r") auto
  with Cons show ?case by (simp add: rbind_def split: sum.split)
qed (simp add: rbind_def split: sum.split)

lemma join_around:
  "join_with sep (pre @ x # post) = concat (map (\<lambda>p. p @ sep) pre) @ x @ concat (map (\<lambda>q. sep @ q) post)"
proof (induction pre)
  case (Cons p pre)
  then show ?case by (simp add: join_with_Cons)
qed (simp add: join_with_def)

lemma percent_template:
  assumes "list_all (\<lambda>w. CHR ''%'' \<notin> set w) (pre @ post)"
  shows "percent_format (join_with '' '' (pre @ ''%s'' # post)) [path] = Inr (join_with '' '' (pre @ path # post))"
proof -
  let ?p = "concat (map (\<lambda>p. p @ '' '') pre)" and ?q = "concat (map (\<lambda>q. '' '' @ q) post)"
  have "CHR ''%'' \<notin> set ?p" "CHR ''%'' \<notin> set ?q" using assms by (auto simp: list_all_iff)
  then show ?thesis using percent_plain [of ?q "[]" "[]"] by (simp add: join_around percent_plain)
qed

definition template_words :: "string list \<Rightarrow> string list \<Rightarrow> bool" where
  "template_words pre post \<longleftrightarrow>
     (pre \<noteq> [] \<or> post \<noteq> []) \<and> list_all bare_word (pre @ post) \<and> list_all (\<lambda>w. CHR ''%'' \<notin> set w) (pre @ post)"

text \<open>
  A program that is run through a command template, e.g. a debugger. When the words of the template and
  the path of the program's file have no blanks and no quotes, the command is the words of the
  template with the path in the place of the mark, and it is an error when there is no such program.
\<close>

theorem get_run_program_spec:
  assumes "template_words pre post"
    and "\<And>p. p \<in> set progs \<Longrightarrow> bare_word (node_path p)"
  shows "get_run_program progs launch_dir node_path name (Some (join_with '' '' (pre @ ''%s'' # post))) =
    rbind (waf_find progs launch_dir name) (\<lambda>p. Inr (name, pre @ node_path p # post))"
proof -
  have words: "list_all bare_word (pre @ post)" "list_all (\<lambda>w. CHR ''%'' \<notin> set w) (pre @ post)"
    using assms(1) by (auto simp: template_words_def)
  have "join_with '' '' (pre @ ''%s'' # post) \<noteq> ''%s''"
  proof
    assume "join_with '' '' (pre @ ''%s'' # post) = ''%s''"
    then have "length (concat (map (\<lambda>p. p @ '' '') pre) @ ''%s'' @ concat (map (\<lambda>q. '' '' @ q) post)) = length ''%s''"
      by (simp only: join_around)
    then have "pre = [] \<and> post = []" by simp
    then show False using assms(1) by (simp add: template_words_def)
  qed
  moreover have "p \<in> set progs" if "waf_find progs launch_dir name = Inr p" for p
    using that find_program_mem by (auto simp: waf_find_def split: sum.splits)
  moreover have "shlex_split (double_backslashes (join_with '' '' (pre @ node_path p # post))) = Inr (pre @ node_path p # post)"
    if "p \<in> set progs" for p
    using words(1) assms(2) that by (intro split_doubled) (auto simp: list_all_iff)
  ultimately show ?thesis
    by (auto simp: get_run_program_def percent_template [OF words(2)] rbind_def split: sum.splits)
qed

section \<open>Examples\<close>

definition sample_programs :: "program list" where
  "sample_programs =
     [\<lparr> is_ns3_program = False, prog_path = ''/w/a'', prog_build = ''/w/b/a'', prog_target = ''t'' \<rparr>,
      \<lparr> is_ns3_program = True, prog_path = ''/w/a'', prog_build = ''/w/b/a'', prog_target = ''t'' \<rparr>]"


lemma find_program_witness: "find_program sample_programs ''/w'' ''a/t'' = Inr (sample_programs ! 1)"
  using find_program_spec [of sample_programs "''/w''" "''a/t''"]
  by (simp add: sample_programs_def) code_simp

lemma get_run_program_witness:
  "get_run_program sample_programs ''/w'' (\<lambda>p. ''/w/b/a/t'') ''t'' (Some (join_with '' '' ([''gdb'', ''--args''] @ ''%s'' # [''--n=1'']))) =
    Inr (''t'', [''gdb'', ''--args'', ''/w/b/a/t'', ''--n=1''])"
proof -
  have "bare_word ''/w/b/a/t''" "template_words [''gdb'', ''--args''] [''--n=1'']" by code_simp+
  moreover have "waf_find sample_programs ''/w'' ''t'' = Inr (sample_programs ! 1)" by code_simp
  ultimately show ?thesis
    using get_run_program_spec [of "[''gdb'', ''--args'']" "[''--n=1'']" sample_programs "\<lambda>p. ''/w/b/a/t''" "''/w''" "''t''"]
    by (simp add: rbind_def)
qed

text \<open>A blank in the path of the program splits it.\<close>

lemma blank_in_path:
  "get_run_program sample_programs ''/w'' (\<lambda>p. ''/w/my b/t'') ''t'' (Some ''gdb %s'') =
    Inr (''t'', [''gdb'', ''/w/my'', ''b/t''])"
  by code_simp

end
