(* ===== verification/ModuleFiles.thy ===== *)
theory ModuleFiles
  imports BuildModules Wutils Files
begin

text \<open>
  The files that \<open>src/wscript\<close> makes for a module: its public headers in the build directory, which are read-only copies,
  the header that includes all of them, and the file for \<open>pkg-config\<close>. The disk is a map from paths to
  content and mode. Directories are not modelled, except that \<open>locked\<close> tells of which paths the entry can not
  be removed.
\<close>

section \<open>The disk\<close>

type_synonym disk = "string \<Rightarrow> (string \<times> nat) option"

definition readable :: "nat \<Rightarrow> bool" where
  "readable mode \<longleftrightarrow> odd (mode div 256)"

definition writable :: "nat \<Rightarrow> bool" where
  "writable mode \<longleftrightarrow> odd (mode div 128)"

definition os_chmod :: "string \<Rightarrow> nat \<Rightarrow> (disk, unit) action" where
  "os_chmod path mode d =
     (case d path of None \<Rightarrow> (Inl OSError, d) | Some (s, _) \<Rightarrow> (Inr (), d(path \<mapsto> (s, mode))))"

text \<open>\<open>shutil.copy2\<close> copies the content, and then the mode.\<close>

definition copy2 :: "string \<Rightarrow> string \<Rightarrow> (disk, unit) action" where
  "copy2 src dst d =
     (if src = dst then (Inl PyException, d)
      else
        (case d src of
           None \<Rightarrow> (Inl IOError, d)
         | Some (s, mode) \<Rightarrow>
             if \<not> readable mode then (Inl IOError, d)
             else
               (case d dst of
                  Some (_, old) \<Rightarrow> if writable old then (Inr (), d(dst \<mapsto> (s, mode))) else (Inl IOError, d)
                | None \<Rightarrow> (Inr (), d(dst \<mapsto> (s, mode))))))"

text \<open>\<open>os.unlink\<close>; the result tells whether \<open>errno\<close> is 2 (there is no such file).\<close>

datatype unlinked = Unlinked | NoEntry | Refused

definition os_unlink :: "(string \<Rightarrow> bool) \<Rightarrow> string \<Rightarrow> disk \<Rightarrow> unlinked \<times> disk" where
  "os_unlink locked path d =
     (if d path = None then (NoEntry, d) else if locked path then (Refused, d) else (Unlinked, d(path := None)))"

section \<open>Headers\<close>

definition ignore_OSError :: "('w, unit) action \<Rightarrow> ('w, unit) action" where
  "ignore_OSError m w =
     (case m w of (Inl e, w') \<Rightarrow> if e = OSError then (Inr (), w') else (Inl e, w') | (Inr u, w') \<Rightarrow> (Inr u, w'))"

datatype task_status = RUN_ME | SKIP_ME | Up_to_date_check

record header_task =
  ht_remove :: bool
  ht_inputs :: "string list"
  ht_outputs :: "string list"
  ht_header_to_remove :: string

definition header_status :: "header_task \<Rightarrow> disk \<Rightarrow> task_status" where
  "header_status t d =
     (if ht_remove t then (if d (ht_header_to_remove t) \<noteq> None then RUN_ME else SKIP_ME) else Up_to_date_check)"

definition install_header :: "string \<times> string \<Rightarrow> (disk, unit) action" where
  "install_header p =
     (case p of (src, dst) \<Rightarrow>
        io_seq (ignore_OSError (os_chmod dst 384)) (io_seq (copy2 src dst) (os_chmod dst 256)))"

definition remove_header :: "(string \<Rightarrow> bool) \<Rightarrow> header_task \<Rightarrow> (disk, int) action" where
  "remove_header locked t d =
     (if ht_inputs t \<noteq> [] \<or> ht_outputs t \<noteq> [] then (Inl AssertionError, d)
      else
        (case os_unlink locked (ht_header_to_remove t) d of
           (Refused, d') \<Rightarrow> (Inl OSError, d')
         | (_, d') \<Rightarrow> (Inr 0, d')))"

definition run_header_task :: "(string \<Rightarrow> bool) \<Rightarrow> header_task \<Rightarrow> (disk, int) action" where
  "run_header_task locked t d =
     (if \<not> ht_remove t then
        (if length (ht_inputs t) \<noteq> length (ht_outputs t) then (Inl AssertionError, d)
         else io_bind (io_each install_header (zip (ht_inputs t) (ht_outputs t))) (\<lambda>_. io_ret 0) d)
      else remove_header locked t d)"

section \<open>The header of a module\<close>

definition upper_char :: "char \<Rightarrow> char" where
  "upper_char c = (if of_char c \<in> {97 ..< (123 :: nat)} then char_of (of_char c - 32 :: nat) else c)"

definition header_guard :: "string \<Rightarrow> string" where
  "header_guard module = map (\<lambda>c. if c = CHR ''-'' then CHR ''_'' else c) (map upper_char module)"

definition include_line :: "string \<Rightarrow> string" where
  "include_line header = ''#include '' @ [CHR 0x22] @ header @ [CHR 0x22] @ nl"

definition module_header_top :: "string \<Rightarrow> string" where
  "module_header_top module =
     nl @ ''#ifdef NS3_MODULE_COMPILATION'' @ nl @
     ''# error '' @ [CHR 0x22] @
     ''Do not include ns3 module aggregator headers from other modules; these are meant only for end user scripts.'' @
     [CHR 0x22] @ nl @ ''#endif'' @ nl @ nl @
     ''#ifndef NS3_MODULE_'' @ header_guard module @ nl @ ''    '' @ nl @ nl @ ''// Module headers:'' @ nl"

definition module_header_text :: "string \<Rightarrow> string list \<Rightarrow> string" where
  "module_header_text module inputs =
     module_header_top module @ concat (map include_line (sort (map path_basename inputs))) @ ''#endif'' @ nl"

text \<open>
  \<open>apply_ns3moduleheader\<close>: the headers of all generators of headers of the module. \<open>None\<close> as a result means that no
  task is made; \<open>headers\<close> of a generator is a set, in the order of the walk over it.
\<close>

definition module_headers :: "(string \<times> string list) list \<Rightarrow> string \<Rightarrow> bool \<Rightarrow> string list option res" where
  "module_headers header_gens module declared =
     (let mine = filter (\<lambda>(m, hs). m = module) header_gens;
          all = map path_basename (concat (map snd mine)) in
      if mine = [] then Inl WafError
      else if all = [] then Inr None
      else if \<not> declared then Inr None
      else Inr (Some (map (path_join ''ns3'') all)))"

section \<open>\<open>pkg-config\<close>\<close>

text \<open>
  The variables of the environment that the file uses: those of the platform, and those of a library, which are
  empty lists when they are not set. \<open>ES\<close> and \<open>EL\<close> are a string and a list.
\<close>

datatype env_value = ES string | EL "string list"

record pc_env =
  pc_path_st :: string
  pc_marker :: string
  pc_lib_st :: string
  pc_dep_path_st :: string
  pc_dep_lib_st :: string
  pc_define_st :: string
  pc_include_st :: string
  pc_libs :: "string list"
  pc_libpath_of :: "string \<Rightarrow> string list"
  pc_linkflags_of :: "string \<Rightarrow> string list"
  pc_lib_of :: "string \<Rightarrow> string list"
  pc_cflags_of :: "string \<Rightarrow> env_value"
  pc_cxxflags_of :: "string \<Rightarrow> env_value"
  pc_defines_of :: "string \<Rightarrow> string list"
  pc_includes_of :: "string \<Rightarrow> string list"

definition self_libs :: "pc_env \<Rightarrow> string \<Rightarrow> string \<Rightarrow> string list res" where
  "self_libs env name libdir =
     rbind (percent_format (pc_path_st env) [libdir]) (\<lambda>path.
     rbind (percent_format (pc_lib_st env) [name]) (\<lambda>lib.
       Inr ([path] @ (if pc_marker env \<noteq> [] then [pc_marker env] else []) @ [lib])))"

definition lib_flags :: "pc_env \<Rightarrow> string \<Rightarrow> string list res" where
  "lib_flags env dep =
     rbind (rmap (\<lambda>p. percent_format (pc_dep_path_st env) [p]) (pc_libpath_of env dep)) (\<lambda>paths.
     rbind (rmap (\<lambda>l. percent_format (pc_dep_lib_st env) [l]) (pc_lib_of env dep)) (\<lambda>libs.
       Inr (concat (map (\<lambda>p. p # pc_linkflags_of env dep) paths) @ libs)))"

definition listify :: "env_value \<Rightarrow> string list" where
  "listify v = (case v of ES s \<Rightarrow> [s] | EL l \<Rightarrow> l)"

definition dep_cflags :: "pc_env \<Rightarrow> string \<Rightarrow> string list res" where
  "dep_cflags env dep =
     rbind (rmap (\<lambda>x. percent_format (pc_define_st env) [x]) (pc_defines_of env dep)) (\<lambda>defines.
     rbind (rmap (\<lambda>x. percent_format (pc_include_st env) [x]) (pc_includes_of env dep)) (\<lambda>includes.
       Inr (listify (pc_cflags_of env dep) @ listify (pc_cxxflags_of env dep) @ defines @ includes)))"

text \<open>
  For each library of \<open>env.LIBS\<close> the code does \<open>libs += st % dep\<close>, where \<open>libs\<close> is a list and the other side a string:
  this appends the characters of the string, one by one.
\<close>

definition pc_file_libs :: "pc_env \<Rightarrow> string \<Rightarrow> string list \<Rightarrow> string list res" where
  "pc_file_libs env name use =
     rbind (self_libs env name ''${libdir}'') (\<lambda>own.
     rbind (rmap (lib_flags env) use) (\<lambda>flags.
     rbind (rmap (\<lambda>l. percent_format (pc_dep_lib_st env) [l]) (pc_libs env)) (\<lambda>extra.
       Inr (own @ concat flags @ map (\<lambda>c. [c]) (concat extra)))))"

definition pc_requires :: "string list \<Rightarrow> string list" where
  "pc_requires use = map (\<lambda>d. ''lib'' @ d) (filter (\<lambda>d. startswith d ''ns3-'') use)"

definition pc_file :: "pc_env \<Rightarrow> string \<Rightarrow> string \<Rightarrow> string \<Rightarrow> string \<Rightarrow> string list \<Rightarrow> string res" where
  "pc_file env prefix libdir includedir name use =
     rbind (pc_file_libs env name use) (\<lambda>libs.
     rbind (percent_format (pc_include_st env) [''${includedir}'']) (\<lambda>include.
     rbind (rmap (dep_cflags env) use) (\<lambda>flags.
       Inr (nl @ ''prefix='' @ prefix @ nl @ ''libdir='' @ libdir @ nl @ ''includedir='' @ includedir @ nl @ nl @
         ''Name: lib'' @ name @ nl @ ''Description: ns-3 module '' @ name @ nl @ ''Version: devel'' @ nl @
         ''Libs: '' @ join_with '' '' libs @ nl @
         ''Cflags: '' @ join_with '' '' (include # concat flags) @ nl @
         ''Requires: '' @ join_with '' '' (pc_requires use) @ nl @ nl))))"

section \<open>Properties\<close>

lemma install_one:
  assumes "d src = Some (s, mode)" "readable mode" "src \<noteq> dst"
  shows "install_header (src, dst) d = (Inr (), d(dst \<mapsto> (s, 256)))"
proof (cases "d dst")
  case None
  then show ?thesis using assms
    by (simp add: install_header_def io_seq_def io_bind_def ignore_OSError_def os_chmod_def copy2_def)
next
  case (Some old)
  then show ?thesis using assms
    by (cases old) (simp add: install_header_def io_seq_def io_bind_def ignore_OSError_def os_chmod_def copy2_def writable_def)
qed

definition installed :: "disk \<Rightarrow> (string \<times> string) list \<Rightarrow> disk" where
  "installed d pairs =
     (\<lambda>p. case map_of (map prod.swap pairs) p of None \<Rightarrow> d p | Some src \<Rightarrow> map_option (\<lambda>(s, _). (s, 256)) (d src))"

lemma install_all:
  assumes "list_all (\<lambda>(src, dst). \<exists>s mode. d src = Some (s, mode) \<and> readable mode) pairs"
    and "distinct (map snd pairs)" "fst ` set pairs \<inter> snd ` set pairs = {}"
  shows "io_each install_header pairs d = (Inr (), installed d pairs)"
  using assms
proof (induction pairs arbitrary: d)
  case Nil
  then show ?case by (simp add: installed_def)
next
  case (Cons p pairs)
  obtain src dst where p: "p = (src, dst)" by (cases p)
  obtain s mode where src: "d src = Some (s, mode)" "readable mode" using Cons.prems(1) by (auto simp: p)
  let ?d = "d(dst \<mapsto> (s, 256))"
  have other: "?d x = d x" if "x \<in> fst ` set pairs" for x using that Cons.prems(3) by (auto simp: p)
  have "install_header p d = (Inr (), ?d)" using install_one [of d src s mode dst] src Cons.prems(3) by (auto simp: p)
  moreover have "io_each install_header pairs ?d = (Inr (), installed ?d pairs)"
  proof (rule Cons.IH)
    show "list_all (\<lambda>(src, dst). \<exists>s mode. ?d src = Some (s, mode) \<and> readable mode) pairs"
      using Cons.prems(1) other by (fastforce simp: list_all_iff p)
  qed (use Cons.prems in \<open>auto simp: p\<close>)
  moreover have "installed ?d pairs = installed d (p # pairs)"
  proof
    fix x
    show "installed ?d pairs x = installed d (p # pairs) x"
    proof (cases "map_of (map prod.swap pairs) x")
      case None
      then show ?thesis using src by (simp add: installed_def p)
    next
      case (Some y)
      then have "(y, x) \<in> set pairs" using map_of_SomeD by fastforce
      then have "x \<noteq> dst" "?d y = d y" using Cons.prems(2) other by (force simp: p)+
      then show ?thesis using Some by (simp add: installed_def p)
    qed
  qed
  ultimately show ?case by simp
qed

text \<open>
  C19: installing headers. When all sources can be read and no target is a source, every target is afterwards a copy of its
  source that only the owner can read, whatever was there before, also the read-only copy of an earlier build;
  nothing else on the disk changes.
\<close>

theorem install_headers_spec:
  assumes "length srcs = length dsts" "distinct dsts" "set srcs \<inter> set dsts = {}"
    and "list_all (\<lambda>src. case d src of None \<Rightarrow> False | Some (s, mode) \<Rightarrow> readable mode) srcs"
  shows "run_header_task locked \<lparr> ht_remove = False, ht_inputs = srcs, ht_outputs = dsts, ht_header_to_remove = r \<rparr> d =
    (Inr 0, installed d (zip srcs dsts))"
proof -
  have "list_all (\<lambda>(src, dst). \<exists>s mode. d src = Some (s, mode) \<and> readable mode) (zip srcs dsts)"
    using assms(4) by (fastforce simp: list_all_iff dest: set_zip_leftD split: option.splits prod.splits)
  moreover have "fst ` set (zip srcs dsts) = set srcs" "snd ` set (zip srcs dsts) = set dsts"
    using assms(1) by (metis list.set_map map_fst_zip, metis list.set_map map_snd_zip)
  ultimately show ?thesis using install_all [of d "zip srcs dsts"] assms(1-3) by (simp add: run_header_task_def)
qed

definition header_disk :: disk where
  "header_disk = [''src/a.h'' \<mapsto> (''int a;'', 420), ''ns3/a.h'' \<mapsto> (''old'', 256)]"

lemma install_headers_witness:
  "snd (run_header_task (\<lambda>_. False) \<lparr> ht_remove = False, ht_inputs = [''src/a.h''], ht_outputs = [''ns3/a.h''],
     ht_header_to_remove = [] \<rparr> header_disk) ''ns3/a.h'' = Some (''int a;'', 256)"
  using install_headers_spec [of "[''src/a.h'']" "[''ns3/a.h'']" header_disk "\<lambda>_. False" "[]"]
  by (simp add: header_disk_def installed_def readable_def)

text \<open>Removing leaves no header behind; that there is none already is no error.\<close>

lemma remove_header_spec:
  assumes "run_header_task locked t d = (r, d')" "ht_remove t" "ht_inputs t = []" "ht_outputs t = []"
  shows "if d (ht_header_to_remove t) \<noteq> None \<and> locked (ht_header_to_remove t) then r = Inl OSError \<and> d' = d
    else r = Inr 0 \<and> d' = d(ht_header_to_remove t := None)"
  using assms by (auto simp: run_header_task_def remove_header_def os_unlink_def fun_eq_iff split: if_splits)

lemma header_order:
  assumes "mset inputs = mset inputs'"
  shows "module_header_text module inputs = module_header_text module inputs'"
proof -
  have "sort (map path_basename inputs) = sort (map path_basename inputs')"
    by (rule properties_for_sort) (simp_all add: assms)
  then show ?thesis by (simp add: module_header_text_def)
qed

text \<open>The header tests a macro that it never defines.\<close>

lemma guard_not_defined: "\<not> py_in ''#define'' (module_header_text ''core'' [''ns3/a.h''])"
proof -
  have names: "header_guard ''core'' = ''CORE''" "path_basename ''ns3/a.h'' = ''a.h''" by code_simp+
  show ?thesis by (simp add: module_header_text_def module_header_top_def names include_line_def nl_def)
qed

text \<open>A library of the environment is written in single letters.\<close>

lemma library_letters:
  assumes "pc_file_libs env name use = Inr libs" "pc_libs env = [''xml2'']" "pc_dep_lib_st env = ''-l%s''"
  shows "\<exists>ls. libs = ls @ [''-'', ''l'', ''x'', ''m'', ''l'', ''2'']"
  using assms by (auto simp: pc_file_libs_def rbind_Inr_iff)

end
