(* ===== verification/CreateModule.thy ===== *)
theory CreateModule
  imports ModuleFiles
begin

text \<open>
  \<open>src/create-module.py\<close>, which makes the directory of a new module with its \<open>wscript\<close>, sources and headers from
  templates. The disk is a tree of directories and files.
\<close>

section \<open>The disk\<close>

datatype entry = Dir | File string

type_synonym tree = "string \<Rightarrow> entry option"

definition is_dir :: "tree \<Rightarrow> string \<Rightarrow> bool" where
  "is_dir w p \<longleftrightarrow> p = [] \<or> w p = Some Dir"

text \<open>\<open>os.path.exists\<close>; a path may end in a slash or in one of the two directories that every directory has.\<close>

definition path_exists :: "tree \<Rightarrow> string \<Rightarrow> bool" where
  "path_exists w p \<longleftrightarrow>
     p \<noteq> [] \<and> (w p \<noteq> None \<or> path_basename p \<in> {[], ''.'', ''..''} \<and> is_dir w (path_dirname p))"

definition os_mkdir :: "string \<Rightarrow> (tree, unit) action" where
  "os_mkdir p w =
     (if p = [] \<or> w p \<noteq> None \<or> \<not> is_dir w (path_dirname p) then (Inl OSError, w) else (Inr (), w(p \<mapsto> Dir)))"

text \<open>A file that is opened for writing, written and closed.\<close>

definition write_file :: "string \<Rightarrow> string \<Rightarrow> (tree, unit) action" where
  "write_file p text w =
     (if is_dir w p \<or> \<not> is_dir w (path_dirname p) then (Inl IOError, w) else (Inr (), w(p \<mapsto> File text)))"

section \<open>Templates\<close>

definition dq :: string where
  "dq = [CHR 0x22]"

definition sq :: string where
  "sq = [CHR 0x27]"

definition unlines :: "string list \<Rightarrow> string" where
  "unlines ls = concat (map (\<lambda>l. l @ nl) ls)"

definition WSCRIPT_TEMPLATE :: string where
  "WSCRIPT_TEMPLATE = unlines
     [''# -*- Mode: python; py-indent-offset: 4; indent-tabs-mode: nil; coding: utf-8; -*-'',
      [],
      ''# def options(opt):'',
      ''#     pass'',
      [],
      ''# def configure(conf):'',
      ''#     conf.check_nonfatal(header_name='' @ sq @ ''stdint.h'' @ sq @
        '', define_name='' @ sq @ ''HAVE_STDINT_H'' @ sq @ '')'',
      [],
      ''def build(bld):'',
      ''    module = bld.create_ns3_module(%(MODULE)r, ['' @ sq @ ''core'' @ sq @ ''])'',
      ''    module.source = ['',
      ''        '' @ sq @ ''model/%(MODULE)s.cc'' @ sq @ '','',
      ''        '' @ sq @ ''helper/%(MODULE)s-helper.cc'' @ sq @ '','',
      ''        ]'',
      [],
      ''    headers = bld.new_task_gen(features=['' @ sq @ ''ns3header'' @ sq @ ''])'',
      ''    headers.module = %(MODULE)r'',
      ''    headers.source = ['',
      ''        '' @ sq @ ''model/%(MODULE)s.h'' @ sq @ '','',
      ''        '' @ sq @ ''helper/%(MODULE)s-helper.h'' @ sq @ '','',
      ''        ]'',
      [],
      ''    if bld.env.ENABLE_EXAMPLES:'',
      ''        bld.add_subdirs('' @ sq @ ''examples'' @ sq @ '')'',
      [],
      ''    # bld.ns3_python_bindings()'',
      []]"

definition MODEL_CC_TEMPLATE :: string where
  "MODEL_CC_TEMPLATE = unlines
     [''/* -*- Mode:C++; c-file-style:'' @ dq @ ''gnu'' @ dq @ ''; indent-tabs-mode:nil; -*- */'',
      [],
      ''#include '' @ dq @ ''%(MODULE)s.h'' @ dq,
      [],
      ''namespace ns3 {'',
      [],
      ''/* ... */'',
      [],
      [],
      ''}'',
      []]"

definition MODEL_H_TEMPLATE :: string where
  "MODEL_H_TEMPLATE = unlines
     [''/* -*- Mode:C++; c-file-style:'' @ dq @ ''gnu'' @ dq @ ''; indent-tabs-mode:nil; -*- */'',
      ''#ifndef %(INCLUDE_GUARD)s'',
      ''#define %(INCLUDE_GUARD)s'',
      [],
      ''namespace ns3 {'',
      [],
      ''/* ... */'',
      [],
      ''}'',
      [],
      ''#endif /* %(INCLUDE_GUARD)s */'',
      []]"

definition HELPER_CC_TEMPLATE :: string where
  "HELPER_CC_TEMPLATE = unlines
     [''/* -*- Mode:C++; c-file-style:'' @ dq @ ''gnu'' @ dq @ ''; indent-tabs-mode:nil; -*- */'',
      [],
      ''#include '' @ dq @ ''%(MODULE)s-helper.h'' @ dq,
      [],
      ''namespace ns3 {'',
      [],
      ''/* ... */'',
      [],
      [],
      ''}'',
      []]"

definition HELPER_H_TEMPLATE :: string where
  "HELPER_H_TEMPLATE = unlines
     [''/* -*- Mode:C++; c-file-style:'' @ dq @ ''gnu'' @ dq @ ''; indent-tabs-mode:nil; -*- */'',
      ''#ifndef %(INCLUDE_GUARD)s'',
      ''#define %(INCLUDE_GUARD)s'',
      [],
      ''#include '' @ dq @ ''ns3/%(MODULE)s.h'' @ dq,
      [],
      ''namespace ns3 {'',
      [],
      ''/* ... */'',
      [],
      ''}'',
      [],
      ''#endif /* %(INCLUDE_GUARD)s */'',
      []]"

definition EXAMPLES_WSCRIPT_TEMPLATE :: string where
  "EXAMPLES_WSCRIPT_TEMPLATE = unlines
     [''# -*- Mode: python; py-indent-offset: 4; indent-tabs-mode: nil; coding: utf-8; -*-'',
      [],
      ''def build(bld):'',
      ''    obj = bld.create_ns3_program('' @ sq @ ''%(MODULE)s-example'' @ sq @ '', [%(MODULE)r])'',
      ''    obj.source = '' @ sq @ ''%(MODULE)s-example.cc'' @ sq,
      []]"

definition EXAMPLE_CC_TEMPLATE :: string where
  "EXAMPLE_CC_TEMPLATE = unlines
     [''/* -*- Mode:C++; c-file-style:'' @ dq @ ''gnu'' @ dq @ ''; indent-tabs-mode:nil; -*- */'',
      [],
      ''#include '' @ dq @ ''ns3/core-module.h'' @ dq,
      ''#include '' @ dq @ ''ns3/%(MODULE)s-helper.h'' @ dq,
      [],
      ''using namespace ns3;'',
      [],
      [],
      ''int '',
      ''main (int argc, char *argv[])'',
      ''{'',
      ''  bool verbose = true;'',
      [],
      ''  CommandLine cmd;'',
      ''  cmd.AddValue ('' @ dq @ ''verbose'' @ dq @ '', '' @ dq @ ''Tell application to log if true'' @ dq @ '', verbose);'',
      [],
      ''  cmd.Parse (argc,argv);'',
      [],
      ''  /* ... */'',
      [],
      ''  Simulator::Run ();'',
      ''  Simulator::Destroy ();'',
      ''  return 0;'',
      ''}'',
      [],
      []]"

text \<open>\<open>repr\<close> of a string, which \<open>%r\<close> writes.\<close>

definition hex_char :: "nat \<Rightarrow> char" where
  "hex_char n = char_of (if n < 10 then 48 + n else 87 + n)"

definition repr_char :: "char \<Rightarrow> char \<Rightarrow> string" where
  "repr_char q c =
     (let n = of_char c :: nat; back = CHR 0x5C in
      if c = q \<or> c = back then [back, c]
      else if n = 9 then [back, CHR ''t'']
      else if n = 10 then [back, CHR ''n'']
      else if n = 13 then [back, CHR ''r'']
      else if n < 32 \<or> 127 \<le> n then [back, CHR ''x'', hex_char (n div 16), hex_char (n mod 16)]
      else [c])"

definition str_repr :: "string \<Rightarrow> string" where
  "str_repr s =
     (let q = (if CHR 0x27 \<in> set s \<and> CHR 0x22 \<notin> set s then CHR 0x22 else CHR 0x27) in
      q # concat (map (repr_char q) s) @ [q])"

text \<open>
  \<open>template % values\<close> with a dictionary, for what the templates have: \<open>%(KEY)s\<close>, \<open>%(KEY)r\<close> and \<open>%%\<close>. With anything else
  behind \<open>%\<close> it ends with an exception here.
\<close>

function (sequential) percent_dict :: "(string, string) dict \<Rightarrow> string \<Rightarrow> string res" where
  "percent_dict d [] = Inr []"
| "percent_dict d (c # cs) =
     (if c \<noteq> CHR ''%'' then rbind (percent_dict d cs) (\<lambda>u. Inr (c # u))
      else
        (case cs of
           [] \<Rightarrow> Inl ValueError
         | k # rest \<Rightarrow>
             if k = CHR ''%'' then rbind (percent_dict d rest) (\<lambda>u. Inr (CHR ''%'' # u))
             else if k \<noteq> CHR ''('' then Inl PyException
             else
               (case dropWhile (\<lambda>x. x \<noteq> CHR '')'') rest of
                  [] \<Rightarrow> Inl ValueError
                | close # after \<Rightarrow>
                    rbind (dlookup d (takeWhile (\<lambda>x. x \<noteq> CHR '')'') rest)) (\<lambda>v.
                      case after of
                        [] \<Rightarrow> Inl ValueError
                      | conversion # tail \<Rightarrow>
                          if conversion = CHR ''s'' then rbind (percent_dict d tail) (\<lambda>u. Inr (v @ u))
                          else if conversion = CHR ''r'' then rbind (percent_dict d tail) (\<lambda>u. Inr (str_repr v @ u))
                          else Inl PyException))))"
  by pat_completeness auto

lemma dropWhile_shorter: "dropWhile P xs = y # c # ys \<Longrightarrow> length ys < length xs"
  using length_dropWhile_le [of P xs] by simp

termination percent_dict
  by (relation "measure (length \<circ> snd)") (auto dest: dropWhile_shorter)

section \<open>The program\<close>

definition guard_of :: "string \<Rightarrow> string" where
  "guard_of modname = ''__'' @ map upper_char modname @ ''_H__''"

definition helper_guard_of :: "string \<Rightarrow> string" where
  "helper_guard_of modname = ''__'' @ map upper_char modname @ ''_HELPER_H__''"

text \<open>\<open>dict(MODULE=modname, INCLUDE_GUARD=guard)\<close>.\<close>

definition module_dict :: "string \<Rightarrow> (string, string) dict" where
  "module_dict modname = [(''MODULE'', modname)]"

definition guard_dict :: "string \<Rightarrow> string \<Rightarrow> (string, string) dict" where
  "guard_dict modname guard = [(''MODULE'', modname), (''INCLUDE_GUARD'', guard)]"

definition write_template :: "string \<Rightarrow> string \<Rightarrow> (string, string) dict \<Rightarrow> (tree, unit) action" where
  "write_template p template d =
     (\<lambda>w. case write_file p [] w of
            (Inl e, w1) \<Rightarrow> (Inl e, w1)
          | (Inr _, w1) \<Rightarrow>
              (case percent_dict d template of Inl e \<Rightarrow> (Inl e, w1) | Inr text \<Rightarrow> (Inr (), w1(p \<mapsto> File text))))"

definition create_files :: "string \<Rightarrow> string \<Rightarrow> (tree, int) action" where
  "create_files moduledir modname =
     io_seq (os_mkdir moduledir)
     (io_seq (write_template (path_join moduledir ''wscript'') WSCRIPT_TEMPLATE (module_dict modname))
     (io_seq (os_mkdir (path_join moduledir ''model''))
     (io_seq (write_template (path_join (path_join moduledir ''model'') (modname @ ''.cc'')) MODEL_CC_TEMPLATE (module_dict modname))
     (io_seq (write_template (path_join (path_join moduledir ''model'') (modname @ ''.h'')) MODEL_H_TEMPLATE
               (guard_dict modname (guard_of modname)))
     (io_seq (os_mkdir (path_join moduledir ''helper''))
     (io_seq (write_template (path_join (path_join moduledir ''helper'') (modname @ ''-helper.cc'')) HELPER_CC_TEMPLATE (module_dict modname))
     (io_seq (write_template (path_join (path_join moduledir ''helper'') (modname @ ''-helper.h'')) HELPER_H_TEMPLATE
               (guard_dict modname (helper_guard_of modname)))
     (io_seq (os_mkdir (path_join moduledir ''examples''))
     (io_seq (write_template (path_join (path_join moduledir ''examples'') ''wscript'') EXAMPLES_WSCRIPT_TEMPLATE (module_dict modname))
     (io_seq (write_template (path_join (path_join moduledir ''examples'') (modname @ ''-example.cc'')) EXAMPLE_CC_TEMPLATE (module_dict modname))
     (io_ret 0)))))))))))"

text \<open>\<open>main\<close>, for the arguments that are left after the options; \<open>here\<close> is the directory of the program.\<close>

definition create_module :: "string \<Rightarrow> string list \<Rightarrow> (tree, int) action" where
  "create_module here args w =
     (case args of
        [modname] \<Rightarrow>
          if CHR ''/'' \<in> set modname then (Inl AssertionError, w)
          else if path_exists w (path_join here modname) then (Inr 2, w)
          else create_files (path_join here modname) modname w
      | _ \<Rightarrow> (Inr 1, w))"


section \<open>The texts\<close>

lemma percent_key:
  assumes "percent_dict d (CHR ''%'' # CHR ''('' # rest) = Inr u"
  obtains close conversion tail v u' where
    "dropWhile (\<lambda>x. x \<noteq> CHR '')'') rest = close # conversion # tail"
    "dlookup d (takeWhile (\<lambda>x. x \<noteq> CHR '')'') rest) = Inr v" "percent_dict d tail = Inr u'"
    "conversion = CHR ''s'' \<and> u = v @ u' \<or> conversion = CHR ''r'' \<and> u = str_repr v @ u'"
proof (cases "dropWhile (\<lambda>x. x \<noteq> CHR '')'') rest")
  case Nil
  with assms show thesis by simp
next
  case (Cons close after)
  with assms obtain v where v: "dlookup d (takeWhile (\<lambda>x. x \<noteq> CHR '')'') rest) = Inr v"
    by (simp add: rbind_Inr_iff) blast
  show thesis
  proof (cases after)
    case Nil
    with assms Cons v show thesis by simp
  next
    case after: (Cons conversion tail)
    show thesis
    proof (cases "percent_dict d tail")
      case (Inl e)
      with assms Cons v after show thesis by (simp split: if_splits)
    next
      case (Inr u')
      with assms Cons v after have "conversion = CHR ''s'' \<and> u = v @ u' \<or> conversion = CHR ''r'' \<and> u = str_repr v @ u'"
        by (simp split: if_splits)
      with Cons v after Inr that show thesis by blast
    qed
  qed
qed

lemma percent_dict_append:
  "percent_dict d s = Inr u \<Longrightarrow> percent_dict d (s @ t) = rbind (percent_dict d t) (\<lambda>v. Inr (u @ v))"
proof (induction "length s" arbitrary: s u rule: less_induct)
  case less
  have later: "percent_dict d (s' @ t) = rbind (percent_dict d t) (\<lambda>v. Inr (u' @ v))"
    if "length s' < length s" "percent_dict d s' = Inr u'" for s' u'
    using less.hyps that by blast
  show ?case
  proof (cases s)
    case Nil
    with less.prems show ?thesis by (simp add: rbind_def split: sum.split)
  next
    case (Cons c cs)
    show ?thesis
    proof (cases "c = CHR ''%''")
      case False
      with less.prems Cons obtain u' where u': "percent_dict d cs = Inr u'" "u = c # u'" by (auto simp: rbind_Inr_iff)
      with later [of cs u'] Cons False show ?thesis by (simp add: rbind_def split: sum.split)
    next
      case percent: True
      with less.prems Cons obtain k rest where cs: "cs = k # rest" by (cases cs) auto
      show ?thesis
      proof (cases "k = CHR ''%''")
        case True
        with less.prems Cons percent cs obtain u' where u': "percent_dict d rest = Inr u'" "u = CHR ''%'' # u'"
          by (auto simp: rbind_Inr_iff)
        with later [of rest u'] Cons percent cs True show ?thesis by (simp add: rbind_def split: sum.split)
      next
        case False
        have key: "k = CHR ''(''"
        proof (rule ccontr)
          assume "k \<noteq> CHR ''(''"
          with less.prems Cons percent cs False show False by simp
        qed
        have "percent_dict d (CHR ''%'' # CHR ''('' # rest) = Inr u"
          using less.prems unfolding Cons percent cs key .
        from percent_key [OF this] obtain close conversion tail v u' where parts:
            "dropWhile (\<lambda>x. x \<noteq> CHR '')'') rest = close # conversion # tail"
            "dlookup d (takeWhile (\<lambda>x. x \<noteq> CHR '')'') rest) = Inr v" "percent_dict d tail = Inr u'"
            "conversion = CHR ''s'' \<and> u = v @ u' \<or> conversion = CHR ''r'' \<and> u = str_repr v @ u'"
          by blast
        have "CHR '')'' \<in> set rest"
        proof (rule ccontr)
          assume "CHR '')'' \<notin> set rest"
          then have "dropWhile (\<lambda>x. x \<noteq> CHR '')'') rest = []" by (auto simp: dropWhile_eq_Nil_conv)
          with parts(1) show False by simp
        qed
        then have "takeWhile (\<lambda>x. x \<noteq> CHR '')'') (rest @ t) = takeWhile (\<lambda>x. x \<noteq> CHR '')'') rest"
            "dropWhile (\<lambda>x. x \<noteq> CHR '')'') (rest @ t) = close # conversion # tail @ t"
          using parts(1) by (simp_all add: takeWhile_append1 dropWhile_append1)
        moreover have "percent_dict d (tail @ t) = rbind (percent_dict d t) (\<lambda>v. Inr (u' @ v))"
          using later [of tail u'] dropWhile_shorter [OF parts(1)] parts(3) Cons cs by simp
        ultimately show ?thesis
          using parts(2,4) by (elim disjE) (simp_all add: Cons cs percent key rbind_def split: sum.split)
      qed
    qed
  qed
qed

lemma percent_unlines: "rmap (percent_dict d) ls = Inr us \<Longrightarrow> percent_dict d (unlines ls) = Inr (unlines us)"
proof (induction ls arbitrary: us)
  case (Cons l ls)
  then obtain u us' where u: "percent_dict d l = Inr u" "rmap (percent_dict d) ls = Inr us'" "us = u # us'"
    by (auto simp: rmap.simps rbind_Inr_iff)
  have "percent_dict d (nl @ s) = rbind (percent_dict d s) (\<lambda>v. Inr (nl @ v))" for s
    by (rule percent_dict_append) (simp add: nl_def)
  with u(1,3) Cons.IH [OF u(2)] show ?case by (simp add: unlines_def percent_dict_append)
qed (simp add: unlines_def)

definition render :: "(string, string) dict \<Rightarrow> string \<Rightarrow> string" where
  "render d s = (case percent_dict d s of Inl e \<Rightarrow> [] | Inr u \<Rightarrow> u)"

lemma render_unlines:
  assumes "list_all (\<lambda>l. \<exists>u. percent_dict d l = Inr u) ls"
  shows "percent_dict d (unlines ls) = Inr (unlines (map (render d) ls))"
proof (rule percent_unlines)
  have "percent_dict d l = Inr (render d l)" if "l \<in> set ls" for l
    using assms that by (auto simp: list_all_iff render_def)
  then show "rmap (percent_dict d) ls = Inr (map (render d) ls)" by (rule rmap_Inr)
qed

lemma templates_ok:
  "percent_dict (module_dict m) WSCRIPT_TEMPLATE = Inr (render (module_dict m) WSCRIPT_TEMPLATE)"
  "percent_dict (module_dict m) MODEL_CC_TEMPLATE = Inr (render (module_dict m) MODEL_CC_TEMPLATE)"
  "percent_dict (guard_dict m g) MODEL_H_TEMPLATE = Inr (render (guard_dict m g) MODEL_H_TEMPLATE)"
  "percent_dict (module_dict m) HELPER_CC_TEMPLATE = Inr (render (module_dict m) HELPER_CC_TEMPLATE)"
  "percent_dict (guard_dict m g) HELPER_H_TEMPLATE = Inr (render (guard_dict m g) HELPER_H_TEMPLATE)"
  "percent_dict (module_dict m) EXAMPLES_WSCRIPT_TEMPLATE = Inr (render (module_dict m) EXAMPLES_WSCRIPT_TEMPLATE)"
  "percent_dict (module_dict m) EXAMPLE_CC_TEMPLATE = Inr (render (module_dict m) EXAMPLE_CC_TEMPLATE)"
proof -
  have found: "percent_dict d (unlines ls) = Inr (render d (unlines ls))" if "list_all (\<lambda>l. \<exists>u. percent_dict d l = Inr u) ls" for d ls
    using render_unlines [OF that] by (simp add: render_def)
  show "percent_dict (module_dict m) WSCRIPT_TEMPLATE = Inr (render (module_dict m) WSCRIPT_TEMPLATE)"
    unfolding WSCRIPT_TEMPLATE_def by (rule found) (simp add: dq_def sq_def module_dict_def dlookup_def)
  show "percent_dict (module_dict m) MODEL_CC_TEMPLATE = Inr (render (module_dict m) MODEL_CC_TEMPLATE)"
    unfolding MODEL_CC_TEMPLATE_def by (rule found) (simp add: dq_def sq_def module_dict_def dlookup_def)
  show "percent_dict (guard_dict m g) MODEL_H_TEMPLATE = Inr (render (guard_dict m g) MODEL_H_TEMPLATE)"
    unfolding MODEL_H_TEMPLATE_def by (rule found) (simp add: dq_def sq_def guard_dict_def dlookup_def)
  show "percent_dict (module_dict m) HELPER_CC_TEMPLATE = Inr (render (module_dict m) HELPER_CC_TEMPLATE)"
    unfolding HELPER_CC_TEMPLATE_def by (rule found) (simp add: dq_def sq_def module_dict_def dlookup_def)
  show "percent_dict (guard_dict m g) HELPER_H_TEMPLATE = Inr (render (guard_dict m g) HELPER_H_TEMPLATE)"
    unfolding HELPER_H_TEMPLATE_def by (rule found) (simp add: dq_def sq_def guard_dict_def dlookup_def)
  show "percent_dict (module_dict m) EXAMPLES_WSCRIPT_TEMPLATE = Inr (render (module_dict m) EXAMPLES_WSCRIPT_TEMPLATE)"
    unfolding EXAMPLES_WSCRIPT_TEMPLATE_def by (rule found) (simp add: dq_def sq_def module_dict_def dlookup_def)
  show "percent_dict (module_dict m) EXAMPLE_CC_TEMPLATE = Inr (render (module_dict m) EXAMPLE_CC_TEMPLATE)"
    unfolding EXAMPLE_CC_TEMPLATE_def by (rule found) (simp add: dq_def sq_def module_dict_def dlookup_def)
qed

section \<open>What is made\<close>

definition module_entries :: "string \<Rightarrow> string \<Rightarrow> (string \<times> entry) list" where
  "module_entries d m =
     [(d, Dir),
      (d @ ''/wscript'', File (render (module_dict m) WSCRIPT_TEMPLATE)),
      (d @ ''/model'', Dir),
      (d @ ''/model/'' @ m @ ''.cc'', File (render (module_dict m) MODEL_CC_TEMPLATE)),
      (d @ ''/model/'' @ m @ ''.h'', File (render (guard_dict m (guard_of m)) MODEL_H_TEMPLATE)),
      (d @ ''/helper'', Dir),
      (d @ ''/helper/'' @ m @ ''-helper.cc'', File (render (module_dict m) HELPER_CC_TEMPLATE)),
      (d @ ''/helper/'' @ m @ ''-helper.h'', File (render (guard_dict m (helper_guard_of m)) HELPER_H_TEMPLATE)),
      (d @ ''/examples'', Dir),
      (d @ ''/examples/wscript'', File (render (module_dict m) EXAMPLES_WSCRIPT_TEMPLATE)),
      (d @ ''/examples/'' @ m @ ''-example.cc'', File (render (module_dict m) EXAMPLE_CC_TEMPLATE))]"

text \<open>Every entry is in a directory.\<close>

definition tree_ok :: "tree \<Rightarrow> bool" where
  "tree_ok w \<longleftrightarrow> (\<forall>p q. p \<noteq> [] \<and> w (p @ CHR ''/'' # q) \<noteq> None \<longrightarrow> w p = Some Dir)"

lemma path_dirname_join:
  assumes "d \<noteq> []" "last d \<noteq> CHR ''/''" "CHR ''/'' \<notin> set b"
  shows "path_dirname (d @ CHR ''/'' # b) = d"
proof -
  have drop: "dropWhile (\<lambda>c. c \<noteq> CHR ''/'') (rev b @ CHR ''/'' # rev d) = CHR ''/'' # rev d"
    using assms(3) by (subst dropWhile_append2) auto
  have "dropWhile (\<lambda>c. c = CHR ''/'') (rev d) = rev d"
    using assms(1,2) by (cases d rule: rev_cases) simp_all
  moreover have "\<not> list_all (\<lambda>c. c = CHR ''/'') d"
    using assms(1,2) by (cases d rule: rev_cases) simp_all
  ultimately show ?thesis by (simp add: path_dirname_def Let_def drop)
qed

lemma path_dirname_plain: "CHR ''/'' \<notin> set b \<Longrightarrow> path_dirname b = []"
proof -
  assume "CHR ''/'' \<notin> set b"
  then have "dropWhile (\<lambda>c. c \<noteq> CHR ''/'') (rev b) = []" by (auto simp: dropWhile_eq_Nil_conv)
  then show "path_dirname b = []" by (simp only: path_dirname_def Let_def rev.simps list.pred_inject if_True)
qed

lemma join_below: "d \<noteq> [] \<Longrightarrow> last d \<noteq> CHR ''/'' \<Longrightarrow> CHR ''/'' \<notin> set b \<Longrightarrow> path_join d b = d @ CHR ''/'' # b"
  by (auto simp: path_join_def startswith_iff)

lemma mkdir_ok: "p \<noteq> [] \<Longrightarrow> w p = None \<Longrightarrow> is_dir w (path_dirname p) \<Longrightarrow> os_mkdir p w = (Inr (), w(p \<mapsto> Dir))"
  by (simp add: os_mkdir_def)

lemma write_template_ok:
  "p \<noteq> [] \<Longrightarrow> w p = None \<Longrightarrow> is_dir w (path_dirname p) \<Longrightarrow> percent_dict d template = Inr text \<Longrightarrow>
    write_template p template d w = (Inr (), w(p \<mapsto> File text))"
  by (simp add: write_template_def write_file_def is_dir_def)

lemma is_dir_update: "is_dir (w(p \<mapsto> e)) q = (if q = p then e = Dir \<or> q = [] else is_dir w q)"
  by (auto simp: is_dir_def)

lemma create_files_run:
  assumes d: "d \<noteq> []" "last d \<noteq> CHR ''/''" and m: "CHR ''/'' \<notin> set m"
    and free: "is_dir w (path_dirname d)" "w d = None" "\<And>s. w (d @ CHR ''/'' # s) = None"
  shows "create_files d m w = (Inr 0, foldl (\<lambda>w (p, e). w(p \<mapsto> e)) w (module_entries d m))"
proof -
  note dirname = path_dirname_join [OF d]
  have sub: "path_dirname (d @ ''/model/'' @ b) = d @ ''/model''" "path_dirname (d @ ''/helper/'' @ b) = d @ ''/helper''"
      "path_dirname (d @ ''/examples/'' @ b) = d @ ''/examples''" if "CHR ''/'' \<notin> set b" for b
    using that path_dirname_join [of "d @ ''/model''" b] path_dirname_join [of "d @ ''/helper''" b]
      path_dirname_join [of "d @ ''/examples''" b] by simp_all
  have join: "path_join d ''wscript'' = d @ ''/wscript''" "path_join d ''model'' = d @ ''/model''"
      "path_join d ''helper'' = d @ ''/helper''" "path_join d ''examples'' = d @ ''/examples''"
    by (simp_all add: join_below [OF d])
  have join2: "path_join (d @ ''/model'') b = d @ ''/model/'' @ b" "path_join (d @ ''/helper'') b = d @ ''/helper/'' @ b"
      "path_join (d @ ''/examples'') b = d @ ''/examples/'' @ b" if "CHR ''/'' \<notin> set b" for b
    using that by (simp_all add: join_below)
  show ?thesis
    using m d
    by (simp add: create_files_def join [simplified] join2 [simplified] mkdir_ok write_template_ok free templates_ok
        dirname sub [simplified] is_dir_update module_entries_def)
qed

lemma foldl_updates: "foldl (\<lambda>w (p, e). w(p \<mapsto> e)) w xs = w ++ map_of (rev xs)"
  by (induction xs arbitrary: w) (auto simp: fun_eq_iff map_add_def split: option.splits)

lemma entries_distinct: "distinct (map fst (module_entries d m))"
  by (simp add: module_entries_def)

lemma map_of_rev_distinct: "distinct (map fst xs) \<Longrightarrow> map_of (rev xs) = map_of xs"
  by (metis distinct_rev map_of_eqI map_of_inject_set mset_rev rev_map set_rev)

definition listed :: "string \<Rightarrow> string" where
  "listed f = ''        '' @ sq @ f @ sq @ '',''"

definition module_sources :: "string \<Rightarrow> string list" where
  "module_sources m =
     [''model/'' @ m @ ''.cc'', ''helper/'' @ m @ ''-helper.cc'', ''model/'' @ m @ ''.h'', ''helper/'' @ m @ ''-helper.h'']"

text \<open>The \<open>wscript\<close> of the module names sources and headers that are there.\<close>

lemma render_lines:
  assumes "template = unlines ls" "list_all (\<lambda>l. \<exists>u. percent_dict d l = Inr u) ls"
  obtains us where "render d template = unlines us" "\<forall>l \<in> set ls. render d l \<in> set us"
  using render_unlines [OF assms(2)] that [of "map (render d) ls"] unfolding assms(1) by (auto simp: render_def)

lemma sources_listed:
  "\<exists>ls. render (module_dict m) WSCRIPT_TEMPLATE = unlines ls \<and> (\<forall>f \<in> set (module_sources m). listed f \<in> set ls)"
  by (rule render_lines [OF WSCRIPT_TEMPLATE_def, of "module_dict m"])
    (auto simp: render_def listed_def module_sources_def dq_def sq_def module_dict_def dlookup_def)

text \<open>
  C0: for a new name the program makes the directory with exactly its files, and changes nothing else; the sources
  and headers that the \<open>wscript\<close> of the module names are among them. For a name that is taken it changes
  nothing and returns 2.
\<close>

theorem create_module_spec:
  assumes "tree_ok w" "is_dir w here" "here = [] \<or> last here \<noteq> CHR ''/''" "CHR ''/'' \<notin> set m" "m \<notin> {[], ''.'', ''..''}"
  shows "let d = path_join here m; w' = w ++ map_of (module_entries d m) in
    if w d \<noteq> None then create_module here [m] w = (Inr 2, w)
    else create_module here [m] w = (Inr 0, w') \<and> dom w \<inter> fst ` set (module_entries d m) = {} \<and>
      (\<exists>ls. w' (d @ ''/wscript'') = Some (File (unlines ls)) \<and>
        list_all (\<lambda>f. listed f \<in> set ls \<and> (\<exists>text. w' (d @ ''/'' @ f) = Some (File text))) (module_sources m))"
proof -
  define d where "d = path_join here m"
  have last_m: "last m \<noteq> CHR ''/''" using assms(4,5) by (cases m rule: rev_cases) auto
  have d: "d \<noteq> []" "last d \<noteq> CHR ''/''" "path_dirname d = here" "path_basename d = m"
    using assms(3-5) last_m join_below [of here m] path_dirname_join [of here m] path_dirname_plain [of m] path_basename_join [of m here]
    by (auto simp: d_def path_join_def startswith_iff)
  have exists: "path_exists w d \<longleftrightarrow> w d \<noteq> None" using assms(5) d by (auto simp: path_exists_def)
  show ?thesis
  proof (cases "w d")
    case None
    have free: "w (d @ CHR ''/'' # s) = None" for s
      using assms(1) d(1) None unfolding tree_ok_def by (metis not_None_eq)
    have run: "create_files d m w = (Inr 0, w ++ map_of (module_entries d m))"
      using create_files_run [OF d(1,2) assms(4) _ None free] assms(2) d(3)
      by (simp add: foldl_updates map_of_rev_distinct entries_distinct)
    have "w p = None" if "p \<in> fst ` set (module_entries d m)" for p
      using that None free by (auto simp: module_entries_def)
    then have fresh: "dom w \<inter> fst ` set (module_entries d m) = {}" unfolding disjoint_iff domIff by (metis (lifting))
    moreover obtain ls where "render (module_dict m) WSCRIPT_TEMPLATE = unlines ls" "\<forall>f \<in> set (module_sources m). listed f \<in> set ls"
      using sources_listed by blast
    then have "\<exists>ls. (w ++ map_of (module_entries d m)) (d @ ''/wscript'') = Some (File (unlines ls)) \<and>
        list_all (\<lambda>f. listed f \<in> set ls \<and> (\<exists>text. (w ++ map_of (module_entries d m)) (d @ ''/'' @ f) = Some (File text))) (module_sources m)"
      by (intro exI [of _ ls]) (simp add: module_entries_def module_sources_def map_add_def)
    ultimately show ?thesis
      using assms(4) None exists run by (simp add: Let_def d_def [symmetric] create_module_def)
  next
    case (Some e)
    then show ?thesis using assms(4) exists by (simp add: Let_def d_def [symmetric] create_module_def)
  qed
qed

text \<open>The guard of the helper is that of the module whose name ends in \<open>_helper\<close>; a name with a hyphen is no guard at all.\<close>

lemma guards_clash:
  "helper_guard_of m = guard_of (m @ ''_helper'')" "guard_of ''my-module'' = ''__MY-MODULE_H__''"
proof -
  have "map upper_char ''_helper'' = ''_HELPER''" by code_simp
  then show "helper_guard_of m = guard_of (m @ ''_helper'')" by (simp add: helper_guard_of_def guard_of_def del: list.map)
  show "guard_of ''my-module'' = ''__MY-MODULE_H__''" by code_simp
qed

definition small_tree :: tree where
  "small_tree p = (if p = ''src'' then Some Dir else None)"

theorem create_module_witness:
  "\<exists>w. create_module ''src'' [''foo''] small_tree = (Inr 0, w) \<and> w ''src/foo/helper'' = Some Dir"
proof -
  have "tree_ok small_tree" by (auto simp: tree_ok_def small_tree_def Cons_eq_append_conv append_eq_Cons_conv)
  moreover have "is_dir small_tree ''src''" by (simp add: is_dir_def small_tree_def)
  ultimately show ?thesis
    using create_module_spec [of small_tree "''src''" "''foo''"]
    by (simp add: Let_def path_join_def startswith_iff small_tree_def module_entries_def map_add_def)
qed

end
