(* ===== verification/RadSeq.thy ===== *)
theory RadSeq
  imports Prelude "HOL-Library.Sublist"
begin

text \<open>
  The sequence utilities of \<^verbatim>\<open>bindings/python/rad_util.py\<close>: \<open>transpose\<close>, \<open>permutations\<close>,
  \<open>uniquify\<close>, \<open>reverse_dict\<close>, \<open>find_common_fixes\<close>, \<open>is_rotated\<close> and \<open>get_args\<close>.
\<close>

section \<open>Rotations\<close>

text \<open>
  \<open>is_rotated\<close> reads \<open>seq2[0]\<close> after the length test, so two empty sequences raise
  \<open>IndexError\<close>.
\<close>

definition is_rotated :: "'a list \<Rightarrow> 'a list \<Rightarrow> bool res" where
  "is_rotated seq1 seq2 =
     (if length seq1 \<noteq> length seq2 then Inr False
      else rbind (py_get seq2 0) (\<lambda>head_item.
        let start_indexes = filter (\<lambda>index1. seq1 ! index1 = head_item) [0..<length seq1];
            double_seq1 = seq1 @ seq1
        in Inr (list_ex (\<lambda>index1.
             py_slice double_seq1 (int index1) (int (index1 + length seq1)) = seq2)
             start_indexes)))"

lemma slice_double: "i < length xs \<Longrightarrow>
    py_slice (xs @ xs) (int i) (int (i + length xs)) = rotate i xs"
  by (simp only: py_slice_nat) (simp add: rotate_drop_take)

lemma hd_rotate_nth: "i < length xs \<Longrightarrow> rotate i xs ! 0 = xs ! i"
  by (cases "xs = []") (simp_all add: rotate_drop_take nth_append)

lemma is_rotated_length:
  "seq2 \<noteq> [] \<Longrightarrow> length seq1 = length seq2 \<Longrightarrow>
   is_rotated seq1 seq2 = Inr (\<exists>i < length seq1. rotate i seq1 = seq2)"
proof -
  assume ne: "seq2 \<noteq> []" and len: "length seq1 = length seq2"
  have "py_get seq2 0 = Inr (seq2 ! 0)"
    using ne py_get_nonneg [of 0 seq2] by simp
  moreover have "(\<exists>i \<in> {i. i < length seq1 \<and> seq1 ! i = seq2 ! 0}.
        py_slice (seq1 @ seq1) (int i) (int (i + length seq1)) = seq2) \<longleftrightarrow>
      (\<exists>i < length seq1. rotate i seq1 = seq2)"
    by (auto simp: slice_double simp del: of_nat_add) (metis hd_rotate_nth)
  ultimately show ?thesis
    using len by (simp add: is_rotated_def list_ex_iff del: of_nat_add)
qed

lemma ex_rotate_less: "xs \<noteq> [] \<Longrightarrow> (\<exists>n. ys = rotate n xs) \<longleftrightarrow> (\<exists>i < length xs. rotate i xs = ys)"
  by (metis length_greater_0_conv mod_less_divisor rotate_conv_mod)

lemma is_rotated_nonempty:
  "seq2 \<noteq> [] \<Longrightarrow> is_rotated seq1 seq2 = Inr (\<exists>n. seq2 = rotate n seq1)"
proof (cases "length seq1 = length seq2")
  case True
  assume ne: "seq2 \<noteq> []"
  with True have "seq1 \<noteq> []" by auto
  then show ?thesis
    using is_rotated_length [OF ne True] ex_rotate_less [of seq1 seq2] by simp
next
  case False
  then have "\<not> (\<exists>n. seq2 = rotate n seq1)" by (metis length_rotate)
  with False show ?thesis by (simp add: is_rotated_def)
qed

lemma is_rotated_empty: "is_rotated [] [] = Inl IndexError"
  by (simp add: is_rotated_def)

text \<open>
  \<open>is_rotated(seq1, seq2)\<close> answers \<open>True\<close> exactly for the rotations of \<open>seq1\<close>, and raises
  \<open>IndexError\<close> in the one case where both sequences are empty.
\<close>

theorem is_rotated_spec:
  "is_rotated seq1 seq2 =
     (if seq1 = [] \<and> seq2 = [] then Inl IndexError else Inr (\<exists>n. seq2 = rotate n seq1))"
proof (cases "seq2 = []")
  case True
  then show ?thesis
    by (cases "seq1 = []") (auto simp: is_rotated_empty is_rotated_def dest: sym)
next
  case False
  then show ?thesis by (simp add: is_rotated_nonempty)
qed

section \<open>Permutations\<close>

fun permutations :: "'a list \<Rightarrow> 'a list list" where
  "permutations (item # y # ys) =
     concat (map (\<lambda>sub_list.
         map (\<lambda>i. take i sub_list @ item # drop i sub_list) [0..<length (item # y # ys)])
       (permutations (y # ys)))"
| "permutations input_list = [input_list]"

lemma mset_insert_at: "mset (take i xs @ x # drop i xs) = add_mset x (mset xs)"
  by (metis append_take_drop_id mset.simps(2) mset_append union_mset_add_mset_right)

lemma permutations_mset: "ys \<in> set (permutations xs) \<Longrightarrow> mset ys = mset xs"
  by (induction xs arbitrary: ys rule: permutations.induct)
     (auto simp: mset_insert_at simp del: mset_append)

lemma permutations_length: "length (permutations xs) = fact (length xs)"
proof (induction xs rule: permutations.induct)
  case (1 item y ys)
  have "length (permutations (item # y # ys))
      = sum_list (map (\<lambda>_. Suc (Suc (length ys))) (permutations (y # ys)))"
    by (simp add: length_concat comp_def)
  also have "\<dots> = length (permutations (y # ys)) * Suc (Suc (length ys))"
    by (simp add: sum_list_triv)
  also have "\<dots> = fact (Suc (Suc (length ys)))"
    by (simp only: "1.IH" list.size fact_Suc) (simp add: algebra_simps)
  finally show ?case by simp
qed simp_all

lemma insert_at_position:
  "mset ys = add_mset x (mset zs) \<Longrightarrow>
     \<exists>us vs. ys = us @ x # vs \<and> mset (us @ vs) = mset zs"
  by (metis add_mset_add_single mset.simps(2) mset_append split_list union_mset_add_mset_right
      add_mset_remove_trivial set_mset_mset union_single_eq_member)

lemma permutations_complete: "mset ys = mset xs \<Longrightarrow> ys \<in> set (permutations xs)"
proof (induction xs arbitrary: ys rule: permutations.induct)
  case (1 item y zs)
  then obtain us vs where ys: "ys = us @ item # vs" and m: "mset (us @ vs) = mset (y # zs)"
    using insert_at_position [of ys item "y # zs"] by auto
  have "us @ vs \<in> set (permutations (y # zs))" by (rule "1.IH" [OF m])
  moreover have "ys = take (length us) (us @ vs) @ item # drop (length us) (us @ vs)"
    using ys by simp
  moreover have "length us < length (item # y # zs)"
    using m by (metis length_Cons length_append le_add1 less_Suc_eq_le size_mset)
  ultimately show ?case
    unfolding permutations.simps set_concat set_map
    by (metis (no_types, lifting) UN_iff atLeast0LessThan imageI lessThan_iff set_map set_upt)
qed (auto simp: mset_single_iff_right)

text \<open>
  \<open>permutations(l)\<close> returns the rearrangements of \<open>l\<close>, all of them and nothing else, in
  \<open>n!\<close> entries (repeated items give repeated entries).
\<close>

theorem permutations_spec:
  "set (permutations xs) = {ys. mset ys = mset xs} \<and> length (permutations xs) = fact (length xs)"
  using permutations_complete permutations_mset permutations_length by blast

section \<open>Transposition\<close>

text \<open>\<open>zip(*matrix)\<close> stops at the shortest row, and \<open>zip()\<close> of no rows is empty.\<close>

fun shortest :: "'a list list \<Rightarrow> nat" where
  "shortest [] = 0"
| "shortest [r] = length r"
| "shortest (r # rs) = min (length r) (shortest rs)"

definition py_zip :: "'a list list \<Rightarrow> 'a list list" where
  "py_zip rows = map (\<lambda>i. map (\<lambda>r. r ! i) rows) [0..<shortest rows]"

definition transpose_matrix :: "'a list list \<Rightarrow> 'a list list" where
  "transpose_matrix matrix = py_zip matrix"

lemma shortest_le: "r \<in> set rows \<Longrightarrow> shortest rows \<le> length r"
  by (induction rows rule: shortest.induct) auto

lemma shortest_rect: "rows \<noteq> [] \<Longrightarrow> \<forall>r \<in> set rows. length r = n \<Longrightarrow> shortest rows = n"
  by (induction rows rule: shortest.induct) auto

lemma transpose_shape:
  "length (transpose_matrix m) = shortest m"
  "r \<in> set (transpose_matrix m) \<Longrightarrow> length r = length m"
  by (auto simp: transpose_matrix_def py_zip_def)

lemma transpose_nth:
  "i < shortest m \<Longrightarrow> j < length m \<Longrightarrow> transpose_matrix m ! i ! j = m ! j ! i"
  by (simp add: transpose_matrix_def py_zip_def)

text \<open>
  Transposing twice is the identity on every rectangular matrix with at least one row
  and one column.
\<close>

theorem transpose_involution:
  assumes rows: "\<forall>r \<in> set m. length r = n" and n: "0 < n"
  shows "transpose_matrix (transpose_matrix m) = m"
proof (cases "m = []")
  case True
  then show ?thesis by (simp add: transpose_matrix_def py_zip_def)
next
  case False
  let ?t = "transpose_matrix m"
  have sh: "shortest m = n" using False rows by (rule shortest_rect)
  then have len: "length ?t = n" by (simp add: transpose_shape)
  then have "?t \<noteq> []" using n by auto
  then have sh2: "shortest ?t = length m"
    using transpose_shape(2) [of _ m] by (intro shortest_rect) auto
  show ?thesis
  proof (rule nth_equalityI)
    show "length (transpose_matrix ?t) = length m" by (simp add: transpose_shape sh2)
  next
    fix j assume "j < length (transpose_matrix ?t)"
    then have j: "j < length m" by (simp add: transpose_shape sh2)
    then have lj: "length (m ! j) = n" using rows by simp
    moreover have "length (transpose_matrix ?t ! j) = n"
      using j sh2 len transpose_shape(2) [of "transpose_matrix ?t ! j" ?t]
      by (simp add: transpose_shape)
    ultimately show "transpose_matrix ?t ! j = m ! j"
      using j sh sh2 len by (intro nth_equalityI) (simp_all add: transpose_nth)
  qed
qed

theorem transpose_involution_witness:
  "transpose_matrix (transpose_matrix [[1, 2, 3], [4, 5, 6 :: int]]) = [[1, 2, 3], [4, 5, 6]]"
  by (rule transpose_involution [where n = 3]) simp_all

section \<open>Common prefix and suffix\<close>

function prefix_loop :: "'a list \<Rightarrow> 'a list \<Rightarrow> nat \<Rightarrow> nat \<Rightarrow> 'a list \<Rightarrow> 'a list" where
  "prefix_loop s1 s2 common_len i pfx =
     (if i < common_len then
        if s1 ! i \<noteq> s2 ! i then pfx
        else prefix_loop s1 s2 common_len (i + 1) (pfx @ [s1 ! i])
      else pfx)"
  by pat_completeness auto
termination
  by (relation "measure (\<lambda>(s1, s2, n, i, p). n - i)") auto

function suffix_loop :: "'a list \<Rightarrow> 'a list \<Rightarrow> nat \<Rightarrow> nat \<Rightarrow> 'a list \<Rightarrow> 'a list" where
  "suffix_loop s1 s2 common_len i sfx =
     (if i < common_len + 1 then
        if s1 ! (length s1 - i) \<noteq> s2 ! (length s2 - i) then sfx
        else suffix_loop s1 s2 common_len (i + 1) (sfx @ [s1 ! (length s1 - i)])
      else sfx)"
  by pat_completeness auto
termination
  by (relation "measure (\<lambda>(s1, s2, n, i, p). Suc n - i)") auto

declare prefix_loop.simps [simp del] suffix_loop.simps [simp del]

text \<open>The suffix loop starts at \<open>i = 1\<close>, so \<open>s1[-i]\<close> is the entry \<open>length s1 - i\<close>.\<close>

definition find_common_fixes :: "'a list \<Rightarrow> 'a list \<Rightarrow> 'a list \<times> 'a list" where
  "find_common_fixes s1 s2 =
     (let common_len = min (length s1) (length s2);
          pfx = prefix_loop s1 s2 common_len 0 [];
          sfx = suffix_loop s1 s2 common_len 1 []
      in (pfx, rev sfx))"

lemma lcp_drop:
  "i < min (length s1) (length s2) \<Longrightarrow>
   longest_common_prefix (drop i s1) (drop i s2) =
     (if s1 ! i = s2 ! i
      then s1 ! i # longest_common_prefix (drop (Suc i) s1) (drop (Suc i) s2) else [])"
  by (simp add: Cons_nth_drop_Suc [symmetric])

lemma lcp_drop_end:
  "\<not> i < min (length s1) (length s2) \<Longrightarrow> longest_common_prefix (drop i s1) (drop i s2) = []"
  by (cases "length s1 \<le> length s2") (auto simp: min_def)

lemma prefix_loop_lcp:
  "prefix_loop s1 s2 (min (length s1) (length s2)) i p =
   p @ longest_common_prefix (drop i s1) (drop i s2)"
proof (induction "min (length s1) (length s2) - i" arbitrary: i p)
  case 0
  then have n: "\<not> i < min (length s1) (length s2)" by linarith
  then show ?case by (subst prefix_loop.simps) (simp only: lcp_drop_end [OF n] n if_False append_Nil2)
next
  case (Suc k)
  then have i: "i < min (length s1) (length s2)" by linarith
  have "prefix_loop s1 s2 (min (length s1) (length s2)) (Suc i) q =
      q @ longest_common_prefix (drop (Suc i) s1) (drop (Suc i) s2)" for q
    using Suc by simp
  then show ?case using i by (subst prefix_loop.simps) (simp only: lcp_drop [OF i], simp)
qed

lemma suffix_loop_prefix_loop:
  "n \<le> length s1 \<Longrightarrow> n \<le> length s2 \<Longrightarrow>
   suffix_loop s1 s2 n (Suc i) p = prefix_loop (rev s1) (rev s2) n i p"
proof (induction "n - i" arbitrary: i p)
  case 0
  then show ?case by (subst prefix_loop.simps, subst suffix_loop.simps) simp
next
  case (Suc k)
  then have "suffix_loop s1 s2 n (Suc (Suc i)) q = prefix_loop (rev s1) (rev s2) n (Suc i) q" for q
    by simp
  with Suc show ?case
    by (subst prefix_loop.simps, subst suffix_loop.simps) (simp add: rev_nth)
qed

text \<open>
  \<open>find_common_fixes(s1, s2)\<close> is the longest common prefix and the longest common
  suffix of the two strings.
\<close>

theorem find_common_fixes_spec:
  "find_common_fixes s1 s2 =
     (longest_common_prefix s1 s2, rev (longest_common_prefix (rev s1) (rev s2)))"
proof -
  have "suffix_loop s1 s2 (min (length s1) (length s2)) 1 [] =
      prefix_loop (rev s1) (rev s2) (min (length (rev s1)) (length (rev s2))) 0 []"
    using suffix_loop_prefix_loop [of "min (length s1) (length s2)" s1 s2 0 "[]"] by simp
  then show ?thesis
    by (simp only: find_common_fixes_def Let_def prefix_loop_lcp) simp
qed

section \<open>Removing duplicates\<close>

text \<open>
  The fast path keeps a dictionary \<open>d\<close>; \<open>d[x] = 0\<close> raises \<open>TypeError\<close> at the first item that
  is not hashable, and the handler starts again with the quadratic loop. Whether an item
  is hashable is the parameter \<open>hashable\<close>.
\<close>

fun uniq_ordered :: "'a list \<Rightarrow> ('a, nat) dict \<Rightarrow> 'a list" where
  "uniq_ordered [] d = []"
| "uniq_ordered (x # seq) d =
     (case dget d x of None \<Rightarrow> x # uniq_ordered seq (dset x 0 d) | Some _ \<Rightarrow> uniq_ordered seq d)"

definition uniq_unordered :: "('a list \<Rightarrow> 'a list) \<Rightarrow> 'a list \<Rightarrow> 'a list" where
  "uniq_unordered perm seq = perm (dkeys (foldl (\<lambda>d x. dset x (0 :: nat) d) [] seq))"

definition uniq_slow :: "'a list \<Rightarrow> 'a list" where
  "uniq_slow seq = foldl (\<lambda>result x. if x \<notin> set result then result @ [x] else result) [] seq"

definition uniquify ::
    "('a list \<Rightarrow> 'a list) \<Rightarrow> ('a \<Rightarrow> bool) \<Rightarrow> 'a list \<Rightarrow> bool \<Rightarrow> 'a list" where
  "uniquify perm hashable seq preserve_order =
     (if list_all hashable seq then
        if preserve_order then uniq_ordered seq [] else uniq_unordered perm seq
      else uniq_slow seq)"

text \<open>The items in the order of their first occurrence.\<close>

definition first_occurrences :: "'a list \<Rightarrow> 'a list" where
  "first_occurrences xs = rev (remdups (rev xs))"

lemma first_occurrences_snoc:
  "first_occurrences (xs @ [x]) =
     (if x \<in> set xs then first_occurrences xs else first_occurrences xs @ [x])"
  by (simp add: first_occurrences_def)

lemma first_occurrences_facts [simp]:
  "distinct (first_occurrences xs)" "set (first_occurrences xs) = set xs"
  by (simp_all add: first_occurrences_def)

lemma uniq_ordered_append:
  "uniq_ordered (xs @ ys) d =
   uniq_ordered xs d @ uniq_ordered ys (foldl (\<lambda>d x. if dget d x = None then dset x 0 d else d) d xs)"
  by (induction xs arbitrary: d) (auto split: option.splits)

lemma dom_uniq_fold:
  "dom (dget (foldl (\<lambda>d x. if dget d x = None then dset x (0 :: nat) d else d) d xs)) =
   dom (dget d) \<union> set xs"
  by (induction xs arbitrary: d) auto

lemma uniq_ordered_first: "uniq_ordered xs [] = first_occurrences xs"
proof (induction xs rule: rev_induct)
  case Nil
  then show ?case by (simp add: first_occurrences_def)
next
  case (snoc x xs)
  let ?d = "foldl (\<lambda>d x. if dget d x = None then dset x (0 :: nat) d else d) [] xs"
  have "dget ?d x = None \<longleftrightarrow> x \<notin> set xs"
    using dom_uniq_fold [of "[]" xs] by (auto simp: domIff)
  with snoc show ?case
    by (auto simp: uniq_ordered_append first_occurrences_snoc split: option.splits)
qed

lemma dkeys_fold_dset: "dkeys (foldl (\<lambda>d x. dset x v d) [] xs) = first_occurrences xs"
  by (induction xs rule: rev_induct)
     (auto simp: dkeys_dset first_occurrences_snoc, simp_all add: dkeys_def first_occurrences_def)

lemma uniq_slow_first: "uniq_slow xs = first_occurrences xs"
  unfolding uniq_slow_def
  by (induction xs rule: rev_induct)
     (auto simp: first_occurrences_snoc, simp add: first_occurrences_def)

text \<open>
  Whatever order the dictionary keys come in, and whether or not the items are
  hashable, \<open>uniquify\<close> returns each item of the sequence exactly once; with
  \<open>preserve_order\<close>, or on the slow path, in the order of first occurrence.
\<close>

theorem uniquify_spec:
  assumes "key_order perm"
  shows "distinct (uniquify perm hashable seq preserve_order) \<and>
         set (uniquify perm hashable seq preserve_order) = set seq \<and>
         (preserve_order \<or> \<not> list_all hashable seq \<longrightarrow>
            uniquify perm hashable seq preserve_order = first_occurrences seq)"
  using assms
  by (simp add: uniquify_def uniq_ordered_first uniq_unordered_def dkeys_fold_dset uniq_slow_first)

theorem uniquify_witness:
  "distinct (uniquify rev (\<lambda>_. True) ''abracadabra'' False) \<and>
   set (uniquify rev (\<lambda>_. True) ''abracadabra'' False) = set ''abracadabra''"
  using uniquify_spec [OF key_order_rev, of "\<lambda>_. True" "''abracadabra''" False] by blast

section \<open>Reversing a dictionary\<close>

definition reverse_dict ::
    "(('k \<times> 'v) list \<Rightarrow> ('k \<times> 'v) list) \<Rightarrow> ('k, 'v) dict \<Rightarrow> ('v, 'k) dict" where
  "reverse_dict perm d = foldl (\<lambda>result (key, value). dset value key result) [] (perm d)"

lemma foldl_dset_get:
  "distinct (map snd es) \<Longrightarrow>
   dget (foldl (\<lambda>result (key, value). dset value key result) acc es) =
     (dget acc) ++ map_of (map (\<lambda>(k, v). (v, k)) es)"
proof (induction es arbitrary: acc)
  case (Cons e es)
  obtain k v where e: "e = (k, v)" by (cases e)
  have "v \<notin> set (map snd es)" using Cons.prems e by simp
  then have "map_of (map (\<lambda>(k, v). (v, k)) es) v = None"
    by (force simp: map_of_eq_None_iff)
  then show ?case
    using Cons e by (auto simp: map_add_def fun_eq_iff split: option.splits)
qed simp

lemma map_of_swap:
  assumes "distinct (map snd es)"
  shows "map_of (map (\<lambda>(k, v). (v, k)) es) v = Some k \<longleftrightarrow> (k, v) \<in> set es"
proof -
  have "distinct (map fst (map (\<lambda>(k, v). (v, k)) es))"
    using assms by (simp add: comp_def case_prod_beta)
  then show ?thesis by (force simp: map_of_eq_Some_iff)
qed

text \<open>
  When no value occurs twice, \<open>reverse_dict\<close> maps each value to its key and nothing
  else, in whatever order the items are listed; so reversing twice gives a dictionary with
  the same entries.
\<close>

theorem reverse_dict_spec:
  assumes d: "dict_ok d" and vals: "distinct (map snd d)"
    and perm: "mset (perm d) = mset d"
  shows "dget (reverse_dict perm d) v = Some k \<longleftrightarrow> dget d k = Some v"
proof -
  have "mset (map snd (perm d)) = mset (map snd d)" using perm by simp
  then have "distinct (map snd (perm d))" using vals mset_eq_imp_distinct_iff by blast
  moreover have "set (perm d) = set d" using perm mset_eq_setD by blast
  ultimately have "dget (reverse_dict perm d) v = Some k \<longleftrightarrow> (k, v) \<in> set d"
    by (simp add: reverse_dict_def foldl_dset_get map_of_swap)
  also have "\<dots> \<longleftrightarrow> dget d k = Some v"
    using d by (simp add: dict_ok_def dkeys_def)
  finally show ?thesis .
qed

theorem reverse_dict_witness:
  "dget (reverse_dict rev [(CHR ''a'', 1 :: nat), (CHR ''b'', 2)]) 2 = Some CHR ''b'' \<longleftrightarrow>
   dget [(CHR ''a'', 1 :: nat), (CHR ''b'', 2)] CHR ''b'' = Some 2"
  by (rule reverse_dict_spec) (simp_all add: dict_ok_def dkeys_def)

section \<open>Command-line arguments\<close>

datatype argval = NoVal | StrVal string | ArgList "string list"

text \<open>\<open>re.sub(r'^-+', '', arg).split('=')\<close>, one step per argument.\<close>

definition arg_parts :: "string \<Rightarrow> string list" where
  "arg_parts arg = split_on CHR ''='' (dropWhile (\<lambda>c. c = CHR ''-'') arg)"

definition get_args_step ::
    "(string, argval) dict \<times> string list \<Rightarrow> string \<Rightarrow> (string, argval) dict \<times> string list" where
  "get_args_step st arg =
     (case st of (d, args) \<Rightarrow>
       if startswith arg ''-'' then
         (case arg_parts arg of
            [k, v] \<Rightarrow> (dset k (StrVal v) d, args)
          | k # _ \<Rightarrow> (dset k NoVal d, args)
          | [] \<Rightarrow> (d, args))
       else (d, args @ [arg]))"

definition get_args :: "string list \<Rightarrow> (string, argval) dict" where
  "get_args argv =
     (case foldl get_args_step ([], []) argv of (d, args) \<Rightarrow> dset ''args'' (ArgList args) d)"

lemma get_args_positional:
  "snd (foldl get_args_step (d, args) argv) = args @ filter (\<lambda>a. \<not> startswith a ''-'') argv"
  by (induction argv arbitrary: d args)
     (auto simp: get_args_step_def split: list.splits)

definition option_of :: "string \<Rightarrow> string \<Rightarrow> string" where
  "option_of k v = ''--'' @ k @ ''='' @ v"

lemma arg_parts_option:
  "k \<noteq> [] \<Longrightarrow> hd k \<noteq> CHR ''-'' \<Longrightarrow> CHR ''='' \<notin> set k \<Longrightarrow> CHR ''='' \<notin> set v \<Longrightarrow>
   arg_parts (option_of k v) = [k, v]"
  by (cases k) (auto simp: arg_parts_def option_of_def split_on_append split_on_no_sep)

lemma get_args_step_option:
  "k \<noteq> [] \<Longrightarrow> hd k \<noteq> CHR ''-'' \<Longrightarrow> CHR ''='' \<notin> set k \<Longrightarrow> CHR ''='' \<notin> set v \<Longrightarrow>
   get_args_step (d, args) (option_of k v) = (dset k (StrVal v) d, args)"
  using arg_parts_option [of k v] by (simp add: get_args_step_def) (simp add: option_of_def)

text \<open>
  A command line as it is meant: options with a value and positional arguments. \<open>cmd_ok\<close>
  leaves out the option \<open>--args=...\<close>, which the key of the positional list overwrites, and
  the texts that the two splits of the code cut elsewhere.
\<close>

datatype cmd_arg = Opt string string | Pos string

fun render_arg :: "cmd_arg \<Rightarrow> string" where
  "render_arg (Opt k v) = option_of k v"
| "render_arg (Pos s) = s"

fun cmd_ok :: "cmd_arg \<Rightarrow> bool" where
  "cmd_ok (Opt k v) = (k \<noteq> [] \<and> hd k \<noteq> CHR ''-'' \<and> CHR ''='' \<notin> set k \<and> CHR ''='' \<notin> set v
     \<and> k \<noteq> ''args'')"
| "cmd_ok (Pos s) = (\<not> startswith s ''-'')"

fun cmd_opts :: "cmd_arg list \<Rightarrow> (string \<times> string) list" where
  "cmd_opts [] = []"
| "cmd_opts (Opt k v # as) = (k, v) # cmd_opts as"
| "cmd_opts (Pos s # as) = cmd_opts as"

fun cmd_pos :: "cmd_arg list \<Rightarrow> string list" where
  "cmd_pos [] = []"
| "cmd_pos (Opt k v # as) = cmd_pos as"
| "cmd_pos (Pos s # as) = s # cmd_pos as"

lemma get_args_fold:
  "\<forall>a \<in> set as. cmd_ok a \<Longrightarrow>
   foldl get_args_step (d, args) (map render_arg as) =
     (foldl (\<lambda>d (k, v). dset k (StrVal v) d) d (cmd_opts as), args @ cmd_pos as)"
proof (induction as arbitrary: d args)
  case (Cons a as)
  show ?case
  proof (cases a)
    case (Opt k v)
    with Cons show ?thesis by (simp add: get_args_step_option)
  next
    case (Pos s)
    with Cons show ?thesis by (simp add: get_args_step_def)
  qed
qed simp

lemma foldl_dset_last:
  "dget (foldl (\<lambda>d (k, v). dset k (f v) d) d kvs) k =
     (case map_of (rev kvs) k of Some v \<Rightarrow> Some (f v) | None \<Rightarrow> dget d k)"
  by (induction kvs rule: rev_induct) (auto split: option.splits)

text \<open>
  \<open>get_args\<close> reads back a command line of options and positional arguments: an option has
  the value of its last occurrence, \<open>args\<close> lists the positional arguments in order, and no other
  key appears.
\<close>

theorem get_args_spec:
  assumes "\<forall>a \<in> set as. cmd_ok a"
  shows "dget (get_args (map render_arg as)) k =
     (if k = ''args'' then Some (ArgList (cmd_pos as))
      else map_option StrVal (map_of (rev (cmd_opts as)) k))"
  using get_args_fold [OF assms, of "[]" "[]"]
  by (simp add: get_args_def foldl_dset_last split: option.splits)

theorem get_args_witness:
  "dget (get_args [''--mode=fast'', ''in.txt'', ''--mode=slow'']) ''mode'' = Some (StrVal ''slow'')"
  using get_args_spec [of "[Opt ''mode'' ''fast'', Pos ''in.txt'', Opt ''mode'' ''slow'']" "''mode''"]
  by (simp add: option_of_def)

text \<open>An option whose value holds an equals sign loses the value: three parts, not two.\<close>

lemma get_args_equals_in_value:
  "dget (get_args [''--define=A=1'']) ''define'' = Some NoVal"
  by (simp add: get_args_def get_args_step_def arg_parts_def)

end
