(* ===== verification/Cycles.thy ===== *)
theory Cycles
  imports RadSeq
begin

text \<open>
  \<open>find_cycles\<close> of \<^verbatim>\<open>bindings/python/topsort.py\<close>: a depth-first walk with an explicit stack of
  paths that yields every cycle it closes, unless a rotation of it was yielded before. What
  it needs of \<open>is_rotated\<close> (from \<^verbatim>\<open>rad_util.py\<close>) is the locale \<open>same_cycle\<close>; the walk takes that
  test as its parameter \<open>same\<close>, and the last section instantiates it with the modelled
  \<open>is_rotated\<close>. The yielded cycles are the list \<open>cycles\<close>, which the code extends at each yield.
\<close>

section \<open>The walk\<close>

text \<open>\<open>for other_cycle in cycles: if is_rotated(other_cycle, cycle): is_dup = True; break\<close>\<close>

fun is_dup :: "('a list \<Rightarrow> 'a list \<Rightarrow> bool res) \<Rightarrow> 'a list list \<Rightarrow> 'a list \<Rightarrow> bool res" where
  "is_dup same [] cycle = Inr False"
| "is_dup same (other_cycle # os) cycle =
     rbind (same other_cycle cycle) (\<lambda>b. if b then Inr True else is_dup same os cycle)"

type_synonym 'a walk = "'a list list \<times> 'a set \<times> 'a list list"

text \<open>One child of the last node of \<open>path\<close>; the state is (cycles, visited, paths).\<close>

definition visit_child ::
    "('a list \<Rightarrow> 'a list \<Rightarrow> bool res) \<Rightarrow> 'a list \<Rightarrow> 'a walk \<Rightarrow> 'a \<Rightarrow> 'a walk res" where
  "visit_child same path st child =
     (case st of (cycles, visited, paths) \<Rightarrow>
       if child \<in> set path then
         rbind (py_index path child) (\<lambda>i.
         let cycle = py_slice_from path (int i) in
         rbind (is_dup same cycles cycle) (\<lambda>dup.
           Inr (if dup then cycles else cycles @ [cycle], visited, paths)))
       else Inr (cycles, insert child visited, paths @ [path @ [child]]))"

definition pushed :: "'a list \<Rightarrow> 'a list \<Rightarrow> 'a list list" where
  "pushed path cs = map (\<lambda>c. path @ [c]) (filter (\<lambda>c. c \<notin> set path) cs)"

lemma visit_children_paths:
  "rfold (visit_child same path) (cycles, visited, paths) cs = Inr (cycles', visited', paths') \<Longrightarrow>
   paths' = paths @ pushed path cs \<and> visited' = visited \<union> (set cs - set path)"
proof (induction cs arbitrary: cycles visited paths)
  case (Cons c cs)
  then obtain st where st: "visit_child same path (cycles, visited, paths) c = Inr st"
    and rest: "rfold (visit_child same path) st cs = Inr (cycles', visited', paths')"
    by (auto simp: rbind_Inr_iff)
  obtain cy vi pa where s: "st = (cy, vi, pa)" by (cases st)
  have step: "vi = visited \<union> ({c} - set path) \<and> pa = paths @ pushed path [c]"
    using st unfolding s visit_child_def pushed_def
    by (auto simp: rbind_Inr_iff Let_def split: if_splits)
  have "paths' = pa @ pushed path cs \<and> visited' = vi \<union> (set cs - set path)"
    using Cons.IH rest unfolding s .
  moreover have "pushed path (c # cs) = pushed path [c] @ pushed path cs"
    by (simp add: pushed_def)
  ultimately show ?case using step by auto
qed (simp add: pushed_def)

definition nodes :: "('a, 'a list) dict \<Rightarrow> 'a set" where
  "nodes pc = set (dkeys pc) \<union> \<Union> (set ` snd ` set pc)"

lemma finite_nodes [simp]: "finite (nodes pc)"
  by (simp add: nodes_def)

lemma child_node: "dget pc p = Some cs \<Longrightarrow> c \<in> set cs \<Longrightarrow> c \<in> nodes pc"
  by (force simp: nodes_def dest: map_of_SomeD)

definition stack_weight :: "('a, 'a list) dict \<Rightarrow> 'a list list \<Rightarrow> nat multiset" where
  "stack_weight pc paths = mset (map (\<lambda>p. card (nodes pc - set p)) paths)"

lemma stack_weight_pop:
  "paths \<noteq> [] \<Longrightarrow> (stack_weight pc (butlast paths), stack_weight pc paths) \<in> mult less_than"
  by (cases paths rule: rev_cases)
     (auto simp: stack_weight_def intro!: one_step_implies_mult [of "{#_#}" "{#}", simplified])

lemma stack_weight_push:
  assumes "paths \<noteq> []" "dget pc p = Some cs"
  shows "(stack_weight pc (butlast paths @ pushed (last paths) cs), stack_weight pc paths) \<in> mult less_than"
proof -
  obtain ps path where paths: "paths = ps @ [path]"
    using assms(1) by (metis append_butlast_last_id)
  have "card (nodes pc - set (path @ [c])) < card (nodes pc - set path)"
    if "c \<in> set cs" "c \<notin> set path" for c
    using that child_node [OF assms(2)] by (intro psubset_card_mono) auto
  then have "\<forall>k \<in># stack_weight pc (pushed path cs).
      \<exists>j \<in># {#card (nodes pc - set path)#}. (k, j) \<in> less_than"
    by (auto simp: stack_weight_def pushed_def)
  then have "(stack_weight pc ps + stack_weight pc (pushed path cs),
      stack_weight pc ps + {#card (nodes pc - set path)#}) \<in> mult less_than"
    by (intro one_step_implies_mult) auto
  then show ?thesis by (simp add: paths stack_weight_def)
qed

text \<open>\<open>while paths\<close>: the stack's top is the end of the list.\<close>

function search_loop :: "('a list \<Rightarrow> 'a list \<Rightarrow> bool res) \<Rightarrow> ('a, 'a list) dict \<Rightarrow>
    'a list list \<Rightarrow> 'a list list \<Rightarrow> 'a set \<Rightarrow> ('a list list \<times> 'a set) res" where
  "search_loop same parent_children paths cycles visited =
     (if paths = [] then Inr (cycles, visited)
      else (case py_get (last paths) (-1) of
          Inl e \<Rightarrow> Inl e
        | Inr parent \<Rightarrow>
            (case dget parent_children parent of
               None \<Rightarrow> search_loop same parent_children (butlast paths) cycles visited
             | Some children \<Rightarrow>
                 (case rfold (visit_child same (last paths)) (cycles, visited, butlast paths) children of
                    Inl e \<Rightarrow> Inl e
                  | Inr (cycles', visited', paths') \<Rightarrow>
                      search_loop same parent_children paths' cycles' visited'))))"
  by pat_completeness auto
termination
proof (relation "inv_image (mult less_than) (\<lambda>(same, pc, paths, cycles, visited). stack_weight pc paths)")
  show "wf (inv_image (mult less_than)
      (\<lambda>(same :: 'a list \<Rightarrow> 'a list \<Rightarrow> bool res, pc :: ('a, 'a list) dict, paths,
        cycles :: 'a list list, visited :: 'a set). stack_weight pc paths))"
    by (simp add: wf_mult)
qed (auto simp: stack_weight_pop dest!: visit_children_paths intro: stack_weight_push)

declare search_loop.simps [simp del]

text \<open>\<open>for parent in parent_children\<close>\<close>

definition search_root :: "('a list \<Rightarrow> 'a list \<Rightarrow> bool res) \<Rightarrow> ('a, 'a list) dict \<Rightarrow>
    'a list list \<times> 'a set \<Rightarrow> 'a \<Rightarrow> ('a list list \<times> 'a set) res" where
  "search_root same parent_children st parent =
     (case st of (cycles, visited_nodes) \<Rightarrow>
       if parent \<in> visited_nodes then Inr (cycles, visited_nodes)
       else search_loop same parent_children [[parent]] cycles visited_nodes)"

definition find_cycles_with :: "('a list \<Rightarrow> 'a list \<Rightarrow> bool res) \<Rightarrow> ('a list \<Rightarrow> 'a list) \<Rightarrow>
    ('a, 'a list) dict \<Rightarrow> 'a list list res" where
  "find_cycles_with same perm parent_children =
     rbind (rfold (search_root same parent_children) ([], {}) (perm (dkeys parent_children)))
       (\<lambda>(cycles, visited). Inr cycles)"

definition find_cycles :: "('a list \<Rightarrow> 'a list) \<Rightarrow> ('a, 'a list) dict \<Rightarrow> 'a list list res" where
  "find_cycles perm parent_children = find_cycles_with is_rotated perm parent_children"

section \<open>Paths and cycles of the graph\<close>

definition edge :: "('a, 'a list) dict \<Rightarrow> 'a \<Rightarrow> 'a \<Rightarrow> bool" where
  "edge pc a b \<longleftrightarrow> (\<exists>cs. dget pc a = Some cs \<and> b \<in> set cs)"

definition simple_path :: "('a, 'a list) dict \<Rightarrow> 'a list \<Rightarrow> bool" where
  "simple_path pc p \<longleftrightarrow> p \<noteq> [] \<and> distinct p \<and> successively (edge pc) p"

definition simple_cycle :: "('a, 'a list) dict \<Rightarrow> 'a list \<Rightarrow> bool" where
  "simple_cycle pc c \<longleftrightarrow> simple_path pc c \<and> edge pc (last c) (hd c)"

lemma simple_path_snoc:
  "simple_path pc p \<Longrightarrow> edge pc (last p) c \<Longrightarrow> c \<notin> set p \<Longrightarrow> simple_path pc (p @ [c])"
  by (auto simp: simple_path_def successively_append_iff)

lemma simple_path_single [simp]: "simple_path pc [a]"
  by (simp add: simple_path_def)

text \<open>The cycle a path closes when its last node has a successor \<open>x\<close> on the path.\<close>

definition closing :: "'a list \<Rightarrow> 'a \<Rightarrow> 'a list" where
  "closing p x = dropWhile (\<lambda>y. y \<noteq> x) p"

lemma closing_split: "x \<notin> set us \<Longrightarrow> closing (us @ x # vs) x = x # vs"
  unfolding closing_def by (subst dropWhile_append2) auto

lemma closing_index:
  "x \<in> set p \<Longrightarrow> \<exists>i. py_index p x = Inr i \<and> py_slice_from p (int i) = closing p x"
  using py_index_split [of x p] by (auto simp: closing_split)

lemma closing_cycle:
  assumes "simple_path pc p" "x \<in> set p" "edge pc (last p) x"
  shows "simple_cycle pc (closing p x)"
proof -
  obtain us vs where p: "p = us @ x # vs" "x \<notin> set us" using assms(2) by (meson split_list_first)
  with assms show ?thesis
    by (auto simp: closing_split simple_cycle_def simple_path_def successively_append_iff)
qed

lemma simple_cycle_rotate1: "simple_cycle pc c \<Longrightarrow> simple_cycle pc (rotate1 c)"
  by (cases c)
     (auto simp: simple_cycle_def simple_path_def successively_append_iff successively_Cons
           split: if_splits)

lemma simple_cycle_rotate: "simple_cycle pc c \<Longrightarrow> simple_cycle pc (rotate n c)"
  by (induction n) (auto simp: simple_cycle_rotate1)

lemma simple_cycle_key: "simple_cycle pc c \<Longrightarrow> x \<in> set c \<Longrightarrow> x \<in> set (dkeys pc)"
proof -
  assume c: "simple_cycle pc c" and x: "x \<in> set c"
  obtain i where "i < length c" "c ! i = x" using x by (auto simp: in_set_conv_nth)
  then have "hd (rotate i c) = x" using x hd_conv_nth [of "rotate i c"] hd_rotate_nth [of i c] by fastforce
  then have "last (rotate (Suc i) c) = x" using x by (cases "rotate i c") auto
  then have "\<exists>y. edge pc x y" using simple_cycle_rotate [OF c, of "Suc i"] by (auto simp: simple_cycle_def)
  then show ?thesis by (auto simp: edge_def in_dkeys_iff)
qed

section \<open>What the walk needs of the rotation test\<close>

text \<open>
  On non-empty cycles the test must return, and decide an equivalence \<open>eqv\<close>. The lemmas of
  the walk are proved from that alone.
\<close>

definition found :: "('a list \<Rightarrow> 'a list \<Rightarrow> bool) \<Rightarrow> 'a list list \<Rightarrow> 'a list \<Rightarrow> bool" where
  "found eqv cycles c \<longleftrightarrow> (\<exists>c' \<in> set cycles. eqv c' c)"

text \<open>The invariant of the walk, over the roots it has started from.\<close>

definition walk_ok :: "('a list \<Rightarrow> 'a list \<Rightarrow> bool) \<Rightarrow> ('a, 'a list) dict \<Rightarrow> 'a set \<Rightarrow> 'a walk \<Rightarrow> bool" where
  "walk_ok eqv pc roots st \<longleftrightarrow> (case st of (cycles, visited, paths) \<Rightarrow>
     (\<forall>c \<in> set cycles. simple_cycle pc c) \<and>
     sorted_wrt (\<lambda>a b. \<not> eqv a b) cycles \<and>
     (\<forall>v \<in> visited. \<exists>p. simple_path pc p \<and> hd p \<in> roots \<and> last p = v) \<and>
     (\<forall>p \<in> set paths. simple_path pc p \<and> hd p \<in> roots))"

text \<open>Every cycle that a simple continuation of \<open>p\<close> closes has been found.\<close>

definition explored :: "('a list \<Rightarrow> 'a list \<Rightarrow> bool) \<Rightarrow> ('a, 'a list) dict \<Rightarrow> 'a list list \<Rightarrow> 'a list \<Rightarrow> bool" where
  "explored eqv pc cycles p \<longleftrightarrow> (\<forall>q x. simple_path pc (p @ q) \<longrightarrow> edge pc (last (p @ q)) x \<longrightarrow>
     x \<in> set (p @ q) \<longrightarrow> found eqv cycles (closing (p @ q) x))"

lemma found_mono: "found eqv cycles c \<Longrightarrow> set cycles \<subseteq> set cycles' \<Longrightarrow> found eqv cycles' c"
  by (auto simp: found_def)

lemma explored_mono:
  "explored eqv pc cycles p \<Longrightarrow> set cycles \<subseteq> set cycles' \<Longrightarrow> explored eqv pc cycles' p"
  unfolding explored_def by (meson found_mono)

lemma explored_step:
  assumes p: "p \<noteq> []"
    and here: "\<And>x. edge pc (last p) x \<Longrightarrow> x \<in> set p \<Longrightarrow> found eqv cycles (closing p x)"
    and below: "\<And>c. edge pc (last p) c \<Longrightarrow> c \<notin> set p \<Longrightarrow> explored eqv pc cycles (p @ [c])"
  shows "explored eqv pc cycles p"
  unfolding explored_def
proof (intro allI impI)
  fix q x
  assume q: "simple_path pc (p @ q)" "edge pc (last (p @ q)) x" "x \<in> set (p @ q)"
  show "found eqv cycles (closing (p @ q) x)"
  proof (cases q)
    case Nil
    with q here show ?thesis by simp
  next
    case (Cons c r)
    then have "edge pc (last p) c" "c \<notin> set p"
      using q(1) p by (auto simp: simple_path_def successively_append_iff)
    from below [OF this] q Cons show ?thesis unfolding explored_def by (metis append.assoc append_Cons append_Nil)
  qed
qed

locale same_cycle =
  fixes same :: "'a list \<Rightarrow> 'a list \<Rightarrow> bool res"
    and eqv :: "'a list \<Rightarrow> 'a list \<Rightarrow> bool"
  assumes same_eqv: "ys \<noteq> [] \<Longrightarrow> same xs ys = Inr (eqv xs ys)"
    and eqv_refl: "eqv xs xs"
    and eqv_rotate: "eqv xs (rotate n ys) \<longleftrightarrow> eqv xs ys"
begin

lemma is_dup_spec: "cycle \<noteq> [] \<Longrightarrow> is_dup same cycles cycle = Inr (found eqv cycles cycle)"
  by (induction cycles) (auto simp: same_eqv found_def)

lemma visit_child_spec:
  assumes ok: "walk_ok eqv pc roots (cycles, visited, paths)"
    and path: "simple_path pc path" "hd path \<in> roots" and child: "edge pc (last path) child"
  shows "\<exists>cycles' visited' paths'. visit_child same path (cycles, visited, paths) child =
      Inr (cycles', visited', paths') \<and> walk_ok eqv pc roots (cycles', visited', paths') \<and>
      set cycles \<subseteq> set cycles' \<and> (child \<in> set path \<longrightarrow> found eqv cycles' (closing path child))"
proof (cases "child \<in> set path")
  case True
  let ?c = "closing path child"
  have c: "simple_cycle pc ?c" using path(1) True child by (rule closing_cycle)
  then have "?c \<noteq> []" by (simp add: simple_cycle_def simple_path_def)
  moreover obtain i where "py_index path child = Inr i" "py_slice_from path (int i) = ?c"
    using closing_index [OF True] by blast
  ultimately have run: "visit_child same path (cycles, visited, paths) child =
      Inr (if found eqv cycles ?c then cycles else cycles @ [?c], visited, paths)"
    using True by (simp add: visit_child_def Let_def is_dup_spec del: py_slice_from_nat)
  show ?thesis
  proof (cases "found eqv cycles ?c")
    case True
    with run ok show ?thesis by auto
  next
    case False
    then have "walk_ok eqv pc roots (cycles @ [?c], visited, paths)"
      using ok c by (auto simp: walk_ok_def sorted_wrt_append found_def)
    moreover have "found eqv (cycles @ [?c]) ?c" by (simp add: found_def eqv_refl)
    ultimately show ?thesis using run False by auto
  qed
next
  case False
  have p: "simple_path pc (path @ [child])" "hd (path @ [child]) \<in> roots"
    using path child False simple_path_snoc [OF path(1) child] by (auto simp: simple_path_def)
  then have "\<exists>q. simple_path pc q \<and> hd q \<in> roots \<and> last q = child" by (metis last_snoc)
  then have "walk_ok eqv pc roots (cycles, insert child visited, paths @ [path @ [child]])"
    using ok p by (auto simp: walk_ok_def)
  then show ?thesis using False by (simp add: visit_child_def)
qed

lemma visit_children_spec:
  assumes "walk_ok eqv pc roots (cycles, visited, paths)"
    and path: "simple_path pc path" "hd path \<in> roots" and "\<forall>c \<in> set cs. edge pc (last path) c"
  shows "\<exists>cycles' visited' paths'. rfold (visit_child same path) (cycles, visited, paths) cs =
      Inr (cycles', visited', paths') \<and> walk_ok eqv pc roots (cycles', visited', paths') \<and>
      set cycles \<subseteq> set cycles' \<and>
      (\<forall>c \<in> set cs. c \<in> set path \<longrightarrow> found eqv cycles' (closing path c))"
  using assms(1,4)
proof (induction cs arbitrary: cycles visited paths)
  case (Cons c cs)
  then obtain cy vi pa where step: "visit_child same path (cycles, visited, paths) c = Inr (cy, vi, pa)"
    and ok: "walk_ok eqv pc roots (cy, vi, pa)" and sub: "set cycles \<subseteq> set cy"
    and fnd: "c \<in> set path \<longrightarrow> found eqv cy (closing path c)"
    using visit_child_spec [OF Cons.prems(1) path, of c] by auto
  obtain cycles' visited' paths' where "rfold (visit_child same path) (cy, vi, pa) cs =
      Inr (cycles', visited', paths')" "walk_ok eqv pc roots (cycles', visited', paths')"
    "set cy \<subseteq> set cycles'" "\<forall>c \<in> set cs. c \<in> set path \<longrightarrow> found eqv cycles' (closing path c)"
    using Cons.IH [OF ok] Cons.prems(2) by auto
  with step sub fnd found_mono show ?case by fastforce
qed auto

lemma search_loop_spec:
  "same' = same \<Longrightarrow> walk_ok eqv pc roots (cycles, visited, paths) \<Longrightarrow>
   \<exists>cycles' visited'. search_loop same' pc paths cycles visited = Inr (cycles', visited') \<and>
     walk_ok eqv pc roots (cycles', visited', []) \<and> set cycles \<subseteq> set cycles' \<and>
     visited \<subseteq> visited' \<and> (\<forall>p \<in> set paths. explored eqv pc cycles' p)"
proof (induction same' pc paths cycles visited rule: search_loop.induct)
  case (1 same' pc paths cycles visited)
  note IH = "1.IH" and eq [simp] = "1.prems"(1) and ok = "1.prems"(2)
  show ?case
  proof (cases "paths = []")
    case True
    then show ?thesis using ok by (subst search_loop.simps) auto
  next
    case ne: False
    define path where "path = last paths"
    have paths: "set paths = insert path (set (butlast paths))"
      using ne by (metis append_butlast_last_id path_def list.set(2) rotate1.simps(2) set_rotate1)
    have path: "simple_path pc path" "hd path \<in> roots"
      using ok paths by (auto simp: walk_ok_def)
    then have pne: "path \<noteq> []" by (simp add: simple_path_def)
    then have get: "py_get (last paths) (-1) = Inr (last path)" by (simp add: path_def)
    have ok': "walk_ok eqv pc roots (cycles, visited, butlast paths)"
      using ok by (auto simp: walk_ok_def dest: in_set_butlastD)
    show ?thesis
    proof (cases "dget pc (last path)")
      case None
      from IH(1) [OF ne get None eq ok'] obtain cycles' visited' where
        "search_loop same' pc (butlast paths) cycles visited = Inr (cycles', visited')"
        and res: "walk_ok eqv pc roots (cycles', visited', [])" "set cycles \<subseteq> set cycles'"
          "visited \<subseteq> visited'" "\<forall>p \<in> set (butlast paths). explored eqv pc cycles' p" by blast
      then have "search_loop same' pc paths cycles visited = Inr (cycles', visited')"
        by (subst search_loop.simps) (simp add: ne get [simplified path_def] None [simplified path_def])
      moreover have "explored eqv pc cycles' path"
        using None by (intro explored_step [OF pne]) (auto simp: edge_def)
      ultimately show ?thesis using res paths by auto
    next
      case (Some children)
      have edges: "\<forall>c \<in> set children. edge pc (last path) c" using Some by (simp add: edge_def)
      from visit_children_spec [OF ok' path edges] obtain cy vi pa where
        run: "rfold (visit_child same path) (cycles, visited, butlast paths) children = Inr (cy, vi, pa)"
        and okc: "walk_ok eqv pc roots (cy, vi, pa)" and sub: "set cycles \<subseteq> set cy"
        and fnd: "\<forall>c \<in> set children. c \<in> set path \<longrightarrow> found eqv cy (closing path c)" by blast
      have pa: "pa = butlast paths @ pushed path children" and vi: "visited \<subseteq> vi"
        using visit_children_paths [OF run] by auto
      from IH(2) [OF ne get Some _ refl refl eq okc] run obtain cycles' visited' where
        loop: "search_loop same' pc pa cy vi = Inr (cycles', visited')"
        and res: "walk_ok eqv pc roots (cycles', visited', [])" "set cy \<subseteq> set cycles'"
          "vi \<subseteq> visited'" "\<forall>p \<in> set pa. explored eqv pc cycles' p" by (auto simp: path_def)
      have "search_loop same' pc paths cycles visited = Inr (cycles', visited')"
        using loop run by (subst search_loop.simps)
          (simp add: ne get [simplified path_def] Some [simplified path_def] path_def)
      moreover have "explored eqv pc cycles' path"
      proof (rule explored_step [OF pne])
        fix x assume "edge pc (last path) x" "x \<in> set path"
        then show "found eqv cycles' (closing path x)"
          using fnd res(2) found_mono Some by (fastforce simp: edge_def)
      next
        fix c assume "edge pc (last path) c" "c \<notin> set path"
        then have "path @ [c] \<in> set pa" using Some by (auto simp: pa pushed_def edge_def)
        then show "explored eqv pc cycles' (path @ [c])" using res(4) by blast
      qed
      ultimately show ?thesis using res sub vi paths by (auto simp: pa)
    qed
  qed
qed

lemma walk_ok_roots: "walk_ok eqv pc roots st \<Longrightarrow> roots \<subseteq> roots' \<Longrightarrow> walk_ok eqv pc roots' st"
  unfolding walk_ok_def by (cases st) blast

lemma search_roots_spec:
  "\<exists>cycles visited roots. rfold (search_root same pc) ([], {}) keys = Inr (cycles, visited) \<and>
     walk_ok eqv pc roots (cycles, visited, []) \<and> (\<forall>r \<in> roots. explored eqv pc cycles [r]) \<and>
     set keys \<subseteq> roots \<union> visited"
proof (induction keys rule: rev_induct)
  case Nil
  have "walk_ok eqv pc {} ([], {}, [])" by (simp add: walk_ok_def)
  then show ?case by auto
next
  case (snoc k keys)
  then obtain cycles visited roots where run: "rfold (search_root same pc) ([], {}) keys = Inr (cycles, visited)"
    and ok: "walk_ok eqv pc roots (cycles, visited, [])" and ex: "\<forall>r \<in> roots. explored eqv pc cycles [r]"
    and sub: "set keys \<subseteq> roots \<union> visited" by blast
  show ?case
  proof (cases "k \<in> visited")
    case True
    then have "rfold (search_root same pc) ([], {}) (keys @ [k]) = Inr (cycles, visited)"
      using run by (simp add: search_root_def)
    then show ?thesis using ok ex sub True by auto
  next
    case False
    have "walk_ok eqv pc (insert k roots) (cycles, visited, [[k]])"
      using walk_ok_roots [OF ok, of "insert k roots"] by (auto simp: walk_ok_def)
    from search_loop_spec [OF refl this] obtain cycles' visited' where
      loop: "search_loop same pc [[k]] cycles visited = Inr (cycles', visited')"
      and res: "walk_ok eqv pc (insert k roots) (cycles', visited', [])" "set cycles \<subseteq> set cycles'"
        "explored eqv pc cycles' [k]" "visited \<subseteq> visited'" by auto
    have "rfold (search_root same pc) ([], {}) (keys @ [k]) = Inr (cycles', visited')"
      using run loop False by (simp add: search_root_def)
    moreover have "\<forall>r \<in> insert k roots. explored eqv pc cycles' [r]"
      using ex res(2,3) explored_mono by blast
    moreover have "set (keys @ [k]) \<subseteq> insert k roots \<union> visited'"
      using sub res(4) by auto
    ultimately show ?thesis using res(1) by blast
  qed
qed

lemma all_found:
  assumes ok: "walk_ok eqv pc roots (cycles, visited, [])"
    and ex: "\<forall>r \<in> roots. explored eqv pc cycles [r]"
    and keys: "set (dkeys pc) \<subseteq> roots \<union> visited" and c: "simple_cycle pc c"
  shows "found eqv cycles c"
proof -
  have cne: "c \<noteq> []" using c by (simp add: simple_cycle_def simple_path_def)
  then have "hd c \<in> roots \<union> visited" using simple_cycle_key [OF c] keys by (meson hd_in_set subsetD)
  then obtain p where p: "simple_path pc p" "hd p \<in> roots" "last p = hd c"
  proof (cases "hd c \<in> roots")
    case True
    have "simple_path pc [hd c]"
      using simple_cycle_key [OF c, of "hd c"] cne by (simp add: simple_path_def)
    then show thesis using that [of "[hd c]"] True by simp
  next
    case False
    then have "hd c \<in> visited" using \<open>hd c \<in> roots \<union> visited\<close> by blast
    then show thesis using ok that by (auto simp: walk_ok_def)
  qed
  then have "\<exists>d \<in> set p. d \<in> set c" using cne by (metis last_in_set hd_in_set simple_path_def)
  then obtain us d vs where pd: "p = us @ d # vs" and d: "d \<in> set c" and us: "\<forall>u \<in> set us. u \<notin> set c"
    by (rule split_list_first_propE)
  obtain c1 c2 where c12: "c = c1 @ d # c2" using split_list [OF d] by blast
  define rot where "rot = rotate (length c1) c"
  have rot: "rot = d # c2 @ c1" by (simp add: rot_def c12 rotate_append)
  have cyc: "simple_cycle pc rot" unfolding rot_def by (rule simple_cycle_rotate [OF c])
  have srot: "set rot = set c" by (simp add: rot_def)
  have "simple_path pc (us @ rot)"
    using p(1) cyc us srot unfolding pd rot
    by (auto simp: simple_path_def simple_cycle_def successively_append_iff)
  moreover have "edge pc (last (us @ rot)) d" "d \<in> set (us @ rot)"
    using cyc rot by (auto simp: simple_cycle_def)
  moreover obtain q where q: "us @ rot = [hd p] @ q"
    by (cases us) (simp_all add: pd rot)
  ultimately have "found eqv cycles (closing (us @ rot) d)"
    using ex p(2) unfolding explored_def by metis
  moreover have "closing (us @ rot) d = rot" using us d by (auto simp: rot closing_split)
  ultimately show ?thesis by (simp add: rot_def found_def eqv_rotate)
qed

lemma find_cycles_with_spec:
  assumes "key_order perm"
  shows "\<exists>cycles. find_cycles_with same perm pc = Inr cycles \<and>
     (\<forall>c \<in> set cycles. simple_cycle pc c) \<and> sorted_wrt (\<lambda>a b. \<not> eqv a b) cycles \<and>
     (\<forall>c. simple_cycle pc c \<longrightarrow> found eqv cycles c)"
proof -
  obtain cycles visited roots where
    "rfold (search_root same pc) ([], {}) (perm (dkeys pc)) = Inr (cycles, visited)"
    and ok: "walk_ok eqv pc roots (cycles, visited, [])"
    and "\<forall>r \<in> roots. explored eqv pc cycles [r]" "set (dkeys pc) \<subseteq> roots \<union> visited"
    using search_roots_spec [of pc "perm (dkeys pc)"] assms by auto
  then show ?thesis
    using all_found [OF ok] by (auto simp: find_cycles_with_def walk_ok_def)
qed

end

section \<open>With the rotation test of \<open>rad_util\<close>\<close>

lemma ex_rotate_rotate: "(\<exists>m. rotate n ys = rotate m xs) \<longleftrightarrow> (\<exists>m. ys = rotate m xs)"
proof
  assume "\<exists>m. rotate n ys = rotate m xs"
  then obtain m where m: "rotate n ys = rotate m xs" ..
  obtain k where "rotate k (rotate n ys) = ys"
  proof (cases "ys = []")
    case False
    let ?k = "length ys * n - n"
    have "n \<le> length ys * n" using False by (cases ys) auto
    then have "rotate ?k (rotate n ys) = rotate (length ys * n) ys" by (simp add: rotate_rotate)
    also have "\<dots> = ys" by (subst rotate_conv_mod) simp
    finally show ?thesis by (rule that)
  qed (use that [of 0] in simp)
  then show "\<exists>m. ys = rotate m xs" using m by (metis rotate_rotate)
next
  assume "\<exists>m. ys = rotate m xs"
  then show "\<exists>m. rotate n ys = rotate m xs" by (metis rotate_rotate)
qed

interpretation rot: same_cycle is_rotated "\<lambda>xs ys. \<exists>m. ys = rotate m xs"
proof unfold_locales
  fix ys xs :: "'a list" and n :: nat
  show "ys \<noteq> [] \<Longrightarrow> is_rotated xs ys = Inr (\<exists>m. ys = rotate m xs)" by (rule is_rotated_nonempty)
  show "\<exists>m. xs = rotate m xs" by (metis rotate0 id_apply)
  show "(\<exists>m. rotate n ys = rotate m xs) = (\<exists>m. ys = rotate m xs)" by (rule ex_rotate_rotate)
qed

text \<open>
  C36: \<open>find_cycles\<close> ends without an exception, and yields simple cycles of the graph only: each
  node is a child of the one before and the first a child of the last, with no node twice.
\<close>

theorem find_cycles_sound:
  assumes "key_order perm"
  shows "\<exists>cycles. find_cycles perm pc = Inr cycles \<and> (\<forall>c \<in> set cycles. simple_cycle pc c)"
  using rot.find_cycles_with_spec [OF assms, of pc] unfolding find_cycles_def by blast

text \<open>
  C37: \<open>find_cycles\<close> misses nothing: every simple cycle of the graph is a rotation of a yielded
  one, although nodes seen under an earlier root are never taken as roots themselves.
\<close>

theorem find_cycles_complete:
  assumes "key_order perm" and "find_cycles perm pc = Inr cycles" and "simple_cycle pc c"
  shows "\<exists>c' \<in> set cycles. \<exists>m. c = rotate m c'"
  using rot.find_cycles_with_spec [OF assms(1), of pc] assms(2,3)
  unfolding find_cycles_def found_def by auto

text \<open>No two yielded cycles are rotations of one another.\<close>

theorem find_cycles_no_duplicates:
  assumes "key_order perm" and "find_cycles perm pc = Inr cycles" and "i < j" and "j < length cycles"
  shows "\<not> (\<exists>m. cycles ! j = rotate m (cycles ! i))"
  using rot.find_cycles_with_spec [OF assms(1), of pc] assms(2-4)
  unfolding find_cycles_def by (auto simp: sorted_wrt_iff_nth_less)

text \<open>The diamond of the doctest, walked in insertion order and in reverse.\<close>

definition diamond :: "(string, string list) dict" where
  "diamond = [(''A'', [''B1'', ''B2'']), (''B1'', [''C'']), (''B2'', [''C'']), (''C'', [''A'', ''B1''])]"

lemma diamond_run:
  "find_cycles rev diamond =
     Inr [[''C'', ''B1''], [''C'', ''A'', ''B2''], [''C'', ''A'', ''B1'']]"
  by code_simp

theorem find_cycles_sound_witness:
  "\<exists>cycles. find_cycles rev diamond = Inr cycles \<and> (\<forall>c \<in> set cycles. simple_cycle diamond c)"
  by (rule find_cycles_sound [OF key_order_rev])

theorem find_cycles_complete_witness:
  "\<exists>c' \<in> set [[''C'', ''B1''], [''C'', ''A'', ''B2''], [''C'', ''A'', ''B1'']].
     \<exists>m. [''A'', ''B1'', ''C''] = rotate m c'"
  by (rule find_cycles_complete [OF key_order_rev diamond_run])
     (simp add: simple_cycle_def simple_path_def edge_def diamond_def)

theorem find_cycles_no_duplicates_witness:
  "\<not> (\<exists>m. [''C'', ''A'', ''B1''] = rotate m [''C'', ''A'', ''B2''])"
  using find_cycles_no_duplicates [OF key_order_rev diamond_run, of 1 2] by simp

end
