(* ===== verification/Jobs.thy ===== *)
theory Jobs
  imports Complex_Main Paths
begin

text \<open>
  The unit of work of \<open>test.py\<close>: the options of the command line that the job code reads, the
  class \<open>Job\<close> with its setters, \<open>run_job_synchronously\<close>, and the part of
  \<open>worker_thread.run\<close> that decides what is done with a job. Starting a process is the
  parameter \<open>spawn\<close>: for a command line and a working directory it gives the return code, what
  the process wrote on its two outputs and the elapsed time (a float, so a rational number).
  The verbose messages are left out.
\<close>

section \<open>Options and jobs\<close>

record options =
  buildpath :: string
  constrain :: string
  example :: string
  update_data :: bool
  valgrind :: bool
  kinds :: bool
  list_tests :: bool
  multiple :: bool
  nowaf :: bool
  pyexample :: string
  retain :: bool
  suite :: string
  text_file :: string
  verbose :: bool
  html_file :: string
  xml_file :: string

text \<open>The defaults of the option parser in \<open>main\<close>.\<close>

definition default_options :: options where
  "default_options = \<lparr> buildpath = '''', constrain = '''', example = '''', update_data = False,
     valgrind = False, kinds = False, list_tests = False, multiple = False, nowaf = False,
     pyexample = '''', retain = False, suite = '''', text_file = '''', verbose = False,
     html_file = '''', xml_file = '''' \<rparr>"

record job =
  is_break :: bool
  is_skip :: bool
  is_example :: bool
  is_pyexample :: bool
  shell_command :: string
  display_name :: string
  basedir :: string
  tempdir :: string
  cwd :: string
  tmp_file_name :: string
  returncode :: int
  elapsed_time :: rat
  build_path :: string

definition new_job :: job where
  "new_job = \<lparr> is_break = False, is_skip = False, is_example = False, is_pyexample = False,
     shell_command = '''', display_name = '''', basedir = '''', tempdir = '''', cwd = '''',
     tmp_file_name = '''', returncode = 0, elapsed_time = 0, build_path = '''' \<rparr>"

definition set_is_break :: "bool \<Rightarrow> job \<Rightarrow> job" where
  "set_is_break b j = j\<lparr> is_break := b \<rparr>"

definition set_is_skip :: "bool \<Rightarrow> job \<Rightarrow> job" where
  "set_is_skip b j = j\<lparr> is_skip := b \<rparr>"

definition set_is_example :: "bool \<Rightarrow> job \<Rightarrow> job" where
  "set_is_example b j = j\<lparr> is_example := b \<rparr>"

definition set_is_pyexample :: "bool \<Rightarrow> job \<Rightarrow> job" where
  "set_is_pyexample b j = j\<lparr> is_pyexample := b \<rparr>"

definition set_shell_command :: "string \<Rightarrow> job \<Rightarrow> job" where
  "set_shell_command s j = j\<lparr> shell_command := s \<rparr>"

definition set_build_path :: "string \<Rightarrow> job \<Rightarrow> job" where
  "set_build_path s j = j\<lparr> build_path := s \<rparr>"

definition set_display_name :: "string \<Rightarrow> job \<Rightarrow> job" where
  "set_display_name s j = j\<lparr> display_name := s \<rparr>"

definition set_basedir :: "string \<Rightarrow> job \<Rightarrow> job" where
  "set_basedir s j = j\<lparr> basedir := s \<rparr>"

definition set_tempdir :: "string \<Rightarrow> job \<Rightarrow> job" where
  "set_tempdir s j = j\<lparr> tempdir := s \<rparr>"

definition set_cwd :: "string \<Rightarrow> job \<Rightarrow> job" where
  "set_cwd s j = j\<lparr> cwd := s \<rparr>"

definition set_tmp_file_name :: "string \<Rightarrow> job \<Rightarrow> job" where
  "set_tmp_file_name s j = j\<lparr> tmp_file_name := s \<rparr>"

definition set_returncode :: "int \<Rightarrow> job \<Rightarrow> job" where
  "set_returncode r j = j\<lparr> returncode := r \<rparr>"

definition set_elapsed_time :: "rat \<Rightarrow> job \<Rightarrow> job" where
  "set_elapsed_time t j = j\<lparr> elapsed_time := t \<rparr>"

lemmas job_setters = set_is_break_def set_is_skip_def set_is_example_def set_is_pyexample_def
  set_shell_command_def set_build_path_def set_display_name_def set_basedir_def set_tempdir_def
  set_cwd_def set_tmp_file_name_def set_returncode_def set_elapsed_time_def

section \<open>Running a job\<close>

type_synonym process = "int \<times> string \<times> string \<times> rat"
type_synonym spawner = "string \<Rightarrow> string \<Rightarrow> process"

definition VALGRIND_SUPPRESSIONS_FILE :: string where
  "VALGRIND_SUPPRESSIONS_FILE = ''testpy.supp''"

definition job_command :: "string \<Rightarrow> string \<Rightarrow> bool \<Rightarrow> bool \<Rightarrow> string \<Rightarrow> string" where
  "job_command builddir command valgrind_on is_python build =
     (case path_split builddir of (base, _) \<Rightarrow>
      let suppressions_path = path_join base VALGRIND_SUPPRESSIONS_FILE;
          path_cmd = (if is_python then ''python '' @ path_join base command
                      else if build \<noteq> [] then path_join build command
                      else path_join builddir command)
      in if valgrind_on
         then ''valgrind --suppressions='' @ suppressions_path @
              '' --leak-check=full --show-reachable=yes --error-exitcode=2 '' @ path_cmd
         else path_cmd)"

definition run_job_synchronously ::
  "spawner \<Rightarrow> string \<Rightarrow> string \<Rightarrow> string \<Rightarrow> bool \<Rightarrow> bool \<Rightarrow> string \<Rightarrow> process" where
  "run_job_synchronously spawn builddir command directory valgrind_on is_python build =
     (case spawn (job_command builddir command valgrind_on is_python build) directory of
        (retval, stdout_results, stderr_results, elapsed) \<Rightarrow>
          ((if valgrind_on \<and> retval = 0 \<and> py_in ''== LEAK SUMMARY:'' stderr_results then 2 else retval),
           stdout_results, stderr_results, elapsed))"

text \<open>
  The last branch of \<open>worker_thread.run\<close>, for a job that is neither the stop signal, nor
  abandoned, nor to be skipped.
\<close>

definition launch :: "options \<Rightarrow> spawner \<Rightarrow> string \<Rightarrow> job \<Rightarrow> job" where
  "launch opts spawn builddir j =
     (let (rc, standard_out, standard_err, et) =
        (if is_example j \<or> is_pyexample j
         then run_job_synchronously spawn builddir (shell_command j) (cwd j) (valgrind opts)
                (is_pyexample j) (build_path j)
         else run_job_synchronously spawn builddir
                (shell_command j @ '' --xml --tempdir='' @ tempdir j @ '' --out='' @ tmp_file_name j @
                 '' '' @ (if update_data opts then ''--update-data'' else ''''))
                (cwd j) (valgrind opts) False '''')
      in set_elapsed_time et (set_returncode rc j))"

lemma launch_keeps [simp]:
  "is_break (launch opts spawn b j) = is_break j"
  "is_skip (launch opts spawn b j) = is_skip j"
  "is_example (launch opts spawn b j) = is_example j"
  "is_pyexample (launch opts spawn b j) = is_pyexample j"
  "display_name (launch opts spawn b j) = display_name j"
  "tmp_file_name (launch opts spawn b j) = tmp_file_name j"
  by (simp_all add: launch_def job_setters split: prod.split)

end
