(* ===== verification/Ns3rc.thy ===== *)
theory Ns3rc
  imports Files
begin

text \<open>
  The configuration reader \<open>utils.py\<close>: looking up a list or a truth value in a file of Python
  assignments, and reading \<open>.ns3rc\<close>. The files are a map from paths to texts. The evaluator
  of Python expressions is a parameter; what text is handed to it, and when, is the code's.
\<close>

section \<open>Looking up a list\<close>

text \<open>\<open>s.split('=', 1)[1].strip()\<close>.\<close>

fun after_equals :: "string \<Rightarrow> string res" where
  "after_equals [] = Inl IndexError"
| "after_equals (c # s) = (if c = CHR ''='' then Inr s else after_equals s)"

definition right_side :: "string \<Rightarrow> string res" where
  "right_side s = rbind (after_equals s) (\<lambda>r. Inr (strip r))"

fun list_loop :: "(string \<Rightarrow> 'a list res) \<Rightarrow> string \<Rightarrow> string \<Rightarrow> bool \<Rightarrow> string list \<Rightarrow> 'a list res" where
  "list_loop ev list_name list_string parsing [] = Inr []"
| "list_loop ev list_name list_string parsing (line # lines) =
     (if py_in list_name line \<or> parsing then
        let list_string' = list_string @ line
        in if CHR '']'' \<notin> set list_string' then list_loop ev list_name list_string' True lines
           else rbind (right_side list_string') ev
      else list_loop ev list_name list_string parsing lines)"

definition get_list_from_file :: "(string \<Rightarrow> 'a list res) \<Rightarrow> string option \<Rightarrow> string \<Rightarrow> 'a list res" where
  "get_list_from_file ev file list_name =
     (case file of None \<Rightarrow> Inr [] | Some text \<Rightarrow> list_loop ev list_name [] False (lines_of text))"

section \<open>Looking up a truth value\<close>

text \<open>The result is \<open>None\<close> when the loop ends without finding a line with the name.\<close>

fun bool_loop :: "(string \<Rightarrow> bool res) \<Rightarrow> string \<Rightarrow> string list \<Rightarrow> bool option res" where
  "bool_loop ev bool_name [] = Inr None"
| "bool_loop ev bool_name (line # lines) =
     (if py_in bool_name line then rbind (rbind (right_side line) ev) (\<lambda>b. Inr (Some b))
      else bool_loop ev bool_name lines)"

text \<open>For a missing file \<open>bool_found\<close> is read without having been set.\<close>

definition get_bool_from_file :: "(string \<Rightarrow> bool res) \<Rightarrow> string option \<Rightarrow> string \<Rightarrow> bool \<Rightarrow> bool res" where
  "get_bool_from_file ev file bool_name value_if_missing =
     (case file of
        None \<Rightarrow> Inl UnboundLocalError
      | Some text \<Rightarrow> rbind (bool_loop ev bool_name (lines_of text)) (\<lambda>found.
          case found of Some b \<Rightarrow> Inr b | None \<Rightarrow> Inr value_if_missing))"

section \<open>The configuration file\<close>

type_synonym config = "bool \<times> string list \<times> bool \<times> bool"

definition read_config_path ::
  "(string \<Rightarrow> string list res) \<Rightarrow> (string \<Rightarrow> bool res) \<Rightarrow> string \<Rightarrow> config res" where
  "read_config_path ev_list ev_bool text =
     rbind (get_list_from_file ev_list (Some text) ''modules_enabled'') (\<lambda>found.
       let modules_enabled = (if found = [] then [''all_modules''] else found) in
     rbind (get_bool_from_file ev_bool (Some text) ''examples_enabled'' False) (\<lambda>examples_enabled.
     rbind (get_bool_from_file ev_bool (Some text) ''tests_enabled'' False) (\<lambda>tests_enabled.
       Inr (True, modules_enabled, examples_enabled, tests_enabled))))"

definition read_config_file ::
  "(string \<Rightarrow> string list res) \<Rightarrow> (string \<Rightarrow> bool res) \<Rightarrow> string \<Rightarrow> (string \<Rightarrow> string option) \<Rightarrow> config res" where
  "read_config_file ev_list ev_bool home fs =
     (case fs ''.ns3rc'' of
        Some text \<Rightarrow> read_config_path ev_list ev_bool text
      | None \<Rightarrow>
         (case fs (home @ ''/.ns3rc'') of
            Some text \<Rightarrow> read_config_path ev_list ev_bool text
          | None \<Rightarrow> Inr (False, [''all_modules''], False, False)))"

section \<open>What is found\<close>

text \<open>The lines up to the first one with a closing bracket.\<close>

fun up_to_bracket :: "string list \<Rightarrow> string list option" where
  "up_to_bracket [] = None"
| "up_to_bracket (l # ls) =
     (if CHR '']'' \<in> set l then Some [l] else map_option (\<lambda>b. l # b) (up_to_bracket ls))"

definition list_block :: "string \<Rightarrow> string list \<Rightarrow> string list option" where
  "list_block name ls = up_to_bracket (dropWhile (\<lambda>l. \<not> py_in name l) ls)"

lemma list_loop_collect:
  "CHR '']'' \<notin> set s \<Longrightarrow> list_loop ev name s True ls =
    (case up_to_bracket ls of None \<Rightarrow> Inr [] | Some b \<Rightarrow> rbind (right_side (s @ concat b)) ev)"
  by (induction ls arbitrary: s) (auto split: option.split)

lemma list_loop_block:
  "list_loop ev name [] False ls =
    (case list_block name ls of None \<Rightarrow> Inr [] | Some b \<Rightarrow> rbind (right_side (concat b)) ev)"
  by (induction ls) (auto simp: list_block_def list_loop_collect split: option.split)

lemma bool_loop_find:
  "bool_loop ev name ls =
     (case find (py_in name) ls of
        None \<Rightarrow> Inr None
      | Some line \<Rightarrow> rbind (rbind (right_side line) ev) (\<lambda>b. Inr (Some b)))"
  by (induction ls) auto

text \<open>
  \<open>get_list_from_file\<close> evaluates the text after the first \<open>=\<close> of a block of lines: it starts
  with the first line that mentions the name, wherever in the line, and ends with the first line
  from there on that has a closing bracket. A missing file, one without the name, and a block
  that is never closed give the empty list.
\<close>

theorem get_list_from_file_spec:
  "get_list_from_file ev file name =
     (case file of
        None \<Rightarrow> Inr []
      | Some text \<Rightarrow>
          (case list_block name (lines_of text) of
             None \<Rightarrow> Inr []
           | Some block \<Rightarrow> rbind (right_side (concat block)) ev))"
  by (simp add: get_list_from_file_def list_loop_block split: option.split)

text \<open>Evaluators for examples: one name in brackets, and the two truth values.\<close>

definition ev_names :: "string \<Rightarrow> string list res" where
  "ev_names s = (if startswith s ''['' then Inr [takeWhile (\<lambda>c. c \<noteq> CHR '']'') (tl s)] else Inl PyException)"

definition ev_bool :: "string \<Rightarrow> bool res" where
  "ev_bool s = (if s = ''True'' then Inr True else if s = ''False'' then Inr False else Inl PyException)"

lemma list_over_two_lines:
  "get_list_from_file ev_names (Some (concat [''# modules'' @ nl, ''modules_enabled = ['' @ nl, ''core]'' @ nl]))
     ''modules_enabled'' = Inr [nl @ ''core'']"
  by code_simp

text \<open>
  \<open>read_config_file\<close> takes the file of the working directory, or else that of the home
  directory, or else the defaults. In a file the first mention of a truth value decides, a comment
  included; the missing file that makes \<open>get_bool_from_file\<close> raise \<open>UnboundLocalError\<close> never
  reaches it here.
\<close>

theorem read_config_file_spec:
  "read_config_file ev_l ev_b home fs =
     (case (case fs ''.ns3rc'' of None \<Rightarrow> fs (home @ ''/.ns3rc'') | Some text \<Rightarrow> Some text) of
        None \<Rightarrow> Inr (False, [''all_modules''], False, False)
      | Some text \<Rightarrow>
          rbind (get_list_from_file ev_l (Some text) ''modules_enabled'') (\<lambda>found.
          let setting = (\<lambda>name. case find (py_in name) (lines_of text) of
                None \<Rightarrow> Inr False
              | Some line \<Rightarrow> rbind (right_side line) ev_b)
          in rbind (setting ''examples_enabled'') (\<lambda>examples. rbind (setting ''tests_enabled'') (\<lambda>tests.
            Inr (True, if found = [] then [''all_modules''] else found, examples, tests)))))
   \<and> get_bool_from_file ev_b None name missing = Inl UnboundLocalError"
proof -
  have bool: "get_bool_from_file ev_b (Some s) name False =
      (case find (py_in name) (lines_of s) of
         None \<Rightarrow> Inr False | Some line \<Rightarrow> rbind (right_side line) ev_b)" for s name
    by (auto simp: get_bool_from_file_def bool_loop_find rbind_def split: option.split sum.split)
  have "get_bool_from_file ev_b None name missing = Inl UnboundLocalError"
    by (simp add: get_bool_from_file_def)
  then show ?thesis
    unfolding read_config_file_def read_config_path_def bool Let_def by (simp split: option.split)
qed

text \<open>A setting that is commented out is in force, and shadows one that is not.\<close>

lemma comment_in_force:
  "get_bool_from_file ev_bool (Some (concat [''# tests_enabled = True'' @ nl, ''tests_enabled = False'' @ nl]))
     ''tests_enabled'' False = Inr True"
  by code_simp

end
