(* ===== verification/Dispatch.thy ===== *)
theory Dispatch
  imports Jobs Ns3rc
begin

text \<open>
  The first half of \<open>run_tests\<close> in \<open>test.py\<close>: what \<open>waf\<close> is asked to build, the configuration
  read from its files, the environment of the test processes, the examples found in the source
  tree, the test suites asked of the test runner, and the list of jobs that is dispatched.
  External are the processes (\<open>spawn\<close>), the files (a map from paths to texts) and the evaluator
  of Python code. The messages of \<open>--verbose\<close> are left out, and the one that says that an
  example is not runnable.
\<close>

section \<open>Building\<close>

datatype platform = Linux | Win32 | Darwin | Cygwin

definition core_kinds :: "string list" where
  "core_kinds = [''bvt'', ''core'', ''system'', ''unit'']"

definition waf_command :: "options \<Rightarrow> platform \<Rightarrow> string" where
  "waf_command opts plat =
     (let waf = (if plat = Win32 then ''waf'' else ''./waf'') in
      if kinds opts \<or> list_tests opts \<or> constrain opts \<noteq> [] \<and> constrain opts \<in> set core_kinds
      then waf @ '' --target=test-runner''
      else if example opts \<noteq> [] then waf @ '' --target='' @ path_basename (example opts)
      else waf)"

section \<open>The configuration of waf\<close>

text \<open>The global variables of the module that the configuration may set.\<close>

datatype pyval = PyBool bool | PyStr string | PyList "string list"

fun truthy :: "pyval \<Rightarrow> bool" where
  "truthy (PyBool b) = b"
| "truthy (PyStr s) = (s \<noteq> [])"
| "truthy (PyList l) = (l \<noteq> [])"

text \<open>A \<open>for\<close> loop over a value; a string is walked character by character.\<close>

fun py_items :: "pyval \<Rightarrow> string list res" where
  "py_items (PyBool b) = Inl TypeError"
| "py_items (PyStr s) = Inr (map (\<lambda>c. [c]) s)"
| "py_items (PyList l) = Inr l"

type_synonym globals = "(string, pyval) dict"

definition global_var :: "globals \<Rightarrow> string \<Rightarrow> pyval res" where
  "global_var g x = (case dget g x of None \<Rightarrow> Inl NameError | Some v \<Rightarrow> Inr v)"

definition interesting_config_items :: "string list" where
  "interesting_config_items = [''NS3_ENABLED_MODULES'', ''NS3_MODULE_PATH'', ''NSC_ENABLED'',
     ''ENABLE_REAL_TIME'', ''ENABLE_THREADING'', ''ENABLE_EXAMPLES'', ''ENABLE_TESTS'',
     ''EXAMPLE_DIRECTORIES'', ''ENABLE_PYTHON_BINDINGS'', ''ENABLE_CLICK'', ''ENABLE_OPENFLOW'']"

definition initial_globals :: globals where
  "initial_globals = [(''NSC_ENABLED'', PyBool False), (''ENABLE_REAL_TIME'', PyBool False),
     (''ENABLE_THREADING'', PyBool False), (''ENABLE_EXAMPLES'', PyBool True),
     (''ENABLE_TESTS'', PyBool True), (''ENABLE_CLICK'', PyBool False),
     (''ENABLE_OPENFLOW'', PyBool False), (''EXAMPLE_DIRECTORIES'', PyList [])]"

text \<open>
  The line of \<open>.lock-wafbuild\<close> is split at every \<open>=\<close>; other than two parts is a \<open>ValueError\<close>. The
  last such line counts, and \<open>out_dir\<close> is unbound when there is none.
\<close>

definition out_dir_line :: "(string \<Rightarrow> string res) \<Rightarrow> string option \<Rightarrow> string \<Rightarrow> string option res" where
  "out_dir_line ev out_dir line =
     (if startswith line ''out_dir ='' then
        (case split_on (CHR ''='') line of
           [key, val] \<Rightarrow> rbind (ev (strip val)) (\<lambda>v. Inr (Some v))
         | _ \<Rightarrow> Inl ValueError)
      else Inr out_dir)"

definition cache_line :: "(string \<Rightarrow> globals \<Rightarrow> globals res) \<Rightarrow> globals \<Rightarrow> string \<Rightarrow> globals res" where
  "cache_line exec g line =
     rfold (\<lambda>g' item. if startswith line item then exec line g' else Inr g') g interesting_config_items"

definition read_waf_config ::
  "(string \<Rightarrow> string res) \<Rightarrow> (string \<Rightarrow> globals \<Rightarrow> globals res) \<Rightarrow> bool \<Rightarrow> (string \<Rightarrow> string option) \<Rightarrow>
   globals \<Rightarrow> (string \<times> globals) res" where
  "read_waf_config ev exec verbose_on fs g =
     (case fs ''.lock-wafbuild'' of
        None \<Rightarrow> Inl IOError
      | Some lock \<Rightarrow>
          rbind (rfold (out_dir_line ev) None (lines_of lock)) (\<lambda>found.
            case found of
              None \<Rightarrow> Inl UnboundLocalError
            | Some out_dir \<Rightarrow>
                (case fs (out_dir @ ''/c4che/_cache.py'') of
                   None \<Rightarrow> Inl IOError
                 | Some cache \<Rightarrow>
                     rbind (rfold (cache_line exec) g (lines_of cache)) (\<lambda>g'.
                     rbind (if verbose_on then rmap (global_var g') interesting_config_items else Inr []) (\<lambda>_.
                       Inr (out_dir, g'))))))"

section \<open>The environment of the tests\<close>

type_synonym environ = "(string, string) dict"

definition has_key :: "environ \<Rightarrow> string \<Rightarrow> bool" where
  "has_key env k \<longleftrightarrow> k \<in> set (dkeys env)"

definition add_path :: "string \<Rightarrow> string \<Rightarrow> environ \<Rightarrow> string \<Rightarrow> environ res" where
  "add_path var sep env path = rbind (dlookup env var) (\<lambda>v. Inr (dset var (v @ sep @ path) env))"

definition add_paths :: "string \<Rightarrow> string \<Rightarrow> string list \<Rightarrow> bool \<Rightarrow> environ \<Rightarrow> environ res" where
  "add_paths var sep paths have env =
     rfold (add_path var sep) (if have then env else dset var [] env) paths"

definition make_paths :: "platform \<Rightarrow> string \<Rightarrow> globals \<Rightarrow> environ \<Rightarrow> environ res" where
  "make_paths plat builddir g env =
     (let have_DYLD = has_key env ''DYLD_LIBRARY_PATH''; have_LD = has_key env ''LD_LIBRARY_PATH'';
          have_PATH = has_key env ''PATH''; have_PYTHONPATH = has_key env ''PYTHONPATH'';
          pypath = path_join (path_join builddir ''bindings'') ''python'';
          env1 = dset ''PYTHONPATH'' pypath env
      in
      rbind (if \<not> have_PYTHONPATH then Inr (dset ''PYTHONPATH'' pypath env1)
             else add_path ''PYTHONPATH'' '':'' env1 pypath) (\<lambda>env2.
      rbind (rbind (global_var g ''NS3_MODULE_PATH'') py_items) (\<lambda>paths.
        case plat of
          Darwin \<Rightarrow> add_paths ''DYLD_LIBRARY_PATH'' '':'' paths have_DYLD env2
        | Win32 \<Rightarrow> add_paths ''PATH'' '';'' paths have_PATH env2
        | Cygwin \<Rightarrow> add_paths ''PATH'' '':'' paths have_PATH env2
        | Linux \<Rightarrow> add_paths ''LD_LIBRARY_PATH'' '':'' paths have_LD env2)))"

section \<open>The examples\<close>

text \<open>
  The examples found so far: the C++ ones with two conditions, the Python ones with one. The
  conditions are Python expressions.
\<close>

type_synonym cpp_example = "string \<times> string \<times> string"
type_synonym py_example = "string \<times> string"

record evaluator =
  ev_cpp :: "string \<Rightarrow> cpp_example list res"
  ev_py :: "string \<Rightarrow> py_example list res"
  ev_strings :: "string \<Rightarrow> string list res"
  ev_string :: "string \<Rightarrow> string res"
  ev_condition :: "string \<Rightarrow> globals \<Rightarrow> bool res"
  exec_line :: "string \<Rightarrow> globals \<Rightarrow> globals res"

definition parse_examples_to_run_file ::
  "evaluator \<Rightarrow> (string \<Rightarrow> string option) \<Rightarrow> string \<Rightarrow> string \<Rightarrow> string \<Rightarrow>
   cpp_example list \<times> py_example list \<Rightarrow> (cpp_example list \<times> py_example list) res" where
  "parse_examples_to_run_file ev fs examples_to_run_path cpp_executable_dir python_script_dir tests =
     (case tests of (example_tests, python_tests) \<Rightarrow>
      if fs examples_to_run_path = None then Inr tests
      else
        rbind (get_list_from_file (ev_cpp ev) (fs examples_to_run_path) ''cpp_examples'') (\<lambda>cpp_examples.
        rbind (get_list_from_file (ev_py ev) (fs examples_to_run_path) ''python_examples'') (\<lambda>python_examples.
          Inr (example_tests @
                 [(path_join cpp_executable_dir n, do_run, do_valgrind_run).
                    (n, do_run, do_valgrind_run) \<leftarrow> cpp_examples, fs (path_join cpp_executable_dir n) \<noteq> None],
               python_tests @
                 [(path_join python_script_dir n, do_run).
                    (n, do_run) \<leftarrow> python_examples, fs (path_join python_script_dir n) \<noteq> None]))))"

definition examples_of_directory ::
  "evaluator \<Rightarrow> (string \<Rightarrow> string option) \<Rightarrow> string \<Rightarrow> cpp_example list \<times> py_example list \<Rightarrow> string \<Rightarrow>
   (cpp_example list \<times> py_example list) res" where
  "examples_of_directory ev fs builddir tests directory =
     (let example_directory = path_join ''examples'' directory in
      parse_examples_to_run_file ev fs (path_join example_directory ''examples-to-run.py'')
        (path_join builddir example_directory) example_directory tests)"

definition examples_of_module ::
  "evaluator \<Rightarrow> (string \<Rightarrow> string option) \<Rightarrow> string \<Rightarrow> cpp_example list \<times> py_example list \<Rightarrow> string \<Rightarrow>
   (cpp_example list \<times> py_example list) res" where
  "examples_of_module ev fs builddir tests name =
     (let module_directory = path_join ''src'' (drop (length ''ns3-'') name);
          example_directory = path_join module_directory ''examples'' in
      parse_examples_to_run_file ev fs (path_join (path_join module_directory ''test'') ''examples-to-run.py'')
        (path_join builddir example_directory) example_directory tests)"

definition find_examples ::
  "evaluator \<Rightarrow> (string \<Rightarrow> string option) \<Rightarrow> string \<Rightarrow> globals \<Rightarrow> (cpp_example list \<times> py_example list) res" where
  "find_examples ev fs builddir g =
     rbind (rbind (global_var g ''EXAMPLE_DIRECTORIES'') py_items) (\<lambda>directories.
     rbind (rfold (examples_of_directory ev fs builddir) ([], []) directories) (\<lambda>tests.
     rbind (rbind (global_var g ''NS3_ENABLED_MODULES'') py_items) (\<lambda>modules.
       rfold (examples_of_module ev fs builddir) tests modules)))"

section \<open>The test suites\<close>

definition test_runner :: "string \<Rightarrow> string" where
  "test_runner arguments = path_join ''utils'' (''test-runner '' @ arguments)"

definition runner_output :: "spawner \<Rightarrow> string \<Rightarrow> string \<Rightarrow> string \<Rightarrow> string" where
  "runner_output spawn builddir dir arguments =
     fst (snd (run_job_synchronously spawn builddir (test_runner arguments) dir False False ''''))"

text \<open>A suite is known when its name occurs somewhere in what the test runner prints.\<close>

definition suite_names :: "options \<Rightarrow> (string \<Rightarrow> string) \<Rightarrow> string res" where
  "suite_names opts ask =
     (if suite opts \<noteq> [] then
        (if py_in (suite opts) (ask ''--print-test-name-list'') then Inr (suite opts @ nl)
         else Inl (SystemExit 2))
      else if example opts = [] \<and> pyexample opts = [] then
        (if constrain opts \<noteq> []
         then Inr (ask (''--print-test-name-list --test-type='' @ constrain opts))
         else Inr (ask ''--print-test-name-list''))
      else Inr [])"

section \<open>The jobs\<close>

definition core_valgrind_skip_tests :: "string list" where
  "core_valgrind_skip_tests =
     [''ns3-tcp-cwnd'', ''nsc-tcp-loss'', ''ns3-tcp-interoperability'', ''routing-click'']"

definition core_nsc_missing_skip_tests :: "string list" where
  "core_nsc_missing_skip_tests = [''ns3-tcp-cwnd'', ''nsc-tcp-loss'', ''ns3-tcp-interoperability'']"

definition skip_if :: "bool \<Rightarrow> job \<Rightarrow> job" where
  "skip_if b j = (if b then set_is_skip True j else j)"

definition suite_job :: "options \<Rightarrow> globals \<Rightarrow> string \<Rightarrow> string \<Rightarrow> string \<Rightarrow> job res" where
  "suite_job opts g dir outdir test =
     rbind (global_var g ''NSC_ENABLED'') (\<lambda>nsc_enabled.
       Inr (skip_if (\<not> truthy nsc_enabled \<and> test \<in> set core_nsc_missing_skip_tests)
         (skip_if (valgrind opts \<and> test \<in> set core_valgrind_skip_tests)
         (set_shell_command (test_runner (''--test-name='' @ test @
              (if multiple opts then '''' else '' --stop-on-failure'')))
         (set_tempdir outdir (set_basedir dir (set_cwd dir
         (set_tmp_file_name (path_join outdir (test @ ''.xml''))
         (set_display_name test (set_is_pyexample False (set_is_example False new_job)))))))))))"

definition suite_jobs :: "options \<Rightarrow> globals \<Rightarrow> string \<Rightarrow> string \<Rightarrow> string \<Rightarrow> job list res" where
  "suite_jobs opts g dir outdir suites =
     rmap (suite_job opts g dir outdir) (filter (\<lambda>t. t \<noteq> []) (map strip (split_on (CHR 0x0A) suites)))"

definition example_job :: "string \<Rightarrow> string \<Rightarrow> string \<Rightarrow> string \<Rightarrow> job" where
  "example_job dir outdir test build =
     set_build_path build (set_shell_command test (set_tempdir outdir (set_basedir dir
       (set_cwd outdir (set_tmp_file_name '''' (set_display_name test
       (set_is_pyexample False (set_is_example True new_job))))))))"

definition pyexample_job :: "string \<Rightarrow> string \<Rightarrow> string \<Rightarrow> job" where
  "pyexample_job dir outdir test =
     set_build_path '''' (set_shell_command test (set_tempdir outdir (set_basedir dir
       (set_cwd outdir (set_tmp_file_name '''' (set_display_name test
       (set_is_pyexample True (set_is_example False new_job))))))))"

definition listed_example ::
  "options \<Rightarrow> evaluator \<Rightarrow> globals \<Rightarrow> string \<Rightarrow> string \<Rightarrow> string list \<Rightarrow> cpp_example \<Rightarrow> job list res" where
  "listed_example opts ev g dir outdir runnable e =
     (case e of (test, do_run, do_valgrind_run) \<Rightarrow>
      if path_basename test \<in> set runnable then
        rbind (ev_condition ev do_run g) (\<lambda>b.
          if b then
            rbind (if valgrind opts then rbind (ev_condition ev do_valgrind_run g) (\<lambda>v. Inr (\<not> v)) else Inr False)
              (\<lambda>skip. Inr [skip_if skip (example_job dir outdir test '''')])
          else Inr [])
      else Inr [])"

definition listed_pyexample ::
  "options \<Rightarrow> evaluator \<Rightarrow> globals \<Rightarrow> string \<Rightarrow> string \<Rightarrow> string list \<Rightarrow> py_example \<Rightarrow> job list res" where
  "listed_pyexample opts ev g dir outdir runnable e =
     (case e of (test, do_run) \<Rightarrow>
      if path_basename test \<in> set runnable then
        rbind (ev_condition ev do_run g) (\<lambda>b.
          if b then
            rbind (global_var g ''ENABLE_PYTHON_BINDINGS'') (\<lambda>bindings.
              Inr [skip_if (\<not> truthy bindings) (skip_if (valgrind opts) (pyexample_job dir outdir test))])
          else Inr [])
      else Inr [])"

text \<open>
  Neither a suite nor an example was asked for, so all examples that the kind admits are tried;
  or one example was asked for, which is tried whatever its conditions say.
\<close>

definition all_of_kind :: "options \<Rightarrow> string \<Rightarrow> bool" where
  "all_of_kind opts kind \<longleftrightarrow> constrain opts = [] \<or> constrain opts = kind"

definition nothing_asked :: "options \<Rightarrow> bool" where
  "nothing_asked opts \<longleftrightarrow> suite opts = [] \<and> example opts = [] \<and> pyexample opts = []"

definition example_jobs ::
  "options \<Rightarrow> evaluator \<Rightarrow> globals \<Rightarrow> string \<Rightarrow> string \<Rightarrow> string list \<Rightarrow> cpp_example list \<Rightarrow> job list res" where
  "example_jobs opts ev g dir outdir runnable tests =
     (if nothing_asked opts then
        (if all_of_kind opts ''example'' then
           rbind (global_var g ''ENABLE_EXAMPLES'') (\<lambda>enabled.
             if truthy enabled then
               rbind (rmap (listed_example opts ev g dir outdir runnable) tests) (\<lambda>jss. Inr (concat jss))
             else Inr [])
         else Inr [])
      else if example opts \<noteq> [] then
        (if path_basename (example opts) \<notin> set runnable then Inr []
         else Inr [example_job dir outdir (example opts) (buildpath opts)])
      else Inr [])"

definition pyexample_jobs ::
  "options \<Rightarrow> evaluator \<Rightarrow> globals \<Rightarrow> string \<Rightarrow> string \<Rightarrow> string list \<Rightarrow> py_example list \<Rightarrow> job list res" where
  "pyexample_jobs opts ev g dir outdir runnable tests =
     (if nothing_asked opts then
        (if all_of_kind opts ''pyexample'' then
           rbind (global_var g ''ENABLE_EXAMPLES'') (\<lambda>enabled.
             if truthy enabled then
               rbind (rmap (listed_pyexample opts ev g dir outdir runnable) tests) (\<lambda>jss. Inr (concat jss))
             else Inr [])
         else Inr [])
      else if pyexample opts \<noteq> [] then
        (if path_basename (pyexample opts) \<notin> set runnable then Inr []
         else Inr [set_build_path '''' (set_shell_command (pyexample opts) (set_tempdir outdir (set_basedir dir
                (set_cwd outdir (set_tmp_file_name '''' (set_display_name (pyexample opts)
                (set_is_pyexample True new_job)))))))])
      else Inr [])"

section \<open>From the options to the jobs\<close>

text \<open>
  What surrounds the program: running \<open>waf\<close> gives its return code and the files it leaves, a
  process depends on the environment, and \<open>outdir\<close> is the directory made for this run.
\<close>

record surroundings =
  plat :: platform
  run_waf :: "string \<Rightarrow> int \<times> (string \<Rightarrow> string option)"
  disk :: "string \<Rightarrow> string option"
  environment :: environ
  processes :: "environ \<Rightarrow> spawner"
  here :: string
  outdir :: string

datatype plan =
    WafDied int
  | Listed "string list"
  | Dispatch (plan_jobs: "job list") (plan_builddir: string) (plan_globals: globals) (plan_env: environ)

definition dispatch_jobs ::
  "options \<Rightarrow> evaluator \<Rightarrow> globals \<Rightarrow> string \<Rightarrow> string \<Rightarrow> (string \<Rightarrow> string) \<Rightarrow> string list \<Rightarrow> string list \<Rightarrow>
   cpp_example list \<times> py_example list \<Rightarrow> job list res" where
  "dispatch_jobs opts ev g dir out ask programs scripts tests =
     rbind (suite_names opts ask) (\<lambda>suites.
     rbind (suite_jobs opts g dir out suites) (\<lambda>js.
     rbind (example_jobs opts ev g dir out programs (fst tests)) (\<lambda>es.
     rbind (pyexample_jobs opts ev g dir out scripts (snd tests)) (\<lambda>ps.
       Inr (js @ es @ ps)))))"

definition plan_built :: "options \<Rightarrow> evaluator \<Rightarrow> surroundings \<Rightarrow> (string \<Rightarrow> string option) \<Rightarrow> plan res" where
  "plan_built opts ev s fs =
     rbind (read_waf_config (ev_string ev) (exec_line ev) (verbose opts) fs initial_globals) (\<lambda>(builddir, g).
     rbind (make_paths (plat s) builddir g (environment s)) (\<lambda>env.
     let build_status_file = path_join builddir ''build-status.py'' in
     if fs build_status_file = None then Inl (SystemExit 2)
     else
     rbind (get_list_from_file (ev_strings ev) (fs build_status_file) ''ns3_runnable_programs'') (\<lambda>programs.
     rbind (get_list_from_file (ev_strings ev) (fs build_status_file) ''ns3_runnable_scripts'') (\<lambda>scripts.
     rbind (find_examples ev fs builddir g) (\<lambda>tests.
     let env' = dset ''NS_LOG'' '''' env;
         ask = runner_output (processes s env') builddir (here s);
         listings = (if kinds opts then [ask ''--print-test-type-list''] else []) @
                    (if list_tests opts then [ask ''--print-test-name-list''] else [])
     in
     if kinds opts \<or> list_tests opts then Inr (Listed listings)
     else
     rbind (dispatch_jobs opts ev g (here s) (outdir s) ask programs scripts tests) (\<lambda>js.
       Inr (Dispatch js builddir g env')))))))"

definition plan_tests :: "options \<Rightarrow> evaluator \<Rightarrow> surroundings \<Rightarrow> plan res" where
  "plan_tests opts ev s =
     (if nowaf opts then plan_built opts ev s (disk s)
      else (case run_waf s (waf_command opts (plat s)) of
              (rc, fs) \<Rightarrow> if rc \<noteq> 0 then Inr (WafDied rc) else plan_built opts ev s fs))"

section \<open>Properties of the jobs\<close>

lemma skip_if_keeps [simp]:
  "is_break (skip_if b j) = is_break j" "is_example (skip_if b j) = is_example j"
  "is_pyexample (skip_if b j) = is_pyexample j" "display_name (skip_if b j) = display_name j"
  "tmp_file_name (skip_if b j) = tmp_file_name j" "cwd (skip_if b j) = cwd j"
  "is_skip (skip_if b j) \<longleftrightarrow> b \<or> is_skip j"
  by (auto simp: skip_if_def job_setters)

lemmas job_makers = suite_job_def example_job_def pyexample_job_def job_setters new_job_def

lemma suite_job_ok:
  "suite_job opts g dir out t = Inr j \<Longrightarrow>
   display_name j = t \<and> \<not> is_break j \<and> \<not> is_example j \<and> \<not> is_pyexample j"
  by (auto simp: job_makers rbind_Inr_iff)

lemma example_job_ok:
  "\<not> is_break (example_job dir out t b) \<and> is_example (example_job dir out t b) \<and>
   \<not> is_pyexample (example_job dir out t b)"
  "\<not> is_break (pyexample_job dir out t) \<and> \<not> is_example (pyexample_job dir out t) \<and>
   is_pyexample (pyexample_job dir out t)"
  by (simp_all add: job_makers)

lemma suite_jobs_ok:
  assumes "suite_jobs opts g dir out suites = Inr js"
  shows "map display_name js = filter (\<lambda>t. t \<noteq> []) (map strip (split_on (CHR 0x0A) suites)) \<and>
    (\<forall>j \<in> set js. \<not> is_break j \<and> \<not> is_example j \<and> \<not> is_pyexample j)"
proof -
  have "map display_name js = ts \<and> (\<forall>j \<in> set js. \<not> is_break j \<and> \<not> is_example j \<and> \<not> is_pyexample j)"
    if "rmap (suite_job opts g dir out) ts = Inr js" for ts
    using that
  proof (induction ts arbitrary: js)
    case (Cons t ts)
    then obtain j js' where "suite_job opts g dir out t = Inr j" "rmap (suite_job opts g dir out) ts = Inr js'" "js = j # js'"
      by (auto simp: rbind_Inr_iff)
    with Cons.IH [of js'] suite_job_ok show ?case by auto
  qed simp
  then show ?thesis using assms unfolding suite_jobs_def by blast
qed

lemma rmap_all:
  assumes "rmap f xs = Inr yss" "\<And>x ys. f x = Inr ys \<Longrightarrow> list_all P ys"
  shows "list_all P (concat yss)"
  using assms by (induction xs arbitrary: yss) (auto simp: rbind_Inr_iff)

lemma example_jobs_ok:
  assumes "example_jobs opts ev g dir out runnable tests = Inr js"
  shows "list_all (\<lambda>j. \<not> is_break j \<and> is_example j \<and> \<not> is_pyexample j) js"
proof -
  have "list_all (\<lambda>j. \<not> is_break j \<and> is_example j \<and> \<not> is_pyexample j) ys"
    if "listed_example opts ev g dir out runnable x = Inr ys" for x ys
    using that by (cases x) (auto simp: listed_example_def rbind_Inr_iff example_job_ok split: if_splits)
  then show ?thesis
    using assms rmap_all [where f = "listed_example opts ev g dir out runnable"]
    by (auto simp: example_jobs_def rbind_Inr_iff job_makers split: if_splits)
qed

lemma pyexample_jobs_ok:
  assumes "pyexample_jobs opts ev g dir out runnable tests = Inr js"
  shows "list_all (\<lambda>j. \<not> is_break j \<and> \<not> is_example j \<and> is_pyexample j) js"
proof -
  have "list_all (\<lambda>j. \<not> is_break j \<and> \<not> is_example j \<and> is_pyexample j) ys"
    if "listed_pyexample opts ev g dir out runnable x = Inr ys" for x ys
    using that by (cases x) (auto simp: listed_pyexample_def rbind_Inr_iff example_job_ok split: if_splits)
  then show ?thesis
    using assms rmap_all [where f = "listed_pyexample opts ev g dir out runnable"]
    by (auto simp: pyexample_jobs_def rbind_Inr_iff job_makers split: if_splits)
qed


definition sample_options :: options where
  "sample_options = default_options\<lparr> suite := ''wifi'', example := ''udp/echo'' \<rparr>"

definition sample_ev :: evaluator where
  "sample_ev = \<lparr> ev_cpp = (\<lambda>s. Inr []), ev_py = (\<lambda>s. Inr []), ev_strings = (\<lambda>s. Inr []),
     ev_string = (\<lambda>s. Inr s), ev_condition = (\<lambda>s g. Inr True), exec_line = (\<lambda>s g. Inr g) \<rparr>"


section \<open>Properties of the environment\<close>

lemma add_paths_values:
  "dget env var = Some v \<Longrightarrow> \<exists>env'. rfold (add_path var sep) env paths = Inr env' \<and>
    dget env' = (dget env)(var \<mapsto> v @ concat (map (\<lambda>p. sep @ p) paths))"
proof (induction paths arbitrary: env v)
  case (Cons p paths)
  have "add_path var sep env p = Inr (dset var (v @ sep @ p) env)"
    using Cons.prems by (simp add: add_path_def dlookup_def)
  moreover obtain env' where "rfold (add_path var sep) (dset var (v @ sep @ p) env) paths = Inr env'"
    "dget env' = (dget (dset var (v @ sep @ p) env))(var \<mapsto> (v @ sep @ p) @ concat (map (\<lambda>p. sep @ p) paths))"
    using Cons.IH [of "dset var (v @ sep @ p) env" "v @ sep @ p"] unfolding dget_dset by force
  ultimately show ?case by (auto simp: fun_eq_iff)
qed auto

lemma add_paths_run:
  "have' = has_key env var \<Longrightarrow> \<exists>env'. add_paths var sep paths have' env = Inr env' \<and>
    dget env' = (dget env)(var \<mapsto> (case dget env var of None \<Rightarrow> [] | Some v \<Rightarrow> v) @ concat (map (\<lambda>p. sep @ p) paths))"
  using add_paths_values [of env var] add_paths_values [of "dset var [] env" var "[]" sep paths]
  by (fastforce simp: add_paths_def has_key_def in_dkeys_iff split: option.split)

fun path_var :: "platform \<Rightarrow> string" where
  "path_var Darwin = ''DYLD_LIBRARY_PATH''"
| "path_var Win32 = ''PATH''"
| "path_var Cygwin = ''PATH''"
| "path_var Linux = ''LD_LIBRARY_PATH''"

definition path_sep :: "platform \<Rightarrow> string" where
  "path_sep os = (if os = Win32 then '';'' else '':'')"

text \<open>
  \<open>make_paths\<close> appends every directory of \<open>NS3_MODULE_PATH\<close> to the search path of the
  platform, which it creates when it is missing, and keeps the rest of the environment but for
  \<open>PYTHONPATH\<close>: what the user had there is lost, and the directory of the bindings is there
  twice instead.
\<close>

theorem make_paths_spec:
  assumes "rbind (global_var g ''NS3_MODULE_PATH'') py_items = Inr paths"
  shows "\<exists>env'. make_paths os builddir g env = Inr env' \<and>
    (let bindings = path_join (path_join builddir ''bindings'') ''python'' in
     dget env' = (dget env)
       (''PYTHONPATH'' \<mapsto> (if dget env ''PYTHONPATH'' = None then bindings else bindings @ '':'' @ bindings),
        path_var os \<mapsto> (case dget env (path_var os) of None \<Rightarrow> [] | Some v \<Rightarrow> v) @
          concat (map (\<lambda>p. path_sep os @ p) paths)))"
proof -
  let ?b = "path_join (path_join builddir ''bindings'') ''python''"
  let ?py = "if dget env ''PYTHONPATH'' = None then ?b else ?b @ '':'' @ ?b"
  obtain env2 where env2: "(if \<not> has_key env ''PYTHONPATH'' then Inr (dset ''PYTHONPATH'' ?b (dset ''PYTHONPATH'' ?b env))
      else add_path ''PYTHONPATH'' '':'' (dset ''PYTHONPATH'' ?b env) ?b) = Inr env2"
    "dget env2 = (dget env)(''PYTHONPATH'' \<mapsto> ?py)"
  proof (cases "dget env ''PYTHONPATH''")
    case None
    then show ?thesis using that by (simp add: has_key_def in_dkeys_iff)
  next
    case (Some v)
    then show ?thesis using that by (simp add: has_key_def in_dkeys_iff add_path_def dlookup_def)
  qed
  have neq: "path_var os \<noteq> ''PYTHONPATH''" by (cases os) simp_all
  then have key: "has_key env (path_var os) = has_key env2 (path_var os)"
    by (simp add: has_key_def in_dkeys_iff env2(2))
  obtain env' where env': "add_paths (path_var os) (path_sep os) paths (has_key env (path_var os)) env2 = Inr env'"
    "dget env' = (dget env2)(path_var os \<mapsto>
       (case dget env2 (path_var os) of None \<Rightarrow> [] | Some v \<Rightarrow> v) @ concat (map (\<lambda>p. path_sep os @ p) paths))"
    using add_paths_run [OF key] by blast
  have "make_paths os builddir g env = Inr env'"
    using env'(1) unfolding make_paths_def Let_def env2(1) assms
    by (cases os) (simp_all add: path_sep_def)
  then show ?thesis using env'(2) env2(2) neq by auto
qed

theorem make_paths_witness:
  "\<exists>env'. make_paths Linux ''/b'' [(''NS3_MODULE_PATH'', PyList [''/b/lib''])] [(''PYTHONPATH'', ''/mine'')] = Inr env' \<and>
    dget env' ''PYTHONPATH'' = Some ''/b/bindings/python:/b/bindings/python'' \<and>
    dget env' ''LD_LIBRARY_PATH'' = Some '':/b/lib''"
proof -
  have "rbind (global_var [(''NS3_MODULE_PATH'', PyList [''/b/lib''])] ''NS3_MODULE_PATH'') py_items = Inr [''/b/lib'']"
    by (simp add: global_var_def)
  from make_paths_spec [OF this, of Linux "''/b''" "[(''PYTHONPATH'', ''/mine'')]"]
  show ?thesis by (auto simp: path_join_def path_sep_def)
qed

text \<open>A part of the name of a suite is enough for a job that names no suite.\<close>

lemma suite_substring_accepted:
  "suite_names (default_options\<lparr> suite := ''tcp'' \<rparr>) (\<lambda>a. ''ns3-tcp-cwnd'' @ nl) = Inr (''tcp'' @ nl)"
  by (simp add: suite_names_def default_options_def)

end
