(* ===== verification/RadStats.thy ===== *)
theory RadStats
  imports PyNum
begin

text \<open>
  The statistics and the number texts of \<open>bindings/python/rad_util.py\<close>: \<open>quantile\<close>,
  \<open>trim\<close>, \<open>nice_units\<close> and \<open>float_range\<close>. Floats are exact rationals, so \<open>float_range\<close> has no
  step that is lost in rounding.
\<close>

section \<open>\<open>quantile\<close> and \<open>trim\<close>\<close>

definition quantile :: "rat list \<Rightarrow> rat \<Rightarrow> rat res" where
  "quantile l p =
     (let l_sort = sort l; n = int (length l);
          r = 1 + of_int (n - 1) * p;
          i = py_int (PFloat r);
          f = r - of_int i in
      if i < n then
        rbind (py_get l_sort (i - 1)) (\<lambda>a. rbind (py_get l_sort i) (\<lambda>b. Inr ((1 - f) * a + f * b)))
      else py_get l_sort (i - 1))"

definition median_of :: "rat list \<Rightarrow> rat res" where
  "median_of l_sort =
     (let index = int (length l_sort div 2) in
      if length l_sort mod 2 = 0 then
        rbind (py_get l_sort index) (\<lambda>a. rbind (py_get l_sort (index - 1)) (\<lambda>b. Inr ((a + b) / 2)))
      else py_get l_sort index)"

text \<open>The median is computed and not used; on an empty list it raises.\<close>

definition trim :: "rat list \<Rightarrow> rat list res" where
  "trim l =
     (let l_sort = sort l in
      rbind (median_of l_sort) (\<lambda>median.
      rbind (quantile l_sort (1 / 4)) (\<lambda>q1.
      rbind (quantile l_sort (3 / 4)) (\<lambda>q3.
        let iqr_extra = (q3 - q1) * (3 / 2) in
        Inr (filter (\<lambda>x. q1 - iqr_extra \<le> x \<and> x \<le> q3 + iqr_extra) l_sort)))))"

section \<open>\<open>float_range\<close>\<close>

partial_function (option) range_from :: "rat \<Rightarrow> rat \<Rightarrow> rat \<Rightarrow> rat list option" where
  "range_from cur stop step =
     (if cur < stop then Option.bind (range_from (cur + step) stop step) (\<lambda>l. Some (cur # l))
      else Some [])"

definition float_range :: "rat \<Rightarrow> rat option \<Rightarrow> rat option \<Rightarrow> rat list option" where
  "float_range start stop step =
     (let (start, stop) = (case stop of None \<Rightarrow> (0, start) | Some s \<Rightarrow> (start, s));
          step = (case step of None \<Rightarrow> 1 | Some d \<Rightarrow> d) in
      range_from start stop step)"

section \<open>\<open>nice_units\<close>\<close>

type_synonym unit_table = "(pynum \<times> string \<times> string) list"

definition si_prefixes :: "bool \<Rightarrow> unit_table" where
  "si_prefixes use_extra_prefixes =
     [(PFloat (10 ^ 24), ''Y'', ''yotta''),
      (PFloat (10 ^ 21), ''Z'', ''zetta''),
      (PFloat (10 ^ 18), ''E'', ''exa''),
      (PFloat (10 ^ 15), ''P'', ''peta''),
      (PFloat (10 ^ 12), ''T'', ''tera''),
      (PFloat (10 ^ 9), ''G'', ''giga''),
      (PFloat (10 ^ 6), ''M'', ''mega''),
      (PFloat (10 ^ 3), ''k'', ''kilo''),
      (PFloat (1 / 10 ^ 3), ''m'', ''milli''),
      (PFloat (1 / 10 ^ 6), ''u'', ''micro''),
      (PFloat (1 / 10 ^ 9), ''n'', ''nano''),
      (PFloat (1 / 10 ^ 12), ''p'', ''pico''),
      (PFloat (1 / 10 ^ 15), ''f'', ''femto''),
      (PFloat (1 / 10 ^ 18), ''a'', ''atto''),
      (PFloat (1 / 10 ^ 21), ''z'', ''zepto''),
      (PFloat (1 / 10 ^ 24), ''y'', ''yocto'')] @
     (if use_extra_prefixes then
        [(PFloat (10 ^ 2), ''h'', ''hecto''),
         (PFloat (10 ^ 1), ''da'', ''deka''),
         (PFloat (1 / 10), ''d'', ''deci''),
         (PFloat (1 / 10 ^ 2), ''c'', ''centi'')]
      else [])"

definition bin_prefixes :: unit_table where
  "bin_prefixes =
     [(PInt (2 ^ 10), ''K'', ''kilo''),
      (PInt (2 ^ 20), ''M'', ''mega''),
      (PInt (2 ^ 30), ''G'', ''mega''),
      (PInt (2 ^ 40), ''T'', ''tera''),
      (PInt (2 ^ 50), ''P'', ''peta''),
      (PInt (2 ^ 60), ''E'', ''exa'')]"

definition prefix_table :: "string \<Rightarrow> bool \<Rightarrow> unit_table" where
  "prefix_table mode extra = (if mode = ''bin'' then bin_prefixes else si_prefixes extra) @ [(PInt 1, [], [])]"

definition multipliers :: "unit_table \<Rightarrow> pynum list" where
  "multipliers table = sort_key val (map fst table)"

text \<open>\<open>mult\<close> is always \<open>None\<close> after the loop, so both tests behind it are made.\<close>

fun unit_loop :: "nat \<Rightarrow> pynum list \<Rightarrow> pynum \<Rightarrow> nat option" where
  "unit_loop i (lower # upper # ms) value =
     (if nle lower value \<and> nlt value upper then Some i else unit_loop (Suc i) (upper # ms) value)"
| "unit_loop i ms value = None"

definition unit_index :: "pynum list \<Rightarrow> pynum \<Rightarrow> nat res" where
  "unit_index ms value =
     (let found = unit_loop 0 ms value in
      if nlt value (ms ! 0) then Inr 0
      else if nle (last ms) value then Inr (length ms - 1)
      else (case found of None \<Rightarrow> Inl UnboundLocalError | Some i \<Rightarrow> Inr i))"

text \<open>\<open>round(x, dp)\<close>: halves away from zero.\<close>

definition py_round :: "rat \<Rightarrow> nat \<Rightarrow> rat" where
  "py_round x dp = sgn x * of_int \<lfloor>\<bar>x\<bar> * 10 ^ dp + 1 / 2\<rfloor> / 10 ^ dp"

definition choose_unit :: "pynum list \<Rightarrow> pynum \<Rightarrow> nat \<Rightarrow> bool \<Rightarrow> (pynum \<times> pynum) res" where
  "choose_unit ms value dp use_sigfigs =
     rbind (unit_index ms value) (\<lambda>mult_i.
     rbind (ndiv value (ms ! mult_i)) (\<lambda>new_value.
       if \<not> use_sigfigs \<and> mult_i < length ms - 1 then
         rbind (ndiv (ms ! (mult_i + 1)) (ms ! mult_i)) (\<lambda>ratio.
           if py_round (val new_value) dp = py_round (val ratio) dp then
             rbind (ndiv value (ms ! (mult_i + 1))) (\<lambda>w. Inr (ms ! (mult_i + 1), w))
           else Inr (ms ! mult_i, new_value))
       else Inr (ms ! mult_i, new_value)))"

text \<open>\<open>%.2f\<close> and \<open>%.3g\<close>, with the number of digits as a parameter.\<close>

definition zero_fill :: "nat \<Rightarrow> string \<Rightarrow> string" where
  "zero_fill width s = replicate (width - length s) (CHR ''0'') @ s"

definition fmt_fixed :: "nat \<Rightarrow> rat \<Rightarrow> string" where
  "fmt_fixed dp x =
     (let m = nat (round_half_even (\<bar>x\<bar> * 10 ^ dp)) in
      (if x < 0 then ''-'' else []) @ nat_str (m div 10 ^ dp) @
      (if dp = 0 then [] else CHR ''.'' # zero_fill dp (nat_str (m mod 10 ^ dp))))"

definition decimal_exponent :: "rat \<Rightarrow> int" where
  "decimal_exponent x =
     (if 1 \<le> x then int (length (nat_str (nat \<lfloor>x\<rfloor>))) - 1
      else - int (length (nat_str (nat (\<lceil>1 / x\<rceil> - 1)))))"

definition ten_to :: "int \<Rightarrow> rat" where
  "ten_to e = (if 0 \<le> e then 10 ^ nat e else 1 / 10 ^ nat (- e))"

definition strip_zeros :: "string \<Rightarrow> string" where
  "strip_zeros s =
     (if CHR ''.'' \<in> set s
      then rev (case dropWhile (\<lambda>c. c = CHR ''0'') (rev s) of c # cs \<Rightarrow> if c = CHR ''.'' then cs else c # cs | [] \<Rightarrow> [])
      else s)"

definition fmt_general :: "nat \<Rightarrow> rat \<Rightarrow> string" where
  "fmt_general precision x =
     (if x = 0 then ''0''
      else
        (let p = max 1 precision;
             e0 = decimal_exponent \<bar>x\<bar>;
             d = round_half_even (\<bar>x\<bar> / ten_to e0 * 10 ^ (p - 1));
             e = (if d = 10 ^ p then e0 + 1 else e0) in
         if - 4 \<le> e \<and> e < int p then strip_zeros (fmt_fixed (nat (int p - 1 - e)) x)
         else
           strip_zeros (fmt_fixed (p - 1) (x / ten_to e)) @ ''e'' @ (if e < 0 then ''-'' else ''+'') @
             zero_fill 2 (nat_str (nat \<bar>e\<bar>))))"

definition nice_units :: "pynum \<Rightarrow> nat \<Rightarrow> nat option \<Rightarrow> string \<Rightarrow> string \<Rightarrow> bool \<Rightarrow> bool \<Rightarrow> string \<Rightarrow> string res" where
  "nice_units value dp sigfigs suffix space use_extra_prefixes use_full_name mode =
     (let prefixes = prefix_table mode use_extra_prefixes in
      rbind (choose_unit (multipliers prefixes) value dp (sigfigs \<noteq> None)) (\<lambda>(mult, new_value).
      rbind (dlookup prefixes mult) (\<lambda>(symbol, full_name).
        let label_text = (if use_full_name then full_name else symbol);
            str_value = (case sigfigs of None \<Rightarrow> fmt_fixed dp (val new_value) | Some n \<Rightarrow> fmt_general n (val new_value)) in
        Inr (str_value @ space @ label_text @ suffix))))"

definition pt2str :: "string \<times> string \<Rightarrow> string" where
  "pt2str point = ''('' @ fst point @ '', '' @ snd point @ '')''"

section \<open>Properties of \<open>quantile\<close> and \<open>trim\<close>\<close>

text \<open>The value at a place between two positions of a list.\<close>

definition between_values :: "rat list \<Rightarrow> rat \<Rightarrow> rat" where
  "between_values s h =
     (let k = nat \<lfloor>h\<rfloor>; f = h - of_int \<lfloor>h\<rfloor> in
      if Suc k < length s then (1 - f) * s ! k + f * s ! Suc k else s ! k)"

lemma sort_not_Nil: "l \<noteq> [] \<Longrightarrow> sort l \<noteq> []"
  by (metis length_0_conv length_sort)

lemma place_in_list:
  fixes h :: rat
  assumes "s \<noteq> []" "0 \<le> h" "h \<le> of_nat (length s) - 1"
  shows "nat \<lfloor>h\<rfloor> < length s" and "int (nat \<lfloor>h\<rfloor>) = \<lfloor>h\<rfloor>"
proof -
  show e: "int (nat \<lfloor>h\<rfloor>) = \<lfloor>h\<rfloor>" using assms(2) by simp
  have "of_int \<lfloor>h\<rfloor> < (of_nat (length s) :: rat)" using assms(3) of_int_floor_le [of h] by linarith
  then have "\<lfloor>h\<rfloor> < int (length s)" by (metis of_int_less_iff of_int_of_nat_eq)
  then show "nat \<lfloor>h\<rfloor> < length s" using e by linarith
qed

lemma quantile_value:
  assumes "l \<noteq> []" "0 \<le> p" "p \<le> 1"
  shows "quantile l p = Inr (between_values (sort l) (of_nat (length l - 1) * p))"
proof -
  define h where "h = of_nat (length l - 1) * p"
  have len: "of_int (int (length l) - 1) = (of_nat (length l - 1) :: rat)" "0 < length l"
    using assms(1) by (simp_all add: of_nat_diff Suc_le_eq)
  have h: "0 \<le> h" "h \<le> of_nat (length l - 1)"
    using assms(2, 3) mult_left_mono [of p 1 "of_nat (length l - 1)"] by (simp_all add: h_def)
  have up: "h \<le> of_nat (length (sort l)) - 1" using h(2) len(2) by (simp add: of_nat_diff Suc_le_eq)
  have k: "nat \<lfloor>h\<rfloor> < length l" "int (nat \<lfloor>h\<rfloor>) = \<lfloor>h\<rfloor>"
    using place_in_list [OF sort_not_Nil [OF assms(1)] h(1) up] by simp_all
  have i: "py_int (PFloat (1 + h)) = 1 + \<lfloor>h\<rfloor>" using h(1) by simp
  have "py_get (sort l) \<lfloor>h\<rfloor> = Inr (sort l ! nat \<lfloor>h\<rfloor>)"
    using k py_get_nonneg [of "nat \<lfloor>h\<rfloor>" "sort l"] by simp
  moreover have "py_get (sort l) (1 + \<lfloor>h\<rfloor>) = Inr (sort l ! Suc (nat \<lfloor>h\<rfloor>))" if "Suc (nat \<lfloor>h\<rfloor>) < length l"
    using k that py_get_nonneg [of "Suc (nat \<lfloor>h\<rfloor>)" "sort l"] by simp
  moreover have "1 + \<lfloor>h\<rfloor> < int (length l) \<longleftrightarrow> Suc (nat \<lfloor>h\<rfloor>) < length l" using k by linarith
  ultimately show ?thesis
    unfolding quantile_def between_values_def Let_def len(1) h_def [symmetric] i by simp
qed

lemma convex_between:
  fixes a b f :: rat
  assumes "0 \<le> f" "f \<le> 1" "a \<le> b"
  shows "a \<le> (1 - f) * a + f * b" and "(1 - f) * a + f * b \<le> b"
proof -
  have "f * a \<le> f * b" "(1 - f) * a \<le> (1 - f) * b" using assms by (intro mult_left_mono; simp)+
  then show "a \<le> (1 - f) * a + f * b" "(1 - f) * a + f * b \<le> b" by (simp_all add: algebra_simps)
qed

lemma convex_mono:
  fixes a b f g :: rat
  assumes "f \<le> g" "a \<le> b"
  shows "(1 - f) * a + f * b \<le> (1 - g) * a + g * b"
proof -
  have "f * (b - a) \<le> g * (b - a)" using assms by (intro mult_right_mono) simp_all
  then show ?thesis by (simp add: algebra_simps)
qed

lemma between_values_bounds:
  assumes "sorted s" "s \<noteq> []" "0 \<le> h" "h \<le> of_nat (length s) - 1"
  shows "s ! nat \<lfloor>h\<rfloor> \<le> between_values s h"
    and "between_values s h \<le> s ! min (Suc (nat \<lfloor>h\<rfloor>)) (length s - 1)"
proof -
  have k: "nat \<lfloor>h\<rfloor> < length s" using place_in_list(1) [OF assms(2-4)] .
  have f: "0 \<le> h - of_int \<lfloor>h\<rfloor>" "h - of_int \<lfloor>h\<rfloor> \<le> 1" by linarith+
  have step: "s ! nat \<lfloor>h\<rfloor> \<le> s ! Suc (nat \<lfloor>h\<rfloor>)" if "Suc (nat \<lfloor>h\<rfloor>) < length s"
    using assms(1) that by (simp add: sorted_nth_mono)
  show "s ! nat \<lfloor>h\<rfloor> \<le> between_values s h"
    using convex_between(1) [OF f step] by (simp add: between_values_def Let_def)
  show "between_values s h \<le> s ! min (Suc (nat \<lfloor>h\<rfloor>)) (length s - 1)"
  proof (cases "Suc (nat \<lfloor>h\<rfloor>) < length s")
    case True
    then show ?thesis using convex_between(2) [OF f step] by (simp add: between_values_def Let_def min_def)
  next
    case False
    with k have "length s - 1 = nat \<lfloor>h\<rfloor>" by simp
    then show ?thesis using False by (simp add: between_values_def)
  qed
qed

lemma between_values_mono:
  assumes "sorted s" "s \<noteq> []" "0 \<le> h" "h \<le> h'" "h' \<le> of_nat (length s) - 1"
  shows "between_values s h \<le> between_values s h'"
proof (cases "\<lfloor>h\<rfloor> = \<lfloor>h'\<rfloor>")
  case True
  have "s ! nat \<lfloor>h\<rfloor> \<le> s ! Suc (nat \<lfloor>h\<rfloor>)" if "Suc (nat \<lfloor>h\<rfloor>) < length s"
    using assms(1) that by (simp add: sorted_nth_mono)
  then show ?thesis using convex_mono [of "h - of_int \<lfloor>h\<rfloor>" "h' - of_int \<lfloor>h'\<rfloor>"] assms(4) True
    by (simp add: between_values_def Let_def)
next
  case False
  then have "\<lfloor>h\<rfloor> < \<lfloor>h'\<rfloor>" using floor_mono [OF assms(4)] by simp
  moreover have "0 \<le> \<lfloor>h\<rfloor>" using assms(3) by simp
  ultimately have less: "nat \<lfloor>h\<rfloor> < nat \<lfloor>h'\<rfloor>" by linarith
  have k': "nat \<lfloor>h'\<rfloor> < length s" using place_in_list(1) [OF assms(2)] assms(3-5) by auto
  have "between_values s h \<le> s ! min (Suc (nat \<lfloor>h\<rfloor>)) (length s - 1)"
    using between_values_bounds(2) [OF assms(1-3)] assms(4, 5) by simp
  also have "\<dots> \<le> s ! nat \<lfloor>h'\<rfloor>" using less k' by (intro sorted_nth_mono [OF assms(1)]; linarith)
  also have "\<dots> \<le> between_values s h'" using between_values_bounds(1) [OF assms(1, 2)] assms(3-5) by simp
  finally show ?thesis .
qed

lemma sort_ends:
  fixes l :: "rat list"
  assumes "l \<noteq> []"
  shows "sort l ! 0 = Min (set l)" and "sort l ! (length l - 1) = Max (set l)"
proof -
  have s: "sort l \<noteq> []" "length (sort l) = length l" using assms by (simp_all add: sort_not_Nil)
  have set: "set (sort l) = set l" by simp
  have low: "sort l ! 0 \<le> x" if "x \<in> set l" for x
    using that unfolding set [symmetric] in_set_conv_nth by (auto intro!: sorted_nth_mono)
  have high: "x \<le> sort l ! (length l - 1)" if "x \<in> set l" for x
    using that unfolding set [symmetric] in_set_conv_nth by (auto intro!: sorted_nth_mono)
  show "sort l ! 0 = Min (set l)"
    using low s nth_mem [of 0 "sort l"] assms by (intro Min_eqI [symmetric]) auto
  show "sort l ! (length l - 1) = Max (set l)"
    using high s nth_mem [of "length l - 1" "sort l"] assms by (intro Max_eqI [symmetric]) auto
qed

text \<open>
  For a list that is not empty, the quantile is the least value at 0 and the greatest at 1, and in between it
  grows with \<open>p\<close>, so it always lies between them; on an empty list it raises \<open>IndexError\<close>.
\<close>

theorem quantile_spec:
  assumes "0 \<le> p" "p \<le> q" "q \<le> 1"
  shows "if l = [] then quantile l p = Inl IndexError
    else \<exists>a b. quantile l p = Inr a \<and> quantile l q = Inr b \<and> Min (set l) \<le> a \<and> a \<le> b \<and> b \<le> Max (set l) \<and>
      quantile l 0 = Inr (Min (set l)) \<and> quantile l 1 = Inr (Max (set l))"
proof (cases "l = []")
  case True
  then show ?thesis by (simp add: quantile_def Let_def)
next
  case False
  let ?v = "\<lambda>p. between_values (sort l) (of_nat (length l - 1) * p)"
  have mono: "?v a \<le> ?v b" if "0 \<le> a" "a \<le> b" "b \<le> 1" for a b
    using that False mult_left_mono [of b 1 "of_nat (length l - 1)"]
    by (intro between_values_mono) (auto simp: sort_not_Nil mult_left_mono of_nat_diff Suc_le_eq)
  have ends: "?v 0 = Min (set l)" "?v 1 = Max (set l)"
    using sort_ends [OF False] by (auto simp: between_values_def Let_def)
  have "quantile l x = Inr (?v x)" if "0 \<le> x" "x \<le> 1" for x using quantile_value [OF False that] .
  then show ?thesis using False ends mono [of 0 p] mono [of p q] mono [of q 1] assms by simp
qed

lemma quantile_witness: "\<exists>b. quantile [3, 1, 2] (1 / 2) = Inr b \<and> 1 \<le> b \<and> b \<le> 3"
  using quantile_spec [of "1 / 2" "1 / 2" "[3, 1, 2]"] by auto

lemma median_succeeds:
  assumes "s \<noteq> []"
  shows "\<exists>m. median_of s = Inr m"
proof -
  define k where "k = length s div 2"
  have k: "k < length s" using assms by (simp add: k_def)
  then have "py_get s (int k) = Inr (s ! k)" by simp
  moreover have "py_get s (int k - 1) = Inr (s ! (k - 1))" if "length s mod 2 = 0"
  proof -
    have "length s \<noteq> 0" using assms by simp
    then have "k \<noteq> 0" using that unfolding k_def by presburger
    then obtain j where "k = Suc j" by (cases k) auto
    then show ?thesis using k by simp
  qed
  ultimately show ?thesis unfolding median_of_def k_def [symmetric] Let_def
    by (cases "length s mod 2 = 0") (simp_all only: if_True if_False rbind_simps sum.inject ex_simps simp_thms)
qed

definition fence :: "rat \<Rightarrow> rat \<Rightarrow> rat \<Rightarrow> bool" where
  "fence q1 q3 x \<longleftrightarrow> q1 - 3 / 2 * (q3 - q1) \<le> x \<and> x \<le> q3 + 3 / 2 * (q3 - q1)"

lemma fence_inside:
  assumes "q1 \<le> x" "x \<le> q3"
  shows "fence q1 q3 x"
proof -
  have "0 \<le> 3 / 2 * (q3 - q1)" using assms by simp
  then show ?thesis using assms unfolding fence_def by (intro conjI; linarith)
qed

lemma trim_value:
  assumes "l \<noteq> []" "quantile l (1 / 4) = Inr q1" "quantile l (3 / 4) = Inr q3"
  shows "trim l = Inr (filter (fence q1 q3) (sort l))"
proof -
  have "quantile (sort l) p = quantile l p" for p by (simp add: quantile_def sorted_sort_id)
  moreover obtain m where "median_of (sort l) = Inr m" using median_succeeds sort_not_Nil [OF assms(1)] by blast
  ultimately show ?thesis using assms
    by (simp add: trim_def Let_def fence_def [abs_def] mult.commute)
qed

text \<open>Between a quarter and three quarters of the way there are about half of the positions.\<close>

lemma quarter_positions:
  fixes m :: nat
  defines "a \<equiv> nat \<lfloor>of_nat m * (1 / 4) :: rat\<rfloor>" and "b \<equiv> nat \<lfloor>of_nat m * (3 / 4) :: rat\<rfloor>"
  shows "a = m div 4" and "b = 3 * m div 4" and "m \<le> 2 * (b - a) + 1"
proof -
  have "\<lfloor>of_nat m * (1 / 4) :: rat\<rfloor> = int (m div 4)"
    using floor_divide_of_nat_eq [of m 4, where 'a = rat] by simp
  then show a: "a = m div 4" by (simp add: a_def)
  have "\<lfloor>of_nat m * (3 / 4) :: rat\<rfloor> = int (3 * m div 4)"
    using floor_divide_of_nat_eq [of "3 * m" 4, where 'a = rat] by (simp add: mult.commute)
  then show b: "b = 3 * m div 4" by (simp add: b_def)
  have "m < 4 * (m div 4) + 4" "4 * (m div 4) \<le> m" "3 * m < 4 * (3 * m div 4) + 4" by linarith+
  then show "m \<le> 2 * (b - a) + 1" unfolding a b by linarith
qed

text \<open>
  \<open>trim\<close> gives the values inside the fences, one and a half times the distance of the quartiles away from
  them, in order and as often as they occur. About half of the list at least is always kept.
\<close>

theorem trim_spec:
  assumes "l \<noteq> []"
  shows "\<exists>q1 q3 t. quantile l (1 / 4) = Inr q1 \<and> quantile l (3 / 4) = Inr q3 \<and> trim l = Inr t \<and>
    sorted t \<and> mset t = filter_mset (fence q1 q3) (mset l) \<and> length l \<le> 2 * length t + 2"
proof -
  obtain m where m: "length l = Suc m" using assms by (cases l) auto
  let ?s = "sort l"
  define h1 h3 where "h1 = of_nat m * (1 / 4 :: rat)" and "h3 = of_nat m * (3 / 4 :: rat)"
  define a b where "a = m div 4" and "b = 3 * m div 4"
  have s: "sorted ?s" "?s \<noteq> []" "length ?s = Suc m" using assms m by (simp_all add: sort_not_Nil)
  have h: "0 \<le> h1" "h1 \<le> h3" "h3 \<le> of_nat (length ?s) - 1" "h1 \<le> of_nat (length ?s) - 1" "0 \<le> h3"
    by (simp_all add: m h1_def h3_def)
  have ab: "nat \<lfloor>h1\<rfloor> = a" "nat \<lfloor>h3\<rfloor> = b" "m \<le> 2 * (b - a) + 1" "b \<le> m" "a \<le> b"
    using quarter_positions [of m] unfolding h1_def h3_def a_def b_def by simp_all
  let ?q1 = "between_values ?s h1" and ?q3 = "between_values ?s h3"
  have q: "quantile l (1 / 4) = Inr ?q1" "quantile l (3 / 4) = Inr ?q3"
    using quantile_value [OF assms] by (simp_all add: m h1_def h3_def)
  have inside: "fence ?q1 ?q3 (?s ! i)" if "Suc a \<le> i" "i \<le> b" for i
  proof -
    have "?q1 \<le> ?s ! min (Suc a) m" using between_values_bounds(2) [OF s(1, 2) h(1, 4)] ab s(3) by simp
    also have "\<dots> \<le> ?s ! i" using that ab s(3) by (intro sorted_nth_mono [OF s(1)]; linarith)
    finally have low: "?q1 \<le> ?s ! i" .
    have "?s ! i \<le> ?s ! b" using that ab s(3) by (intro sorted_nth_mono [OF s(1)]; linarith)
    also have "\<dots> \<le> ?q3" using between_values_bounds(1) [OF s(1, 2) h(5, 3)] ab by simp
    finally show ?thesis using low by (intro fence_inside)
  qed
  have "b - a = card {Suc a ..< Suc b}" by simp
  also have "\<dots> \<le> card {i. i < length ?s \<and> fence ?q1 ?q3 (?s ! i)}"
    using inside ab s(3) by (intro card_mono) auto
  also have "\<dots> = length (filter (fence ?q1 ?q3) ?s)" by (simp add: length_filter_conv_card)
  finally have "length l \<le> 2 * length (filter (fence ?q1 ?q3) ?s) + 2" using ab(3) m by linarith
  moreover have "sorted (filter (fence ?q1 ?q3) ?s)" using s(1) by (rule sorted_wrt_filter)
  ultimately show ?thesis using q trim_value [OF assms q]
    by (intro exI [of _ ?q1] exI [of _ ?q3] exI [of _ "filter (fence ?q1 ?q3) ?s"]) simp
qed

lemma trim_witness: "\<exists>t. trim [1, 2, 3, 4, 1000] = Inr t \<and> 5 \<le> 2 * length t + 2"
  using trim_spec [of "[1, 2, 3, 4, 1000]"] by auto

lemma trim_empty: "trim [] = Inl IndexError"
  by (simp add: trim_def median_of_def Let_def)

lemma trim_sample: "trim [1000, 4, 3, 2, 1] = Inr [1, 2, 3, 4]"
  by code_simp

section \<open>Properties of \<open>float_range\<close>\<close>

lemma range_from_up:
  assumes "0 < step"
  shows "range_from cur stop step = Some (map (\<lambda>k. cur + of_nat k * step) [0 ..< nat \<lceil>(stop - cur) / step\<rceil>])"
proof (induction "nat \<lceil>(stop - cur) / step\<rceil>" arbitrary: cur)
  case 0
  then have "\<not> cur < stop" using assms by (simp add: divide_le_0_iff)
  then show ?case using 0 by (subst range_from.simps) simp
next
  case (Suc n)
  have "0 < (stop - cur) / step"
  proof (rule ccontr)
    assume "\<not> 0 < (stop - cur) / step"
    then have "\<lceil>(stop - cur) / step\<rceil> \<le> 0" by simp
    then show False using Suc.hyps(2) by simp
  qed
  then have less: "cur < stop" using assms by (simp add: zero_less_divide_iff)
  have "(stop - (cur + step)) / step = (stop - cur) / step - 1" using assms by (simp add: field_simps)
  then have "n = nat \<lceil>(stop - (cur + step)) / step\<rceil>" using Suc.hyps(2) by simp
  then have "range_from (cur + step) stop step = Some (map (\<lambda>k. cur + step + of_nat k * step) [0 ..< n])"
    using Suc.hyps(1) [of "cur + step"] by simp
  moreover have "[0 ..< Suc n] = 0 # map Suc [0 ..< n]" by (simp add: map_Suc_upt upt_conv_Cons)
  ultimately show ?case using less unfolding Suc.hyps(2) [symmetric]
    by (subst range_from.simps) (simp add: comp_def algebra_simps del: upt_Suc)
qed

lemma range_from_stuck:
  assumes "range_from cur stop step = Some l" "step \<le> 0"
  shows "stop \<le> cur"
proof -
  have "step \<le> 0 \<longrightarrow> stop \<le> cur"
    by (rule range_from.raw_induct [where P = "\<lambda>cur stop step l. step \<le> 0 \<longrightarrow> stop \<le> cur", OF _ assms(1)])
      (force split: if_splits bind_splits)
  then show ?thesis using assms(2) ..
qed

text \<open>
  \<open>float_range\<close> gives the arithmetic progression below the stop. With a step that is not positive it returns
  only when there is nothing to give, and does not end otherwise.
\<close>

theorem float_range_spec:
  "float_range start (Some stop) (Some step) =
     (if stop \<le> start then Some []
      else if step \<le> 0 then None
      else Some (map (\<lambda>k. start + of_nat k * step) [0 ..< nat \<lceil>(stop - start) / step\<rceil>]))"
proof (cases "stop \<le> start \<or> 0 < step")
  case True
  moreover have "range_from start stop step = Some []" if "stop \<le> start" using that by (subst range_from.simps) simp
  ultimately show ?thesis using range_from_up by (auto simp: float_range_def)
next
  case False
  then show ?thesis using range_from_stuck [of start stop step] by (cases "range_from start stop step") (auto simp: float_range_def)
qed

section \<open>Properties of \<open>nice_units\<close>\<close>

text \<open>Units from small to large, each a whole multiple of the one before.\<close>

fun unit_steps :: "pynum list \<Rightarrow> bool" where
  "unit_steps [] = False"
| "unit_steps [m] = (0 < val m)"
| "unit_steps (l # u # ms) =
     (0 < val l \<and> 2 \<le> \<lfloor>val u / val l\<rfloor> \<and> of_int \<lfloor>val u / val l\<rfloor> = val u / val l \<and> unit_steps (u # ms))"

lemma unit_steps_tables: "unit_steps (multipliers (prefix_table mode extra))"
proof -
  have "unit_steps (multipliers (bin_prefixes @ [(PInt 1, [], [])]))"
    "unit_steps (multipliers (si_prefixes False @ [(PInt 1, [], [])]))"
    "unit_steps (multipliers (si_prefixes True @ [(PInt 1, [], [])]))"
    by code_simp+
  then show ?thesis unfolding prefix_table_def by (cases extra) simp_all
qed

lemma unit_steps_pos: "unit_steps ms \<Longrightarrow> i < length ms \<Longrightarrow> 0 < val (ms ! i)"
proof (induction ms arbitrary: i rule: unit_steps.induct)
  case (3 l u ms)
  then show ?case by (cases i) simp_all
qed simp_all

lemma unit_steps_next:
  "unit_steps ms \<Longrightarrow> Suc i < length ms \<Longrightarrow> \<exists>k \<ge> 2. val (ms ! Suc i) = of_int k * val (ms ! i)"
proof (induction ms arbitrary: i rule: unit_steps.induct)
  case (3 l u ms)
  show ?case
  proof (cases i)
    case 0
    have "0 < val l" "2 \<le> \<lfloor>val u / val l\<rfloor>" "of_int \<lfloor>val u / val l\<rfloor> = val u / val l"
      using "3.prems"(1) by (simp_all only: unit_steps.simps)
    then have "val u = of_int \<lfloor>val u / val l\<rfloor> * val l" by (metis nonzero_eq_divide_eq order_less_irrefl)
    then show ?thesis using 0 \<open>2 \<le> _\<close> by (intro exI [of _ "\<lfloor>val u / val l\<rfloor>"]) simp
  next
    case (Suc j)
    then show ?thesis using 3 by simp
  qed
qed simp_all

lemma unit_steps_less: "unit_steps ms \<Longrightarrow> i < j \<Longrightarrow> j < length ms \<Longrightarrow> val (ms ! i) < val (ms ! j)"
proof (induction j)
  case (Suc j)
  obtain k where "2 \<le> k" "val (ms ! Suc j) = of_int k * val (ms ! j)" using unit_steps_next [OF Suc.prems(1, 3)] by blast
  moreover have "0 < val (ms ! j)" using unit_steps_pos [OF Suc.prems(1)] Suc.prems(3) by simp
  moreover have "1 * val (ms ! j) < of_int k * val (ms ! j)" using calculation by (intro mult_strict_right_mono) simp_all
  ultimately have "val (ms ! j) < val (ms ! Suc j)" by simp
  then show ?case using Suc by (cases "i = j") auto
qed simp

lemma unit_steps_mono:
  assumes "unit_steps ms" "i < length ms" "j < length ms" "val (ms ! i) < val (ms ! j)"
  shows "Suc i < length ms \<and> val (ms ! Suc i) \<le> val (ms ! j)"
proof -
  have "\<not> j \<le> i" using unit_steps_less [OF assms(1) _ assms(2)] assms(4) by (metis le_neq_implies_less order_less_asym order_less_irrefl)
  then have "Suc i \<le> j" by simp
  then show ?thesis using unit_steps_less [OF assms(1) _ assms(3)] assms(3) by (cases "Suc i = j") (auto intro: less_imp_le)
qed

lemma unit_loop_Some:
  "unit_loop j ms v = Some i \<Longrightarrow>
    j \<le> i \<and> Suc (i - j) < length ms \<and> val (ms ! (i - j)) \<le> val v \<and> val v < val (ms ! Suc (i - j))"
proof (induction j ms v rule: unit_loop.induct)
  case (1 j lower upper ms v)
  show ?case
  proof (cases "nle lower v \<and> nlt v upper")
    case True
    then show ?thesis using 1 by (auto simp: nle_def nlt_def)
  next
    case False
    with 1 have "Suc j \<le> i" "i - j = Suc (i - Suc j)" by (auto simp: Suc_diff_Suc)
    then show ?thesis using 1 False by auto
  qed
qed simp_all

lemma unit_loop_None: "unit_loop j ms v = None \<Longrightarrow> ms \<noteq> [] \<Longrightarrow> val (hd ms) \<le> val v \<Longrightarrow> val (last ms) \<le> val v"
  by (induction j ms v rule: unit_loop.induct) (auto simp: nle_def nlt_def split: if_splits)

lemma unit_index_spec:
  assumes "ms \<noteq> []" "val (ms ! 0) \<le> val v"
  shows "\<exists>i < length ms. unit_index ms v = Inr i \<and> val (ms ! i) \<le> val v \<and> (Suc i < length ms \<longrightarrow> val v < val (ms ! Suc i))"
proof (cases "nle (last ms) v")
  case True
  then show ?thesis using assms
    by (intro exI [of _ "length ms - 1"]) (auto simp: unit_index_def nlt_def nle_def last_conv_nth)
next
  case False
  then obtain i where i: "unit_loop 0 ms v = Some i"
    using unit_loop_None [of 0 ms v] assms by (cases "unit_loop 0 ms v") (auto simp: nle_def hd_conv_nth)
  then show ?thesis using unit_loop_Some [OF i] assms False
    by (intro exI [of _ i]) (auto simp: unit_index_def nlt_def nle_def)
qed

lemma py_round_nonneg: "0 \<le> x \<Longrightarrow> py_round x dp = of_int \<lfloor>x * 10 ^ dp + 1 / 2\<rfloor> / 10 ^ dp"
proof (cases "x = 0")
  case True
  have "\<lfloor>1 / 2 :: rat\<rfloor> = 0" by linarith
  then show ?thesis using True by (simp add: py_round_def)
qed (simp add: py_round_def)

lemma py_round_mono: "0 \<le> x \<Longrightarrow> x \<le> y \<Longrightarrow> py_round x dp \<le> py_round y dp"
  by (simp add: py_round_nonneg divide_right_mono floor_mono mult_right_mono)

lemma py_round_int:
  assumes "0 \<le> k"
  shows "py_round (of_int k) dp = of_int k"
proof -
  have "of_int k * 10 ^ dp + 1 / 2 = of_int (k * 10 ^ dp) + (1 / 2 :: rat)" by simp
  then have "\<lfloor>of_int k * 10 ^ dp + (1 / 2 :: rat)\<rfloor> = k * 10 ^ dp" by linarith
  then show ?thesis using assms by (simp add: py_round_nonneg)
qed

text \<open>A number that rounds to \<open>k\<close> gives one that rounds to 1, in a unit \<open>k\<close> times as large.\<close>

lemma py_round_scaled:
  assumes "2 \<le> k" "0 \<le> w" "py_round w dp = of_int k" "w < of_int k"
  shows "py_round (w / of_int k) dp = 1"
proof -
  let ?t = "10 ^ dp :: rat"
  have k: "(2 :: rat) \<le> of_int k" using assms(1) by (metis of_int_le_iff of_int_numeral)
  have w: "0 \<le> w / of_int k" "w / of_int k \<le> of_int 1" using assms(2, 4) k by simp_all
  have "of_int \<lfloor>w * ?t + 1 / 2\<rfloor> = of_int k * ?t"
    using assms(2, 3) by (simp add: py_round_nonneg field_simps)
  then have "of_int k * ?t \<le> w * ?t + 1 / 2" by (metis of_int_floor_le)
  then have "?t \<le> (w * ?t + 1 / 2) / of_int k" using k by (simp add: field_simps)
  also have "\<dots> \<le> w / of_int k * ?t + 1 / 2" using k by (simp add: field_simps)
  finally have "10 ^ dp \<le> \<lfloor>w / of_int k * ?t + 1 / 2\<rfloor>" by (simp add: le_floor_iff)
  then have "?t \<le> of_int \<lfloor>w / of_int k * ?t + 1 / 2\<rfloor>" by (metis of_int_le_iff of_int_numeral of_int_power)
  then have "1 \<le> py_round (w / of_int k) dp" using w(1) by (simp add: py_round_nonneg)
  moreover have "py_round (w / of_int k) dp \<le> 1" using py_round_mono [OF w, of dp] py_round_int [of 1 dp] by simp
  ultimately show ?thesis by simp
qed

lemma ndiv_exact:
  assumes "val y \<noteq> 0" "val x = of_int k * val y"
  shows "\<exists>q. ndiv x y = Inr q \<and> val q = of_int k"
proof (cases "\<exists>a b. x = PInt a \<and> y = PInt b")
  case True
  then obtain a b where ab: "x = PInt a" "y = PInt b" by blast
  with assms have "(of_int a :: rat) = of_int (k * b)" "b \<noteq> 0" by simp_all
  then have "a div b = k" by (simp only: of_int_eq_iff) simp
  with ab \<open>b \<noteq> 0\<close> show ?thesis by (simp add: num_ops)
next
  case False
  then show ?thesis using assms by (cases x; cases y) (auto simp: num_ops)
qed

lemma choose_unit_spec:
  assumes "unit_steps ms" "val (ms ! 0) \<le> v"
  shows "\<exists>i < length ms. \<exists>w. choose_unit ms (PFloat v) dp False = Inr (ms ! i, PFloat w) \<and>
    w * val (ms ! i) = v \<and> 1 \<le> py_round w dp \<and>
    (\<forall>k. Suc i < length ms \<and> val (ms ! Suc i) = of_int k * val (ms ! i) \<longrightarrow> py_round w dp < of_int k)"
proof -
  have "ms \<noteq> []" using assms(1) by auto
  then obtain i where i: "i < length ms" "unit_index ms (PFloat v) = Inr i" "val (ms ! i) \<le> v"
    "Suc i < length ms \<longrightarrow> v < val (ms ! Suc i)"
    using unit_index_spec [of ms "PFloat v"] assms(2) by auto
  have pos: "0 < val (ms ! j)" if "j < length ms" for j using unit_steps_pos [OF assms(1) that] .
  define w where "w = v / val (ms ! i)"
  have w: "ndiv (PFloat v) (ms ! i) = Inr (PFloat w)" "w * val (ms ! i) = v" "1 \<le> w"
    using pos [OF i(1)] i(3) by (simp_all add: w_def num_ops le_divide_eq split: pynum.split)
  have one: "1 \<le> py_round w dp" using py_round_mono [of 1 w dp] py_round_int [of 1 dp] w(3) by simp
  show ?thesis
  proof (cases "Suc i < length ms")
    case False
    then show ?thesis using i w one by (intro exI [of _ i] conjI exI [of _ w]) (auto simp: choose_unit_def)
  next
    case True
    obtain k where k: "2 \<le> k" "val (ms ! Suc i) = of_int k * val (ms ! i)" using unit_steps_next [OF assms(1) True] by blast
    obtain q where q: "ndiv (ms ! Suc i) (ms ! i) = Inr q" "val q = of_int k"
      using ndiv_exact [of "ms ! i", OF _ k(2)] pos [OF i(1)] by auto
    have unique: "k' = k" if "val (ms ! Suc i) = of_int k' * val (ms ! i)" for k'
      using that k(2) pos [OF i(1)] by simp
    have "w * val (ms ! i) < of_int k * val (ms ! i)" using i(4) True w(2) k(2) by simp
    then have less: "w < of_int k" using pos [OF i(1)] by (simp add: mult_less_cancel_right)
    show ?thesis
    proof (cases "py_round w dp = of_int k")
      case False
      have "py_round w dp \<le> of_int k" using py_round_mono [of w "of_int k" dp] py_round_int [of k dp] less w(3) k(1) by simp
      with False have "py_round w dp < of_int k" by simp
      moreover have "choose_unit ms (PFloat v) dp False = Inr (ms ! i, PFloat w)"
        using False True i q w py_round_int [of k dp] k(1) by (simp add: choose_unit_def)
      ultimately show ?thesis using i(1) w one unique by blast
    next
      case eq: True
      have "w / of_int k * val (ms ! Suc i) = v" using k w(2) by simp
      moreover have "ndiv (PFloat v) (ms ! Suc i) = Inr (PFloat (w / of_int k))"
        using pos [OF True] calculation by (simp add: num_ops field_simps split: pynum.split)
      then have "choose_unit ms (PFloat v) dp False = Inr (ms ! Suc i, PFloat (w / of_int k))"
        using eq True i q w(1) py_round_int [of k dp] k(1) less_diff_conv [of i "length ms" 1] by (simp add: choose_unit_def)
      moreover have "py_round (w / of_int k) dp = 1" using py_round_scaled [OF k(1) _ eq less] w(3) by simp
      moreover have "1 < k'" if "Suc (Suc i) < length ms" "val (ms ! Suc (Suc i)) = of_int k' * val (ms ! Suc i)" for k'
        using unit_steps_less [OF assms(1) _ that(1), of "Suc i"] that(2) pos [OF True] by (simp add: mult_less_cancel_right)
      ultimately show ?thesis using True by (intro exI [of _ "Suc i"] conjI exI [of _ "w / of_int k"]) auto
    qed
  qed
qed



section \<open>Examples\<close>

lemma si_multipliers:
  "multipliers (prefix_table ''si'' False) =
     [PFloat (1 / 10 ^ 24), PFloat (1 / 10 ^ 21), PFloat (1 / 10 ^ 18), PFloat (1 / 10 ^ 15), PFloat (1 / 10 ^ 12),
      PFloat (1 / 10 ^ 9), PFloat (1 / 10 ^ 6), PFloat (1 / 10 ^ 3), PInt 1, PFloat (10 ^ 3), PFloat (10 ^ 6),
      PFloat (10 ^ 9), PFloat (10 ^ 12), PFloat (10 ^ 15), PFloat (10 ^ 18), PFloat (10 ^ 21), PFloat (10 ^ 24)]"
  by (simp add: multipliers_def prefix_table_def si_prefixes_def sort_key_def)

lemma bin_multipliers:
  "multipliers (prefix_table ''bin'' False) =
     [PInt 1, PInt (2 ^ 10), PInt (2 ^ 20), PInt (2 ^ 30), PInt (2 ^ 40), PInt (2 ^ 50), PInt (2 ^ 60)]"
  by (simp add: multipliers_def prefix_table_def bin_prefixes_def sort_key_def)

lemma floor_quotient: "\<lfloor>numeral a / numeral b :: rat\<rfloor> = numeral a div numeral b"
  using floor_divide_of_int_eq [of "numeral a" "numeral b", where 'a = rat] by simp

lemma digit_chars:
  "digit_char 0 = CHR ''0''" "digit_char (Suc 0) = CHR ''1''" "digit_char 2 = CHR ''2''" "digit_char 3 = CHR ''3''"
  "digit_char 4 = CHR ''4''" "digit_char 5 = CHR ''5''" "digit_char 6 = CHR ''6''" "digit_char 7 = CHR ''7''"
  "digit_char 8 = CHR ''8''" "digit_char 9 = CHR ''9''"
  by code_simp+

lemmas unit_eval = nice_units_def choose_unit_def unit_index_def nle_def nlt_def num_ops py_round_def
  si_multipliers bin_multipliers floor_quotient
lemmas text_eval = fmt_fixed_def round_half_even_def nat_str.simps digit_chars zero_fill_def dlookup_def
  prefix_table_def si_prefixes_def bin_prefixes_def floor_quotient


text \<open>
  Some texts: the one of the documentation, a number that is rounded up to the next unit, a negative number, which is
  always shown in the smallest unit, an integer in binary units, which is cut off and not rounded, and the
  name of the binary unit G.
\<close>

lemma units_documented: "nice_units (PFloat (2 / 10 ^ 11)) 0 None [] '' '' False False ''si'' = Inr ''20 p''"
  by (simp add: unit_eval) (simp add: text_eval)

lemma units_rounded_up: "nice_units (PFloat (9996 / 10)) 0 None [] [] False False ''si'' = Inr ''1k''"
  by (simp add: unit_eval) (simp add: text_eval)

lemma units_integer_cut_off: "nice_units (PInt 2047) 2 None [] [] False False ''bin'' = Inr ''1.00K''"
  by (simp add: unit_eval) (simp add: text_eval)

lemma units_float_rounded: "nice_units (PFloat 2047) 2 None [] [] False False ''bin'' = Inr ''2.00K''"
  by (simp add: unit_eval) (simp add: text_eval)

lemma units_name_of_G: "nice_units (PFloat (3 * 2 ^ 30)) 0 None [] '' '' False True ''bin'' = Inr ''3 mega''"
  by (simp add: unit_eval) (simp add: text_eval)

lemma negative_units: "nice_units (PFloat (-1 / 10 ^ 20)) 0 None [] [] False False ''si'' = Inr ''-10000y''"
  by (simp add: unit_eval) (simp add: text_eval)

lemma fmt_general_samples:
  "fmt_general 3 (1234 / 1000) = ''1.23''"
  "fmt_general 3 1234 = ''1.23e+03''"
  "fmt_general 6 100 = ''100''"
proof -
  have zeros: "replicate 2 c = [c, c]" "replicate 3 c = [c, c, c]" for c :: char
    by (simp_all add: numeral_2_eq_2 numeral_3_eq_3)
  show "fmt_general 3 (1234 / 1000) = ''1.23''" "fmt_general 3 1234 = ''1.23e+03''" "fmt_general 6 100 = ''100''"
    by (simp_all add: fmt_general_def decimal_exponent_def ten_to_def strip_zeros_def text_eval zeros Let_def)
qed

end
