(* ===== verification/FlowResults.thy ===== *)
theory FlowResults
  imports RadStats
begin

text \<open>
  \<open>src/flow-monitor/examples/flowmon-parse-results.py\<close>: the figures of the flows of a simulation and the report of
  them. An element of the XML file is given by the numbers that its attributes hold, with the unit \<open>ns\<close> cut
  off; a value that is no number, and the walk over the file, are not modelled. Floats are exact rationals, and
  \<open>/\<close> is the true division.
\<close>

section \<open>Flows\<close>

record flow_el =
  el_flowId :: int
  el_rxPackets :: int
  el_txPackets :: int
  el_first_tx :: int
  el_last_tx :: int
  el_first_rx :: int
  el_last_rx :: int
  el_timesForwarded :: rat
  el_delaySum :: rat
  el_rxBytes :: int
  el_txBytes :: int
  el_lostPackets :: rat
  el_interruptions :: "(rat \<times> rat \<times> int) list option"

record five_tuple =
  sourceAddress :: string
  destinationAddress :: string
  protocol :: int
  sourcePort :: int
  destinationPort :: int

record probe_stats =
  probeId :: int
  ps_packets :: int
  ps_bytes :: int
  delayFromFirstProbe :: rat

record flow =
  flowId :: int
  delayMean :: "rat option"
  packetLossRatio :: "rat option"
  rxBitrate :: "rat option"
  txBitrate :: "rat option"
  fiveTuple :: "five_tuple option"
  packetSizeMean :: "rat option"
  probe_stats_unsorted :: "probe_stats list"
  hopCount :: rat
  flowInterruptionsHistogram :: "(rat \<times> rat \<times> int) list option"
  flow_rx_duration :: rat

definition seconds :: "int \<Rightarrow> int \<Rightarrow> rat" where
  "seconds first final = of_int (final - first) / 10 ^ 9"

definition new_flow :: "flow_el \<Rightarrow> flow res" where
  "new_flow el =
     (let rx = of_int (el_rxPackets el) :: rat;
          tx_duration = seconds (el_first_tx el) (el_last_tx el);
          rx_duration = seconds (el_first_rx el) (el_last_rx el);
          lost = el_lostPackets el in
      if rx \<noteq> 0 \<and> rx + lost = 0 then Inl ZeroDivisionError
      else Inr
        \<lparr> flowId = el_flowId el,
          delayMean = (if rx \<noteq> 0 then Some (el_delaySum el / rx / 10 ^ 9) else None),
          packetLossRatio = (if rx = 0 then None else Some (lost / (rx + lost))),
          rxBitrate = (if rx_duration > 0 then Some (of_int (el_rxBytes el) * 8 / rx_duration) else None),
          txBitrate = (if tx_duration > 0 then Some (of_int (el_txBytes el) * 8 / tx_duration) else None),
          fiveTuple = None,
          packetSizeMean = (if rx \<noteq> 0 then Some (of_int (el_rxBytes el) / rx) else None),
          probe_stats_unsorted = [],
          hopCount = (if rx \<noteq> 0 then el_timesForwarded el / rx + 1 else - 1000),
          flowInterruptionsHistogram = el_interruptions el,
          flow_rx_duration = rx_duration \<rparr>)"

section \<open>A simulation\<close>

text \<open>
  A flow in the list and under its number in \<open>flow_map\<close> is one object; a later flow with the same number takes the
  place in the map. So the map gives the place of the flow in the list.
\<close>

definition flow_index :: "flow list \<Rightarrow> int \<Rightarrow> nat res" where
  "flow_index flows i =
     (case rev (filter (\<lambda>k. flowId (flows ! k) = i) [0 ..< length flows]) of [] \<Rightarrow> Inl KeyError | k # ks \<Rightarrow> Inr k)"

definition set_five_tuple :: "flow list \<Rightarrow> int \<times> five_tuple \<Rightarrow> flow list res" where
  "set_five_tuple flows p =
     (case p of (i, t) \<Rightarrow>
        rbind (flow_index flows i) (\<lambda>k. Inr (flows[k := (flows ! k)\<lparr> fiveTuple := Some t \<rparr>])))"

text \<open>The statistics of a probe: its number, the flow, packets, bytes and the sum of the delays in nanoseconds.\<close>

definition add_probe_stats :: "flow list \<Rightarrow> int \<times> int \<times> int \<times> int \<times> int \<Rightarrow> flow list res" where
  "add_probe_stats flows p =
     (case p of (probe, i, packets, bytes, delay) \<Rightarrow>
        let s = \<lparr> probeId = probe, ps_packets = packets, ps_bytes = bytes,
                  delayFromFirstProbe = (if packets > 0 then of_int delay / of_int packets else 0) \<rparr> in
        rbind (flow_index flows i) (\<lambda>k.
          Inr (flows[k := (flows ! k)\<lparr> probe_stats_unsorted := probe_stats_unsorted (flows ! k) @ [s] \<rparr>])))"

text \<open>\<open>classifiers\<close> are the elements \<open>Ipv4FlowClassifier\<close>, of which there has to be one.\<close>

definition new_simulation :: "(int \<times> five_tuple) list list \<Rightarrow> flow_el list \<Rightarrow>
    (int \<times> int \<times> int \<times> int \<times> int) list \<Rightarrow> flow list res" where
  "new_simulation classifiers els probes =
     (case classifiers of
        [classifier] \<Rightarrow>
          rbind (rmap new_flow els) (\<lambda>flows.
          rbind (rfold set_five_tuple flows classifier) (\<lambda>flows.
            rfold add_probe_stats flows probes))
      | _ \<Rightarrow> Inl ValueError)"

section \<open>The report\<close>

definition times :: "rat option \<Rightarrow> rat \<Rightarrow> rat res" where
  "times v k = (case v of None \<Rightarrow> Inl TypeError | Some x \<Rightarrow> Inr (x * k))"

definition protocol_name :: "int \<Rightarrow> string res" where
  "protocol_name p = (if p = 6 then Inr ''TCP'' else if p = 17 then Inr ''UDP'' else Inl KeyError)"

definition tab :: string where
  "tab = [CHR 0x09]"

definition report_flow :: "flow \<Rightarrow> string list \<times> py_error option" where
  "report_flow f =
     (case fiveTuple f of
        None \<Rightarrow> ([], Some AttributeError)
      | Some t \<Rightarrow>
          (case protocol_name (protocol t) of
             Inl e \<Rightarrow> ([], Some e)
           | Inr proto \<Rightarrow>
               let l0 = ''FlowID: '' @ int_str (flowId f) @ '' ('' @ proto @ '' '' @ sourceAddress t @ ''/'' @
                     int_str (sourcePort t) @ '' --> '' @ destinationAddress t @ ''/'' @ int_str (destinationPort t) @ '')'' @ nl in
               case times (txBitrate f) (1 / 1000) of Inl e \<Rightarrow> ([l0], Some e) | Inr tx \<Rightarrow>
               let l1 = tab @ ''TX bitrate: '' @ fmt_fixed 2 tx @ '' kbit/s'' @ nl in
               case times (rxBitrate f) (1 / 1000) of Inl e \<Rightarrow> ([l0, l1], Some e) | Inr rx \<Rightarrow>
               let l2 = tab @ ''RX bitrate: '' @ fmt_fixed 2 rx @ '' kbit/s'' @ nl in
               case times (delayMean f) 1000 of Inl e \<Rightarrow> ([l0, l1, l2], Some e) | Inr delay \<Rightarrow>
               let l3 = tab @ ''Mean Delay: '' @ fmt_fixed 2 delay @ '' ms'' @ nl in
               case times (packetLossRatio f) 100 of Inl e \<Rightarrow> ([l0, l1, l2, l3], Some e) | Inr ratio \<Rightarrow>
               ([l0, l1, l2, l3, tab @ ''Packet Loss Ratio: '' @ fmt_fixed 2 ratio @ '' %'' @ nl], None)))"

fun report :: "flow list \<Rightarrow> string list \<times> py_error option" where
  "report [] = ([], None)"
| "report (f # fs) =
     (case report_flow f of
        (ls, Some e) \<Rightarrow> (ls, Some e)
      | (ls, None) \<Rightarrow> (case report fs of (ls', e) \<Rightarrow> (ls @ ls', e)))"

section \<open>Properties\<close>

definition el_ok :: "flow_el \<Rightarrow> bool" where
  "el_ok el \<longleftrightarrow> 0 \<le> el_rxPackets el \<and> 0 \<le> el_lostPackets el \<and> 0 \<le> el_delaySum el \<and> 0 \<le> el_rxBytes el \<and> 0 \<le> el_txBytes el"

text \<open>
  With counters that are not negative no figure of a flow is out of range: the loss ratio is at least 0 and below
  1, and only absent if no packet arrived, rates and delays are not negative, and making the flow raises nothing.
\<close>

theorem flow_figures:
  assumes "el_ok el"
  shows "\<exists>f. new_flow el = Inr f \<and> flowId f = el_flowId el \<and>
    pred_option (\<lambda>r. 0 \<le> r \<and> r < 1) (packetLossRatio f) \<and>
    pred_option (\<lambda>r. 0 \<le> r) (rxBitrate f) \<and> pred_option (\<lambda>r. 0 \<le> r) (txBitrate f) \<and>
    pred_option (\<lambda>r. 0 \<le> r) (delayMean f) \<and> pred_option (\<lambda>r. 0 \<le> r) (packetSizeMean f) \<and>
    (packetLossRatio f = None \<longleftrightarrow> el_rxPackets el = 0)"
proof -
  have nonneg: "0 \<le> (of_int (el_rxPackets el) :: rat)" "0 \<le> el_lostPackets el" "0 \<le> el_delaySum el"
    "0 \<le> (of_int (el_rxBytes el) :: rat)" "0 \<le> (of_int (el_txBytes el) :: rat)"
    using assms by (simp_all add: el_ok_def)
  have sum: "0 < of_int (el_rxPackets el) + el_lostPackets el" if "el_rxPackets el \<noteq> 0"
    using that nonneg(2) assms by (intro add_pos_nonneg) (simp_all add: el_ok_def)
  then have "new_flow el \<noteq> Inl ZeroDivisionError" by (auto simp: new_flow_def Let_def)
  moreover have "el_lostPackets el / (of_int (el_rxPackets el) + el_lostPackets el) < 1" if "el_rxPackets el \<noteq> 0"
    using sum [OF that] that assms by (simp add: el_ok_def)
  ultimately show ?thesis using nonneg sum
    by (auto simp: new_flow_def Let_def intro!: divide_nonneg_nonneg mult_nonneg_nonneg add_nonneg_nonneg)
qed

definition sample_el :: flow_el where
  "sample_el = \<lparr> el_flowId = 1, el_rxPackets = 8, el_txPackets = 10, el_first_tx = 0, el_last_tx = 10 ^ 9,
     el_first_rx = 0, el_last_rx = 2 * 10 ^ 9, el_timesForwarded = 16, el_delaySum = 8 * 10 ^ 6, el_rxBytes = 1000,
     el_txBytes = 1250, el_lostPackets = 2, el_interruptions = None \<rparr>"

lemma flow_figures_witness: "\<exists>f. new_flow sample_el = Inr f \<and> packetLossRatio f = Some (1 / 5)"
proof -
  have "el_ok sample_el" by (simp add: el_ok_def sample_el_def)
  from flow_figures [OF this] show ?thesis by (auto simp: new_flow_def sample_el_def Let_def)
qed

definition reportable :: "flow \<Rightarrow> bool" where
  "reportable f \<longleftrightarrow>
     (case fiveTuple f of None \<Rightarrow> False | Some t \<Rightarrow> protocol t \<in> {6, 17}) \<and>
     txBitrate f \<noteq> None \<and> rxBitrate f \<noteq> None \<and> delayMean f \<noteq> None \<and> packetLossRatio f \<noteq> None"

definition failure :: "flow \<Rightarrow> py_error option" where
  "failure f =
     (if reportable f then None
      else case fiveTuple f of
        None \<Rightarrow> Some AttributeError
      | Some t \<Rightarrow> if protocol t \<in> {6, 17} then Some TypeError else Some KeyError)"

lemma report_flow_end: "snd (report_flow f) = failure f"
  by (auto simp: report_flow_def failure_def reportable_def times_def protocol_name_def Let_def split: option.splits sum.splits)

lemma report_flow_lines: "length (fst (report_flow f)) \<le> 5 \<and> (failure f = None \<longrightarrow> length (fst (report_flow f)) = 5)"
  by (auto simp: report_flow_def failure_def reportable_def times_def protocol_name_def Let_def split: option.splits sum.splits)

text \<open>
  The report has all flows only when each has an address, is TCP or UDP, has sent for some time and has received
  for some time. It breaks off with an exception at the first flow for which this is not so, and the
  flows behind it are not shown.
\<close>

theorem report_spec:
  "report flows =
     (concat (map (fst \<circ> report_flow) (takeWhile reportable flows)) @
        (case find (Not \<circ> reportable) flows of None \<Rightarrow> [] | Some f \<Rightarrow> fst (report_flow f)),
      case find (Not \<circ> reportable) flows of None \<Rightarrow> None | Some f \<Rightarrow> failure f)"
proof (induction flows)
  case (Cons f fs)
  show ?case
  proof (cases "report_flow f")
    case (Pair ls e)
    then have "e = failure f" using report_flow_end [of f] by simp
    then show ?thesis using Pair Cons by (auto simp: failure_def split: option.splits)
  qed
qed simp

text \<open>A flow of which nothing arrived always breaks the report off.\<close>

lemma silent_flow: "new_flow el = Inr f \<Longrightarrow> el_rxPackets el = 0 \<Longrightarrow> \<not> reportable f"
  by (auto simp: new_flow_def reportable_def Let_def split: if_splits)

text \<open>The statistics of the probes do not change what is reported.\<close>

lemma add_probe_stats_report:
  assumes "add_probe_stats flows p = Inr flows'"
  shows "map report_flow flows' = map report_flow flows"
proof -
  obtain k s where "flows' = flows[k := (flows ! k)\<lparr> probe_stats_unsorted := probe_stats_unsorted (flows ! k) @ [s] \<rparr>]"
    using assms by (auto simp: add_probe_stats_def Let_def rbind_Inr_iff split: prod.splits)
  moreover have "report_flow (f\<lparr> probe_stats_unsorted := x \<rparr>) = report_flow f" for f x
  proof (cases f)
    case (fields i d l r t a p s h g u)
    show ?thesis unfolding report_flow_def fields flow.update_convs flow.select_convs ..
  qed
  ultimately have "map report_flow flows' = (map report_flow flows)[k := report_flow (flows ! k)]" by (simp add: map_update)
  then show ?thesis by (metis list_update_beyond list_update_id length_map not_le nth_map)
qed

end
