(* ===== verification/Markup.thy ===== *)
theory Markup
  imports Prelude
begin

text \<open>
  When a text with tags is balanced, for the reports of \<open>test.py\<close> (\<open>results.xml\<close> and the HTML
  page). This is a specification, not a model of code: a scanner that reads the text once,
  keeps the stack of open tags, and fails at an end tag that does not match. Tags that start
  with a question mark and tags that end with a slash do not nest.
\<close>

datatype lexer = Text | InTag string

definition tag_name :: "string \<Rightarrow> string" where
  "tag_name t = takeWhile (\<lambda>c. \<not> is_space c) t"

fun handle_tag :: "string \<Rightarrow> string list \<Rightarrow> string list option" where
  "handle_tag [] stack = None"
| "handle_tag (c # t) stack =
     (if c = CHR ''?'' then Some stack
      else if c = CHR ''/'' then
        (case stack of [] \<Rightarrow> None | name # rest \<Rightarrow> if name = t then Some rest else None)
      else if last (c # t) = CHR ''/'' then Some stack
      else Some (tag_name (c # t) # stack))"

fun scan_text :: "string \<Rightarrow> lexer \<Rightarrow> string list \<Rightarrow> (lexer \<times> string list) option" where
  "scan_text [] l stack = Some (l, stack)"
| "scan_text (c # s) Text stack = scan_text s (if c = CHR ''<'' then InTag [] else Text) stack"
| "scan_text (c # s) (InTag t) stack =
     (if c = CHR ''>'' then
        (case handle_tag t stack of None \<Rightarrow> None | Some stack' \<Rightarrow> scan_text s Text stack')
      else scan_text s (InTag (t @ [c])) stack)"

definition tags_balanced :: "string \<Rightarrow> bool" where
  "tags_balanced s \<longleftrightarrow> scan_text s Text [] = Some (Text, [])"

text \<open>A text that can be inserted between tags anywhere.\<close>

definition fragment :: "string \<Rightarrow> bool" where
  "fragment s \<longleftrightarrow> (\<forall>stack. scan_text s Text stack = Some (Text, stack))"

lemma scan_text_append:
  "scan_text (a @ b) l stack =
     (case scan_text a l stack of None \<Rightarrow> None | Some (l', stack') \<Rightarrow> scan_text b l' stack')"
  by (induction a l stack rule: scan_text.induct) (auto split: option.splits)

lemma scan_plain: "CHR ''<'' \<notin> set s \<Longrightarrow> scan_text s Text stack = Some (Text, stack)"
  by (induction s) auto

lemma scan_attribute: "CHR ''>'' \<notin> set s \<Longrightarrow> scan_text s (InTag t) stack = Some (InTag (t @ s), stack)"
  by (induction s arbitrary: t) auto

lemma fragmentD: "fragment s \<Longrightarrow> scan_text s Text stack = Some (Text, stack)"
  by (simp add: fragment_def)

lemma fragment_plain [intro]: "CHR ''<'' \<notin> set s \<Longrightarrow> fragment s"
  by (simp add: fragment_def scan_plain)

lemma fragment_Nil [simp]: "fragment []"
  by (simp add: fragment_def)

lemma fragment_append [intro]: "fragment a \<Longrightarrow> fragment b \<Longrightarrow> fragment (a @ b)"
  by (simp add: fragment_def scan_text_append)

lemma fragment_concat [intro]: "\<forall>s \<in> set ss. fragment s \<Longrightarrow> fragment (concat ss)"
  by (induction ss) auto

lemma fragment_balanced: "fragment s \<Longrightarrow> tags_balanced s"
  by (simp add: fragment_def tags_balanced_def)

text \<open>
  A literal text that opens the tags \<open>us\<close>, or closes them again: both are decided by running
  the scanner, for a stack that stays symbolic.
\<close>

definition opens :: "string list \<Rightarrow> string \<Rightarrow> bool" where
  "opens us s \<longleftrightarrow> (\<forall>stack. scan_text s Text stack = Some (Text, us @ stack))"

definition closes :: "string list \<Rightarrow> string \<Rightarrow> bool" where
  "closes us s \<longleftrightarrow> (\<forall>stack. scan_text s Text (us @ stack) = Some (Text, stack))"

lemma fragment_wrap: "opens us a \<Longrightarrow> fragment b \<Longrightarrow> closes us c \<Longrightarrow> fragment (a @ b @ c)"
  by (simp add: opens_def closes_def fragment_def scan_text_append)

lemma scan_stuck:
  "scan_text a Text stack = None \<Longrightarrow> scan_text (a @ b) Text stack = None"
  by (simp add: scan_text_append)

lemmas scan_literal = tag_name_def is_space_def

end
