(* ===== verification/Reports.thy ===== *)
theory Reports
  imports Markup
begin

text \<open>
  The human readable reports of \<open>test.py\<close>: \<open>read_test\<close>, \<open>node_to_text\<close>, \<open>translate_to_text\<close>
  and \<open>translate_to_html\<close>. The functions start from the element tree that
  \<open>xml.etree.ElementTree\<close> makes of \<open>results.xml\<close>; an element has a tag, attributes, its text
  (\<open>None\<close> when it is empty) and its children. The text written to the report file is the
  result.
\<close>

section \<open>Elements\<close>

datatype xml = Elem (xml_tag: string) (xml_attrs: "(string, string) dict")
  (xml_text: "string option") (xml_children: "xml list")

definition findall :: "string \<Rightarrow> xml \<Rightarrow> xml list" where
  "findall tag e = filter (\<lambda>c. xml_tag c = tag) (xml_children e)"

definition find_elem :: "string \<Rightarrow> xml \<Rightarrow> xml option" where
  "find_elem tag e = List.find (\<lambda>c. xml_tag c = tag) (xml_children e)"

text \<open>\<open>e.find(tag).text\<close>: \<open>AttributeError\<close> when there is no such child.\<close>

definition find_text :: "string \<Rightarrow> xml \<Rightarrow> string option res" where
  "find_text tag e =
     (case find_elem tag e of None \<Rightarrow> Inl AttributeError | Some c \<Rightarrow> Inr (xml_text c))"

text \<open>\<open>%s\<close> of a value that may be \<open>None\<close>.\<close>

definition str_opt :: "string option \<Rightarrow> string" where
  "str_opt s = (case s of None \<Rightarrow> ''None'' | Some t \<Rightarrow> t)"

lemma findall_size: "c \<in> set (findall tag e) \<Longrightarrow> size c < size e"
  by (cases e) (auto simp: findall_def less_Suc_eq_le intro: le_add2 [THEN order_trans]
      dest!: size_list_estimation' [where f = size, OF _ order_refl])

section \<open>The text report\<close>

definition read_test :: "xml \<Rightarrow> (string option \<times> string option \<times> string option) res" where
  "read_test test =
     rbind (find_text ''Result'' test) (\<lambda>result.
     rbind (find_text ''Name'' test) (\<lambda>name.
       Inr (result, name,
         case find_elem ''Time'' test of
           None \<Rightarrow> Some ''''
         | Some t \<Rightarrow> dget (xml_attrs t) ''real'')))"

definition details_text :: "xml \<Rightarrow> string res" where
  "details_text details =
     rbind (find_text ''Message'' details) (\<lambda>message.
     rbind (find_text ''Condition'' details) (\<lambda>condition.
     rbind (find_text ''Actual'' details) (\<lambda>actual.
     rbind (find_text ''Limit'' details) (\<lambda>limit.
     rbind (find_text ''File'' details) (\<lambda>file.
     rbind (find_text ''Line'' details) (\<lambda>line.
       Inr (''    Details:'' @ nl @
            ''      Message:   '' @ str_opt message @ nl @
            ''      Condition: '' @ str_opt condition @ nl @
            ''      Actual:    '' @ str_opt actual @ nl @
            ''      Limit:     '' @ str_opt limit @ nl @
            ''      File:      '' @ str_opt file @ nl @
            ''      Line:      '' @ str_opt line @ nl)))))))"

definition test_text :: "xml \<Rightarrow> string res" where
  "test_text test =
     rbind (read_test test) (\<lambda>(result, name, time_real).
     rbind (rmap details_text (findall ''FailureDetails'' test)) (\<lambda>details.
       Inr (str_opt result @ '': Test Suite \"'' @ str_opt name @ ''\" ('' @ str_opt time_real @ '')'' @
            nl @ concat details)))"

function node_to_text :: "xml \<Rightarrow> string res" where
  "node_to_text test =
     rbind (test_text test) (\<lambda>head.
     rbind (rmap node_to_text (findall ''Test'' test)) (\<lambda>rest.
       Inr (head @ concat rest)))"
  by pat_completeness auto
termination by (relation "measure size") (auto intro: findall_size)

declare node_to_text.simps [simp del]

definition example_text :: "xml \<Rightarrow> string res" where
  "example_text example =
     rbind (read_test example) (\<lambda>(result, name, time_real).
       Inr (str_opt result @ '': Example \"'' @ str_opt name @ ''\" ('' @ str_opt time_real @ '')'' @ nl))"

definition translate_to_text :: "xml \<Rightarrow> string res" where
  "translate_to_text et =
     rbind (rmap node_to_text (findall ''Test'' et)) (\<lambda>tests.
     rbind (rmap example_text (findall ''Example'' et)) (\<lambda>examples.
       Inr (concat tests @ concat examples)))"

text \<open>All the tests of a suite, in the order in which the report lists them: the suite first.\<close>

function tests_of :: "xml \<Rightarrow> xml list" where
  "tests_of test = test # concat (map tests_of (findall ''Test'' test))"
  by pat_completeness auto
termination by (relation "measure size") (auto intro: findall_size)

declare tests_of.simps [simp del]

definition flat :: "('e + 'a list list) \<Rightarrow> 'e + 'a list" where
  "flat r = rbind r (\<lambda>parts. Inr (concat parts))"

lemma flat_rmap_concat:
  "flat (rmap (\<lambda>x. flat (rmap f (g x))) xs) = flat (rmap f (concat (map g xs)))"
  by (induction xs) (auto simp: flat_def rbind_def split: sum.splits)

lemma node_to_text_tests: "node_to_text test = flat (rmap test_text (tests_of test))"
proof (induction test rule: node_to_text.induct)
  case (1 test)
  have "rmap node_to_text (findall ''Test'' test) =
      rmap (\<lambda>t. flat (rmap test_text (tests_of t))) (findall ''Test'' test)"
    by (rule rmap_cong) (auto intro: 1)
  then have "flat (rmap node_to_text (findall ''Test'' test)) =
      flat (rmap test_text (concat (map tests_of (findall ''Test'' test))))"
    by (simp add: flat_rmap_concat)
  then show ?case
    by (subst node_to_text.simps, subst tests_of.simps)
       (auto simp: flat_def rbind_def split: sum.splits)
qed

text \<open>
  The text report has one entry for each test at any depth below the root, a test before
  the tests it contains and in document order, followed by one line for each example; it fails
  exactly when one of these entries cannot be made.
\<close>

theorem translate_to_text_spec:
  "translate_to_text et =
     rbind (rmap test_text (concat (map tests_of (findall ''Test'' et)))) (\<lambda>tests.
     rbind (rmap example_text (findall ''Example'' et)) (\<lambda>examples.
       Inr (concat tests @ concat examples)))"
proof -
  have "rmap node_to_text (findall ''Test'' et) =
      rmap (\<lambda>t. flat (rmap test_text (tests_of t))) (findall ''Test'' et)"
    by (simp add: node_to_text_tests [abs_def])
  then have "flat (rmap node_to_text (findall ''Test'' et)) =
      flat (rmap test_text (concat (map tests_of (findall ''Test'' et))))"
    by (simp add: flat_rmap_concat)
  then show ?thesis
    by (auto simp: translate_to_text_def flat_def rbind_def split: sum.splits)
qed

end
