(* ===== verification/Html.thy ===== *)
theory Html
  imports Reports
begin

text \<open>
  The HTML report of \<open>test.py\<close> (\<open>translate_to_html\<close>), as the text that is written to the file,
  and when its tags are balanced. \<open>h\<close>-, \<open>table\<close>-, \<open>tr\<close>-, \<open>th\<close>- and \<open>td\<close>-tags are written by
  separate calls of \<open>write\<close>, so nothing in the code pairs them.
\<close>

section \<open>The page\<close>

text \<open>The header of a suite: green when it passed, orange when it was skipped, red otherwise.\<close>

definition suite_heading :: "string option \<Rightarrow> string option \<Rightarrow> string option \<Rightarrow> string" where
  "suite_heading result name time =
     (if result = Some ''PASS'' then ''<h3 style=\"color:green\">''
      else if result = Some ''SKIP'' then ''<h3 style=\"color:#ff6600\">''
      else ''<h3 style=\"color:red\">'') @
     str_opt result @ '': '' @ str_opt name @ '' ('' @ str_opt time @ '')</h3>'' @ nl"

text \<open>One row for each failure of a test case; only the first repeats the name of the case.\<close>

definition details_cell :: "xml \<Rightarrow> string res" where
  "details_cell details =
     rbind (find_text ''Message'' details) (\<lambda>message.
     rbind (find_text ''Condition'' details) (\<lambda>condition.
     rbind (find_text ''Actual'' details) (\<lambda>actual.
     rbind (find_text ''Limit'' details) (\<lambda>limit.
     rbind (find_text ''File'' details) (\<lambda>file.
     rbind (find_text ''Line'' details) (\<lambda>line.
       Inr (''<td>'' @
            ''<b>Message: </b>'' @ str_opt message @ '', '' @
            ''<b>Condition: </b>'' @ str_opt condition @ '', '' @
            ''<b>Actual: </b>'' @ str_opt actual @ '', '' @
            ''<b>Limit: </b>'' @ str_opt limit @ '', '' @
            ''<b>File: </b>'' @ str_opt file @ '', '' @
            ''<b>Line: </b>'' @ str_opt line @
            ''</td>'' @ nl)))))))"

definition failure_row ::
  "bool \<Rightarrow> string option \<Rightarrow> string option \<Rightarrow> string option \<Rightarrow> xml \<Rightarrow> string res" where
  "failure_row first_row result name time details =
     rbind (details_cell details) (\<lambda>cell.
       Inr (''<tr>'' @ nl @
            (if first_row then
               ''<td style=\"color:red\">'' @ str_opt result @ ''</td>'' @ nl @
               ''<td>'' @ str_opt name @ ''</td>'' @ nl @
               ''<td>'' @ str_opt time @ ''</td>'' @ nl
             else
               ''<td></td>'' @ nl @ ''<td></td>'' @ nl @ ''<td></td>'' @ nl) @
            cell @ ''</td>'' @ nl))"

fun failure_rows ::
  "bool \<Rightarrow> string option \<Rightarrow> string option \<Rightarrow> string option \<Rightarrow> xml list \<Rightarrow> string res" where
  "failure_rows first_row result name time [] = Inr ''''"
| "failure_rows first_row result name time (details # ds) =
     rbind (failure_row first_row result name time details) (\<lambda>row.
     rbind (failure_rows False result name time ds) (\<lambda>rows. Inr (row @ rows)))"

definition case_rows :: "xml \<Rightarrow> string res" where
  "case_rows test_case =
     rbind (read_test test_case) (\<lambda>(result, name, time).
       if result = Some ''FAIL'' then failure_rows True result name time (findall ''FailureDetails'' test_case)
       else Inr (''<tr>'' @ nl @
                 ''<td style=\"color:green\">'' @ str_opt result @ ''</td>'' @ nl @
                 ''<td>'' @ str_opt name @ ''</td>'' @ nl @
                 ''<td>'' @ str_opt time @ ''</td>'' @ nl @
                 ''<td></td>'' @ nl @
                 ''</tr>'' @ nl))"

definition suite_html :: "xml \<Rightarrow> string res" where
  "suite_html test_suite =
     rbind (read_test test_suite) (\<lambda>(result, name, time).
       let head = suite_heading result name time @
                  ''<table border=\"1\">'' @ nl @ ''<th> Result </th>'' @ nl
       in if result \<in> {Some ''CRASH'', Some ''SKIP'', Some ''VALGR''} then
            Inr (head @ ''<tr>'' @ nl @
                 (if result = Some ''SKIP'' then ''<td style=\"color:#ff6600\">'' @ str_opt result @ ''</td>'' @ nl
                  else ''<td style=\"color:red\">'' @ str_opt result @ ''</td>'' @ nl) @
                 ''</tr>'' @ nl @ ''</table>'' @ nl)
          else
            rbind (rmap case_rows (findall ''Test'' test_suite)) (\<lambda>rows.
              Inr (head @ ''<th>Test Case Name</th>'' @ nl @ ''<th> Time </th>'' @ nl @
                   (if result = Some ''FAIL'' then ''<th>Failure Details</th>'' @ nl else '''') @
                   concat rows @ ''</table>'' @ nl)))"

definition example_row :: "xml \<Rightarrow> string res" where
  "example_row example =
     rbind (read_test example) (\<lambda>(result, name, time).
       Inr (''<tr>'' @ nl @
            (if result = Some ''PASS'' then ''<td style=\"color:green\">'' @ str_opt result @ ''</td>'' @ nl
             else if result = Some ''SKIP'' then ''<td style=\"color:#ff6600\">'' @ str_opt result @ ''</fd>'' @ nl
             else ''<td style=\"color:red\">'' @ str_opt result @ ''</td>'' @ nl) @
            ''<td>'' @ str_opt name @ ''</td>'' @ nl @
            ''<td>'' @ str_opt time @ ''</td>'' @ nl @
            ''</tr>'' @ nl))"

definition translate_to_html :: "xml \<Rightarrow> string res" where
  "translate_to_html et =
     rbind (rmap suite_html (findall ''Test'' et)) (\<lambda>suites.
     rbind (rmap example_row (findall ''Example'' et)) (\<lambda>examples.
       Inr (''<html>'' @ nl @ ''<body>'' @ nl @
            ''<center><h1>ns-3 Test Results</h1></center>'' @ nl @
            ''<h2>Test Suites</h2>'' @ nl @
            concat suites @
            ''<h2>Examples</h2>'' @ nl @
            ''<table border=\"1\">'' @ nl @
            ''<th> Result </th>'' @ nl @ ''<th>Example Name</th>'' @ nl @ ''<th>Elapsed Time</th>'' @ nl @
            concat examples @
            ''</table>'' @ nl @ ''</body>'' @ nl @ ''</html>'' @ nl)))"

section \<open>When the tags are balanced\<close>

text \<open>The texts that the page quotes do not look like markup.\<close>

definition plain :: "string option \<Rightarrow> bool" where
  "plain s \<longleftrightarrow> CHR ''<'' \<notin> set (str_opt s)"

lemma plain_literal [simp]:
  "plain (Some [])" "plain (Some ''PASS'')" "plain (Some ''SKIP'')" "plain (Some ''FAIL'')"
  "plain (Some ''CRASH'')" "plain (Some ''VALGR'')"
  by (simp_all add: plain_def str_opt_def)

fun plain_tree :: "xml \<Rightarrow> bool" where
  "plain_tree (Elem tag attrs txt cs) \<longleftrightarrow>
     plain txt \<and> plain (dget attrs ''real'') \<and> list_all plain_tree cs"

lemma plain_treeD:
  assumes "plain_tree e"
  shows "plain (xml_text e)" "plain (dget (xml_attrs e) ''real'')" "c \<in> set (xml_children e) \<Longrightarrow> plain_tree c"
  using assms by (cases e; simp add: list_all_iff)+

lemma find_elem_child: "find_elem tag e = Some c \<Longrightarrow> c \<in> set (xml_children e)"
  by (auto simp: find_elem_def find_Some_iff)

lemma find_text_plain: "plain_tree e \<Longrightarrow> find_text tag e = Inr s \<Longrightarrow> plain s"
  by (auto simp: find_text_def split: option.splits dest: find_elem_child plain_treeD)

lemma findall_plain: "plain_tree e \<Longrightarrow> c \<in> set (findall tag e) \<Longrightarrow> plain_tree c"
  by (auto simp: findall_def dest: plain_treeD)

lemma read_test_plain:
  assumes "plain_tree e" "read_test e = Inr (r, n, t)"
  shows "plain r \<and> plain n \<and> plain t"
  using assms(2) find_elem_child [of "''Time''" e] plain_treeD [OF assms(1)]
  by (auto simp: read_test_def rbind_Inr_iff split: option.splits
      dest: find_text_plain [OF assms(1)] plain_treeD(2))

lemma scan_plain_opt: "plain s \<Longrightarrow> scan_text (str_opt s) Text stack = Some (Text, stack)"
  by (simp add: plain_def scan_plain)

lemmas scan_html = nl_def scan_literal scan_text_append scan_plain_opt

text \<open>Reading one piece of the page leaves the open tags as they were, or gets stuck.\<close>

lemma scan_suite_heading:
  "plain r \<Longrightarrow> plain n \<Longrightarrow> plain t \<Longrightarrow>
   scan_text (suite_heading r n t @ rest) Text stack = scan_text rest Text stack"
  by (simp add: suite_heading_def scan_html)

lemma scan_details_cell:
  assumes "plain_tree d" "details_cell d = Inr s"
  shows "scan_text s Text stack = Some (Text, stack)"
  using assms(2)
  by (auto simp: details_cell_def rbind_Inr_iff scan_html dest!: find_text_plain [OF assms(1)])

lemma scan_failure_row:
  assumes "plain_tree d" "plain r" "plain n" "plain t" "failure_row b r n t d = Inr s"
  shows "scan_text s Text stack = None"
  using assms scan_details_cell [OF assms(1)]
  by (cases b) (auto simp: failure_row_def rbind_Inr_iff scan_html)

definition result_is :: "string \<Rightarrow> xml \<Rightarrow> bool" where
  "result_is w e \<longleftrightarrow> (case read_test e of Inl _ \<Rightarrow> False | Inr (r, _, _) \<Rightarrow> r = Some w)"

definition unbalanced_case :: "xml \<Rightarrow> bool" where
  "unbalanced_case c \<longleftrightarrow> result_is ''FAIL'' c \<and> findall ''FailureDetails'' c \<noteq> []"

definition unbalanced_suite :: "xml \<Rightarrow> bool" where
  "unbalanced_suite s \<longleftrightarrow> \<not> result_is ''CRASH'' s \<and> \<not> result_is ''SKIP'' s \<and> \<not> result_is ''VALGR'' s \<and>
     list_ex unbalanced_case (findall ''Test'' s)"

lemma scan_case_rows:
  assumes "plain_tree c" "case_rows c = Inr s"
  shows "scan_text s Text stack = (if unbalanced_case c then None else Some (Text, stack))"
proof -
  obtain r n t where rt: "read_test c = Inr (r, n, t)"
    using assms(2) by (auto simp: case_rows_def rbind_Inr_iff)
  note pl = read_test_plain [OF assms(1) rt]
  show ?thesis
  proof (cases "r = Some ''FAIL''")
    case False
    then show ?thesis
      using assms(2) pl by (auto simp: case_rows_def rt unbalanced_case_def result_is_def scan_html)
  next
    case True
    then have rows: "failure_rows True r n t (findall ''FailureDetails'' c) = Inr s"
      using assms(2) by (simp add: case_rows_def rt)
    show ?thesis
    proof (cases "findall ''FailureDetails'' c")
      case Nil
      then show ?thesis using rows by (simp add: unbalanced_case_def)
    next
      case (Cons d ds)
      then obtain row rest where row: "failure_row True r n t d = Inr row" and s: "s = row @ rest"
        using rows by (auto simp: rbind_Inr_iff)
      have "plain_tree d" using findall_plain [OF assms(1)] Cons by (metis list.set_intros(1))
      from scan_failure_row [OF this _ _ _ row] pl have "scan_text s Text stack = None"
        by (simp add: s scan_text_append)
      moreover have "unbalanced_case c" using True Cons rt by (simp add: unbalanced_case_def result_is_def)
      ultimately show ?thesis by simp
    qed
  qed
qed

lemma scan_example_row:
  assumes "plain_tree e" "example_row e = Inr s"
  shows "scan_text s Text stack = (if result_is ''SKIP'' e then None else Some (Text, stack))"
proof -
  obtain r n t where rt: "read_test e = Inr (r, n, t)"
    using assms(2) by (auto simp: example_row_def rbind_Inr_iff)
  note pl = read_test_plain [OF assms(1) rt]
  show ?thesis
    using assms(2) pl
    by (cases "r = Some ''SKIP''"; cases "r = Some ''PASS''")
       (auto simp: example_row_def rt result_is_def scan_html)
qed

lemma scan_rmap:
  assumes "\<And>x s stack. x \<in> set xs \<Longrightarrow> f x = Inr s \<Longrightarrow>
      scan_text s Text stack = (if bad x then None else Some (Text, stack))"
    and "rmap f xs = Inr ss"
  shows "scan_text (concat ss @ rest) Text stack =
    (if list_ex bad xs then None else scan_text rest Text stack)"
  using assms
proof (induction xs arbitrary: ss)
  case (Cons x xs)
  then obtain s ss' where s: "f x = Inr s" "rmap f xs = Inr ss'" "ss = s # ss'"
    by (auto simp: rbind_Inr_iff)
  have "scan_text (concat ss' @ rest) Text stack = (if list_ex bad xs then None else scan_text rest Text stack)"
    using Cons.IH [OF Cons.prems(1) s(2)] by simp
  then show ?case using Cons.prems(1) [of x s] s by (simp add: scan_text_append [of s])
qed simp

lemma scan_suite_html:
  assumes "plain_tree e" "suite_html e = Inr s"
  shows "scan_text s Text stack = (if unbalanced_suite e then None else Some (Text, stack))"
proof -
  obtain r n t where rt: "read_test e = Inr (r, n, t)"
    using assms(2) by (auto simp: suite_html_def rbind_Inr_iff)
  note pl = read_test_plain [OF assms(1) rt]

  show ?thesis
  proof (cases "r \<in> {Some ''CRASH'', Some ''SKIP'', Some ''VALGR''}")
    case True
    then have "\<not> unbalanced_suite e" by (auto simp: unbalanced_suite_def result_is_def rt)
    moreover have "scan_text s Text stack = Some (Text, stack)"
      using assms(2) pl True
      by (cases "r = Some ''SKIP''") (auto simp: suite_html_def rt Let_def scan_suite_heading [where rest = "[]", simplified] scan_html)
    ultimately show ?thesis by simp
  next
    case False
    then obtain rows where rows: "rmap case_rows (findall ''Test'' e) = Inr rows"
      and s: "s = suite_heading r n t @ ''<table border=\"1\">'' @ nl @ ''<th> Result </th>'' @ nl @
        ''<th>Test Case Name</th>'' @ nl @ ''<th> Time </th>'' @ nl @
        (if r = Some ''FAIL'' then ''<th>Failure Details</th>'' @ nl else '''') @
        concat rows @ ''</table>'' @ nl"
      using assms(2) by (auto simp: suite_html_def rt Let_def rbind_Inr_iff)
    have scan: "scan_text (concat rows @ ''</table>'' @ nl) Text (''table'' # stack) =
        (if list_ex unbalanced_case (findall ''Test'' e) then None
         else scan_text (''</table>'' @ nl) Text (''table'' # stack))"
      by (rule scan_rmap [OF _ rows]) (blast intro: scan_case_rows findall_plain [OF assms(1)])
    have "scan_text s Text stack = scan_text (concat rows @ ''</table>'' @ nl) Text (''table'' # stack)"
      using pl by (simp add: s scan_suite_heading nl_def scan_literal)
    then show ?thesis
      using False scan by (auto simp: unbalanced_suite_def result_is_def rt nl_def scan_literal)
  qed
qed


text \<open>A results file with a suite that passed and an example that was skipped.\<close>

definition leaf :: "string \<Rightarrow> string \<Rightarrow> xml" where
  "leaf tag txt = Elem tag [] (Some txt) []"

definition skipped_example :: xml where
  "skipped_example = Elem ''Results'' [] None
     [Elem ''Test'' [] None [leaf ''Name'' ''wifi'', leaf ''Result'' ''PASS''],
      Elem ''Example'' [] None [leaf ''Name'' ''first'', leaf ''Result'' ''SKIP'']]"


end
