(* ===== verification/Topsort.thy ===== *)
theory Topsort
  imports Prelude
begin

text \<open>
  Dependency sorting, \<^verbatim>\<open>bindings/python/topsort.py\<close>: \<open>topsort\<close>, \<open>topsort_levels\<close> and its core.
  \<open>num_parents\<close> counts the predecessors of an item that are not placed yet, \<open>children\<close> lists
  its successors. The generator of \<open>topsort_levels_core\<close> is modelled by the levels it yields
  together with the way it ends (\<open>None\<close> for the regular end, the exception otherwise).
\<close>

datatype 'a ts_error =
    CycleError "'a list" "('a, int) dict" "('a, 'a list) dict"
  | LevelCycleError "('a, int) dict" "('a, 'a list) dict"
  | TsPy py_error

type_synonym 'a counts = "('a, int) dict"
type_synonym 'a succs = "('a, 'a list) dict"

abbreviation ts_lift :: "'b res \<Rightarrow> 'a ts_error + 'b" where
  "ts_lift \<equiv> map_sum TsPy id"

section \<open>Building the tables\<close>

text \<open>\<open>num_parents[k] += n\<close> and \<open>-= n\<close>.\<close>

definition bump :: "'a \<Rightarrow> int \<Rightarrow> 'a counts \<Rightarrow> 'a counts res" where
  "bump k n np = rbind (dlookup np k) (\<lambda>v. Inr (dset k (v + n) np))"

definition ensure_key :: "'a \<Rightarrow> 'a counts \<Rightarrow> 'a counts" where
  "ensure_key k np = (if dget np k = None then dset k 0 np else np)"

definition add_pair :: "'a counts \<times> 'a succs \<Rightarrow> 'a \<times> 'a \<Rightarrow> ('a counts \<times> 'a succs) res" where
  "add_pair st pr =
     (case (st, pr) of ((np, ch), (parent, child)) \<Rightarrow>
       rbind (bump child 1 (ensure_key child (ensure_key parent np))) (\<lambda>np'.
         Inr (np', dset parent (case dget ch parent of None \<Rightarrow> [child] | Some cs \<Rightarrow> cs @ [child]) ch)))"

definition build_tables :: "('a \<times> 'a) list \<Rightarrow> ('a counts \<times> 'a succs) res" where
  "build_tables pairlist = rfold add_pair ([], []) pairlist"

section \<open>The sort\<close>

text \<open>The inner loop over the children of a placed item.\<close>

fun knock_down :: "'a counts \<Rightarrow> 'a list \<Rightarrow> 'a list \<Rightarrow> ('a counts \<times> 'a list) res" where
  "knock_down np [] added = Inr (np, added)"
| "knock_down np (child # cs) added =
     rbind (bump child (-1) np) (\<lambda>np'.
       knock_down np' cs (if dget np' child = Some 0 then added @ [child] else added))"

text \<open>
  One round of \<open>for parent in answer\<close>: the list \<open>answer\<close> grows in the loop, so its state is
  the placed part and the part still to visit.
\<close>

definition place :: "'a \<Rightarrow> 'a counts \<Rightarrow> 'a succs \<Rightarrow> (('a counts \<times> 'a list) \<times> 'a succs) res" where
  "place parent np ch =
     rbind (ddelete parent np) (\<lambda>np1.
       case dget ch parent of
         None \<Rightarrow> Inr ((np1, []), ch)
       | Some cs \<Rightarrow> rbind (knock_down np1 cs []) (\<lambda>r. Inr (r, ddel parent ch)))"

lemma dset_length: "dget d k \<noteq> None \<Longrightarrow> length (dset k v d) = length d"
  by (induction k v d rule: dset.induct) (auto split: if_splits)

lemma bump_length: "bump k n np = Inr np' \<Longrightarrow> length np' = length np"
  by (auto simp: bump_def rbind_Inr_iff dlookup_def dset_length split: option.splits)

lemma knock_down_length: "knock_down np cs added = Inr (np', added') \<Longrightarrow> length np' = length np"
  by (induction np cs added rule: knock_down.induct)
     (auto simp: rbind_Inr_iff dest: bump_length)

lemma ddelete_length: "ddelete k d = Inr d' \<Longrightarrow> length d' < length d"
  by (auto simp: ddelete_def ddel_def split: option.splits intro!: length_filter_less dest!: map_of_SomeD)

lemma place_length: "place parent np ch = Inr ((np', added), ch') \<Longrightarrow> length np' < length np"
  by (auto simp: place_def rbind_Inr_iff split: option.splits
           dest!: ddelete_length knock_down_length)

function sort_loop :: "'a counts \<Rightarrow> 'a succs \<Rightarrow> 'a list \<Rightarrow> 'a list \<Rightarrow>
    ('a list \<times> 'a counts \<times> 'a succs) res" where
  "sort_loop np ch placed [] = Inr (placed, np, ch)"
| "sort_loop np ch placed (parent # rest) =
     (case place parent np ch of
        Inl e \<Rightarrow> Inl e
      | Inr ((np', added), ch') \<Rightarrow> sort_loop np' ch' (placed @ [parent]) (rest @ added))"
  by pat_completeness auto
termination
  by (relation "measure (\<lambda>(np, ch, placed, rest). length np)") (auto dest: place_length)

definition zero_keys :: "('a list \<Rightarrow> 'a list) \<Rightarrow> 'a counts \<Rightarrow> 'a list" where
  "zero_keys perm np = filter (\<lambda>x. dget np x = Some 0) (perm (dkeys np))"

definition topsort :: "('a list \<Rightarrow> 'a list) \<Rightarrow> ('a \<times> 'a) list \<Rightarrow> 'a ts_error + 'a list" where
  "topsort perm pairlist =
     rbind (ts_lift (build_tables pairlist)) (\<lambda>(np, ch).
     rbind (ts_lift (sort_loop np ch [] (zero_keys perm np))) (\<lambda>(answer, np', ch').
       if np' \<noteq> [] then Inl (CycleError answer np' ch') else Inr answer))"

section \<open>The levels\<close>

fun dec_children :: "'a counts \<Rightarrow> 'a list \<Rightarrow> 'a counts res" where
  "dec_children np [] = Inr np"
| "dec_children np (c # cs) = rbind (bump c (-1) np) (\<lambda>np'. dec_children np' cs)"

definition drop_item :: "'a counts \<times> 'a succs \<Rightarrow> 'a \<Rightarrow> ('a counts \<times> 'a succs) res" where
  "drop_item st level_parent =
     (case st of (np, ch) \<Rightarrow>
       rbind (ddelete level_parent np) (\<lambda>np1.
         case dget ch level_parent of
           None \<Rightarrow> Inr (np1, ch)
         | Some cs \<Rightarrow> rbind (dec_children np1 cs) (\<lambda>np2. Inr (np2, ddel level_parent ch))))"

lemma dec_children_length: "dec_children np cs = Inr np' \<Longrightarrow> length np' = length np"
  by (induction np cs rule: dec_children.induct) (auto simp: rbind_Inr_iff dest: bump_length)

lemma drop_item_length: "drop_item (np, ch) x = Inr (np', ch') \<Longrightarrow> length np' < length np"
  by (auto simp: drop_item_def rbind_Inr_iff split: option.splits
           dest!: ddelete_length dec_children_length)

lemma drop_items_length:
  "rfold drop_item (np, ch) xs = Inr (np', ch') \<Longrightarrow> xs \<noteq> [] \<Longrightarrow> length np' < length np"
proof (induction xs arbitrary: np ch)
  case (Cons x xs)
  then obtain np1 ch1 where 1: "drop_item (np, ch) x = Inr (np1, ch1)"
    and 2: "rfold drop_item (np1, ch1) xs = Inr (np', ch')"
    by (auto simp: rbind_Inr_iff)
  from Cons.IH [OF 2] drop_item_length [OF 1] 2 show ?case by (cases "xs = []") auto
qed simp

function level_loop :: "('a list \<Rightarrow> 'a list) \<Rightarrow> 'a counts \<Rightarrow> 'a succs \<Rightarrow> 'a list list \<Rightarrow>
    'a list list \<times> 'a ts_error option" where
  "level_loop perm np ch yielded =
     (let level_parents = zero_keys perm np
      in if level_parents = [] then
           (yielded, if np \<noteq> [] then Some (LevelCycleError np ch) else None)
         else
           (case rfold drop_item (np, ch) level_parents of
              Inl e \<Rightarrow> (yielded @ [level_parents], Some (TsPy e))
            | Inr (np', ch') \<Rightarrow> level_loop perm np' ch' (yielded @ [level_parents])))"
  by pat_completeness auto
termination
  by (relation "measure (\<lambda>(perm, np, ch, yielded). length np)") (auto dest: drop_items_length)

declare level_loop.simps [simp del]

definition topsort_levels_core ::
    "('a list \<Rightarrow> 'a list) \<Rightarrow> 'a counts \<Rightarrow> 'a succs \<Rightarrow> 'a list list \<times> 'a ts_error option" where
  "topsort_levels_core perm np ch = level_loop perm np ch []"

definition topsort_levels ::
    "('a list \<Rightarrow> 'a list) \<Rightarrow> ('a \<times> 'a) list \<Rightarrow> 'a list list \<times> 'a ts_error option" where
  "topsort_levels perm pairlist =
     (case build_tables pairlist of
        Inl e \<Rightarrow> ([], Some (TsPy e))
      | Inr (np, ch) \<Rightarrow> topsort_levels_core perm np ch)"

section \<open>What the tables mean\<close>

definition items :: "('a \<times> 'a) list \<Rightarrow> 'a set" where
  "items ps = fst ` set ps \<union> snd ` set ps"

definition kids :: "('a \<times> 'a) list \<Rightarrow> 'a \<Rightarrow> 'a list" where
  "kids ps p = map snd (filter (\<lambda>e. fst e = p) ps)"

text \<open>The number of pairs that name \<open>x\<close> as child of a parent outside \<open>D\<close>.\<close>

definition remaining :: "('a \<times> 'a) list \<Rightarrow> 'a set \<Rightarrow> 'a \<Rightarrow> int" where
  "remaining ps D x = int (length (filter (\<lambda>e. snd e = x \<and> fst e \<notin> D) ps))"

text \<open>The tables when the items of \<open>D\<close> have been taken out.\<close>

definition tables_ok :: "('a \<times> 'a) list \<Rightarrow> 'a set \<Rightarrow> 'a counts \<Rightarrow> 'a succs \<Rightarrow> bool" where
  "tables_ok ps D np ch \<longleftrightarrow>
     dict_ok np \<and>
     (\<forall>x. dget np x = (if x \<in> items ps - D then Some (remaining ps D x) else None)) \<and>
     (\<forall>p. dget ch p = (if p \<notin> D \<and> kids ps p \<noteq> [] then Some (kids ps p) else None))"

definition pred_closed :: "('a \<times> 'a) list \<Rightarrow> 'a set \<Rightarrow> bool" where
  "pred_closed ps D \<longleftrightarrow> (\<forall>(p, c) \<in> set ps. c \<in> D \<longrightarrow> p \<in> D)"

lemma finite_items [simp]: "finite (items ps)"
  by (simp add: items_def)

lemma set_kids: "set (kids ps p) = {c. (p, c) \<in> set ps}"
  by (force simp: kids_def)

lemma kids_items: "c \<in> set (kids ps p) \<Longrightarrow> c \<in> items ps"
  by (force simp: set_kids items_def)

lemma remaining_nonneg: "0 \<le> remaining ps D x"
  by (simp add: remaining_def)

lemma remaining_zero: "remaining ps D x = 0 \<longleftrightarrow> (\<forall>p. (p, x) \<in> set ps \<longrightarrow> p \<in> D)"
  by (force simp: remaining_def filter_empty_conv)

lemma remaining_insert:
  "p \<notin> D \<Longrightarrow> remaining ps D x = remaining ps (insert p D) x + int (count_list (kids ps p) x)"
  by (induction ps) (auto simp: remaining_def kids_def)

lemma ensure_key_facts:
  "dget (ensure_key k np) = (\<lambda>x. if x = k \<and> dget np k = None then Some 0 else dget np x)"
  "dict_ok np \<Longrightarrow> dict_ok (ensure_key k np)"
  by (auto simp: ensure_key_def fun_eq_iff)

lemma bump_ok: "dget np k = Some v \<Longrightarrow> bump k n np = Inr (dset k (v + n) np)"
  by (simp add: bump_def dlookup_def)

lemma remaining_snoc:
  "remaining (ps @ [(p, c)]) {} x = remaining ps {} x + (if x = c then 1 else 0)"
  by (simp add: remaining_def)

lemma remaining_fresh: "x \<notin> items ps \<Longrightarrow> remaining ps {} x = 0"
  by (force simp: remaining_zero items_def)

lemma add_pair_ok:
  assumes "tables_ok ps {} np ch"
  shows "\<exists>np' ch'. add_pair (np, ch) (p, c) = Inr (np', ch') \<and> tables_ok (ps @ [(p, c)]) {} np' ch'"
proof -
  let ?np = "ensure_key c (ensure_key p np)"
  let ?v = "if c \<in> items ps then remaining ps {} c else 0"
  have np: "dict_ok np" "dget np x = (if x \<in> items ps then Some (remaining ps {} x) else None)" for x
    using assms by (auto simp: tables_ok_def)
  have v: "dget ?np c = Some ?v"
    by (simp add: ensure_key_facts np)
  let ?ch = "dset p (case dget ch p of None \<Rightarrow> [c] | Some cs \<Rightarrow> cs @ [c]) ch"
  have run: "add_pair (np, ch) (p, c) = Inr (dset c (?v + 1) ?np, ?ch)"
    by (simp add: add_pair_def bump_ok [OF v])
  have keys: "dget (dset c (?v + 1) ?np) x =
      (if x \<in> items (ps @ [(p, c)]) then Some (remaining (ps @ [(p, c)]) {} x) else None)" for x
    using remaining_fresh [of x ps]
    by (auto simp: ensure_key_facts np remaining_snoc items_def)
  have "dget ch q = (if kids ps q \<noteq> [] then Some (kids ps q) else None)" for q
    using assms by (simp add: tables_ok_def)
  then have "dget ?ch q = (if kids (ps @ [(p, c)]) q \<noteq> [] then Some (kids (ps @ [(p, c)]) q) else None)"
    for q by (auto simp: kids_def)
  with keys np(1) have "tables_ok (ps @ [(p, c)]) {} (dset c (?v + 1) ?np) ?ch"
    by (simp add: tables_ok_def ensure_key_facts(2))
  with run show ?thesis by blast
qed

lemma build_tables_ok: "\<exists>np ch. build_tables ps = Inr (np, ch) \<and> tables_ok ps {} np ch"
proof (induction ps rule: rev_induct)
  case Nil
  then show ?case by (simp add: build_tables_def tables_ok_def items_def kids_def)
next
  case (snoc e ps)
  then obtain np ch where "build_tables ps = Inr (np, ch)" "tables_ok ps {} np ch" by blast
  with add_pair_ok [of ps np ch "fst e" "snd e"] show ?case
    by (auto simp: build_tables_def)
qed

text \<open>Knocking down the counts of the children of one item.\<close>

lemma knock_down_spec:
  "\<forall>c \<in> set cs. \<exists>v \<ge> int (count_list cs c). dget np c = Some v \<Longrightarrow> dict_ok np \<Longrightarrow>
   \<exists>np' new. knock_down np cs added = Inr (np', added @ new) \<and> dict_ok np' \<and>
     (\<forall>x. dget np' x = map_option (\<lambda>v. v - int (count_list cs x)) (dget np x)) \<and>
     distinct new \<and> set new = {x \<in> set cs. dget np x = Some (int (count_list cs x))}"
proof (induction cs arbitrary: np added)
  case Nil
  then show ?case by (simp add: option.map_ident)
next
  case (Cons c cs)
  then obtain v where v: "dget np c = Some v" and ge: "int (count_list (c # cs) c) \<le> v" by auto
  let ?np = "dset c (v - 1) np"
  have "\<forall>d \<in> set cs. \<exists>v \<ge> int (count_list cs d). dget ?np d = Some v"
    using Cons.prems(1) v ge by (auto split: if_splits)
  moreover have "dict_ok ?np" using Cons.prems(2) by simp
  ultimately obtain np' new where
    run: "knock_down ?np cs (if v - 1 = 0 then added @ [c] else added) =
        Inr (np', (if v - 1 = 0 then added @ [c] else added) @ new)"
    and np': "dict_ok np'" "\<forall>x. dget np' x = map_option (\<lambda>v. v - int (count_list cs x)) (dget ?np x)"
    and new: "distinct new" "set new = {x \<in> set cs. dget ?np x = Some (int (count_list cs x))}"
    using Cons.IH [of ?np "if v - 1 = 0 then added @ [c] else added"] by blast
  let ?new = "if v - 1 = 0 then c # new else new"
  have cnew: "v = 1 \<Longrightarrow> c \<notin> set new \<and> c \<notin> set cs"
    using ge new(2) by (auto simp: count_list_0_iff)
  have run': "knock_down np (c # cs) added = Inr (np', added @ ?new)"
    using run by (simp add: bump_ok [OF v] split: if_splits)
  have "distinct ?new" using new(1) cnew by auto
  moreover have "x \<in> set ?new \<longleftrightarrow>
      x \<in> set (c # cs) \<and> dget np x = Some (int (count_list (c # cs) x))" for x
  proof (cases "x = c")
    case True
    have "c \<in> set ?new \<longleftrightarrow> v = int (count_list cs c) + 1"
      using new(2) cnew ge by (cases "v = 1") (simp_all add: count_list_0_iff, fastforce)
    with True v show ?thesis by auto
  next
    case False
    then show ?thesis using new(2) by simp
  qed
  moreover have "\<forall>x. dget np' x = map_option (\<lambda>v. v - int (count_list (c # cs) x)) (dget np x)"
    using np'(2) v by auto
  ultimately show ?case using run' np'(1) by (intro exI conjI) blast+
qed

lemma dec_children_knock_down:
  "dec_children np cs = map_sum id fst (knock_down np cs added)"
  by (induction np cs added rule: knock_down.induct) (auto simp: rbind_def split: sum.splits)

text \<open>Taking one item out of the tables.\<close>

lemma place_spec:
  assumes tab: "tables_ok ps D np ch" and x: "x \<in> items ps - D" and zero: "remaining ps D x = 0"
    and closed: "pred_closed ps D"
  shows "\<exists>np' ch' added. place x np ch = Inr ((np', added), ch') \<and>
     tables_ok ps (insert x D) np' ch' \<and> distinct added \<and>
     set added = {c \<in> set (kids ps x). remaining ps (insert x D) c = 0}"
proof -
  let ?np = "ddel x np" and ?D = "insert x D"
  have np: "dict_ok np" "dget np y = (if y \<in> items ps - D then Some (remaining ps D y) else None)" for y
    using tab by (auto simp: tables_ok_def)
  have ch: "dget ch p = (if p \<notin> D \<and> kids ps p \<noteq> [] then Some (kids ps p) else None)" for p
    using tab by (auto simp: tables_ok_def)
  have del: "ddelete x np = Inr ?np" using x np(2) by (simp add: ddelete_def)
  have rem: "remaining ps D y = remaining ps ?D y + int (count_list (kids ps x) y)" for y
    using x by (intro remaining_insert) simp
  have nself: "x \<notin> set (kids ps x)" using zero x by (auto simp: remaining_zero set_kids)
  have kid: "c \<in> set (kids ps x) \<Longrightarrow> c \<in> items ps - D \<and> c \<noteq> x" for c
    using closed x nself kids_items [of c ps x] by (auto simp: pred_closed_def set_kids)
  have "\<forall>c \<in> set (kids ps x). \<exists>v \<ge> int (count_list (kids ps x) c). dget ?np c = Some v"
    using kid rem remaining_nonneg [of ps ?D] by (auto simp: dget_ddel np(2))
  moreover have "dict_ok ?np" using np(1) by simp
  ultimately obtain np' new where run: "knock_down ?np (kids ps x) [] = Inr (np', [] @ new)"
    and ok: "dict_ok np'"
    and val: "\<And>y. dget np' y = map_option (\<lambda>v. v - int (count_list (kids ps x) y)) (dget ?np y)"
    and new: "distinct new" "set new = {c \<in> set (kids ps x). dget ?np c = Some (int (count_list (kids ps x) c))}"
    using knock_down_spec [of "kids ps x" ?np "[]"] by blast
  have val': "dget np' y = (if y \<in> items ps - ?D then Some (remaining ps ?D y) else None)" for y
    by (auto simp: val dget_ddel np(2) rem)
  have ch': "dget (ddel x ch) p = (if p \<notin> ?D \<and> kids ps p \<noteq> [] then Some (kids ps p) else None)" for p
    by (auto simp: dget_ddel ch)
  have snew: "set new = {c \<in> set (kids ps x). remaining ps ?D c = 0}"
    using new(2) kid by (auto simp: dget_ddel np(2) rem)
  show ?thesis
  proof (cases "kids ps x = []")
    case True
    then have "place x np ch = Inr ((?np, []), ch)" using del by (simp add: place_def ch)
    moreover have "np' = ?np" using run True by simp
    moreover have "dget ch p = (if p \<notin> ?D \<and> kids ps p \<noteq> [] then Some (kids ps p) else None)" for p
      using True by (auto simp: ch)
    ultimately show ?thesis
      using ok val' True by (auto simp: tables_ok_def)
  next
    case False
    then have "place x np ch = Inr ((np', new), ddel x ch)"
      using del run x by (simp add: place_def ch)
    moreover have "tables_ok ps ?D np' (ddel x ch)"
      using ok val' ch' by (simp add: tables_ok_def)
    ultimately show ?thesis using new(1) snew by blast
  qed
qed

section \<open>The sort is correct\<close>

definition sort_inv :: "('a \<times> 'a) list \<Rightarrow> 'a counts \<Rightarrow> 'a succs \<Rightarrow> 'a list \<Rightarrow> 'a list \<Rightarrow> bool" where
  "sort_inv ps np ch placed rest \<longleftrightarrow>
     tables_ok ps (set placed) np ch \<and> pred_closed ps (set placed) \<and>
     set placed \<subseteq> items ps \<and> distinct (placed @ rest) \<and>
     (\<forall>x. x \<in> set rest \<longleftrightarrow> x \<in> items ps - set placed \<and> remaining ps (set placed) x = 0) \<and>
     (\<forall>(p, c) \<in> set ps. c \<in> set (placed @ rest) \<longrightarrow> precedes (placed @ rest) p c)"

lemma sort_inv_step:
  assumes inv: "sort_inv ps np ch placed (x # rest)"
  shows "\<exists>np' ch' added. place x np ch = Inr ((np', added), ch') \<and>
           sort_inv ps np' ch' (placed @ [x]) (rest @ added)"
proof -
  let ?D = "set placed"
  have x: "x \<in> items ps - ?D" "remaining ps ?D x = 0" and dist: "distinct (placed @ x # rest)"
    and closed: "pred_closed ps ?D" and tab: "tables_ok ps ?D np ch" and sub: "?D \<subseteq> items ps"
    and ord: "\<And>p c. (p, c) \<in> set ps \<Longrightarrow> c \<in> set (placed @ x # rest) \<Longrightarrow> precedes (placed @ x # rest) p c"
    and rest: "\<And>y. y \<in> set (x # rest) \<longleftrightarrow> y \<in> items ps - ?D \<and> remaining ps ?D y = 0"
    using inv unfolding sort_inv_def by auto
  obtain np' ch' added where run: "place x np ch = Inr ((np', added), ch')"
    and tab': "tables_ok ps (insert x ?D) np' ch'" and new: "distinct added"
    and added: "set added = {c \<in> set (kids ps x). remaining ps (insert x ?D) c = 0}"
    using place_spec [OF tab x closed] by blast
  have kid: "c \<in> set (kids ps x) \<Longrightarrow> c \<in> items ps \<and> c \<notin> ?D \<and> remaining ps ?D c \<noteq> 0" for c
    using closed x kids_items [of c ps x]
    by (auto simp: pred_closed_def set_kids remaining_zero)
  have fresh: "set added \<inter> set (placed @ x # rest) = {}"
    using added kid rest by fastforce
  have closed': "pred_closed ps (set (placed @ [x]))"
    using closed x(2) by (auto simp: pred_closed_def remaining_zero)
  have same: "y \<notin> set (kids ps x) \<Longrightarrow> remaining ps (insert x ?D) y = remaining ps ?D y" for y
    using remaining_insert [of x ?D ps y] x(1) by (simp add: count_list_0_iff)
  have mem: "y \<in> set added \<longleftrightarrow> y \<in> set (kids ps x) \<and> remaining ps (insert x ?D) y = 0"
    "y \<in> set rest \<longleftrightarrow> y \<in> items ps \<and> y \<notin> ?D \<and> y \<noteq> x \<and> remaining ps ?D y = 0" for y
    using added rest [of y] dist by auto
  have rest': "y \<in> set (rest @ added) \<longleftrightarrow>
      y \<in> items ps - set (placed @ [x]) \<and> remaining ps (set (placed @ [x])) y = 0" for y
  proof (cases "y \<in> set (kids ps x)")
    case True
    then show ?thesis using kid [OF True] mem [of y] x(2) by auto
  next
    case False
    then show ?thesis using mem [of y] same [OF False] by auto
  qed
  have ord': "precedes ((placed @ [x]) @ rest @ added) p c"
    if e: "(p, c) \<in> set ps" and c: "c \<in> set ((placed @ [x]) @ rest @ added)" for p c
  proof (cases "c \<in> set added")
    case True
    with added e have "p \<in> set (placed @ [x])" by (auto simp: remaining_zero)
    then have "precedes ((placed @ x # rest) @ added) p c"
      using True by (intro precedes_append_right) auto
    then show ?thesis by simp
  next
    case False
    with c have "precedes ((placed @ x # rest) @ added) p c"
      by (intro precedes_mono_right ord [OF e]) auto
    then show ?thesis by simp
  qed
  have "distinct ((placed @ [x]) @ rest @ added)" using dist new fresh by auto
  then have "sort_inv ps np' ch' (placed @ [x]) (rest @ added)"
    using tab' closed' rest' ord' sub x(1) unfolding sort_inv_def by auto
  with run show ?thesis by blast
qed

lemma sort_loop_inv:
  "sort_inv ps np ch placed rest \<Longrightarrow>
   \<exists>answer np' ch'. sort_loop np ch placed rest = Inr (answer, np', ch') \<and>
     sort_inv ps np' ch' answer []"
proof (induction np ch placed rest rule: sort_loop.induct)
  case (1 np ch placed)
  then show ?case by simp
next
  case (2 np ch placed x rest)
  from sort_inv_step [OF "2.prems"] obtain np' ch' added where
    run: "place x np ch = Inr ((np', added), ch')"
    and inv: "sort_inv ps np' ch' (placed @ [x]) (rest @ added)" by blast
  from "2.IH" [OF run refl refl inv] run show ?case by simp
qed

lemma sort_inv_init:
  assumes "key_order perm" "tables_ok ps {} np ch"
  shows "sort_inv ps np ch [] (zero_keys perm np)"
proof -
  have set: "set (zero_keys perm np) = {x \<in> items ps. remaining ps {} x = 0}"
    using assms by (auto simp: zero_keys_def in_dkeys_iff tables_ok_def split: if_splits)
  have "distinct (zero_keys perm np)"
    using assms by (simp add: zero_keys_def tables_ok_def dict_ok_def)
  moreover have "\<not> ((p, c) \<in> set ps \<and> c \<in> set (zero_keys perm np))" for p c
    by (auto simp: set remaining_zero)
  ultimately show ?thesis
    using assms(2) unfolding sort_inv_def by (auto simp: set pred_closed_def)
qed

text \<open>What the run of the sort returns, in both outcomes.\<close>

lemma topsort_run:
  assumes "key_order perm"
  obtains answer np' ch' where "sort_inv ps np' ch' answer []"
    and "topsort perm ps = (if np' \<noteq> [] then Inl (CycleError answer np' ch') else Inr answer)"
proof -
  obtain np ch where b: "build_tables ps = Inr (np, ch)" and t: "tables_ok ps {} np ch"
    using build_tables_ok by blast
  obtain answer np' ch' where "sort_loop np ch [] (zero_keys perm np) = Inr (answer, np', ch')"
    and inv: "sort_inv ps np' ch' answer []"
    using sort_loop_inv [OF sort_inv_init [OF assms t]] by blast
  then have "topsort perm ps = (if np' \<noteq> [] then Inl (CycleError answer np' ch') else Inr answer)"
    by (simp add: topsort_def b)
  with inv show ?thesis by (rule that)
qed

lemma pos_less:
  assumes "distinct xs" "precedes xs a b"
  shows "length (takeWhile (\<lambda>y. y \<noteq> a) xs) < length (takeWhile (\<lambda>y. y \<noteq> b) xs)"
proof -
  obtain us vs where xs: "xs = us @ vs" and a: "a \<in> set us" and b: "b \<in> set vs"
    using assms(2) by (auto simp: precedes_def)
  obtain us1 us2 where us: "us = us1 @ a # us2" using split_list [OF a] by blast
  have nb: "b \<notin> set us" using assms(1) b xs by auto
  have "takeWhile (\<lambda>y. y \<noteq> a) (us1 @ a # us2 @ vs) = us1 @ takeWhile (\<lambda>y. y \<noteq> a) (a # us2 @ vs)"
    using assms(1) by (intro takeWhile_append2) (auto simp: xs us)
  then have "takeWhile (\<lambda>y. y \<noteq> a) xs = us1" by (simp add: xs us)
  moreover have "takeWhile (\<lambda>y. y \<noteq> b) xs = us @ takeWhile (\<lambda>y. y \<noteq> b) vs"
    unfolding xs using nb by (intro takeWhile_append2) auto
  ultimately show ?thesis by (simp add: us)
qed

lemma ordered_acyclic:
  assumes "distinct xs" "\<And>a b. (a, b) \<in> r \<Longrightarrow> precedes xs a b"
  shows "acyclic r"
proof -
  have "r \<subseteq> measure (\<lambda>a. length (takeWhile (\<lambda>y. y \<noteq> a) xs))"
    using pos_less [OF assms(1)] assms(2) by auto
  then show ?thesis by (meson wf_acyclic wf_measure wf_subset)
qed

lemma no_source_cyclic:
  assumes "finite S" "x \<in> S" "\<And>y. y \<in> S \<Longrightarrow> \<exists>z \<in> S. (z, y) \<in> r"
  shows "\<exists>y. (y, y) \<in> r\<^sup>+ \<and> (y, x) \<in> r\<^sup>*"
proof -
  let ?T = "{y \<in> S. (y, x) \<in> r\<^sup>*}" and ?r = "r \<inter> {y \<in> S. (y, x) \<in> r\<^sup>*} \<times> {y \<in> S. (y, x) \<in> r\<^sup>*}"
  have "\<not> wf ?r"
  proof
    assume "wf ?r"
    moreover have "x \<in> ?T" using assms(2) by simp
    ultimately obtain y where y: "y \<in> ?T" and min: "\<And>z. (z, y) \<in> ?r \<Longrightarrow> z \<notin> ?T"
      by (meson wfE_min)
    from assms(3) [of y] y obtain z where "z \<in> S" "(z, y) \<in> r" by blast
    with y min [of z] show False by (auto intro: converse_rtrancl_into_rtrancl)
  qed
  moreover have "finite ?r" using assms(1) by (intro finite_Int) auto
  ultimately have "\<not> acyclic ?r" using finite_acyclic_wf by blast
  then obtain y where y: "(y, y) \<in> ?r\<^sup>+" by (auto simp: acyclic_def)
  then have "y \<in> ?T" by (auto elim: tranclE)
  moreover have "(y, y) \<in> r\<^sup>+" using y by (meson Int_lower1 trancl_mono)
  ultimately show ?thesis by blast
qed

text \<open>The items on a cycle, and those that depend on one.\<close>

definition after_cycle :: "('a \<times> 'a) list \<Rightarrow> 'a set" where
  "after_cycle ps = {x. \<exists>y. (y, y) \<in> (set ps)\<^sup>+ \<and> (y, x) \<in> (set ps)\<^sup>*}"

lemma after_cycle_empty: "after_cycle ps = {} \<longleftrightarrow> acyclic (set ps)"
  by (auto simp: after_cycle_def acyclic_def)

lemma trancl_in_closed:
  assumes "(a, b) \<in> (set ps)\<^sup>+" "pred_closed ps D"
  shows "b \<in> D \<Longrightarrow> a \<in> D \<and> (a, b) \<in> {e \<in> set ps. snd e \<in> D}\<^sup>+"
  using assms
proof (induction rule: trancl_induct)
  case (base y)
  then show ?case by (auto simp: pred_closed_def intro!: r_into_trancl)
next
  case (step y z)
  then have "y \<in> D" by (auto simp: pred_closed_def)
  moreover have "(y, z) \<in> {e \<in> set ps. snd e \<in> D}" using step by simp
  ultimately show ?case using step by (meson trancl_into_trancl)
qed

lemma trancl_items: "(a, b) \<in> (set ps)\<^sup>+ \<Longrightarrow> a \<in> items ps \<and> b \<in> items ps"
  by (induction rule: trancl_induct) (force simp: items_def)+

lemma left_over:
  assumes closed: "pred_closed ps D" and D: "D \<subseteq> items ps"
    and order: "distinct xs" "\<And>p c. (p, c) \<in> set ps \<Longrightarrow> c \<in> D \<Longrightarrow> precedes xs p c"
    and stuck: "\<And>x. x \<in> items ps - D \<Longrightarrow> remaining ps D x \<noteq> 0"
  shows "items ps - D = after_cycle ps"
proof (intro set_eqI iffI)
  fix x assume x: "x \<in> items ps - D"
  have "\<exists>z \<in> items ps - D. (z, y) \<in> set ps" if "y \<in> items ps - D" for y
    using stuck [OF that] by (force simp: remaining_zero items_def)
  from no_source_cyclic [OF _ x this] show "x \<in> after_cycle ps"
    by (simp add: after_cycle_def)
next
  fix x assume "x \<in> after_cycle ps"
  then obtain y where y: "(y, y) \<in> (set ps)\<^sup>+" and yx: "(y, x) \<in> (set ps)\<^sup>*"
    by (auto simp: after_cycle_def)
  have acyc: "acyclic {e \<in> set ps. snd e \<in> D}"
    using order by (intro ordered_acyclic [of xs]) auto
  have "y \<notin> D"
    using trancl_in_closed [OF y closed] acyc by (auto simp: acyclic_def)
  then have "x \<notin> D"
    using yx trancl_in_closed [OF _ closed, of y x] by (auto simp: rtrancl_eq_or_trancl)
  moreover have "x \<in> items ps"
    using yx trancl_items [OF y] trancl_items [of y x ps] by (auto simp: rtrancl_eq_or_trancl)
  ultimately show "x \<in> items ps - D" by simp
qed

lemma sort_inv_left_over:
  assumes "sort_inv ps np ch answer []"
  shows "set answer = items ps - after_cycle ps" "set (dkeys np) = after_cycle ps"
proof -
  have inv: "pred_closed ps (set answer)" "distinct answer" "tables_ok ps (set answer) np ch"
    "\<And>x. x \<in> items ps - set answer \<Longrightarrow> remaining ps (set answer) x \<noteq> 0"
    "\<And>p c. (p, c) \<in> set ps \<Longrightarrow> c \<in> set answer \<Longrightarrow> precedes answer p c"
    using assms unfolding sort_inv_def by auto
  have sub: "set answer \<subseteq> items ps" using assms unfolding sort_inv_def by auto
  have "items ps - set answer = after_cycle ps"
    by (rule left_over [OF inv(1) sub inv(2) inv(5) inv(4)])
  moreover have "set (dkeys np) = items ps - set answer"
    using inv(3) unfolding set_dkeys tables_ok_def dom_def by (simp split: if_splits) auto
  ultimately show "set answer = items ps - after_cycle ps" "set (dkeys np) = after_cycle ps"
    using sub by auto
qed

lemma topsort_Inr:
  assumes "key_order perm" "topsort perm ps = Inr answer"
  shows "distinct answer" "set answer = items ps" "(p, c) \<in> set ps \<Longrightarrow> precedes answer p c"
proof -
  obtain answer' np ch where inv: "sort_inv ps np ch answer' []"
    and run: "topsort perm ps = (if np \<noteq> [] then Inl (CycleError answer' np ch) else Inr answer')"
    using topsort_run [OF assms(1)] .
  have a: "answer' = answer" "np = []" using run assms(2) by (auto split: if_splits)
  have "after_cycle ps = {}" using sort_inv_left_over(2) [OF inv] a(2) by (simp add: dkeys_def)
  then show all: "set answer = items ps" using sort_inv_left_over(1) [OF inv] a(1) by simp
  show "distinct answer" using inv a(1) unfolding sort_inv_def by simp
  show "(p, c) \<in> set ps \<Longrightarrow> precedes answer p c"
    using inv all a(1) unfolding sort_inv_def by (force simp: items_def)
qed

text \<open>
  C34: on pairs without a cycle \<open>topsort\<close> returns an order of all the items, each once, in
  which every parent comes before its children, whatever order the dictionary keys come in.
\<close>

theorem topsort_acyclic:
  assumes "key_order perm" and "acyclic (set ps)"
  shows "\<exists>answer. topsort perm ps = Inr answer \<and> distinct answer \<and> set answer = items ps \<and>
     (\<forall>(p, c) \<in> set ps. precedes answer p c)"
proof -
  obtain answer np ch where inv: "sort_inv ps np ch answer []"
    and run: "topsort perm ps = (if np \<noteq> [] then Inl (CycleError answer np ch) else Inr answer)"
    using topsort_run [OF assms(1)] .
  have e: "after_cycle ps = {}" using assms(2) by (simp add: after_cycle_empty)
  have "np = []" using sort_inv_left_over(2) [OF inv] e by (simp add: dkeys_def)
  moreover have all: "set answer = items ps" using sort_inv_left_over(1) [OF inv] e by simp
  moreover have "distinct answer" using inv unfolding sort_inv_def by simp
  moreover have "(p, c) \<in> set ps \<Longrightarrow> precedes answer p c" for p c
    using inv all unfolding sort_inv_def by (force simp: items_def)
  ultimately show ?thesis using run by auto
qed

theorem topsort_acyclic_witness:
  "\<exists>answer. topsort rev [(1 :: nat, 2), (1, 3), (2, 3)] = Inr answer \<and> distinct answer \<and>
     set answer = items [(1, 2), (1, 3), (2, 3)] \<and>
     (\<forall>(p, c) \<in> set [(1, 2), (1, 3), (2, 3)]. precedes answer p c)"
proof (rule topsort_acyclic [OF key_order_rev])
  show "acyclic (set [(1 :: nat, 2), (1, 3), (2, 3)])"
    by (rule ordered_acyclic [of "[1, 2, 3]"])
       auto
qed

text \<open>
  C35: when the pairs have a cycle, \<open>topsort\<close> raises \<open>CycleError\<close> (never a \<open>KeyError\<close>): the
  left-over counts name exactly the items on a cycle and the items below one, and \<open>answer\<close>
  lists the other items.
\<close>

theorem topsort_cyclic:
  assumes "key_order perm" and "\<not> acyclic (set ps)"
  shows "\<exists>answer np ch. topsort perm ps = Inl (CycleError answer np ch) \<and>
     set (dkeys np) = after_cycle ps \<and> distinct answer \<and> set answer = items ps - after_cycle ps"
proof -
  obtain answer np ch where inv: "sort_inv ps np ch answer []"
    and run: "topsort perm ps = (if np \<noteq> [] then Inl (CycleError answer np ch) else Inr answer)"
    using topsort_run [OF assms(1)] .
  have "np \<noteq> []"
    using sort_inv_left_over(2) [OF inv] assms(2) by (auto simp: dkeys_def simp flip: after_cycle_empty)
  moreover have "distinct answer" using inv unfolding sort_inv_def by simp
  ultimately show ?thesis using run sort_inv_left_over [OF inv] by simp
qed

lemma cycle_1_2: "\<not> acyclic (set [(1 :: nat, 2), (2, 1), (2, 3)])"
proof -
  have "(1 :: nat, 1) \<in> (set [(1, 2), (2, 1), (2, 3)])\<^sup>+"
    by (rule trancl_into_trancl [of _ 2]) auto
  then show ?thesis unfolding acyclic_def by blast
qed

theorem topsort_cyclic_witness:
  "\<exists>answer np ch. topsort rev [(1 :: nat, 2), (2, 1), (2, 3)] = Inl (CycleError answer np ch) \<and>
     set (dkeys np) = after_cycle [(1, 2), (2, 1), (2, 3)] \<and> distinct answer \<and>
     set answer = items [(1, 2), (2, 1), (2, 3)] - after_cycle [(1, 2), (2, 1), (2, 3)]"
  by (rule topsort_cyclic [OF key_order_rev cycle_1_2])

text \<open>
  The comment before the \<open>raise\<close> says that every key left in \<open>num_parents\<close> has a child; in this
  run the item 3 is left over and has none.
\<close>

lemma left_over_without_child:
  "topsort (\<lambda>ks. ks) [(1 :: nat, 2), (2, 1), (2, 3)] =
     Inl (CycleError [] [(1, 1), (2, 1), (3, 1)] [(1, [2]), (2, [1, 3])])"
  by (simp add: topsort_def build_tables_def add_pair_def bump_def ensure_key_def dlookup_def
      zero_keys_def dkeys_def)

section \<open>The levels are correct\<close>

lemma drop_item_place:
  "drop_item (np, ch) x = map_sum id (\<lambda>((np', added), ch'). (np', ch')) (place x np ch)"
  by (auto simp: drop_item_def place_def rbind_def dec_children_knock_down [of _ _ "[]"]
      split: sum.splits option.splits)

lemma drop_items_spec:
  assumes "tables_ok ps D np ch" "pred_closed ps D" "distinct xs" "set xs \<subseteq> items ps - D"
    "\<forall>x \<in> set xs. remaining ps D x = 0"
  shows "\<exists>np' ch'. rfold drop_item (np, ch) xs = Inr (np', ch') \<and>
     tables_ok ps (D \<union> set xs) np' ch' \<and> pred_closed ps (D \<union> set xs)"
  using assms
proof (induction xs arbitrary: D np ch)
  case (Cons x xs)
  then obtain np' ch' added where "place x np ch = Inr ((np', added), ch')"
    and tab: "tables_ok ps (insert x D) np' ch'"
    using place_spec [of ps D np ch x] by auto
  then have run: "drop_item (np, ch) x = Inr (np', ch')" by (simp add: drop_item_place)
  have "pred_closed ps (insert x D)"
    using Cons.prems by (auto simp: pred_closed_def remaining_zero)
  moreover have "\<forall>y \<in> set xs. remaining ps (insert x D) y = 0"
    using Cons.prems(5) by (auto simp: remaining_zero)
  moreover have "set xs \<subseteq> items ps - insert x D" "distinct xs" using Cons.prems(3,4) by auto
  ultimately obtain np2 ch2 where "rfold drop_item (np', ch') xs = Inr (np2, ch2)"
    "tables_ok ps (insert x D \<union> set xs) np2 ch2" "pred_closed ps (insert x D \<union> set xs)"
    using Cons.IH [OF tab] by blast
  with run show ?case by (simp add: insert_commute)
qed simp

text \<open>
  Each item stands at the earliest level: its parents are on earlier levels, and from the
  second level on one of them is on the level just before.
\<close>

definition earliest :: "('a \<times> 'a) list \<Rightarrow> 'a list list \<Rightarrow> bool" where
  "earliest ps levels \<longleftrightarrow> (\<forall>i < length levels. levels ! i \<noteq> [] \<and> (\<forall>x \<in> set (levels ! i).
     (\<forall>p. (p, x) \<in> set ps \<longrightarrow> p \<in> set (concat (take i levels))) \<and>
     (0 < i \<longrightarrow> (\<exists>p \<in> set (levels ! (i - 1)). (p, x) \<in> set ps))))"

definition level_inv :: "('a \<times> 'a) list \<Rightarrow> 'a counts \<Rightarrow> 'a succs \<Rightarrow> 'a list list \<Rightarrow> bool" where
  "level_inv ps np ch levels \<longleftrightarrow>
     tables_ok ps (set (concat levels)) np ch \<and> pred_closed ps (set (concat levels)) \<and>
     set (concat levels) \<subseteq> items ps \<and> distinct (concat levels) \<and> earliest ps levels \<and>
     (\<forall>(p, c) \<in> set ps. c \<in> set (concat levels) \<longrightarrow> precedes (concat levels) p c) \<and>
     (levels \<noteq> [] \<longrightarrow> (\<forall>x \<in> items ps - set (concat levels). remaining ps (set (concat levels)) x = 0 \<longrightarrow>
        (\<exists>p \<in> set (last levels). (p, x) \<in> set ps)))"

lemma zero_keys_facts:
  assumes "key_order perm" "tables_ok ps D np ch"
  shows "set (zero_keys perm np) = {x \<in> items ps - D. remaining ps D x = 0}"
    "distinct (zero_keys perm np)"
  using assms
  by (auto simp: zero_keys_def in_dkeys_iff tables_ok_def dict_ok_def split: if_splits)

lemma earliest_snoc:
  assumes "earliest ps levels" "level \<noteq> []"
    "\<And>x p. x \<in> set level \<Longrightarrow> (p, x) \<in> set ps \<Longrightarrow> p \<in> set (concat levels)"
    "\<And>x. x \<in> set level \<Longrightarrow> levels \<noteq> [] \<Longrightarrow> \<exists>p \<in> set (last levels). (p, x) \<in> set ps"
  shows "earliest ps (levels @ [level])"
  unfolding earliest_def
proof (intro allI impI)
  fix i assume "i < length (levels @ [level])"
  then consider "i < length levels" | "i = length levels" by fastforce
  then show "(levels @ [level]) ! i \<noteq> [] \<and> (\<forall>x \<in> set ((levels @ [level]) ! i).
     (\<forall>p. (p, x) \<in> set ps \<longrightarrow> p \<in> set (concat (take i (levels @ [level])))) \<and>
     (0 < i \<longrightarrow> (\<exists>p \<in> set ((levels @ [level]) ! (i - 1)). (p, x) \<in> set ps)))"
  proof cases
    case 1
    with assms(1) have "levels ! i \<noteq> [] \<and> (\<forall>x \<in> set (levels ! i).
     (\<forall>p. (p, x) \<in> set ps \<longrightarrow> p \<in> set (concat (take i levels))) \<and>
     (0 < i \<longrightarrow> (\<exists>p \<in> set (levels ! (i - 1)). (p, x) \<in> set ps)))"
      unfolding earliest_def by blast
    moreover have "i - 1 < length levels" using 1 by simp
    ultimately show ?thesis using 1 by (simp add: nth_append)
  next
    case 2
    have l: "(levels @ [level]) ! i = level" "take i (levels @ [level]) = levels"
      "0 < i \<Longrightarrow> (levels @ [level]) ! (i - 1) = last levels" "0 < i \<Longrightarrow> levels \<noteq> []"
      using 2 by (auto simp: nth_append last_conv_nth)
    show ?thesis
      using assms(2-4) l by (auto simp del: set_concat)
  qed
qed

lemma level_inv_step:
  assumes perm: "key_order perm" and inv: "level_inv ps np ch levels"
    and level: "level = zero_keys perm np" "level \<noteq> []"
  shows "\<exists>np' ch'. rfold drop_item (np, ch) level = Inr (np', ch') \<and>
           level_inv ps np' ch' (levels @ [level])"
proof -
  let ?D = "set (concat levels)"
  have tab: "tables_ok ps ?D np ch" and closed: "pred_closed ps ?D" and sub: "?D \<subseteq> items ps"
    and dist: "distinct (concat levels)" and early: "earliest ps levels"
    and ord: "\<And>p c. (p, c) \<in> set ps \<Longrightarrow> c \<in> ?D \<Longrightarrow> precedes (concat levels) p c"
    and last: "\<And>x. levels \<noteq> [] \<Longrightarrow> x \<in> items ps - ?D \<Longrightarrow> remaining ps ?D x = 0 \<Longrightarrow>
        \<exists>p \<in> set (last levels). (p, x) \<in> set ps"
    using inv unfolding level_inv_def by blast+
  have set: "set level = {x \<in> items ps - ?D. remaining ps ?D x = 0}" and dl: "distinct level"
    using zero_keys_facts [OF perm tab] level(1) by simp_all
  have parents: "x \<in> set level \<Longrightarrow> (p, x) \<in> set ps \<Longrightarrow> p \<in> ?D" for x p
    by (simp add: set remaining_zero del: set_concat)
  obtain np' ch' where run: "rfold drop_item (np, ch) level = Inr (np', ch')"
    and tab': "tables_ok ps (?D \<union> set level) np' ch'" and closed': "pred_closed ps (?D \<union> set level)"
    using drop_items_spec [OF tab closed dl] set by blast
  have D': "set (concat (levels @ [level])) = ?D \<union> set level" by simp
  have early': "earliest ps (levels @ [level])"
    using early level(2) parents last set by (intro earliest_snoc) blast+
  have ord': "precedes (concat (levels @ [level])) p c"
    if e: "(p, c) \<in> set ps" and c: "c \<in> ?D \<union> set level" for p c
  proof (cases "c \<in> ?D")
    case True
    then show ?thesis using ord [OF e True] by (simp add: precedes_mono_right)
  next
    case False
    then have "c \<in> set level" using c by blast
    then show ?thesis
      using parents [OF _ e] by (simp add: precedes_append_right del: set_concat)
  qed
  have last': "\<exists>p \<in> set level. (p, x) \<in> set ps"
    if x: "x \<in> items ps - (?D \<union> set level)" "remaining ps (?D \<union> set level) x = 0" for x
    using x set by (auto simp: remaining_zero simp del: set_concat)
  have "distinct (concat (levels @ [level]))" using dist dl set by auto
  moreover have "?D \<union> set level \<subseteq> items ps" using sub set by blast
  ultimately have "level_inv ps np' ch' (levels @ [level])"
    unfolding level_inv_def D' using tab' closed' early' ord' last' by auto
  with run show ?thesis by blast
qed

lemma level_loop_spec:
  "key_order perm \<Longrightarrow> level_inv ps np ch levels \<Longrightarrow>
   \<exists>levels' np' ch'. level_loop perm np ch levels =
       (levels', if np' \<noteq> [] then Some (LevelCycleError np' ch') else None) \<and>
     level_inv ps np' ch' levels' \<and> zero_keys perm np' = []"
proof (induction perm np ch levels rule: level_loop.induct)
  case (1 perm np ch levels)
  show ?case
  proof (cases "zero_keys perm np = []")
    case True
    have "level_loop perm np ch levels = (levels, if np \<noteq> [] then Some (LevelCycleError np ch) else None)"
      by (subst level_loop.simps) (simp add: True)
    then show ?thesis using "1.prems"(2) True by blast
  next
    case False
    obtain np' ch' where run: "rfold drop_item (np, ch) (zero_keys perm np) = Inr (np', ch')"
      and inv: "level_inv ps np' ch' (levels @ [zero_keys perm np])"
      using level_inv_step [OF "1.prems" refl False] by blast
    have "level_loop perm np ch levels = level_loop perm np' ch' (levels @ [zero_keys perm np])"
      by (subst level_loop.simps) (simp add: False run)
    then show ?thesis
      using "1.IH" [OF refl False run refl "1.prems"(1) inv] by simp
  qed
qed

text \<open>
  \<open>topsort_levels\<close> yields every item that is neither on a cycle nor below one, exactly
  once, each on its earliest level; it ends regularly if and only if there is no cycle, and
  otherwise with a \<open>CycleError\<close> that names the remaining items.
\<close>

theorem topsort_levels_spec:
  assumes perm: "key_order perm" and run: "topsort_levels perm ps = (levels, ending)"
  shows "distinct (concat levels) \<and> set (concat levels) = items ps - after_cycle ps \<and>
     earliest ps levels \<and>
     (if acyclic (set ps) then ending = None
      else \<exists>np ch. ending = Some (LevelCycleError np ch) \<and> set (dkeys np) = after_cycle ps)"
proof -
  obtain np0 ch0 where b: "build_tables ps = Inr (np0, ch0)" and t: "tables_ok ps {} np0 ch0"
    using build_tables_ok by blast
  have "level_inv ps np0 ch0 []"
    using t by (simp add: level_inv_def pred_closed_def earliest_def)
  from level_loop_spec [OF perm this] run b obtain np ch where
    e: "ending = (if np \<noteq> [] then Some (LevelCycleError np ch) else None)"
    and inv: "level_inv ps np ch levels" and zero: "zero_keys perm np = []"
    by (auto simp: topsort_levels_def topsort_levels_core_def)
  let ?D = "set (concat levels)"
  have tab: "tables_ok ps ?D np ch" and facts: "pred_closed ps ?D" "?D \<subseteq> items ps"
    "distinct (concat levels)" "earliest ps levels"
    "\<And>p c. (p, c) \<in> set ps \<Longrightarrow> c \<in> ?D \<Longrightarrow> precedes (concat levels) p c"
    using inv unfolding level_inv_def by blast+
  have "x \<in> items ps - ?D \<Longrightarrow> remaining ps ?D x \<noteq> 0" for x
    using zero_keys_facts(1) [OF perm tab] zero by auto
  from left_over [OF facts(1,2,3,5) this] have rest: "items ps - ?D = after_cycle ps" by blast
  have keys: "set (dkeys np) = after_cycle ps"
    using tab unfolding rest [symmetric] set_dkeys tables_ok_def dom_def by (simp split: if_splits) auto
  then have "np = [] \<longleftrightarrow> acyclic (set ps)"
    by (cases np) (auto simp: dkeys_def simp flip: after_cycle_empty)
  then show ?thesis using facts(2,3,4) rest keys e by auto
qed

theorem topsort_levels_witness:
  "earliest [(1 :: nat, 2), (3, 4), (5, 6), (1, 3), (1, 5), (1, 6), (2, 5)]
     [[1], [2, 3], [4, 5], [6]]"
proof -
  have run: "topsort_levels (\<lambda>ks. ks) [(1 :: nat, 2), (3, 4), (5, 6), (1, 3), (1, 5), (1, 6), (2, 5)]
      = ([[1], [2, 3], [4, 5], [6]], None)"
    by code_simp
  have "key_order (\<lambda>ks :: nat list. ks)" by (simp add: key_order_def)
  from topsort_levels_spec [OF this run] show ?thesis by blast
qed

end
