(* ===== verification/ModuleScan.thy ===== *)
theory ModuleScan
  imports Topsort Paths "HOL-Library.List_Lexorder" "HOL-Library.Char_ord"
begin

text \<open>
  \<open>bindings/python/ns3modulescan.py\<close>: the annotations of a scanned declaration, the place of its header below
  \<open>ns3\<close>, and the sections of the generated bindings, which follow a topological sort of the modules. What
  is scanned comes from \<open>pygccxml\<close>: a declaration is the record \<open>decl\<close> of what is read from it. The parser, the
  files of the sections and the list of callback classes are not modelled.
\<close>

section \<open>Annotations\<close>

datatype annotation = ANone | ATrue | AText string | AParams "(string, (string, string) dict) dict"

type_synonym annotations = "(string, annotation) dict"

definition type_annotations :: "(string, annotations) dict" where
  "type_annotations =
     [
      (''::ns3::AttributeChecker'',
        [(''automatic_type_narrowing'', AText ''true''), (''allow_subclassing'', AText ''false'')]),
      (''::ns3::AttributeValue'',
        [(''automatic_type_narrowing'', AText ''true''), (''allow_subclassing'', AText ''false'')]),
      (''::ns3::CommandLine'',
        [(''allow_subclassing'', AText ''true'')]),
      (''::ns3::NscTcpL4Protocol'',
        [(''ignore'', AText ''true'')]),
      (''ns3::RandomVariable::RandomVariable(ns3::RandomVariableBase const & variable) [constructor]'',
        [(''ignore'', ANone)]),
      (''ns3::RandomVariableBase * ns3::RandomVariable::Peek() const [member function]'',
        [(''ignore'', ANone)]),
      (''void ns3::RandomVariable::GetSeed(uint32_t * seed) const [member function]'',
        [(''params'', AParams [(''seed'', [(''direction'', ''out''), (''array_length'', ''6'')])])]),
      (''bool ns3::TypeId::LookupAttributeByName(std::string name, ns3::TypeId::AttributeInfo * info) const [member function]'',
        [(''params'', AParams [(''info'', [(''transfer_ownership'', ''false'')])])]),
      (''static bool ns3::TypeId::LookupByNameFailSafe(std::string name, ns3::TypeId * tid) [member function]'',
        [(''ignore'', ANone)]),
      (''bool ns3::TraceSourceAccessor::ConnectWithoutContext(ns3::ObjectBase * obj, ns3::CallbackBase const & cb) const [member function]'',
        [(''params'', AParams [(''obj'', [(''transfer_ownership'', ''false'')])])]),
      (''bool ns3::TraceSourceAccessor::Connect(ns3::ObjectBase * obj, std::string context, ns3::CallbackBase const & cb) const [member function]'',
        [(''params'', AParams [(''obj'', [(''transfer_ownership'', ''false'')])])]),
      (''bool ns3::TraceSourceAccessor::DisconnectWithoutContext(ns3::ObjectBase * obj, ns3::CallbackBase const & cb) const [member function]'',
        [(''params'', AParams [(''obj'', [(''transfer_ownership'', ''false'')])])]),
      (''bool ns3::TraceSourceAccessor::Disconnect(ns3::ObjectBase * obj, std::string context, ns3::CallbackBase const & cb) const [member function]'',
        [(''params'', AParams [(''obj'', [(''transfer_ownership'', ''false'')])])]),
      (''bool ns3::AttributeAccessor::Set(ns3::ObjectBase * object, ns3::AttributeValue const & value) const [member function]'',
        [(''params'', AParams [(''object'', [(''transfer_ownership'', ''false'')])])]),
      (''ns3::EmpiricalVariable::EmpiricalVariable(ns3::RandomVariableBase const & variable) [constructor]'',
        [(''ignore'', ANone)]),
      (''static ns3::AttributeList * ns3::AttributeList::GetGlobal() [member function]'',
        [(''caller_owns_return'', AText ''false'')]),
      (''void ns3::CommandLine::Parse(int argc, char * * argv) const [member function]'',
        [(''ignore'', ANone)]),
      (''extern void ns3::PythonCompleteConstruct(ns3::Ptr<ns3::Object> object, ns3::TypeId typeId, ns3::AttributeList const & attributes) [free function]'',
        [(''ignore'', ANone)]),
      (''ns3::Ptr<ns3::Ipv4RoutingProtocol> ns3::Ipv4ListRouting::GetRoutingProtocol(uint32_t index, int16_t & priority) const [member function]'',
        [(''params'', AParams [(''priority'', [(''direction'', ''out'')])])]),
      (''ns3::Ipv4RoutingTableEntry * ns3::GlobalRouter::GetInjectedRoute(uint32_t i) [member function]'',
        [(''params'', AParams [(''return'', [(''caller_owns_return'', ''false'')])])]),
      (''ns3::Ipv4RoutingTableEntry * ns3::Ipv4GlobalRouting::GetRoute(uint32_t i) const [member function]'',
        [(''params'', AParams [(''return'', [(''caller_owns_return'', ''false'')])])]),
      (''::ns3::TestCase'',
        [(''ignore'', AText ''true'')]),
      (''::ns3::TestRunner'',
        [(''ignore'', AText ''true'')]),
      (''::ns3::TestSuite'',
        [(''ignore'', AText ''true'')])]"

datatype decl_kind = MemberFunction | Constructor | FreeFunction | ClassDecl | OtherDecl

record decl =
  d_kind :: decl_kind
  d_file :: string
  d_parent :: string
  d_name :: string
  d_template_args :: "string list"
  d_decl_string :: string
  d_text :: string
  d_defaults :: "string option list"

text \<open>
  The loop of \<open>get_ns3_relative_path\<close>; splitting \<open>/\<close> gives \<open>/\<close> again, so it need not end, and \<open>None\<close> is the run
  that does not.
\<close>

partial_function (option) relative_loop :: "string \<Rightarrow> string list \<Rightarrow> string res option" where
  "relative_loop head l =
     (if head = [] then Some (Inl AssertionError)
      else
        (case path_split head of (head', tail) \<Rightarrow>
           if tail = ''ns3'' then
             (case l of [] \<Rightarrow> Some (Inl TypeError) | p # ps \<Rightarrow> Some (Inr (foldl path_join p ps)))
           else relative_loop head' (tail # l)))"

definition get_ns3_relative_path :: "string \<Rightarrow> string res option" where
  "get_ns3_relative_path path = relative_loop path []"

definition update_dict :: "('k, 'v) dict \<Rightarrow> ('k, 'v) dict \<Rightarrow> ('k, 'v) dict" where
  "update_dict d new = foldl (\<lambda>d (k, v). dset k v d) d new"

text \<open>What a scan changes: the two dictionaries it is given, the defaults of the arguments, and the table.\<close>

record scan_state =
  s_global :: annotations
  s_params :: "(string, (string, string) dict) dict"
  s_defaults :: "string option list"
  s_table :: "(string, annotations) dict"

definition set_global :: "string \<Rightarrow> annotation \<Rightarrow> scan_state \<Rightarrow> scan_state" where
  "set_global k v s = s\<lparr> s_global := dset k v (s_global s) \<rparr>"

definition fix_default :: "string option \<Rightarrow> string option" where
  "fix_default v =
     (case v of
        None \<Rightarrow> None
      | Some t \<Rightarrow>
          if t = ''ns3::MilliSeconds( )'' then Some ''ns3::MilliSeconds(0)''
          else if t = ''ns3::Seconds( )'' then Some ''ns3::Seconds(0)''
          else Some t)"

definition member_rules :: "decl \<Rightarrow> scan_state \<Rightarrow> scan_state" where
  "member_rules d s =
     (let s = (if d_kind d = MemberFunction \<and> d_parent d = ''Object'' \<and> d_name d = ''GetObject'' \<and>
                  d_template_args d = [''ns3::Object'']
               then set_global ''template_instance_names'' (AText ''ns3::Object=>GetObject'') s else s);
          s = (if d_kind d = MemberFunction \<and> d_parent d = ''Simulator'' \<and> startswith (d_name d) ''Schedule''
               then set_global ''ignore'' ANone s else s);
          s = (if d_kind d = MemberFunction \<and> d_parent d = ''Simulator'' \<and> d_name d = ''Run''
               then set_global ''ignore'' ATrue s else s)
      in if d_kind d \<in> {MemberFunction, Constructor, FreeFunction}
         then s\<lparr> s_defaults := map fix_default (s_defaults s) \<rparr> else s)"

text \<open>\<open>None\<close> when the hook goes on behind the rules for classes.\<close>

definition class_rules :: "decl \<Rightarrow> scan_state \<Rightarrow> scan_state \<times> bool" where
  "class_rules d s =
     (if startswith (d_decl_string d) ''::ns3::SimpleRefCount<'' then
        (set_global ''automatic_type_narrowing'' (AText ''true'')
          (set_global ''peekref_method'' (AText ''GetReferenceCount'')
            (set_global ''decref_method'' (AText ''Unref'') (set_global ''incref_method'' (AText ''Ref'') s))), True)
      else if startswith (d_decl_string d) ''::ns3::Callback<'' then (set_global ''ignore'' ANone s, True)
      else if startswith (d_decl_string d) ''::ns3::TracedCallback<'' then (set_global ''ignore'' ANone s, True)
      else if startswith (d_decl_string d) ''::ns3::Ptr<'' then (set_global ''ignore'' ANone s, True)
      else
        (case dget (s_table s) (d_decl_string d) of
           None \<Rightarrow> (s, False)
         | Some annotations \<Rightarrow> (s\<lparr> s_global := update_dict (s_global s) annotations \<rparr>, False)))"

text \<open>The entry \<open>params\<close> is taken out of the table itself when it is used.\<close>

definition call_rules :: "decl \<Rightarrow> scan_state \<Rightarrow> scan_state" where
  "call_rules d s =
     (case dget (s_table s) (d_text d) of
        None \<Rightarrow> s
      | Some annotations \<Rightarrow>
          (case dget annotations ''params'' of
             Some (AParams ps) \<Rightarrow>
               let rest = ddel ''params'' annotations in
               s\<lparr> s_params := update_dict (s_params s) ps, s_table := dset (d_text d) rest (s_table s),
                  s_global := update_dict (s_global s) rest \<rparr>
           | _ \<Rightarrow> s\<lparr> s_global := update_dict (s_global s) annotations \<rparr>))"

definition pre_scan_hook :: "decl \<Rightarrow> scan_state \<Rightarrow> scan_state res option" where
  "pre_scan_hook d s =
     map_option (\<lambda>header. rbind header (\<lambda>ns3_header. Inr (
       let s = member_rules d (set_global ''pygen_comment'' (AText (ns3_header @ '': '' @ d_text d)) s) in
       case (if d_kind d = ClassDecl then class_rules d s else (s, False)) of
         (s, True) \<Rightarrow> s
       | (s, False) \<Rightarrow>
           if d_kind d = FreeFunction \<and> d_name d = ''PeekPointer'' then set_global ''ignore'' ANone s
           else if d_kind d \<in> {FreeFunction, MemberFunction, Constructor} then call_rules d s
           else s)))
       (get_ns3_relative_path (d_file d))"

section \<open>Sections\<close>

text \<open>For each module its dependencies and its headers.\<close>

type_synonym module_table = "(string, string list \<times> string list) dict"

definition module_graph :: "module_table \<Rightarrow> (string \<times> string) list" where
  "module_graph modules =
     concat (map (\<lambda>m. case dget modules m of
        None \<Rightarrow> []
      | Some (deps, hs) \<Rightarrow> map (\<lambda>dep. (dep, m)) (sort deps)) (sort (dkeys modules)))"

definition section_name :: "string \<Rightarrow> string" where
  "section_name m = ''ns3_module_'' @ map (\<lambda>c. if c = CHR ''-'' then CHR ''_'' else c) m"

record classifier =
  c_sections :: "string list"
  c_headers :: "(string, string) dict"
  c_precedences :: "(string, int) dict"

definition add_section :: "module_table \<Rightarrow> classifier \<Rightarrow> nat \<times> string \<Rightarrow> classifier res" where
  "add_section modules c p =
     (case p of (prec, m) \<Rightarrow>
        let sec = section_name m in
        rbind (dlookup modules m) (\<lambda>(deps, hs).
          Inr \<lparr> c_sections = c_sections c @ [sec],
                c_headers = foldl (\<lambda>d h. dset h sec d) (c_headers c) hs,
                c_precedences = dset sec (int prec) (c_precedences c) \<rparr>))"

definition scan_sections :: "(string list \<Rightarrow> string list) \<Rightarrow> module_table \<Rightarrow> string ts_error + classifier" where
  "scan_sections perm modules =
     rbind (topsort perm (module_graph modules)) (\<lambda>sorted_modules.
       ts_lift (rfold (add_section modules) \<lparr> c_sections = [''__main__''], c_headers = [], c_precedences = [] \<rparr>
         (enumerate 0 sorted_modules)))"

definition classify :: "classifier \<Rightarrow> string \<Rightarrow> string" where
  "classify c file_name =
     (case dget (c_headers c) (path_basename file_name) of Some sec \<Rightarrow> sec | None \<Rightarrow> ''__main__'')"

definition get_section_precedence :: "classifier \<Rightarrow> string \<Rightarrow> int res" where
  "get_section_precedence c sec = (if sec = ''__main__'' then Inr (-1) else dlookup (c_precedences c) sec)"

section \<open>Properties\<close>

lemma module_graph_iff:
  "(d, m) \<in> set (module_graph modules) \<longleftrightarrow> (\<exists>deps hs. dget modules m = Some (deps, hs) \<and> d \<in> set deps)"
proof
  assume "(d, m) \<in> set (module_graph modules)"
  then show "\<exists>deps hs. dget modules m = Some (deps, hs) \<and> d \<in> set deps"
    by (cases "dget modules m") (auto simp: module_graph_def split: option.splits)
next
  assume "\<exists>deps hs. dget modules m = Some (deps, hs) \<and> d \<in> set deps"
  then obtain deps hs where "dget modules m = Some (deps, hs)" "d \<in> set deps" by blast
  moreover have "m \<in> set (dkeys modules)" using calculation by (simp add: in_dkeys_iff)
  ultimately show "(d, m) \<in> set (module_graph modules)" by (auto simp: module_graph_def intro!: bexI [of _ m])
qed

lemma add_section_precedences:
  "add_section modules c (n, m) = Inr c1 \<Longrightarrow> c_precedences c1 = dset (section_name m) (int n) (c_precedences c)"
  by (auto simp: add_section_def Let_def rbind_Inr_iff)

lemma ts_lift_Inr: "ts_lift r = Inr x \<longleftrightarrow> r = Inr x"
  by (cases r) auto

lemma sections_in_order:
  assumes "rfold (add_section modules) c (enumerate n ms) = Inr c'" "distinct ms" "inj_on section_name (set ms)"
  shows "i < length ms \<Longrightarrow> dget (c_precedences c') (section_name (ms ! i)) = Some (int (n + i))"
    and "s \<notin> section_name ` set ms \<Longrightarrow> dget (c_precedences c') s = dget (c_precedences c) s"
proof -
  have "(\<forall>i < length ms. dget (c_precedences c') (section_name (ms ! i)) = Some (int (n + i))) \<and>
      (\<forall>s. s \<notin> section_name ` set ms \<longrightarrow> dget (c_precedences c') s = dget (c_precedences c) s)"
    using assms
  proof (induction ms arbitrary: n c)
    case (Cons m ms)
    then obtain c1 where "add_section modules c (n, m) = Inr c1" and run: "rfold (add_section modules) c1 (enumerate (Suc n) ms) = Inr c'"
      by (auto simp: rbind_Inr_iff)
    from add_section_precedences [OF this(1)] run
    have c1: "dget (c_precedences c1) = (dget (c_precedences c))(section_name m \<mapsto> int n)"
      "rfold (add_section modules) c1 (enumerate (Suc n) ms) = Inr c'" by simp_all
    have IH: "\<forall>i < length ms. dget (c_precedences c') (section_name (ms ! i)) = Some (int (Suc n + i))"
      "\<forall>s. s \<notin> section_name ` set ms \<longrightarrow> dget (c_precedences c') s = dget (c_precedences c1) s"
      using Cons.IH [OF c1(2)] Cons.prems by auto
    have "section_name m \<notin> section_name ` set ms" using Cons.prems(2, 3) by (auto simp: inj_on_def)
    then have first: "dget (c_precedences c') (section_name m) = Some (int n)" using IH(2) c1(1) by simp
    show ?case using IH first c1(1) by (auto simp: less_Suc_eq_0_disj)
  qed simp
  then show "i < length ms \<Longrightarrow> dget (c_precedences c') (section_name (ms ! i)) = Some (int (n + i))"
    "s \<notin> section_name ` set ms \<Longrightarrow> dget (c_precedences c') s = dget (c_precedences c) s" by blast+
qed

lemma precedes_nth:
  assumes "distinct xs" "precedes xs a b"
  shows "\<exists>i j. i < j \<and> j < length xs \<and> xs ! i = a \<and> xs ! j = b"
proof -
  obtain us vs where uv: "xs = us @ vs" "a \<in> set us" "b \<in> set vs" using assms(2) by (auto simp: precedes_def)
  then obtain i k where "i < length us" "us ! i = a" "k < length vs" "vs ! k = b" by (auto simp: in_set_conv_nth)
  then show ?thesis using uv(1) by (intro exI [of _ i] exI [of _ "length us + k"]) (auto simp: nth_append)
qed

text \<open>What the scan relies on in the sort of the modules.\<close>

locale dependency_order =
  fixes order :: "(string list \<Rightarrow> string list) \<Rightarrow> (string \<times> string) list \<Rightarrow> string ts_error + string list"
  assumes each_once: "key_order perm \<Longrightarrow> order perm ps = Inr xs \<Longrightarrow> distinct xs"
    and all_items: "key_order perm \<Longrightarrow> order perm ps = Inr xs \<Longrightarrow> set xs = items ps"
    and parents_first: "key_order perm \<Longrightarrow> order perm ps = Inr xs \<Longrightarrow> (p, c) \<in> set ps \<Longrightarrow> precedes xs p c"
begin

text \<open>Numbering the sections in the order gives a dependency the smaller number.\<close>

lemma sections_of_order:
  assumes "key_order perm" "order perm ps = Inr ms" "inj_on section_name (items ps)" "(d, m) \<in> set ps"
    and "rfold (add_section modules) c (enumerate 0 ms) = Inr c'"
  shows "\<exists>i j. dget (c_precedences c') (section_name d) = Some (int i) \<and>
    dget (c_precedences c') (section_name m) = Some (int j) \<and> i < j"
proof -
  obtain i j where ij: "i < j" "j < length ms" "ms ! i = d" "ms ! j = m"
    using precedes_nth [OF each_once [OF assms(1, 2)] parents_first [OF assms(1, 2, 4)]] by blast
  have "inj_on section_name (set ms)" using assms(1-3) all_items by simp
  note at = sections_in_order(1) [OF assms(5) each_once [OF assms(1, 2)] this]
  have "dget (c_precedences c') (section_name d) = Some (int i)" "dget (c_precedences c') (section_name m) = Some (int j)"
    using at [of i] at [of j] ij by auto
  then show ?thesis using ij(1) by blast
qed

end

interpretation sorted_modules: dependency_order topsort
  by unfold_locales (rule topsort_Inr; assumption)+

lemma section_not_main: "section_name m \<noteq> ''__main__''"
  by (simp add: section_name_def)

text \<open>
  C38: when the scan can order the modules, the section of a module comes after the section of each module that it
  depends on, and the main section before all. (Two modules whose names differ only in hyphens and underscores
  would share a section.)
\<close>

theorem scan_order:
  assumes "scan_sections perm modules = Inr c" "key_order perm"
    and "inj_on section_name (items (module_graph modules))"
    and "dget modules m = Some (deps, hs)" "d \<in> set deps"
  shows "\<exists>i j. get_section_precedence c (section_name d) = Inr i \<and> get_section_precedence c (section_name m) = Inr j \<and>
    get_section_precedence c ''__main__'' = Inr (-1) \<and> -1 < i \<and> i < j"
proof -
  obtain ms where ms: "topsort perm (module_graph modules) = Inr ms"
    and run: "rfold (add_section modules) \<lparr> c_sections = [''__main__''], c_headers = [], c_precedences = [] \<rparr> (enumerate 0 ms) = Inr c"
    using assms(1) by (auto simp: scan_sections_def rbind_Inr_iff ts_lift_Inr)
  have "(d, m) \<in> set (module_graph modules)" using assms(4, 5) by (auto simp: module_graph_iff)
  from sorted_modules.sections_of_order [OF assms(2) ms assms(3) this run]
  obtain i j where "dget (c_precedences c) (section_name d) = Some (int i)"
    "dget (c_precedences c) (section_name m) = Some (int j)" "i < j" by blast
  then show ?thesis by (simp add: get_section_precedence_def dlookup_def section_not_main)
qed

definition sample_modules :: module_table where
  "sample_modules = [(''net'', ([''core''], [''net.h''])), (''core'', ([], [''core.h''])), (''wifi'', ([''net'', ''core''], []))]"

lemma sample_graph: "module_graph sample_modules = [(''core'', ''net''), (''core'', ''wifi''), (''net'', ''wifi'')]"
  by code_simp

lemma scan_order_witness:
  "\<exists>c i j. scan_sections rev sample_modules = Inr c \<and> get_section_precedence c (section_name ''core'') = Inr i \<and>
    get_section_precedence c (section_name ''wifi'') = Inr j \<and> i < j"
proof -
  have "\<not> isl (scan_sections rev sample_modules)" by code_simp
  then obtain c where c: "scan_sections rev sample_modules = Inr c" by (cases "scan_sections rev sample_modules") auto
  have inj: "inj_on section_name (items (module_graph sample_modules))"
    by (simp add: sample_graph items_def inj_on_def section_name_def)
  have "dget sample_modules ''wifi'' = Some ([''net'', ''core''], [])" by (simp add: sample_modules_def)
  from scan_order [OF c key_order_rev inj this, of "''core''"] c show ?thesis by auto
qed

text \<open>A module that depends on none and on which none depends gets no section.\<close>

lemma lonely_module:
  "case scan_sections rev [(''core'', ([], [''core.h'']))] of Inl e \<Rightarrow> False
    | Inr c \<Rightarrow> classify c ''ns3/core.h'' = ''__main__'' \<and> get_section_precedence c (section_name ''core'') = Inl KeyError"
  by code_simp

section \<open>The path of a header\<close>

definition plain_name :: "string \<Rightarrow> bool" where
  "plain_name c \<longleftrightarrow> c \<noteq> [] \<and> CHR ''/'' \<notin> set c \<and> c \<noteq> ''ns3''"

definition below :: "string list \<Rightarrow> string" where
  "below names = concat (map (\<lambda>c. ''/'' @ c) names)"

lemma split_last_name:
  assumes "CHR ''/'' \<notin> set c"
  shows "path_basename (p @ ''/'' @ c) = c" and "p \<noteq> [] \<Longrightarrow> last p \<noteq> CHR ''/'' \<Longrightarrow> path_dirname (p @ ''/'' @ c) = p"
    and "path_dirname (''/'' @ c) = ''/''"
proof -
  have t: "takeWhile (\<lambda>x. x \<noteq> CHR ''/'') (rev c @ CHR ''/'' # r) = rev c" for r
    using assms by (subst takeWhile_append2) auto
  have d: "dropWhile (\<lambda>x. x \<noteq> CHR ''/'') (rev c @ CHR ''/'' # r) = CHR ''/'' # r" for r
    using assms by (subst dropWhile_append2) auto
  show "path_basename (p @ ''/'' @ c) = c" using t [of "rev p"] by (simp add: path_basename_def)
  show "path_dirname (''/'' @ c) = ''/''" using d [of "[]"] by (simp add: path_dirname_def)
  assume p: "p \<noteq> []" "last p \<noteq> CHR ''/''"
  then have "dropWhile (\<lambda>x. x = CHR ''/'') (rev p) = rev p" by (cases p rule: rev_cases) auto
  moreover have "\<not> list_all (\<lambda>x. x = CHR ''/'') p" using p by (cases p rule: rev_cases) auto
  ultimately show "path_dirname (p @ ''/'' @ c) = p" using d [of "rev p"] by (simp add: path_dirname_def Let_def)
qed

lemma last_below: "list_all plain_name names \<Longrightarrow> p \<noteq> [] \<Longrightarrow> last p \<noteq> CHR ''/'' \<Longrightarrow> last (p @ below names) \<noteq> CHR ''/''"
proof (cases names rule: rev_cases)
  case (snoc ns n)
  assume "list_all plain_name names"
  then have "n \<noteq> []" "last n \<noteq> CHR ''/''" using snoc by (auto simp: plain_name_def dest: last_in_set)
  then show ?thesis using snoc by (simp add: below_def)
qed (simp add: below_def)

lemma climb:
  assumes "p \<noteq> []" "last p \<noteq> CHR ''/''"
  shows "list_all plain_name names \<Longrightarrow> relative_loop (p @ below names) l = relative_loop p (names @ l)"
proof (induction names arbitrary: l rule: rev_induct)
  case Nil
  then show ?case by (simp add: below_def)
next
  case (snoc n ns)
  let ?q = "p @ below ns"
  have "plain_name n" and ns: "list_all plain_name ns" using snoc.prems by simp_all
  then have n: "CHR ''/'' \<notin> set n" "n \<noteq> ''ns3''" by (simp_all add: plain_name_def)
  have "?q \<noteq> []" "last ?q \<noteq> CHR ''/''" using assms last_below [OF ns assms] by simp_all
  note parts = split_last_name(1, 2) [OF n(1), of ?q] this
  have "p @ below (ns @ [n]) = ?q @ ''/'' @ n" by (simp add: below_def)
  then have "relative_loop (p @ below (ns @ [n])) l = relative_loop ?q (n # l)"
    using parts n(2) by (subst relative_loop.simps) (simp add: path_split_def)
  then show ?case using snoc.IH [OF ns] by simp
qed

lemma join_names:
  "list_all plain_name (n # ns) \<Longrightarrow> foldl path_join n ns = n @ below ns"
proof (induction ns rule: rev_induct)
  case (snoc m ms)
  have "n \<noteq> []" "last n \<noteq> CHR ''/''" using snoc.prems by (auto simp: plain_name_def dest: last_in_set)
  then have "n @ below ms \<noteq> []" "last (n @ below ms) \<noteq> CHR ''/''"
    using last_below [of ms n] snoc.prems by simp_all
  moreover have "\<not> startswith m ''/''" using snoc.prems by (cases m) (auto simp: plain_name_def)
  ultimately have "path_join (n @ below ms) m = n @ below (ms @ [m])" by (simp add: path_join_def below_def)
  then show ?case using snoc by simp
qed (simp add: below_def)

lemma root_stuck:
  assumes "relative_loop head l = Some r"
  shows "head \<noteq> ''/''"
proof -
  have root: "path_split ''/'' = (''/'', [])" by code_simp
  show ?thesis
    by (rule relative_loop.raw_induct [where P = "\<lambda>head l r. head \<noteq> ''/''", OF _ assms]) (fastforce simp: root)
qed

text \<open>
  The path of a header below the directory \<open>ns3\<close>. It is what comes behind that directory; the directory itself
  is a \<open>TypeError\<close>. A relative path without it is an \<open>AssertionError\<close>, and an absolute one sends the
  function into a loop that never ends.
\<close>

theorem relative_path_spec:
  assumes "list_all plain_name (name # names)"
  shows "get_ns3_relative_path (base @ ''/ns3/'' @ name @ below names) = Some (Inr (name @ below names)) \<and>
    get_ns3_relative_path (base @ ''/ns3'') = Some (Inl TypeError) \<and>
    get_ns3_relative_path (name @ below names) = Some (Inl AssertionError) \<and>
    get_ns3_relative_path (below (name # names)) = None"
proof (intro conjI)
  have at: "relative_loop (base @ ''/ns3'') l = (case l of [] \<Rightarrow> Some (Inl TypeError) | p # ps \<Rightarrow> Some (Inr (foldl path_join p ps)))" for l
    using split_last_name(1) [of "''ns3''" base] by (subst relative_loop.simps) (simp add: path_split_def)
  have n: "name \<noteq> []" "CHR ''/'' \<notin> set name" "name \<noteq> ''ns3''" "last name \<noteq> CHR ''/''"
    using assms(1) by (auto simp: plain_name_def dest: last_in_set)
  have "base @ ''/ns3/'' @ name @ below names = (base @ ''/ns3'') @ below (name # names)" by (simp add: below_def)
  then show "get_ns3_relative_path (base @ ''/ns3/'' @ name @ below names) = Some (Inr (name @ below names))"
    using climb [of "base @ ''/ns3''" "name # names" "[]"] assms(1) at join_names [OF assms(1)]
    by (simp add: get_ns3_relative_path_def)
  show "get_ns3_relative_path (base @ ''/ns3'') = Some (Inl TypeError)" using at [of "[]"] by (simp add: get_ns3_relative_path_def)
  have "dropWhile (\<lambda>c. c \<noteq> CHR ''/'') (rev name) = []" "takeWhile (\<lambda>c. c \<noteq> CHR ''/'') (rev name) = rev name"
    using n(2) by (auto simp: dropWhile_eq_Nil_conv takeWhile_eq_all_conv)
  then have "path_dirname name = []" "path_basename name = name"
    by (simp_all only: path_dirname_def path_basename_def Let_def rev.simps list.pred_inject if_True rev_rev_ident)
  then have "relative_loop name l = relative_loop [] (name # l)" for l
    using n(1, 3) by (subst relative_loop.simps) (simp add: path_split_def)
  then have "relative_loop name l = Some (Inl AssertionError)" for l by (simp add: relative_loop.simps)
  then show "get_ns3_relative_path (name @ below names) = Some (Inl AssertionError)"
    using climb [of name names "[]"] assms(1) n by (simp add: get_ns3_relative_path_def)
  have stuck: "relative_loop ''/'' l = None" for l using root_stuck [of "''/''" l] by (cases "relative_loop ''/'' l") auto
  have "relative_loop (''/'' @ name) l = None" for l
    using split_last_name(1) [OF n(2), of "[]"] split_last_name(3) [OF n(2)] n(3) stuck
    by (subst relative_loop.simps) (simp add: path_split_def)
  moreover have "below (name # names) = (''/'' @ name) @ below names" by (simp add: below_def)
  ultimately show "get_ns3_relative_path (below (name # names)) = None"
    using climb [of "''/'' @ name" names "[]"] assms(1) n by (simp add: get_ns3_relative_path_def)
qed

lemma relative_path_witness:
  "get_ns3_relative_path ''/usr/ns3/core/a.h'' = Some (Inr ''core/a.h'') \<and> get_ns3_relative_path ''/core/a.h'' = None"
proof -
  have "list_all plain_name [''core'', ''a.h'']" by (simp add: plain_name_def)
  from relative_path_spec [OF this, of "''/usr''"] show ?thesis by (simp add: below_def)
qed

text \<open>
  The annotations of the parameters are used up: a second declaration with the same text gets none.
\<close>

lemma params_used_up:
  assumes "dget (s_table s) (d_text d) = Some annotations" "dget annotations ''params'' = Some (AParams ps)"
  shows "s_params (call_rules d (call_rules d s)) = s_params (call_rules d s)"
proof -
  let ?rest = "ddel ''params'' annotations"
  have "dget ?rest ''params'' = None" by (simp add: dget_ddel)
  moreover have "s_table (call_rules d s) = dset (d_text d) ?rest (s_table s)" using assms by (simp add: call_rules_def Let_def)
  ultimately show ?thesis using assms by (simp add: call_rules_def [of d "call_rules d s"])
qed

end
