(* ===== verification/Patches.thy ===== *)
theory Patches
  imports Prelude
begin

text \<open>
  Patches in \<open>utils/check-style.py\<close>: the classes \<open>PatchChunkLine\<close>, \<open>PatchChunk\<close> and \<open>Patch\<close>,
  the parser \<open>parse_patchset\<close>, the writers, and \<open>remove_trailing_whitespace_changes\<close>. The
  lines of a chunk are objects that the source side and the target side of the chunk share, so
  a side is the list of positions of its lines, and changing a line changes it on both sides.
\<close>

section \<open>The data\<close>

datatype line_type = NoType | SRC | DST | BOTH

record patch_line =
  line_type :: line_type
  line_text :: string

definition new_line :: patch_line where
  "new_line = \<lparr> line_type = NoType, line_text = [] \<rparr>"

definition set_src :: "string \<Rightarrow> patch_line \<Rightarrow> patch_line" where
  "set_src s l = l\<lparr> line_type := SRC, line_text := s \<rparr>"

definition set_dst :: "string \<Rightarrow> patch_line \<Rightarrow> patch_line" where
  "set_dst s l = l\<lparr> line_type := DST, line_text := s \<rparr>"

definition set_both :: "string \<Rightarrow> patch_line \<Rightarrow> patch_line" where
  "set_both s l = l\<lparr> line_type := BOTH, line_text := s \<rparr>"

definition append_to_line :: "string \<Rightarrow> patch_line \<Rightarrow> patch_line" where
  "append_to_line s l = l\<lparr> line_text := line_text l @ s \<rparr>"

definition is_src :: "patch_line \<Rightarrow> bool" where
  "is_src l \<longleftrightarrow> line_type l = SRC \<or> line_type l = BOTH"

definition is_dst :: "patch_line \<Rightarrow> bool" where
  "is_dst l \<longleftrightarrow> line_type l = DST \<or> line_type l = BOTH"

lemmas line_defs = new_line_def set_src_def set_dst_def set_both_def append_to_line_def
  is_src_def is_dst_def

text \<open>\<open>src_pos\<close> and \<open>dst_pos\<close> are read with \<open>int\<close> from strings of digits.\<close>

record chunk =
  src_pos :: nat
  dst_pos :: nat
  chunk_lines :: "patch_line list"

record patch =
  patch_src :: string
  patch_dst :: string
  chunks :: "chunk list"

definition new_chunk :: "nat \<Rightarrow> nat \<Rightarrow> chunk" where
  "new_chunk s d = \<lparr> src_pos = s, dst_pos = d, chunk_lines = [] \<rparr>"

definition new_patch :: patch where
  "new_patch = \<lparr> patch_src = [], patch_dst = [], chunks = [] \<rparr>"

definition add_line :: "patch_line \<Rightarrow> chunk \<Rightarrow> chunk" where
  "add_line l c = c\<lparr> chunk_lines := chunk_lines c @ [l] \<rparr>"

definition add_chunk :: "chunk \<Rightarrow> patch \<Rightarrow> patch" where
  "add_chunk c p = p\<lparr> chunks := chunks p @ [c] \<rparr>"

text \<open>The lines of one side of a chunk, as positions in the chunk.\<close>

definition side :: "(patch_line \<Rightarrow> bool) \<Rightarrow> patch_line list \<Rightarrow> nat list" where
  "side P ls = filter (\<lambda>i. P (ls ! i)) [0 ..< length ls]"

definition chunk_src :: "chunk \<Rightarrow> nat list" where
  "chunk_src c = side is_src (chunk_lines c)"

definition chunk_dst :: "chunk \<Rightarrow> nat list" where
  "chunk_dst c = side is_dst (chunk_lines c)"

definition src_len :: "chunk \<Rightarrow> nat" where
  "src_len c = length (chunk_src c)"

definition dst_len :: "chunk \<Rightarrow> nat" where
  "dst_len c = length (chunk_dst c)"

section \<open>Writing\<close>

text \<open>The lines written to the file, each with its newline.\<close>

definition write_line :: "patch_line \<Rightarrow> string res" where
  "write_line l =
     (case line_type l of
        SRC \<Rightarrow> Inr (''-'' @ line_text l @ nl)
      | DST \<Rightarrow> Inr (''+'' @ line_text l @ nl)
      | BOTH \<Rightarrow> Inr ('' '' @ line_text l @ nl)
      | NoType \<Rightarrow> Inl PyException)"

definition chunk_header :: "nat \<Rightarrow> nat \<Rightarrow> nat \<Rightarrow> nat \<Rightarrow> string" where
  "chunk_header sp sl dp dl =
     ''@@ -'' @ nat_str sp @ '','' @ nat_str sl @ '' +'' @ nat_str dp @ '','' @ nat_str dl @ '' @@'' @ nl"

definition write_chunk :: "chunk \<Rightarrow> string list res" where
  "write_chunk c =
     rbind (rmap write_line (chunk_lines c)) (\<lambda>ls.
       Inr (chunk_header (src_pos c) (src_len c) (dst_pos c) (dst_len c) # ls))"

definition write_patch :: "patch \<Rightarrow> string list res" where
  "write_patch p =
     rbind (rmap write_chunk (chunks p)) (\<lambda>cs.
       Inr ((''--- '' @ patch_src p @ nl) # (''+++ '' @ patch_dst p @ nl) # concat cs))"

section \<open>Parsing\<close>

text \<open>
  A regular expression of the form \<open>^prefix(.*)$\<close>: the rest of the line, without the newline
  that may end it; a newline elsewhere prevents the match.
\<close>

definition match_prefix :: "string \<Rightarrow> string \<Rightarrow> string option" where
  "match_prefix pre line =
     (let body = takeWhile (\<lambda>c. c \<noteq> CHR 0x0A) line; rest = dropWhile (\<lambda>c. c \<noteq> CHR 0x0A) line
      in if startswith body pre \<and> (rest = [] \<or> rest = nl) then Some (drop (length pre) body) else None)"

text \<open>\<open>([0-9]+)\<close> and a literal text in the expression of the chunk header.\<close>

definition match_number :: "string \<Rightarrow> (nat \<times> string) option" where
  "match_number s =
     (let ds = takeWhile is_digit s
      in if ds = [] then None else Some (str_nat ds, dropWhile is_digit s))"

definition match_literal :: "string \<Rightarrow> string \<Rightarrow> string option" where
  "match_literal lit s = (if startswith s lit then Some (drop (length lit) s) else None)"

definition match_chunk_start :: "string \<Rightarrow> (nat \<times> nat) option" where
  "match_chunk_start line =
     Option.bind (match_literal ''@@ -'' line) (\<lambda>s.
     Option.bind (match_number s) (\<lambda>(a, s).
     Option.bind (match_literal '','' s) (\<lambda>s.
     Option.bind (match_number s) (\<lambda>(b, s).
     Option.bind (match_literal '' +'' s) (\<lambda>s.
     Option.bind (match_number s) (\<lambda>(c, s).
     Option.bind (match_literal '','' s) (\<lambda>s.
     Option.bind (match_number s) (\<lambda>(d, s).
     Option.bind (match_literal '' @@'' s) (\<lambda>s. Some (a, c))))))))))"

text \<open>
  \<open>current_patch\<close> is the last patch (\<open>None\<close> while there is none), \<open>current_chunk\<close> the last chunk
  that was created, which a new file header does not reset: it is the patch and the position in
  it.
\<close>

record parser =
  patchset :: "patch list"
  current_chunk :: "(nat \<times> nat) option"

definition update_last :: "('a \<Rightarrow> 'a) \<Rightarrow> 'a list \<Rightarrow> 'a list" where
  "update_last f xs = (if xs = [] then [] else butlast xs @ [f (last xs)])"

definition update_at :: "nat \<Rightarrow> ('a \<Rightarrow> 'a) \<Rightarrow> 'a list \<Rightarrow> 'a list" where
  "update_at i f xs = (if i < length xs then xs[i := f (xs ! i)] else xs)"

definition put_line :: "patch_line \<Rightarrow> parser \<Rightarrow> parser res" where
  "put_line l st =
     (case current_chunk st of
        None \<Rightarrow> Inl UnboundLocalError
      | Some (p, c) \<Rightarrow>
          Inr (st\<lparr> patchset := update_at p (\<lambda>pt. pt\<lparr> chunks := update_at c (add_line l) (chunks pt) \<rparr>)
                   (patchset st) \<rparr>))"

definition parse_line :: "parser \<Rightarrow> string \<Rightarrow> parser res" where
  "parse_line st line =
     (case match_prefix ''--- '' line of
        Some f \<Rightarrow> Inr (st\<lparr> patchset := patchset st @ [new_patch\<lparr> patch_src := f \<rparr>] \<rparr>)
      | None \<Rightarrow>
     (case match_prefix ''+++ '' line of
        Some f \<Rightarrow>
          if patchset st = [] then Inl AttributeError
          else Inr (st\<lparr> patchset := update_last (\<lambda>p. p\<lparr> patch_dst := f \<rparr>) (patchset st) \<rparr>)
      | None \<Rightarrow>
     (case match_chunk_start line of
        Some (s, d) \<Rightarrow>
          if patchset st = [] then Inl AttributeError
          else Inr (st\<lparr> patchset := update_last (add_chunk (new_chunk s d)) (patchset st),
                        current_chunk := Some (length (patchset st) - 1, length (chunks (last (patchset st)))) \<rparr>)
      | None \<Rightarrow>
     (case match_prefix ''-'' line of
        Some s \<Rightarrow> put_line (set_src s new_line) st
      | None \<Rightarrow>
     (case match_prefix ''+'' line of
        Some s \<Rightarrow> put_line (set_dst s new_line) st
      | None \<Rightarrow>
     (case match_prefix '' '' line of
        Some s \<Rightarrow> put_line (set_both s new_line) st
      | None \<Rightarrow> Inl PyException))))))"

definition parse_patchset :: "string list \<Rightarrow> patch list res" where
  "parse_patchset generator =
     rbind (rfold parse_line \<lparr> patchset = [], current_chunk = None \<rparr> generator) (\<lambda>st.
       Inr (patchset st))"

section \<open>The parser reads back what was written\<close>

text \<open>
  A source line that starts with two minus signs and a blank, and a target line that starts with
  two plus signs and a blank, look like a file header once their sign is in front.
\<close>

definition line_ok :: "patch_line \<Rightarrow> bool" where
  "line_ok l \<longleftrightarrow> line_type l \<noteq> NoType \<and> CHR 0x0A \<notin> set (line_text l) \<and>
     \<not> (line_type l = SRC \<and> startswith (line_text l) ''-- '') \<and>
     \<not> (line_type l = DST \<and> startswith (line_text l) ''++ '')"

definition patch_ok :: "patch \<Rightarrow> bool" where
  "patch_ok p \<longleftrightarrow> CHR 0x0A \<notin> set (patch_src p) \<and> CHR 0x0A \<notin> set (patch_dst p) \<and>
     list_all (\<lambda>c. list_all line_ok (chunk_lines c)) (chunks p)"

lemma match_prefix_nl:
  "CHR 0x0A \<notin> set body \<Longrightarrow>
   match_prefix pre (body @ nl) = (if startswith body pre then Some (drop (length pre) body) else None)"
proof -
  assume "CHR 0x0A \<notin> set body"
  then have "takeWhile (\<lambda>c. c \<noteq> CHR 0x0A) (body @ nl) = body" "dropWhile (\<lambda>c. c \<noteq> CHR 0x0A) (body @ nl) = nl"
    by (induction body) (auto simp: nl_def)
  then show ?thesis by (simp add: match_prefix_def)
qed

lemma match_number_nat_str: "\<not> is_digit c \<Longrightarrow> match_number (nat_str n @ c # r) = Some (n, c # r)"
proof -
  assume "\<not> is_digit c"
  then have "takeWhile is_digit (nat_str n @ c # r) = nat_str n"
    "dropWhile is_digit (nat_str n @ c # r) = c # r"
    using nat_str_digits [of n] by (simp_all add: takeWhile_append2 dropWhile_append2)
  then show ?thesis by (simp add: match_number_def)
qed

lemma not_digit [simp]: "\<not> is_digit CHR '',''" "\<not> is_digit CHR '' ''"
  by (simp_all add: is_digit_def)

lemma match_chunk_header: "match_chunk_start (chunk_header a b c d) = Some (a, c)"
  by (simp add: match_chunk_start_def chunk_header_def match_literal_def match_number_nat_str)

lemma match_prefix_header: "p \<noteq> CHR ''@'' \<Longrightarrow> match_prefix (p # ps) (chunk_header a b c d) = None"
  by (simp add: match_prefix_def chunk_header_def Let_def)

text \<open>Where the parser stands while it reads the lines of a chunk.\<close>

definition at_chunk :: "patch list \<Rightarrow> patch \<Rightarrow> chunk list \<Rightarrow> chunk \<Rightarrow> parser" where
  "at_chunk ps p cs c = \<lparr> patchset = ps @ [p\<lparr> chunks := cs @ [c] \<rparr>],
     current_chunk = Some (length ps, length cs) \<rparr>"

lemma put_line_at_chunk: "put_line l (at_chunk ps p cs c) = Inr (at_chunk ps p cs (add_line l c))"
  by (simp add: put_line_def at_chunk_def update_at_def)

lemma parse_written_line:
  assumes "line_ok l"
  shows "\<exists>s. write_line l = Inr s \<and> parse_line (at_chunk ps p cs c) s = Inr (at_chunk ps p cs (add_line l c))"
proof -
  obtain t x where l: "l = \<lparr> line_type = t, line_text = x \<rparr>" by (cases l)
  have x: "CHR 0x0A \<notin> set x" using assms by (simp add: line_ok_def l)
  note mp = match_prefix_nl [of "CHR ''-'' # x"] match_prefix_nl [of "CHR ''+'' # x"]
    match_prefix_nl [of "CHR '' '' # x"]
  show ?thesis
    using assms x mp
    by (cases t) (auto simp: line_ok_def l write_line_def parse_line_def match_chunk_start_def
        match_literal_def put_line_at_chunk line_defs)
qed

lemma parse_written_lines:
  "list_all line_ok ls \<Longrightarrow>
   \<exists>ss. rmap write_line ls = Inr ss \<and> rfold parse_line (at_chunk ps p cs c) ss =
     Inr (at_chunk ps p cs (c\<lparr> chunk_lines := chunk_lines c @ ls \<rparr>))"
proof (induction ls arbitrary: c)
  case (Cons l ls)
  then obtain s where s: "write_line l = Inr s"
    "parse_line (at_chunk ps p cs c) s = Inr (at_chunk ps p cs (add_line l c))"
    using parse_written_line [of l ps p cs c] by auto
  obtain ss where "rmap write_line ls = Inr ss" "rfold parse_line (at_chunk ps p cs (add_line l c)) ss =
      Inr (at_chunk ps p cs ((add_line l c)\<lparr> chunk_lines := chunk_lines (add_line l c) @ ls \<rparr>))"
    using Cons.IH [of "add_line l c"] Cons.prems by auto
  with s show ?case by (auto simp: add_line_def)
qed simp

text \<open>Where the parser stands between two chunks; a stale \<open>current_chunk\<close> does not matter.\<close>

definition after_header :: "patch list \<Rightarrow> patch \<Rightarrow> parser \<Rightarrow> bool" where
  "after_header ps p st \<longleftrightarrow> patchset st = ps @ [p]"

lemma parse_written_chunk:
  assumes "after_header ps p st" "list_all line_ok (chunk_lines c)"
  shows "\<exists>ss st'. write_chunk c = Inr ss \<and> rfold parse_line st ss = Inr st' \<and>
    after_header ps (p\<lparr> chunks := chunks p @ [c] \<rparr>) st'"
proof -
  let ?c = "new_chunk (src_pos c) (dst_pos c)"
  have head: "parse_line st (chunk_header (src_pos c) (src_len c) (dst_pos c) (dst_len c)) =
      Inr (at_chunk ps p (chunks p) ?c)"
    using assms(1)
    by (simp add: parse_line_def match_prefix_header match_chunk_header after_header_def at_chunk_def
        update_last_def add_chunk_def)
  obtain ss where ss: "rmap write_line (chunk_lines c) = Inr ss"
    "rfold parse_line (at_chunk ps p (chunks p) ?c) ss =
      Inr (at_chunk ps p (chunks p) (?c\<lparr> chunk_lines := chunk_lines ?c @ chunk_lines c \<rparr>))"
    using parse_written_lines [OF assms(2)] by blast
  have "?c\<lparr> chunk_lines := chunk_lines ?c @ chunk_lines c \<rparr> = c" by (simp add: new_chunk_def)
  then show ?thesis
    using head ss by (simp add: write_chunk_def after_header_def at_chunk_def)
qed

lemma parse_written_chunks:
  assumes "after_header ps p st" "list_all (\<lambda>c. list_all line_ok (chunk_lines c)) cs"
  shows "\<exists>sss st'. rmap write_chunk cs = Inr sss \<and> rfold parse_line st (concat sss) = Inr st' \<and>
    after_header ps (p\<lparr> chunks := chunks p @ cs \<rparr>) st'"
  using assms
proof (induction cs arbitrary: p st)
  case Nil
  then show ?case by simp
next
  case (Cons c cs)
  obtain ss st' where c: "write_chunk c = Inr ss" "rfold parse_line st ss = Inr st'"
    "after_header ps (p\<lparr> chunks := chunks p @ [c] \<rparr>) st'"
    using parse_written_chunk [OF Cons.prems(1), of c] Cons.prems(2) by auto
  obtain sss st'' where "rmap write_chunk cs = Inr sss" "rfold parse_line st' (concat sss) = Inr st''"
    "after_header ps (p\<lparr> chunks := chunks p @ c # cs \<rparr>) st''"
    using Cons.IH [OF c(3)] Cons.prems(2) by auto
  with c show ?case by auto
qed

lemma parse_written_patch:
  assumes "patch_ok p"
  shows "\<exists>ss st'. write_patch p = Inr ss \<and> rfold parse_line st ss = Inr st' \<and>
    patchset st' = patchset st @ [p]"
proof -
  let ?p = "new_patch\<lparr> patch_src := patch_src p, patch_dst := patch_dst p \<rparr>"
  have n: "CHR 0x0A \<notin> set (''--- '' @ patch_src p)" "CHR 0x0A \<notin> set (''+++ '' @ patch_dst p)"
    using assms by (auto simp: patch_ok_def)
  obtain st1 where st1: "parse_line st (''--- '' @ patch_src p @ nl) = Inr st1"
    "patchset st1 = patchset st @ [new_patch\<lparr> patch_src := patch_src p \<rparr>]"
    using match_prefix_nl [OF n(1), of "''--- ''"] by (auto simp: parse_line_def)
  have "match_prefix ''--- '' (''+++ '' @ patch_dst p @ nl) = None"
    using match_prefix_nl [OF n(2), of "''--- ''"] by simp
  then obtain st2 where st2: "parse_line st1 (''+++ '' @ patch_dst p @ nl) = Inr st2"
    "after_header (patchset st) ?p st2"
    using match_prefix_nl [OF n(2), of "''+++ ''"] st1(2)
    by (auto simp: parse_line_def after_header_def update_last_def)
  obtain sss st' where "rmap write_chunk (chunks p) = Inr sss" "rfold parse_line st2 (concat sss) = Inr st'"
    "after_header (patchset st) (?p\<lparr> chunks := chunks ?p @ chunks p \<rparr>) st'"
    using parse_written_chunks [OF st2(2), of "chunks p"] assms by (auto simp: patch_ok_def)
  moreover have "?p\<lparr> chunks := chunks ?p @ chunks p \<rparr> = p" by (simp add: new_patch_def)
  ultimately show ?thesis
    using st1(1) st2(1) unfolding write_patch_def after_header_def by (auto simp del: append_Cons)
qed

text \<open>
  C27: \<open>parse_patchset\<close> reads back every list of patches that \<open>Patch.write\<close> can write, provided
  no name or line contains a newline and no line looks like a file header: names, positions, the
  kinds of the lines and their order are recovered.
\<close>

theorem parse_write_patchset:
  assumes "list_all patch_ok ps"
  shows "\<exists>sss. rmap write_patch ps = Inr sss \<and> parse_patchset (concat sss) = Inr ps"
proof -
  have "\<exists>sss st'. rmap write_patch qs = Inr sss \<and> rfold parse_line st (concat sss) = Inr st' \<and>
      patchset st' = patchset st @ qs" if "list_all patch_ok qs" for qs st
    using that
  proof (induction qs arbitrary: st)
    case (Cons q qs)
    obtain ss st1 where q: "write_patch q = Inr ss" "rfold parse_line st ss = Inr st1"
      "patchset st1 = patchset st @ [q]"
      using parse_written_patch [of q st] Cons.prems by auto
    with Cons.IH [of st1] Cons.prems show ?case by auto
  qed simp
  from this [OF assms, of "\<lparr> patchset = [], current_chunk = None \<rparr>"] show ?thesis
    by (auto simp: parse_patchset_def)
qed

definition sample_patch :: patch where
  "sample_patch = \<lparr> patch_src = ''a/x.cc'', patch_dst = ''b/x.cc'',
     chunks = [\<lparr> src_pos = 1, dst_pos = 1, chunk_lines =
       [set_both ''int f ()'' new_line, set_src ''{ '' new_line, set_dst ''{'' new_line] \<rparr>] \<rparr>"

theorem parse_write_patchset_witness:
  "\<exists>sss. rmap write_patch [sample_patch] = Inr sss \<and> parse_patchset (concat sss) = Inr [sample_patch]"
  by (rule parse_write_patchset) (simp add: sample_patch_def patch_ok_def line_ok_def line_defs)

text \<open>
  Without the proviso the text is misread: a removed line \<open>-- x\<close> turns into a file header. And the
  short form of a chunk header, which \<open>difflib\<close> of Python 2.7 uses for a range of one line, is
  rejected.
\<close>

lemma removed_line_misread:
  "map_sum id length (parse_patchset [''--- a'', ''+++ b'', ''@@ -1,1 +1,0 @@'', ''--- x'']) = Inr 2"
  by code_simp

lemma short_header_rejected:
  "parse_patchset [''--- a'', ''+++ b'', ''@@ -1 +1 @@''] = Inl PyException"
  by code_simp

section \<open>Undoing changes of trailing white space\<close>

text \<open>
  The expression \<open>^(.*)([ \t]+)$\<close> on a line without newline: the first group is greedy, so the
  second one is the last character.
\<close>

definition whitespace :: "string \<Rightarrow> (string \<times> string) option" where
  "whitespace s =
     (if s \<noteq> [] \<and> (last s = CHR '' '' \<or> last s = CHR 0x09) then Some (butlast s, [last s]) else None)"

text \<open>
  The loop over \<open>src\<close> for one chunk; \<open>False\<close> when \<open>dst[i]\<close> raised \<open>IndexError\<close>, which ends the
  function.
\<close>

fun fix_lines :: "nat list \<Rightarrow> nat list \<Rightarrow> patch_line list \<Rightarrow> bool \<times> patch_line list" where
  "fix_lines [] dst ls = (True, ls)"
| "fix_lines (s # src) [] ls = (False, ls)"
| "fix_lines (s # src) (d # dst) ls =
     (case whitespace (line_text (ls ! s)) of
        Some (g1, g2) \<Rightarrow>
          if g1 = line_text (ls ! d) then fix_lines src dst (update_at d (append_to_line g2) ls)
          else fix_lines src dst ls
      | None \<Rightarrow> fix_lines src dst ls)"

definition fix_chunk :: "chunk \<Rightarrow> bool \<times> chunk" where
  "fix_chunk c =
     (case fix_lines (chunk_src c) (chunk_dst c) (chunk_lines c) of
        (ok, ls) \<Rightarrow> (ok, c\<lparr> chunk_lines := ls \<rparr>))"

fun fix_all :: "('a \<Rightarrow> bool \<times> 'a) \<Rightarrow> 'a list \<Rightarrow> bool \<times> 'a list" where
  "fix_all f [] = (True, [])"
| "fix_all f (x # xs) =
     (case f x of
        (False, x') \<Rightarrow> (False, x' # xs)
      | (True, x') \<Rightarrow> (case fix_all f xs of (ok, xs') \<Rightarrow> (ok, x' # xs')))"

definition fix_patch :: "patch \<Rightarrow> bool \<times> patch" where
  "fix_patch p = (case fix_all fix_chunk (chunks p) of (ok, cs) \<Rightarrow> (ok, p\<lparr> chunks := cs \<rparr>))"

definition remove_trailing_whitespace_changes :: "string list \<Rightarrow> patch list res" where
  "remove_trailing_whitespace_changes patch_generator =
     rbind (parse_patchset patch_generator) (\<lambda>ps. Inr (snd (fix_all fix_patch ps)))"

text \<open>
  What the loop is after, line by line: the target line number \<open>i\<close> gets the text of the source
  line number \<open>i\<close> back when the source line is the target line and one blank or tab more.
\<close>

definition restored :: "patch_line list \<Rightarrow> nat \<Rightarrow> patch_line" where
  "restored ls p =
     (let l = ls ! p; i = length (filter is_dst (take p ls)); src = side is_src ls
      in if is_dst l \<and> i < length src \<and> map_option fst (whitespace (line_text (ls ! (src ! i)))) = Some (line_text l)
         then l\<lparr> line_text := line_text (ls ! (src ! i)) \<rparr> else l)"

text \<open>
  The chunks for which this is what happens: each source line is paired either with itself or
  with an added line, and no source line is left over.
\<close>

definition aligned :: "patch_line list \<Rightarrow> bool" where
  "aligned ls \<longleftrightarrow> length (side is_src ls) \<le> length (side is_dst ls) \<and>
     list_all (\<lambda>(s, d). s = d \<or> \<not> is_src (ls ! d)) (zip (side is_src ls) (side is_dst ls))"

lemma side_snoc: "side P (ls @ [l]) = side P ls @ (if P l then [length ls] else [])"
proof -
  have "filter (\<lambda>i. P ((ls @ [l]) ! i)) [0 ..< length ls] = filter (\<lambda>i. P (ls ! i)) [0 ..< length ls]"
    by (rule filter_cong) (auto simp: nth_append)
  then show ?thesis by (simp add: side_def)
qed

lemma length_side: "length (side P ls) = length (filter P ls)"
  by (induction ls rule: rev_induct) (simp_all add: side_snoc, simp add: side_def)

lemma side_nth:
  "j < length (side P ls) \<Longrightarrow>
   side P ls ! j < length ls \<and> P (ls ! (side P ls ! j)) \<and> length (filter P (take (side P ls ! j) ls)) = j"
proof (induction ls rule: rev_induct)
  case (snoc l ls)
  show ?case
  proof (cases "j < length (side P ls)")
    case True
    then show ?thesis using snoc by (auto simp: side_snoc nth_append)
  next
    case False
    then have j: "P l" "j = length (side P ls)"
      using snoc.prems by (auto simp: side_snoc split: if_splits)
    then show ?thesis by (simp add: side_snoc nth_append length_side)
  qed
qed (simp add: side_def)

lemma side_props [simp]: "distinct (side P ls)" "p \<in> set (side P ls) \<longleftrightarrow> p < length ls \<and> P (ls ! p)"
  by (auto simp: side_def)

text \<open>The effect of the loop on lists of positions that do not disturb each other.\<close>

definition paired :: "patch_line list \<Rightarrow> (nat \<times> nat) list \<Rightarrow> nat \<Rightarrow> patch_line" where
  "paired ls prs p =
     (case find (\<lambda>(s, d). d = p \<and> map_option fst (whitespace (line_text (ls ! s))) = Some (line_text (ls ! d))) prs of
        Some (s, d) \<Rightarrow> (ls ! p)\<lparr> line_text := line_text (ls ! s) \<rparr>
      | None \<Rightarrow> ls ! p)"

lemma whitespace_Some:
  "whitespace s = Some (a, b) \<Longrightarrow> s = a @ b \<and> a \<noteq> s"
  by (cases s rule: rev_cases) (auto simp: whitespace_def split: if_splits)

lemma find_in_set: "find P xs = Some x \<Longrightarrow> x \<in> set xs"
  by (induction xs) (auto split: if_splits)

lemma fix_lines_paired:
  assumes "distinct dst" "length src \<le> length dst" "set dst \<subseteq> {..< length ls}"
    and "\<forall>(s, d) \<in> set (zip src dst). s = d \<or> \<not> is_src (ls ! d)"
    and "\<forall>s \<in> set src. is_src (ls ! s)"
  shows "fix_lines src dst ls = (True, map (paired ls (zip src dst)) [0 ..< length ls])"
  using assms
proof (induction src arbitrary: dst ls)
  case Nil
  then show ?case by (simp add: paired_def map_nth)
next
  case (Cons s src)
  then obtain d ds where dst: "dst = d # ds" by (cases dst) auto
  let ?m = "map_option fst (whitespace (line_text (ls ! s))) = Some (line_text (ls ! d))"
  show ?case
  proof (cases ?m)
    case False
    have "paired ls ((s, d) # zip src ds) p = paired ls (zip src ds) p" for p
      using False by (auto simp: paired_def)
    moreover have "fix_lines (s # src) (d # ds) ls = fix_lines src ds ls"
      using False by (auto split: option.splits)
    moreover have "fix_lines src ds ls = (True, map (paired ls (zip src ds)) [0 ..< length ls])"
      using Cons.prems by (intro Cons.IH) (auto simp: dst)
    ultimately show ?thesis by (simp add: dst)
  next
    case True
    then obtain a b where ab: "whitespace (line_text (ls ! s)) = Some (a, b)" "a = line_text (ls ! d)" by auto
    note ws = whitespace_Some [OF ab(1)]
    have d: "\<not> is_src (ls ! d)" "d < length ls" using Cons.prems(3,4) ws ab(2) by (auto simp: dst)
    define ls1 where "ls1 = ls[d := (ls ! d)\<lparr> line_text := line_text (ls ! s) \<rparr>]"
    have len: "length ls1 = length ls" by (simp add: ls1_def)
    have same: "ls1 ! p = ls ! p" if "p \<noteq> d" for p using that by (simp add: ls1_def)
    have src: "is_src (ls1 ! p) = is_src (ls ! p)" for p
      using d by (cases "p = d") (auto simp: ls1_def is_src_def)
    have "fix_lines (s # src) (d # ds) ls = fix_lines src ds ls1"
      using ab ws d by (simp add: ls1_def update_at_def append_to_line_def)
    moreover have "fix_lines src ds ls1 = (True, map (paired ls1 (zip src ds)) [0 ..< length ls1])"
      using Cons.prems len by (intro Cons.IH) (auto simp: dst src)
    moreover have "paired ls1 (zip src ds) p = paired ls ((s, d) # zip src ds) p" for p
    proof (cases "p = d")
      case True
      have "d \<notin> set ds" using Cons.prems(1) by (simp add: dst)
      then have "find (\<lambda>(s', d'). d' = d \<and>
          map_option fst (whitespace (line_text (ls1 ! s'))) = Some (line_text (ls1 ! d'))) (zip src ds) = None"
        by (auto simp: find_None_iff dest: set_zip_rightD)
      then show ?thesis using True \<open>?m\<close> d by (simp add: paired_def ls1_def)
    next
      case False
      have "s' \<noteq> d" if "(s', d') \<in> set (zip src ds)" for s' d'
        using Cons.prems(5) d set_zip_leftD [OF that] by auto
      then have "find (\<lambda>(s', d'). d' = p \<and>
            map_option fst (whitespace (line_text (ls1 ! s'))) = Some (line_text (ls1 ! d'))) (zip src ds) =
          find (\<lambda>(s', d'). d' = p \<and>
            map_option fst (whitespace (line_text (ls ! s'))) = Some (line_text (ls ! d'))) (zip src ds)"
        using False by (intro find_cong) (auto simp: same)
      moreover have "line_text (ls1 ! s') = line_text (ls ! s')"
        if "find (\<lambda>(s', d'). d' = p \<and>
            map_option fst (whitespace (line_text (ls ! s'))) = Some (line_text (ls ! d'))) (zip src ds) =
          Some (s', d')" for s' d'
      proof -
        from find_in_set [OF that] have "s' \<noteq> d" by (rule \<open>\<And>s' d'. (s', d') \<in> set (zip src ds) \<Longrightarrow> s' \<noteq> d\<close>)
        then show ?thesis by (simp add: same)
      qed
      ultimately show ?thesis using False by (auto simp: paired_def same split: option.split)
    qed
    ultimately show ?thesis by (simp add: dst ls1_def)
  qed
qed

lemma find_zip:
  assumes "distinct dst" "i < length src" "length src \<le> length dst"
  shows "find (\<lambda>(s, d). d = dst ! i \<and> Q s d) (zip src dst) =
    (if Q (src ! i) (dst ! i) then Some (src ! i, dst ! i) else None)"
  using assms
proof (induction src arbitrary: dst i)
  case (Cons s src)
  then obtain d ds where dst: "dst = d # ds" by (cases dst) auto
  show ?case
  proof (cases i)
    case 0
    have "d \<notin> set ds" using Cons.prems(1) by (simp add: dst)
    then have "find (\<lambda>(s, d'). d' = d \<and> Q s d') (zip src ds) = None"
      by (auto simp: find_None_iff dest: set_zip_rightD)
    then show ?thesis by (simp add: dst 0)
  next
    case (Suc k)
    then have "ds ! k \<noteq> d" using Cons.prems by (auto simp: dst)
    moreover have "find (\<lambda>(s, d'). d' = ds ! k \<and> Q s d') (zip src ds) =
        (if Q (src ! k) (ds ! k) then Some (src ! k, ds ! k) else None)"
      using Cons.prems Suc by (intro Cons.IH) (auto simp: dst)
    ultimately show ?thesis by (auto simp: dst Suc)
  qed
qed simp

lemma paired_restored:
  assumes "aligned ls" "p < length ls"
  shows "paired ls (zip (side is_src ls) (side is_dst ls)) p = restored ls p"
proof (cases "is_dst (ls ! p)")
  case False
  then have "d \<noteq> p" if "(s, d) \<in> set (zip (side is_src ls) (side is_dst ls))" for s d
    using set_zip_rightD [OF that] by auto
  then have "find (\<lambda>(s, d). d = p \<and> map_option fst (whitespace (line_text (ls ! s))) = Some (line_text (ls ! d)))
      (zip (side is_src ls) (side is_dst ls)) = None"
    by (auto simp: find_None_iff)
  with False show ?thesis by (simp add: paired_def restored_def)
next
  case True
  then obtain i where i: "i < length (side is_dst ls)" "side is_dst ls ! i = p"
    using assms(2) side_props(2) [of p is_dst ls] by (metis in_set_conv_nth)
  have cnt: "length (filter is_dst (take p ls)) = i" using side_nth [OF i(1)] i(2) by simp
  show ?thesis
  proof (cases "i < length (side is_src ls)")
    case True
    have "length (side is_src ls) \<le> length (side is_dst ls)" using assms(1) by (simp add: aligned_def)
    from find_zip [OF side_props(1) True this,
        of "\<lambda>s d. map_option fst (whitespace (line_text (ls ! s))) = Some (line_text (ls ! d))"]
    show ?thesis using \<open>is_dst (ls ! p)\<close> True by (simp add: i(2) paired_def restored_def cnt)
  next
    case False
    have "d \<noteq> p" if "(s, d) \<in> set (zip (side is_src ls) (side is_dst ls))" for s d
    proof
      assume "d = p"
      with that obtain j where "j < length (side is_src ls)" "j < length (side is_dst ls)" "side is_dst ls ! j = p"
        by (auto simp: in_set_conv_nth)
      with i False show False by (metis nth_eq_iff_index_eq side_props(1))
    qed
    then have "find (\<lambda>(s, d). d = p \<and> map_option fst (whitespace (line_text (ls ! s))) = Some (line_text (ls ! d)))
        (zip (side is_src ls) (side is_dst ls)) = None"
      by (auto simp: find_None_iff)
    with False show ?thesis by (simp add: paired_def restored_def cnt)
  qed
qed

lemma fix_chunk_aligned:
  assumes "aligned (chunk_lines c)"
  shows "fix_chunk c =
    (True, c\<lparr> chunk_lines := map (restored (chunk_lines c)) [0 ..< length (chunk_lines c)] \<rparr>)"
proof -
  let ?ls = "chunk_lines c"
  have "fix_lines (side is_src ?ls) (side is_dst ?ls) ?ls =
      (True, map (paired ?ls (zip (side is_src ?ls) (side is_dst ?ls))) [0 ..< length ?ls])"
    using assms by (intro fix_lines_paired) (auto simp: aligned_def list_all_iff)
  also have "map (paired ?ls (zip (side is_src ?ls) (side is_dst ?ls))) [0 ..< length ?ls] =
      map (restored ?ls) [0 ..< length ?ls]"
    using paired_restored [OF assms] by simp
  finally show ?thesis by (simp add: fix_chunk_def chunk_src_def chunk_dst_def)
qed

lemma fix_all_True: "(\<And>x. x \<in> set xs \<Longrightarrow> f x = (True, g x)) \<Longrightarrow> fix_all f xs = (True, map g xs)"
  by (induction xs) auto

definition restore_chunk :: "chunk \<Rightarrow> chunk" where
  "restore_chunk c = c\<lparr> chunk_lines := map (restored (chunk_lines c)) [0 ..< length (chunk_lines c)] \<rparr>"

text \<open>
  C28: when every chunk is aligned, \<open>remove_trailing_whitespace_changes\<close> undoes exactly the line
  changes that take away one blank or tab at the end (and only one): it keeps the number, the
  kinds and the order of the lines and all the text of the source side, so the patch still
  applies to the same file.
\<close>

theorem remove_trailing_whitespace_spec:
  assumes "parse_patchset gen = Inr ps"
    and "\<forall>p \<in> set ps. \<forall>c \<in> set (chunks p). aligned (chunk_lines c)"
  shows "remove_trailing_whitespace_changes gen =
      Inr (map (\<lambda>p. p\<lparr> chunks := map restore_chunk (chunks p) \<rparr>) ps) \<and>
    (\<forall>p \<in> set ps. \<forall>c \<in> set (chunks p). \<forall>i < length (chunk_lines c).
      line_type (restored (chunk_lines c) i) = line_type (chunk_lines c ! i) \<and>
      (is_src (chunk_lines c ! i) \<longrightarrow> restored (chunk_lines c) i = chunk_lines c ! i))"
proof (intro conjI ballI allI impI)
  have "fix_chunk c = (True, restore_chunk c)" if "p \<in> set ps" "c \<in> set (chunks p)" for p c
    using fix_chunk_aligned assms(2) that by (auto simp: restore_chunk_def)
  then have "fix_patch p = (True, p\<lparr> chunks := map restore_chunk (chunks p) \<rparr>)" if "p \<in> set ps" for p
    using that by (simp add: fix_patch_def fix_all_True)
  then show "remove_trailing_whitespace_changes gen =
      Inr (map (\<lambda>p. p\<lparr> chunks := map restore_chunk (chunks p) \<rparr>) ps)"
    using assms(1) by (simp add: remove_trailing_whitespace_changes_def fix_all_True)
next
  fix p c i
  show "line_type (restored (chunk_lines c) i) = line_type (chunk_lines c ! i)"
    by (simp add: restored_def Let_def)
next
  fix p c i
  assume pc: "p \<in> set ps" "c \<in> set (chunks p)" and i: "i < length (chunk_lines c)"
    and src: "is_src (chunk_lines c ! i)"
  let ?ls = "chunk_lines c"
  have al: "aligned ?ls" using assms(2) pc by blast
  have "paired ?ls (zip (side is_src ?ls) (side is_dst ?ls)) i = ?ls ! i"
  proof -
    have "\<not> (d = i \<and> map_option fst (whitespace (line_text (?ls ! s))) = Some (line_text (?ls ! d)))"
      if "(s, d) \<in> set (zip (side is_src ?ls) (side is_dst ?ls))" for s d
      using al that src whitespace_Some by (fastforce simp: aligned_def list_all_iff)
    then have "find (\<lambda>(s, d). d = i \<and> map_option fst (whitespace (line_text (?ls ! s))) = Some (line_text (?ls ! d)))
        (zip (side is_src ?ls) (side is_dst ?ls)) = None"
      by (auto simp: find_None_iff)
    then show ?thesis by (simp add: paired_def)
  qed
  then show "restored ?ls i = ?ls ! i" using paired_restored [OF al i] by simp
qed

definition sample_gen :: "string list" where
  "sample_gen = [''--- a'', ''+++ b'', ''@@ -1,2 +1,2 @@'', '' int f ()'', ''-{ '', ''+{'']"

definition sample_parsed :: "patch list" where
  "sample_parsed = [\<lparr> patch_src = ''a'', patch_dst = ''b'',
     chunks = [\<lparr> src_pos = 1, dst_pos = 1, chunk_lines =
       [set_both ''int f ()'' new_line, set_src ''{ '' new_line, set_dst ''{'' new_line] \<rparr>] \<rparr>]"

lemma sample_parse: "parse_patchset sample_gen = Inr sample_parsed"
  by code_simp

theorem remove_trailing_whitespace_witness:
  "remove_trailing_whitespace_changes sample_gen =
     Inr (map (\<lambda>p. p\<lparr> chunks := map restore_chunk (chunks p) \<rparr>) sample_parsed)"
proof -
  have "\<forall>p \<in> set sample_parsed. \<forall>c \<in> set (chunks p). aligned (chunk_lines c)" by code_simp
  from remove_trailing_whitespace_spec [OF sample_parse this] show ?thesis by (rule conjunct1)
qed

text \<open>
  A chunk that is not aligned: the pairing by number goes wrong after an added line, the target
  line that gets the blank back is a line of the context, and so the source side of the patch
  is changed as well.
\<close>

lemma misaligned_context_changed:
  "map_sum id (map (concat \<circ> projr \<circ> write_patch)) (remove_trailing_whitespace_changes
     [''--- a'', ''+++ b'', ''@@ -1,2 +1,1 @@'', ''-x '', '' x'']) =
   Inr [concat (map (\<lambda>l. l @ nl) [''--- a'', ''+++ b'', ''@@ -1,2 +1,1 @@'', ''-x '', '' x ''])]"
  by code_simp

section \<open>Every parsed patch can be written\<close>

lemma match_prefix_Some:
  "match_prefix pre line = Some s \<Longrightarrow> CHR 0x0A \<notin> set s \<and>
    (\<forall>pre'. match_prefix pre' line = None \<longleftrightarrow> \<not> startswith (pre @ s) pre')"
proof -
  let ?body = "takeWhile (\<lambda>c. c \<noteq> CHR 0x0A) line" and ?rest = "dropWhile (\<lambda>c. c \<noteq> CHR 0x0A) line"
  assume "match_prefix pre line = Some s"
  then have m: "startswith ?body pre" "?rest = [] \<or> ?rest = nl" "s = drop (length pre) ?body"
    by (auto simp: match_prefix_def Let_def split: if_splits)
  then have body: "?body = pre @ s" by (metis append_eq_conv_conj startswith_iff)
  have none: "match_prefix pre' line = None \<longleftrightarrow> \<not> startswith ?body pre'" for pre'
    using m(2) by (auto simp: match_prefix_def Let_def)
  have "CHR 0x0A \<notin> set ?body" by (auto dest: set_takeWhileD)
  then show ?thesis unfolding none body by simp
qed

lemma list_all_update_at: "list_all P xs \<Longrightarrow> (\<And>x. P x \<Longrightarrow> P (f x)) \<Longrightarrow> list_all P (update_at i f xs)"
  by (auto simp: update_at_def list_all_iff dest!: set_update_subset_insert [THEN subsetD])

lemma list_all_update_last: "list_all P xs \<Longrightarrow> (\<And>x. P x \<Longrightarrow> P (f x)) \<Longrightarrow> list_all P (update_last f xs)"
  by (cases xs rule: rev_cases) (auto simp: update_last_def)

lemma put_line_ok:
  "put_line l st = Inr st' \<Longrightarrow> line_ok l \<Longrightarrow> list_all patch_ok (patchset st) \<Longrightarrow> list_all patch_ok (patchset st')"
  by (auto simp: put_line_def patch_ok_def add_line_def intro!: list_all_update_at split: option.splits)

lemma parse_line_ok:
  assumes "parse_line st line = Inr st'" "list_all patch_ok (patchset st)"
  shows "list_all patch_ok (patchset st')"
proof -
  have "line_ok (set_src s new_line)" if "match_prefix ''-'' line = Some s" "match_prefix ''--- '' line = None" for s
    using match_prefix_Some [OF that(1)] that(2) by (simp add: line_ok_def line_defs)
  moreover have "line_ok (set_dst s new_line)" if "match_prefix ''+'' line = Some s" "match_prefix ''+++ '' line = None" for s
    using match_prefix_Some [OF that(1)] that(2) by (simp add: line_ok_def line_defs)
  moreover have "line_ok (set_both s new_line)" if "match_prefix '' '' line = Some s" for s
    using match_prefix_Some [OF that(1)] by (simp add: line_ok_def line_defs)
  ultimately show ?thesis
    using assms match_prefix_Some [of "''--- ''" line] match_prefix_Some [of "''+++ ''" line]
    by (auto simp: parse_line_def new_patch_def patch_ok_def new_chunk_def add_chunk_def put_line_ok
        intro!: list_all_update_last split: option.splits if_splits)
qed

lemma parsed_ok:
  assumes "parse_patchset gen = Inr ps"
  shows "list_all patch_ok ps"
proof -
  have "list_all patch_ok (patchset st')"
    if "rfold parse_line st gen = Inr st'" "list_all patch_ok (patchset st)" for st st'
    using that by (induction gen arbitrary: st) (auto simp: rbind_Inr_iff parse_line_ok)
  then show ?thesis using assms by (auto simp: parse_patchset_def rbind_Inr_iff)
qed

definition typed :: "patch \<Rightarrow> bool" where
  "typed p \<longleftrightarrow> list_all (\<lambda>c. list_all (\<lambda>l. line_type l \<noteq> NoType) (chunk_lines c)) (chunks p)"

lemma typed_writes: "typed p \<Longrightarrow> \<exists>ss. write_patch p = Inr ss"
proof -
  have "\<exists>r. write_line l = Inr r" if "line_type l \<noteq> NoType" for l
    using that by (cases "line_type l") (simp_all add: write_line_def)
  then have "\<exists>r. rmap write_line ls = Inr r" if "list_all (\<lambda>l. line_type l \<noteq> NoType) ls" for ls
    using that by (induction ls) fastforce+
  then have "\<exists>r. write_chunk c = Inr r" if "list_all (\<lambda>l. line_type l \<noteq> NoType) (chunk_lines c)" for c
    using that by (fastforce simp: write_chunk_def)
  then have "\<exists>r. rmap write_chunk cs = Inr r"
    if "list_all (\<lambda>c. list_all (\<lambda>l. line_type l \<noteq> NoType) (chunk_lines c)) cs" for cs
    using that by (induction cs) fastforce+
  then show "typed p \<Longrightarrow> \<exists>ss. write_patch p = Inr ss"
    by (fastforce simp: typed_def write_patch_def)
qed

lemma fix_lines_types: "map line_type (snd (fix_lines src dst ls)) = map line_type ls"
proof (induction src dst ls rule: fix_lines.induct)
  case (3 s src d dst ls)
  have "map line_type (update_at d (append_to_line g) ls) = map line_type ls" for g
    by (simp add: update_at_def append_to_line_def map_update list_update_same_conv)
  with 3 show ?case by (auto split: option.split)
qed simp_all

lemma fix_all_set: "x' \<in> set (snd (fix_all f xs)) \<Longrightarrow> \<exists>x \<in> set xs. x' = x \<or> x' = snd (f x)"
proof (induction xs)
  case (Cons x xs)
  then show ?case by (cases "f x"; cases "fst (f x)") (auto split: prod.splits)
qed simp

lemma fix_patch_typed: "typed p \<Longrightarrow> typed (snd (fix_patch p))"
proof -
  assume p: "typed p"
  have "list_all (\<lambda>l. line_type l \<noteq> NoType) (chunk_lines (snd (fix_chunk c)))"
    if "list_all (\<lambda>l. line_type l \<noteq> NoType) (chunk_lines c)" for c
    using that fix_lines_types [of "chunk_src c" "chunk_dst c" "chunk_lines c"]
    by (auto simp: fix_chunk_def list_all_iff split: prod.split) (metis (no_types, lifting) image_eqI imageE list.set_map)
  then show ?thesis
    using p fix_all_set [of _ fix_chunk "chunks p"]
    by (auto simp: typed_def fix_patch_def list_all_iff split: prod.split) (metis snd_conv)+
qed

text \<open>
  C26: every patch that \<open>parse_patchset\<close> returns is well formed: it has no line without a kind, no
  text with a newline and no line that reads as a file header. So \<open>write\<close> never raises its
  exception for it, nor for a patch that \<open>remove_trailing_whitespace_changes\<close> returns.
\<close>

theorem parsed_patches_well_formed:
  assumes "parse_patchset gen = Inr ps"
  shows "list_all patch_ok ps \<and> (\<forall>p \<in> set ps. \<exists>ss. write_patch p = Inr ss) \<and>
    (\<exists>qs. remove_trailing_whitespace_changes gen = Inr qs \<and> length qs = length ps \<and>
       (\<forall>q \<in> set qs. \<exists>ss. write_patch q = Inr ss))"
proof -
  have typed: "typed p" if "p \<in> set ps" for p
    using parsed_ok [OF assms] that by (auto simp: typed_def patch_ok_def line_ok_def list_all_iff)
  let ?qs = "snd (fix_all fix_patch ps)"
  have "typed q" if "q \<in> set ?qs" for q
    using fix_all_set [OF that] typed fix_patch_typed by blast
  moreover have "length (snd (fix_all f xs)) = length xs" for f :: "patch \<Rightarrow> bool \<times> patch" and xs
    by (induction xs) (auto split: prod.split bool.split)
  ultimately show ?thesis
    using assms parsed_ok [OF assms] typed typed_writes by (simp add: remove_trailing_whitespace_changes_def)
qed

theorem parsed_patches_witness:
  "list_all patch_ok sample_parsed \<and>
   (\<exists>qs. remove_trailing_whitespace_changes sample_gen = Inr qs \<and> length qs = 1)"
  using parsed_patches_well_formed [OF sample_parse] by (auto simp: sample_parsed_def)

end
