(* ===== verification/RadBits.thy ===== *)
theory RadBits
  imports Prelude "HOL-Library.Word"
begin

text \<open>
  The binary-string routines of \<open>bindings/python/rad_util.py\<close>: \<open>int2bin\<close>, \<open>bin2int\<close>,
  \<open>reverse\<close>, \<open>lsb\<close>, \<open>gray_encode\<close>, \<open>random_vec\<close> and \<open>binary_range\<close>. Python integers are
  unbounded, so they are \<open>int\<close>; \<open>long\<close> tells whether the argument is a \<open>long\<close>, which only
  shows as the \<open>L\<close> that \<open>hex\<close> appends. The random source of \<open>random_vec\<close> is a parameter.
\<close>

unbundle bit_operations_syntax

section \<open>Binary strings\<close>

definition is_bit :: "char \<Rightarrow> bool" where
  "is_bit c \<longleftrightarrow> c = CHR ''0'' \<or> c = CHR ''1''"

definition bits_val :: "string \<Rightarrow> nat" where
  "bits_val s = foldl (\<lambda>n c. 2 * n + (if c = CHR ''1'' then 1 else 0)) 0 s"

lemma is_bit_chars [simp]: "is_bit CHR ''0''" "is_bit CHR ''1''"
  by (simp_all add: is_bit_def)

lemma foldl_bits:
  "foldl (\<lambda>n c. 2 * n + (if c = CHR ''1'' then 1 else 0)) a s = a * 2 ^ length s + bits_val s"
proof (induction s arbitrary: a)
  case (Cons c s)
  show ?case
    using Cons [of "2 * a + (if c = CHR ''1'' then 1 else 0)"]
      Cons [of "if c = CHR ''1'' then 1 else 0"]
    by (simp add: bits_val_def algebra_simps)
qed (simp add: bits_val_def)

lemma bits_val_Nil [simp]: "bits_val [] = 0"
  by (simp add: bits_val_def)

lemma bits_val_Cons [simp]:
  "bits_val (c # s) = (if c = CHR ''1'' then 2 ^ length s else 0) + bits_val s"
  using foldl_bits [of "if c = CHR ''1'' then 1 else 0" s] by (simp add: bits_val_def)

lemma bits_val_append [simp]: "bits_val (s @ t) = bits_val s * 2 ^ length t + bits_val t"
  by (induction s) (auto simp: algebra_simps power_add)

lemma bits_val_less: "bits_val s < 2 ^ length s"
  by (induction s) auto

lemma bits_val_0_iff: "\<forall>c \<in> set s. is_bit c \<Longrightarrow> bits_val s = 0 \<longleftrightarrow> CHR ''1'' \<notin> set s"
  by (induction s) (auto simp: is_bit_def)

lemma bits_val_replicate [simp]: "bits_val (replicate n CHR ''0'') = 0"
  by (induction n) auto

lemma bits_val_inj:
  "length s = length t \<Longrightarrow> \<forall>c \<in> set s. is_bit c \<Longrightarrow> \<forall>c \<in> set t. is_bit c \<Longrightarrow>
   bits_val s = bits_val t \<Longrightarrow> s = t"
proof (induction s t rule: list_induct2)
  case (Cons c s d t)
  have "bits_val s < 2 ^ length t" "bits_val t < 2 ^ length t"
    using bits_val_less [of s] bits_val_less [of t] Cons.hyps by simp_all
  with Cons show ?case by (auto simp: is_bit_def split: if_splits)
qed simp

section \<open>\<open>int2bin\<close> and \<open>bin2int\<close>\<close>

text \<open>\<open>hex(i)\<close>: a sign, the prefix \<open>0x\<close>, the digits, and \<open>L\<close> for a \<open>long\<close>.\<close>

definition hex_char :: "nat \<Rightarrow> char" where
  "hex_char d = ''0123456789abcdef'' ! d"

fun hex_digits :: "nat \<Rightarrow> string" where
  "hex_digits n = (if n < 16 then [hex_char n] else hex_digits (n div 16) @ [hex_char (n mod 16)])"

declare hex_digits.simps [simp del]

definition py_hex :: "bool \<Rightarrow> int \<Rightarrow> string" where
  "py_hex long i =
     (if i < 0 then ''-'' else '''') @ ''0x'' @ hex_digits (nat \<bar>i\<bar>) @ (if long then ''L'' else '''')"

definition lower_char :: "char \<Rightarrow> char" where
  "lower_char c = (let n = (of_char c :: nat) in if 65 \<le> n \<and> n \<le> 90 then char_of (n + 32) else c)"

definition hex2bin :: "(char, string) dict" where
  "hex2bin = [(CHR ''0'', ''0000''), (CHR ''1'', ''0001''), (CHR ''2'', ''0010''), (CHR ''3'', ''0011''),
              (CHR ''4'', ''0100''), (CHR ''5'', ''0101''), (CHR ''6'', ''0110''), (CHR ''7'', ''0111''),
              (CHR ''8'', ''1000''), (CHR ''9'', ''1001''), (CHR ''a'', ''1010''), (CHR ''b'', ''1011''),
              (CHR ''c'', ''1100''), (CHR ''d'', ''1101''), (CHR ''e'', ''1110''), (CHR ''f'', ''1111'')]"

definition int2bin :: "bool \<Rightarrow> int \<Rightarrow> int \<Rightarrow> string res" where
  "int2bin long i n =
     rbind (rmap (dlookup hex2bin)
              (drop 2 (filter (\<lambda>c. c \<noteq> CHR ''l'') (map lower_char (py_hex long i)))))
       (\<lambda>parts. let result = concat parts in
          if CHR ''1'' \<in> set (py_slice_to result (- n)) then Inl ValueError
          else let result = py_slice_from result (- n)
               in Inr (replicate (nat (n - int (length result))) CHR ''0'' @ result))"

text \<open>
  \<open>int(s, 2)\<close>: white space around the number, one sign and the prefix \<open>0b\<close> are accepted, then
  at least one binary digit.
\<close>

definition strip_sign :: "string \<Rightarrow> bool \<times> string" where
  "strip_sign s = (case s of
       [] \<Rightarrow> (False, [])
     | c # r \<Rightarrow> if c = CHR ''-'' then (True, r) else if c = CHR ''+'' then (False, r) else (False, s))"

definition strip_0b :: "string \<Rightarrow> string" where
  "strip_0b s = (if startswith s ''0b'' \<or> startswith s ''0B'' then drop 2 s else s)"

definition bin2int :: "string \<Rightarrow> int res" where
  "bin2int bin_string =
     (case strip_sign (strip bin_string) of (negative, s) \<Rightarrow>
        let digits = strip_0b s in
        if digits = [] \<or> \<not> list_all is_bit digits then Inl ValueError
        else Inr ((if negative then -1 else 1) * int (bits_val digits)))"

definition reverse :: "'a list \<Rightarrow> 'a list" where
  "reverse input_string = rev input_string"

definition nibble :: "nat \<Rightarrow> string" where
  "nibble d = the (dget hex2bin (hex_char d))"

definition nibble_ok :: "nat \<Rightarrow> bool" where
  "nibble_ok d \<longleftrightarrow> dlookup hex2bin (hex_char d) = Inr (nibble d) \<and> length (nibble d) = 4 \<and>
     bits_val (nibble d) = d \<and> list_all is_bit (nibble d) \<and>
     lower_char (hex_char d) = hex_char d \<and> hex_char d \<noteq> CHR ''l''"

lemma nibbles_ok: "list_all nibble_ok [0..<16]"
  by code_simp

lemma nibble_facts:
  assumes "d < 16"
  shows "dlookup hex2bin (hex_char d) = Inr (nibble d)" "length (nibble d) = 4"
    "bits_val (nibble d) = d" "\<forall>c \<in> set (nibble d). is_bit c"
    "lower_char (hex_char d) = hex_char d" "hex_char d \<noteq> CHR ''l''"
  using nibbles_ok assms by (simp_all add: list_all_iff nibble_ok_def)

lemma hex_digits_bits:
  "\<exists>parts. rmap (dlookup hex2bin) (hex_digits n) = Inr parts \<and> bits_val (concat parts) = n \<and>
     (\<forall>c \<in> set (concat parts). is_bit c)"
proof (induction n rule: hex_digits.induct)
  case (1 n)
  show ?case
  proof (cases "n < 16")
    case True
    then show ?thesis by (subst hex_digits.simps) (simp add: nibble_facts)
  next
    case False
    then obtain parts where parts: "rmap (dlookup hex2bin) (hex_digits (n div 16)) = Inr parts"
      "bits_val (concat parts) = n div 16" "\<forall>c \<in> set (concat parts). is_bit c"
      using 1 by blast
    moreover have "hex_digits n = hex_digits (n div 16) @ [hex_char (n mod 16)]"
      using False by (subst hex_digits.simps) simp
    moreover have "bits_val (concat (parts @ [nibble (n mod 16)])) = n"
      using parts(2) by (simp add: nibble_facts)
    ultimately show ?thesis using nibble_facts [of "n mod 16"] by fastforce
  qed
qed

lemma hex_digits_lower: "filter (\<lambda>c. c \<noteq> CHR ''l'') (map lower_char (hex_digits n)) = hex_digits n"
proof (induction n rule: hex_digits.induct)
  case (1 n)
  then show ?case
    by (cases "n < 16") (subst (1 2) hex_digits.simps, simp add: nibble_facts)+
qed

lemma lower_char_hex [simp]:
  "lower_char (CHR ''0'') = CHR ''0''" "lower_char (CHR ''x'') = CHR ''x''"
  "lower_char (CHR ''L'') = CHR ''l''" "lower_char (CHR ''-'') = CHR ''-''"
  by code_simp+

lemma py_hex_digits:
  "drop 2 (filter (\<lambda>c. c \<noteq> CHR ''l'') (map lower_char (py_hex long (int m)))) = hex_digits m"
  by (simp add: py_hex_def hex_digits_lower)

text \<open>The last \<open>n\<close> characters of a binary string hold its value modulo \<open>2 ^ n\<close>.\<close>

lemma bits_val_suffix:
  assumes "n \<le> length s"
  shows "bits_val (drop (length s - n) s) = bits_val s mod 2 ^ n"
    "bits_val (take (length s - n) s) = bits_val s div 2 ^ n"
proof -
  let ?t = "take (length s - n) s" and ?d = "drop (length s - n) s"
  have "bits_val s = bits_val ?t * 2 ^ n + bits_val ?d"
    using bits_val_append [of ?t ?d] assms by simp
  moreover have "bits_val ?d < 2 ^ n" using bits_val_less [of ?d] assms by simp
  ultimately show "bits_val ?d = bits_val s mod 2 ^ n" "bits_val ?t = bits_val s div 2 ^ n"
    by simp_all
qed

lemma int2bin_long_pad:
  assumes s: "\<forall>c \<in> set s. is_bit c" and n: "0 < n"
  shows "CHR ''1'' \<in> set (py_slice_to s (- int n)) \<longleftrightarrow> 2 ^ n \<le> bits_val s"
    and "bits_val s < 2 ^ n \<Longrightarrow> t = py_slice_from s (- int n) \<Longrightarrow>
      r = replicate (nat (int n - int (length t))) CHR ''0'' @ t \<Longrightarrow>
      length r = n \<and> bits_val r = bits_val s \<and> (\<forall>c \<in> set r. is_bit c)"
proof -
  have b: "py_bound (length s) (- int n) = length s - n" using n by (simp add: py_bound_def nat_diff_distrib')
  have t: "set (take (length s - n) s) \<subseteq> set s" by (rule set_take_subset)
  show "CHR ''1'' \<in> set (py_slice_to s (- int n)) \<longleftrightarrow> 2 ^ n \<le> bits_val s"
  proof (cases "n \<le> length s")
    case True
    have "\<forall>c \<in> set (take (length s - n) s). is_bit c" using s t by blast
    then have "CHR ''1'' \<in> set (py_slice_to s (- int n)) \<longleftrightarrow> bits_val (take (length s - n) s) \<noteq> 0"
      by (simp add: bits_val_0_iff py_slice_to_def b)
    then show ?thesis using True by (simp add: bits_val_suffix div_eq_0_iff not_less)
  next
    case False
    then have "bits_val s < 2 ^ n"
      using bits_val_less [of s] by (meson le_less_trans nat_le_linear power_increasing order_less_le_trans one_le_numeral)
    with False show ?thesis by (simp add: py_slice_to_def b)
  qed
  assume lt: "bits_val s < 2 ^ n" and td: "t = py_slice_from s (- int n)"
    and r: "r = replicate (nat (int n - int (length t))) CHR ''0'' @ t"
  have t': "t = drop (length s - n) s" by (simp add: td py_slice_from_def b)
  have "bits_val t = bits_val s"
    using lt by (cases "n \<le> length s") (simp_all add: t' bits_val_suffix)
  moreover have "length r = n" by (simp add: r t') 
  moreover have "\<forall>c \<in> set t. is_bit c" using s set_drop_subset [of "length s - n" s] by (auto simp: t')
  ultimately show "length r = n \<and> bits_val r = bits_val s \<and> (\<forall>c \<in> set r. is_bit c)"
    using s by (auto simp: r)
qed

lemma int2bin_fits:
  assumes "m < 2 ^ n" "0 < n"
  obtains s where "int2bin long (int m) (int n) = Inr s" "length s = n" "bits_val s = m"
    "\<forall>c \<in> set s. is_bit c"
proof -
  obtain parts where parts: "rmap (dlookup hex2bin) (hex_digits m) = Inr parts"
    "bits_val (concat parts) = m" "\<forall>c \<in> set (concat parts). is_bit c"
    using hex_digits_bits by blast
  define t where "t = py_slice_from (concat parts) (- int n)"
  define r where "r = replicate (nat (int n - int (length t))) CHR ''0'' @ t"
  have "int2bin long (int m) (int n) = Inr r"
    using int2bin_long_pad(1) [OF parts(3) assms(2)] parts assms(1)
    by (simp add: int2bin_def py_hex_digits Let_def r_def t_def)
  then show thesis
    using that int2bin_long_pad(2) [OF parts(3) assms(2) _ t_def r_def] parts(2) assms(1) by simp
qed

lemma strip_bits: "\<forall>c \<in> set s. is_bit c \<Longrightarrow> strip s = s"
proof -
  have id: "dropWhile is_space t = t" if "\<forall>c \<in> set t. is_bit c" for t
    using that by (cases t) (auto simp: is_bit_def is_space_def)
  assume "\<forall>c \<in> set s. is_bit c"
  then show ?thesis by (simp add: strip_def id)
qed

lemma bin2int_bits:
  assumes "\<forall>c \<in> set s. is_bit c" "s \<noteq> []"
  shows "bin2int s = Inr (int (bits_val s))"
proof -
  have no_b: "\<not> is_bit (CHR ''b'')" "\<not> is_bit (CHR ''B'')" by (simp_all add: is_bit_def)
  have "strip_sign s = (False, s)"
    using assms by (cases s) (auto simp: strip_sign_def is_bit_def)
  moreover have "strip_0b s = s"
    using assms(1) no_b by (auto simp: strip_0b_def startswith_iff)
  ultimately show ?thesis using assms by (simp add: bin2int_def strip_bits list_all_iff)
qed

text \<open>
  C40: \<open>int2bin(i, n)\<close> for a width \<open>n > 0\<close> gives exactly \<open>n\<close> binary digits that \<open>bin2int\<close>
  reads back as \<open>i\<close> when \<open>i\<close> fits, raises \<open>ValueError\<close> when \<open>i\<close> is too large, and
  \<open>KeyError\<close> when \<open>i\<close> is negative; an \<open>int\<close> and a \<open>long\<close> are treated alike.
\<close>

theorem int2bin_spec:
  assumes "0 < n"
  shows "if i < 0 then int2bin long i (int n) = Inl KeyError
    else if i < 2 ^ n then \<exists>s. int2bin long i (int n) = Inr s \<and> length s = n \<and>
      set s \<subseteq> {CHR ''0'', CHR ''1''} \<and> bin2int s = Inr i
    else int2bin long i (int n) = Inl ValueError"
proof -
  consider "i < 0" | m where "i = int m" "m < 2 ^ n" | m where "i = int m" "2 ^ n \<le> m"
    by (metis not_less zero_le_imp_eq_int)
  then show ?thesis
  proof cases
    case 1
    then show ?thesis by (simp add: int2bin_def py_hex_def dlookup_def hex2bin_def)
  next
    case 2
    obtain s where s: "int2bin long i (int n) = Inr s" "length s = n" "bits_val s = m"
      "\<forall>c \<in> set s. is_bit c"
      using int2bin_fits [OF 2(2) assms] 2(1) by metis
    have "s \<noteq> []" using s(2) assms by auto
    then have "bin2int s = Inr i" using bin2int_bits [OF s(4)] s(3) 2(1) by simp
    moreover have "i < 2 ^ n" using 2 by (metis of_nat_less_iff of_nat_numeral of_nat_power)
    moreover have "set s \<subseteq> {CHR ''0'', CHR ''1''}" using s(4) by (auto simp: is_bit_def)
    ultimately show ?thesis using s 2(1) by simp
  next
    case 3
    obtain parts where parts: "rmap (dlookup hex2bin) (hex_digits m) = Inr parts"
      "bits_val (concat parts) = m" "\<forall>c \<in> set (concat parts). is_bit c"
      using hex_digits_bits by blast
    have "int2bin long i (int n) = Inl ValueError"
      using int2bin_long_pad(1) [OF parts(3) assms] parts 3
      by (simp add: int2bin_def py_hex_digits Let_def)
    moreover have "\<not> i < 2 ^ n" using 3 by (metis not_less of_nat_less_iff of_nat_numeral of_nat_power)
    ultimately show ?thesis using 3(1) by simp
  qed
qed

theorem int2bin_witness:
  "int2bin True 300 8 = Inl ValueError \<and> int2bin False (-3) 8 = Inl KeyError"
  using int2bin_spec [of 8 300 True] int2bin_spec [of 8 "-3" False] by simp

text \<open>A width of 0 is not honoured: \<open>result[:-0]\<close> is empty and \<open>result[-0:]\<close> is everything.\<close>

lemma int2bin_width_0: "int2bin False 5 0 = Inr ''0101''"
  by code_simp

section \<open>\<open>lsb\<close> and \<open>gray_encode\<close>\<close>

definition lsb :: "int \<Rightarrow> nat \<Rightarrow> int" where
  "lsb x n = x AND (2 ^ n - 1)"

definition gray_encode :: "int \<Rightarrow> int" where
  "gray_encode i = i XOR drop_bit 1 i"

lemma lsb_mod: "lsb x n = x mod 2 ^ n"
  by (simp add: lsb_def mask_eq_exp_minus_1 [symmetric] take_bit_eq_mask [symmetric] take_bit_eq_mod)

text \<open>A step from \<open>i\<close> to \<open>i + 1\<close> flips a block of low bits.\<close>

lemma xor_Suc: "\<exists>k. int n XOR (int n + 1) = 2 ^ Suc k - 1"
proof (induction n rule: less_induct)
  case (less n)
  show ?case
  proof (cases "even n")
    case True
    then obtain j where "n = 2 * j" by (rule evenE)
    then have "int n XOR (int n + 1) = 1" by (subst xor_rec) simp
    then show ?thesis by (intro exI [of _ 0]) simp
  next
    case False
    then obtain j where n: "n = 2 * j + 1" by (metis oddE)
    with less [of j] obtain k where k: "int j XOR (int j + 1) = 2 ^ Suc k - 1" by auto
    have "int n XOR (int n + 1) = (1 + 2 * int j) XOR (2 * (int j + 1))" by (simp add: n algebra_simps)
    also have "\<dots> = 1 + 2 * (int j XOR (int j + 1))" by (subst xor_rec) simp
    also have "\<dots> = 2 ^ Suc (Suc k) - 1" by (simp add: k)
    finally show ?thesis by blast
  qed
qed

lemma gray_encode_xor: "gray_encode i XOR gray_encode j = gray_encode (i XOR j)"
  by (simp add: gray_encode_def ac_simps)

lemma gray_encode_mask: "gray_encode (2 ^ Suc k - 1) = 2 ^ k"
proof -
  have "bit (gray_encode (mask (Suc k))) n = bit (2 ^ k :: int) n" for n
    by (auto simp: gray_encode_def bit_xor_iff bit_drop_bit_eq bit_mask_iff bit_exp_iff)
  then have "gray_encode (mask (Suc k)) = 2 ^ k" by (intro bit_eqI) simp
  then show ?thesis by (simp add: mask_eq_exp_minus_1)
qed

lemma gray_encode_0 [simp]: "gray_encode 0 = 0"
  by (simp add: gray_encode_def)

lemma xor_0_iff: "a XOR b = 0 \<longleftrightarrow> a = (b :: int)"
  by (metis xor.assoc xor.left_neutral xor_self_eq)

lemma gray_encode_zero: "0 \<le> i \<Longrightarrow> gray_encode i = 0 \<Longrightarrow> i = 0"
proof -
  assume i: "0 \<le> i" and "gray_encode i = 0"
  then have "i = drop_bit 1 i" by (simp add: gray_encode_def xor_0_iff)
  then have "i = i div 2" by (simp add: drop_bit_Suc)
  with i show ?thesis by presburger
qed

text \<open>
  \<open>gray_encode\<close> is a Gray code on the non-negative integers: it is injective there, and
  the codes of two successive integers differ in exactly one bit. On the negative integers it
  repeats the codes of the non-negative ones.
\<close>

theorem gray_encode_spec:
  "inj_on gray_encode {0..} \<and>
   (\<forall>i. \<exists>k. gray_encode (int i) XOR gray_encode (int i + 1) = 2 ^ k) \<and>
   (\<forall>i. gray_encode (- 1 - i) = gray_encode i)"
proof (intro conjI allI)
  show "inj_on gray_encode {0..}"
  proof (rule inj_onI)
    fix i j :: int
    assume ij: "i \<in> {0..}" "j \<in> {0..}" and eq: "gray_encode i = gray_encode j"
    have "gray_encode (i XOR j) = 0" using eq by (simp add: gray_encode_xor [symmetric])
    moreover have "0 \<le> i XOR j" using ij by simp
    ultimately have "i XOR j = 0" using gray_encode_zero by blast
    then show "i = j" by (simp add: xor_0_iff)
  qed
next
  fix i :: nat
  show "\<exists>k. gray_encode (int i) XOR gray_encode (int i + 1) = 2 ^ k"
    using xor_Suc [of i] gray_encode_mask by (metis gray_encode_xor)
next
  fix i :: int
  have "- 1 - i = NOT i" by (simp add: not_int_def)
  then show "gray_encode (- 1 - i) = gray_encode i"
    by (intro bit_eqI) (auto simp: gray_encode_def bit_xor_iff bit_drop_bit_eq bit_not_int_iff)
qed

section \<open>\<open>random_vec\<close>\<close>

text \<open>
  The parameter \<open>draw\<close> is the random source: \<open>draw j\<close> is what \<open>int((2**10) * random.random())\<close>
  yields at the \<open>j\<close>-th turn of the loop, an integer from 0 to 1023.
\<close>

definition random_bits :: "(nat \<Rightarrow> int) \<Rightarrow> nat \<Rightarrow> string res" where
  "random_bits draw bits =
     rfold (\<lambda>vector j. rbind (int2bin False (draw j) 10) (\<lambda>s. Inr (vector @ s))) ''''
       [0 ..< bits div 10 + 1]"

definition random_vec :: "(nat \<Rightarrow> int) \<Rightarrow> nat \<Rightarrow> int option \<Rightarrow> string res" where
  "random_vec draw bits max_value =
     rbind (random_bits draw bits) (\<lambda>vector.
     rbind (case max_value of
              None \<Rightarrow> Inr vector
            | Some m \<Rightarrow>
                if m \<noteq> 0 \<and> m < 2 ^ bits - 1
                then rbind (bin2int vector) (\<lambda>v.
                       if (2 :: int) ^ bits - 1 = 0 then Inl ZeroDivisionError
                       else int2bin False (v div (2 ^ bits - 1) * m) (int bits))
                else Inr vector)
       (\<lambda>vector. Inr (py_slice vector 0 (int bits))))"

lemma random_bits_ok:
  assumes "\<And>j. draw j \<in> {0 ..< 1024}"
  obtains s where "random_bits draw bits = Inr s" "length s = 10 * (bits div 10 + 1)"
    "\<forall>c \<in> set s. is_bit c"
proof -
  let ?add = "\<lambda>vector j. rbind (int2bin False (draw j) 10) (\<lambda>s. Inr (vector @ s))"
  have "\<exists>s. rfold ?add '''' [0 ..< n] = Inr s \<and> length s = 10 * n \<and> (\<forall>c \<in> set s. is_bit c)" for n
  proof (induction n)
    case (Suc n)
    then obtain s where s: "rfold ?add '''' [0 ..< n] = Inr s" "length s = 10 * n"
      "\<forall>c \<in> set s. is_bit c" by blast
    have d: "draw n = int (nat (draw n))" "nat (draw n) < 2 ^ 10" using assms [of n] by auto
    obtain t where t: "int2bin False (draw n) (int 10) = Inr t" "length t = 10" "\<forall>c \<in> set t. is_bit c"
      using int2bin_fits [OF d(2), of False] d(1) by (metis zero_less_numeral)
    then have "rfold ?add '''' [0 ..< Suc n] = Inr (s @ t)" using s by simp
    then show ?case using s t by auto
  qed simp
  from this [of "bits div 10 + 1"] that show thesis unfolding random_bits_def by auto
qed

text \<open>
  Without a bound, with the bound 0 or with one that no \<open>bits\<close>-bit number exceeds,
  \<open>random_vec\<close> returns exactly \<open>bits\<close> binary digits, for every random source.
\<close>

theorem random_vec_length:
  assumes "\<And>j. draw j \<in> {0 ..< 1024}"
    and "\<And>m. max_value = Some m \<Longrightarrow> m = 0 \<or> 2 ^ bits - 1 \<le> m"
  shows "\<exists>s. random_vec draw bits max_value = Inr s \<and> length s = bits \<and>
    set s \<subseteq> {CHR ''0'', CHR ''1''}"
proof -
  obtain s where s: "random_bits draw bits = Inr s" "length s = 10 * (bits div 10 + 1)"
    "\<forall>c \<in> set s. is_bit c"
    by (rule random_bits_ok [of draw bits, OF assms(1)])
  have "py_slice s 0 (int bits) = take bits s"
    using py_slice_nat [of s 0 bits] by (simp add: min_def)
  moreover have "\<not> (m \<noteq> 0 \<and> m < 2 ^ bits - 1)" if "max_value = Some m" for m
    using assms(2) [OF that] by linarith
  ultimately have "random_vec draw bits max_value = Inr (take bits s)"
    unfolding random_vec_def s(1) by (cases max_value) (simp_all only: rbind_simps option.case if_False)
  moreover have "length (take bits s) = bits" using s(2) by simp
  moreover have "set (take bits s) \<subseteq> {CHR ''0'', CHR ''1''}"
    using s(3) set_take_subset [of bits s] by (auto simp: is_bit_def)
  ultimately show ?thesis by blast
qed

theorem random_vec_witness:
  "\<exists>s. random_vec (\<lambda>j. 677) 12 None = Inr s \<and> length s = 12 \<and> set s \<subseteq> {CHR ''0'', CHR ''1''}"
  by (rule random_vec_length) simp_all

text \<open>
  With a bound below \<open>2 ** bits - 1\<close> the division is an integer division of a number of up to
  \<open>10 * (bits / 10 + 1)\<close> bits: the result is a multiple of the bound, not a number up to it,
  and can need more than \<open>bits\<close> bits, which raises \<open>ValueError\<close>.
\<close>

lemma random_vec_bound_raises: "random_vec (\<lambda>j. 1000) 8 (Some 100) = Inl ValueError"
  by code_simp

lemma random_vec_bound_exceeded: "random_vec (\<lambda>j. 600) 8 (Some 100) = Inr ''11001000''"
  by code_simp

section \<open>\<open>binary_range\<close>\<close>

text \<open>
  The inner loop: \<open>while i < bits and toggle[i] == 1\<close>. The list \<open>v\<close> holds \<open>bits\<close> digits, least
  significant first, and \<open>toggle\<close> one entry more, so every index is in range.
\<close>

function toggle_loop :: "nat \<Rightarrow> nat \<Rightarrow> string \<Rightarrow> nat list \<Rightarrow> string \<times> nat list" where
  "toggle_loop bits i v toggle =
     (if i < bits \<and> toggle ! i = 1 then
        let (v, toggle) =
          (if toggle ! i \<noteq> 0 then
             if v ! i = CHR ''0'' then (v[i := CHR ''1''], toggle[i + 1 := 0])
             else (v[i := CHR ''0''], toggle[i + 1 := 1])
           else (v, toggle))
        in toggle_loop bits (i + 1) v toggle
      else (v, toggle))"
  by pat_completeness auto
termination by (relation "measure (\<lambda>(bits, i, _). bits - i)") auto

declare toggle_loop.simps [simp del]

partial_function (option) range_loop ::
  "nat \<Rightarrow> string list \<Rightarrow> string \<Rightarrow> nat list \<Rightarrow> string list option" where
  "range_loop bits l v toggle =
     (if toggle ! bits \<noteq> 1 then
        (case toggle_loop bits 0 v (1 # replicate bits 0) of (v', toggle') \<Rightarrow>
           range_loop bits (l @ [rev v]) v' toggle')
      else Some l)"

definition binary_range :: "nat \<Rightarrow> string list option" where
  "binary_range bits = range_loop bits [] (replicate bits CHR ''0'') (1 # replicate bits 0)"

text \<open>One more on a number written least significant digit first, and whether it overflows.\<close>

fun inc_bits :: "string \<Rightarrow> string" where
  "inc_bits [] = []"
| "inc_bits (c # cs) = (if c = CHR ''0'' then CHR ''1'' # cs else CHR ''0'' # inc_bits cs)"

lemma length_inc_bits [simp]: "length (inc_bits v) = length v"
  by (induction v rule: inc_bits.induct) auto

lemma inc_bits_bits: "\<forall>c \<in> set v. is_bit c \<Longrightarrow> \<forall>c \<in> set (inc_bits v). is_bit c"
  by (induction v rule: inc_bits.induct) auto

lemma inc_bits_val:
  assumes "\<forall>c \<in> set v. is_bit c"
  shows "bits_val (rev (inc_bits v)) + (if CHR ''0'' \<in> set v then 0 else 2 ^ length v) =
    bits_val (rev v) + 1"
  using assms
proof (induction v rule: inc_bits.induct)
  case (2 c cs)
  show ?case
  proof (cases "c = CHR ''0''")
    case False
    then have c: "c = CHR ''1''" using "2.prems" by (simp add: is_bit_def)
    have "bits_val (rev (inc_bits cs)) + (if CHR ''0'' \<in> set cs then 0 else 2 ^ length cs) =
        bits_val (rev cs) + 1"
      using 2 False by simp
    then show ?thesis by (simp add: c split: if_splits)
  qed simp
qed simp

lemma toggle_loop_spec:
  "i \<le> bits \<Longrightarrow> length v = bits \<Longrightarrow> length toggle = Suc bits \<Longrightarrow> toggle ! i = 1 \<Longrightarrow>
   \<forall>j. i < j \<and> j \<le> bits \<longrightarrow> toggle ! j = 0 \<Longrightarrow>
   \<exists>toggle'. toggle_loop bits i v toggle = (take i v @ inc_bits (drop i v), toggle') \<and>
     toggle' ! bits = (if CHR ''0'' \<in> set (drop i v) then 0 else 1)"
proof (induction "bits - i" arbitrary: i v toggle)
  case 0
  then have "i = bits" by simp
  moreover have "toggle_loop bits bits v toggle = (v, toggle)" by (subst toggle_loop.simps) simp
  ultimately show ?case using 0 by simp
next
  case (Suc d)
  then have i: "i < bits" by simp
  have drop: "drop i v = v ! i # drop (Suc i) v" using i Suc.prems(2) by (simp add: Cons_nth_drop_Suc)
  show ?case
  proof (cases "v ! i = CHR ''0''")
    case True
    let ?v = "v[i := CHR ''1'']" and ?t = "toggle[i + 1 := 0]"
    have "toggle_loop bits i v toggle = toggle_loop bits (i + 1) ?v ?t"
      using i True Suc.prems by (subst toggle_loop.simps) simp
    also have "\<dots> = (?v, ?t)"
      using i Suc.prems(3) by (subst toggle_loop.simps) simp
    finally have "toggle_loop bits i v toggle = (?v, ?t)" .
    moreover have "?v = take i v @ inc_bits (drop i v)"
      using i True Suc.prems(2) by (simp add: drop upd_conv_take_nth_drop)
    moreover have "?t ! bits = 0"
      using i Suc.prems(3,5) by (simp add: nth_list_update)
    ultimately show ?thesis using True by (simp add: drop)
  next
    case False
    let ?v = "v[i := CHR ''0'']" and ?t = "toggle[i + 1 := 1]"
    have step: "toggle_loop bits i v toggle = toggle_loop bits (i + 1) ?v ?t"
      using i False Suc.prems by (subst toggle_loop.simps) simp
    have "\<exists>toggle'. toggle_loop bits (i + 1) ?v ?t =
        (take (i + 1) ?v @ inc_bits (drop (i + 1) ?v), toggle') \<and>
        toggle' ! bits = (if CHR ''0'' \<in> set (drop (i + 1) ?v) then 0 else 1)"
    proof (rule Suc.hyps(1))
      show "d = bits - (i + 1)" "i + 1 \<le> bits" using Suc.hyps(2) i by simp_all
      show "length ?v = bits" "length ?t = Suc bits" "?t ! (i + 1) = 1"
        using Suc.prems i by simp_all
      show "\<forall>j. i + 1 < j \<and> j \<le> bits \<longrightarrow> ?t ! j = 0"
        using Suc.prems(5) by (simp add: nth_list_update)
    qed
    moreover have "take (i + 1) ?v = take i v @ [CHR ''0'']"
      using i Suc.prems(2) by (simp add: take_Suc_conv_app_nth)
    moreover have "drop (i + 1) ?v = drop (Suc i) v" by simp
    ultimately show ?thesis using step False by (simp add: drop)
  qed
qed

text \<open>The \<open>k\<close>-th state of \<open>v\<close>, and what the outer loop has listed by then.\<close>

fun counter :: "nat \<Rightarrow> nat \<Rightarrow> string" where
  "counter bits 0 = replicate bits CHR ''0''"
| "counter bits (Suc k) = inc_bits (counter bits k)"

lemma counter_bits: "length (counter bits k) = bits \<and> (\<forall>c \<in> set (counter bits k). is_bit c)"
  by (induction k) (auto dest: inc_bits_bits)

lemma counter_val: "k < 2 ^ bits \<Longrightarrow> bits_val (rev (counter bits k)) = k"
proof (induction k)
  case (Suc k)
  then have v: "bits_val (rev (counter bits k)) = k" by simp
  have "bits_val (rev (counter bits (Suc k))) < 2 ^ bits"
    using bits_val_less [of "rev (counter bits (Suc k))"] counter_bits [of bits "Suc k"] by simp
  with v Suc.prems inc_bits_val [of "counter bits k"] counter_bits [of bits k] show ?case
    by (auto split: if_splits)
qed simp

lemma counter_full:
  assumes "k < 2 ^ bits"
  shows "CHR ''0'' \<in> set (counter bits k) \<longleftrightarrow> Suc k < 2 ^ bits"
proof -
  have "bits_val (rev (counter bits (Suc k))) < 2 ^ bits"
    using bits_val_less [of "rev (counter bits (Suc k))"] counter_bits [of bits "Suc k"] by simp
  then show ?thesis
    using inc_bits_val [of "counter bits k"] counter_bits [of bits k] counter_val [OF assms] assms
    by (auto split: if_splits)
qed

lemma range_loop_spec:
  "k < 2 ^ bits \<Longrightarrow> toggle ! bits \<noteq> 1 \<Longrightarrow>
   range_loop bits (map (\<lambda>j. rev (counter bits j)) [0 ..< k]) (counter bits k) toggle =
     Some (map (\<lambda>j. rev (counter bits j)) [0 ..< 2 ^ bits])"
proof (induction "2 ^ bits - k" arbitrary: k toggle rule: less_induct)
  case less
  let ?l = "\<lambda>n. map (\<lambda>j. rev (counter bits j)) [0 ..< n]"
  have"\<exists>toggle'. toggle_loop bits 0 (counter bits k) (1 # replicate bits 0) =
      (take 0 (counter bits k) @ inc_bits (drop 0 (counter bits k)), toggle') \<and>
      toggle' ! bits = (if CHR ''0'' \<in> set (drop 0 (counter bits k)) then 0 else 1)"
    by (intro toggle_loop_spec) (auto simp: counter_bits nth_Cons')
  then obtain toggle' where t:
    "toggle_loop bits 0 (counter bits k) (1 # replicate bits 0) = (counter bits (Suc k), toggle')"
    "toggle' ! bits = (if Suc k < 2 ^ bits then 0 else 1)"
    using counter_full [OF less.prems(1)] by auto
  have run: "range_loop bits (?l k) (counter bits k) toggle =
      range_loop bits (?l (Suc k)) (counter bits (Suc k)) toggle'"
    using less.prems(2) by (subst range_loop.simps) (simp add: t(1) del: One_nat_def)
  show ?case
  proof (cases "Suc k < 2 ^ bits")
    case True
    then have "2 ^ bits - Suc k < 2 ^ bits - k" by simp
    from less.hyps [OF this True, of toggle'] show ?thesis using run t(2) True by simp
  next
    case False
    then have "Suc k = 2 ^ bits" using less.prems(1) by simp
    moreover have "range_loop bits (?l (Suc k)) (counter bits (Suc k)) toggle' = Some (?l (Suc k))"
      using t(2) False by (subst range_loop.simps) simp
    ultimately show ?thesis using run by metis
  qed
qed

text \<open>
  \<open>binary_range(bits)\<close> always ends; for \<open>bits > 0\<close> it lists the \<open>2 ** bits\<close> numbers of
  that width in order, each as \<open>int2bin\<close> writes it, and for 0 it returns the empty list.
\<close>

theorem binary_range_spec:
  "binary_range 0 = Some [] \<and>
   (\<exists>l. binary_range (Suc b) = Some l \<and> length l = 2 ^ Suc b \<and>
     list_all (\<lambda>k. int2bin long (int k) (int (Suc b)) = Inr (l ! k)) [0 ..< 2 ^ Suc b])"
proof
  show "binary_range 0 = Some []"
    unfolding binary_range_def by (subst range_loop.simps) simp
next
  let ?l = "map (\<lambda>j. rev (counter (Suc b) j)) [0 ..< 2 ^ Suc b]"
  have "(1 # replicate (Suc b) 0) ! Suc b \<noteq> (1 :: nat)" by (simp del: replicate.simps)
  from range_loop_spec [of 0, OF _ this] have "binary_range (Suc b) = Some ?l"
    unfolding binary_range_def by simp
  moreover have "int2bin long (int k) (int (Suc b)) = Inr (rev (counter (Suc b) k))"
    if k: "k < 2 ^ Suc b" for k
  proof -
    obtain s where s: "int2bin long (int k) (int (Suc b)) = Inr s" "length s = Suc b"
      "bits_val s = k" "\<forall>c \<in> set s. is_bit c"
      by (rule int2bin_fits [OF k, of long]) simp
    moreover have "s = rev (counter (Suc b) k)"
      using s counter_bits [of "Suc b" k] counter_val [OF k] by (intro bits_val_inj) auto
    ultimately show ?thesis by simp
  qed
  ultimately show "\<exists>l. binary_range (Suc b) = Some l \<and> length l = 2 ^ Suc b \<and>
     list_all (\<lambda>k. int2bin long (int k) (int (Suc b)) = Inr (l ! k)) [0 ..< 2 ^ Suc b]"
    by (intro exI [of _ ?l]) (simp add: list_all_iff del: power_Suc upt_Suc)
qed

end
