(* ===== verification/RadNum.thy ===== *)
theory RadNum
  imports Complex_Main Prelude
begin

text \<open>
  The number routines of \<open>bindings/python/rad_util.py\<close> on integers: \<open>gcf\<close>, \<open>lcm\<close>,
  \<open>reduce_fraction\<close>, \<open>round_grid\<close> and \<open>polygon_area\<close>. The functions also accept floats, which
  are not modelled; the two places where an integer computation ends in a float
  (\<open>grid / 2.0\<close>, and the unscaling of the area) are exact \<open>real\<close> arithmetic here. Python's
  \<open>/\<close> and \<open>%\<close> on integers round down, as \<open>div\<close> and \<open>mod\<close> do.
\<close>

section \<open>\<open>gcf\<close>, \<open>lcm\<close> and \<open>reduce_fraction\<close>\<close>

text \<open>
  The loop runs while \<open>remainder and abs(remainder) > epsilon\<close>; for an integer remainder and an
  \<open>epsilon\<close> from 0 to below 1 (the default is \<open>1e-16\<close>) the two tests say the same.
\<close>

function gcf_loop :: "int \<Rightarrow> int \<Rightarrow> int" where
  "gcf_loop result remainder =
     (if remainder \<noteq> 0 then gcf_loop remainder (result mod remainder) else \<bar>result\<bar>)"
  by pat_completeness auto
termination by (relation "measure (\<lambda>(_, r). nat \<bar>r\<bar>)") (auto intro: abs_mod_less)

declare gcf_loop.simps [simp del]

definition gcf :: "int \<Rightarrow> int \<Rightarrow> int" where
  "gcf a b = gcf_loop (max a b) (min a b)"

definition py_div :: "int \<Rightarrow> int \<Rightarrow> int res" where
  "py_div a b = (if b = 0 then Inl ZeroDivisionError else Inr (a div b))"

definition lcm_of :: "int \<Rightarrow> int \<Rightarrow> int res" where
  "lcm_of a b =
     (let denom = gcf a b in
      if denom = 0 then Inr 0 else rbind (py_div b denom) (\<lambda>q. Inr (a * q)))"

definition reduce_fraction :: "int \<times> int \<Rightarrow> (int \<times> int) res" where
  "reduce_fraction fraction =
     (case fraction of (numerator, denominator) \<Rightarrow>
        let common_factor = \<bar>gcf numerator denominator\<bar> in
        rbind (py_div numerator common_factor) (\<lambda>n.
        rbind (py_div denominator common_factor) (\<lambda>d. Inr (n, d))))"

lemma gcf_loop_gcd: "gcf_loop a b = gcd a b"
proof (induction a b rule: gcf_loop.induct)
  case (1 a b)
  then show ?case
    by (subst gcf_loop.simps) (simp add: gcd_red_int [symmetric] gcd.commute)
qed

text \<open>
  On integers of any sign \<open>gcf\<close> is the greatest common divisor (never negative, and 0
  only for two zeros), and \<open>lcm\<close> never fails: it is the least common multiple up to the sign,
  which is the sign of the product.
\<close>

theorem gcf_lcm_spec:
  "gcf a b = gcd a b \<and> lcm_of a b = Inr (sgn (a * b) * lcm a b)"
proof
  show g: "gcf a b = gcd a b"
    by (cases "a \<le> b") (simp_all add: gcf_def gcf_loop_gcd max_def min_def gcd.commute)
  have "a * (b div gcd a b) = sgn (a * b) * lcm a b"
  proof (cases "a = 0 \<and> b = 0")
    case False
    have "a * b = sgn (a * b) * \<bar>a * b\<bar>" by (simp only: sgn_mult_abs)
    moreover have "\<bar>a * b\<bar> = gcd a b * lcm a b" by (simp only: prod_gcd_lcm_int abs_mult)
    ultimately have "a * b = gcd a b * (sgn (a * b) * lcm a b)" by (metis mult.left_commute)
    then have "a * b div gcd a b = sgn (a * b) * lcm a b"
      using False by (metis gcd_eq_0_iff nonzero_mult_div_cancel_left)
    then show ?thesis by (simp only: div_mult_swap gcd_dvd2)
  qed simp
  then show "lcm_of a b = Inr (sgn (a * b) * lcm a b)"
    by (simp add: lcm_of_def g Let_def py_div_def)
qed

text \<open>
  \<open>reduce_fraction\<close> keeps the ratio and leaves no common factor, the sign of the
  denominator is the one it was given; on \<open>(0, 0)\<close>, and only there, it raises
  \<open>ZeroDivisionError\<close>.
\<close>

theorem reduce_fraction_spec:
  "if n = 0 \<and> d = 0 then reduce_fraction (n, d) = Inl ZeroDivisionError
   else \<exists>n' d'. reduce_fraction (n, d) = Inr (n', d') \<and> coprime n' d' \<and> n * d' = n' * d \<and>
     sgn n' = sgn n \<and> sgn d' = sgn d"
proof (cases "n = 0 \<and> d = 0")
  case True
  then show ?thesis by (simp add: reduce_fraction_def py_div_def gcf_def gcf_loop_gcd)
next
  case False
  let ?g = "gcd n d"
  have g: "0 < ?g" using False by (simp add: gcd_pos_int)
  have "gcf n d = ?g"
    by (cases "n \<le> d") (simp_all add: gcf_def gcf_loop_gcd max_def min_def gcd.commute)
  then have "reduce_fraction (n, d) = Inr (n div ?g, d div ?g)"
    using g False by (auto simp: reduce_fraction_def py_div_def Let_def)
  moreover have "coprime (n div ?g) (d div ?g)" using False by (intro div_gcd_coprime) auto
  moreover have "n * (d div ?g) = n div ?g * d"
    by (simp add: div_mult_swap dvd_div_mult)
  moreover have "sgn (m div ?g) = sgn m" if "?g dvd m" for m :: int
    using that g by (auto simp: dvd_def sgn_mult)
  ultimately show ?thesis using False by auto
qed

section \<open>\<open>round_grid\<close>\<close>

text \<open>
  \<open>add_one\<close> stays unbound when no branch is taken; then the next line raises
  \<open>UnboundLocalError\<close>.
\<close>

definition round_grid :: "int \<Rightarrow> int \<Rightarrow> int \<Rightarrow> int res" where
  "round_grid value grid mode =
     (if grid = 0 then Inl ZeroDivisionError
      else
        let off_grid = value mod grid;
            add_one =
              (if mode = 0 then Some (if real_of_int off_grid \<ge> real_of_int grid / 2 then 1 else 0)
               else if mode = 1 \<and> off_grid \<noteq> 0 then Some 1
               else if mode = -1 \<and> off_grid \<noteq> 0 then Some 0
               else None)
        in (case add_one of
              None \<Rightarrow> Inl UnboundLocalError
            | Some a \<Rightarrow> Inr ((value div grid + a) * grid)))"

text \<open>
  For a positive grid, mode 0 gives the nearest multiple (the upper one of two), mode 1
  the least multiple above and mode -1 the greatest one below a value that is off the grid. A
  value already on the grid makes the modes 1 and -1 raise \<open>UnboundLocalError\<close>.
\<close>

theorem round_grid_spec:
  assumes "0 < grid"
  shows "(\<exists>k. round_grid value grid 0 = Inr (k * grid) \<and> 2 * \<bar>k * grid - value\<bar> \<le> grid \<and>
      (\<forall>j. \<bar>j * grid - value\<bar> \<le> \<bar>k * grid - value\<bar> \<longrightarrow> j \<le> k)) \<and>
    (if grid dvd value
     then round_grid value grid 1 = Inl UnboundLocalError \<and> round_grid value grid (-1) = Inl UnboundLocalError
     else \<exists>k. round_grid value grid 1 = Inr ((k + 1) * grid) \<and> round_grid value grid (-1) = Inr (k * grid) \<and>
       k * grid < value \<and> value < (k + 1) * grid)"
proof
  let ?q = "value div grid" and ?r = "value mod grid"
  have v: "value = ?q * grid + ?r" and r: "0 \<le> ?r" "?r < grid" using assms by simp_all
  have half: "real_of_int ?r \<ge> real_of_int grid / 2 \<longleftrightarrow> grid \<le> 2 * ?r" by linarith
  define k where "k = ?q + (if grid \<le> 2 * ?r then 1 else 0)"
  have "round_grid value grid 0 = Inr (k * grid)"
    using assms by (simp add: round_grid_def half k_def Let_def)
  moreover have kv: "k * grid = value - ?r + (if grid \<le> 2 * ?r then grid else 0)"
    by (subst (1) v) (simp add: k_def algebra_simps)
  have k: "2 * \<bar>k * grid - value\<bar> \<le> grid" using r by (simp add: kv)
  moreover have "j \<le> k" if j: "\<bar>j * grid - value\<bar> \<le> \<bar>k * grid - value\<bar>" for j
  proof (rule ccontr)
    assume "\<not> j \<le> k"
    then have "(k + 1) * grid \<le> j * grid" using assms by (intro mult_right_mono) auto
    then have "k * grid + grid \<le> j * grid" by (simp add: algebra_simps)
    moreover have "2 * (value - k * grid) < grid" using r by (simp add: kv)
    moreover define x y where "x = k * grid - value" and "y = j * grid - value"
    ultimately have "x + grid \<le> y" "- 2 * x < grid" by (simp_all add: algebra_simps)
    moreover have "\<bar>y\<bar> \<le> \<bar>x\<bar>" "2 * \<bar>x\<bar> \<le> grid" using j k by (simp_all add: x_def y_def)
    ultimately show False using assms by linarith
  qed
  ultimately show "\<exists>k. round_grid value grid 0 = Inr (k * grid) \<and> 2 * \<bar>k * grid - value\<bar> \<le> grid \<and>
      (\<forall>j. \<bar>j * grid - value\<bar> \<le> \<bar>k * grid - value\<bar> \<longrightarrow> j \<le> k)"
    using k by blast
  show "if grid dvd value
     then round_grid value grid 1 = Inl UnboundLocalError \<and> round_grid value grid (-1) = Inl UnboundLocalError
     else \<exists>k. round_grid value grid 1 = Inr ((k + 1) * grid) \<and> round_grid value grid (-1) = Inr (k * grid) \<and>
       k * grid < value \<and> value < (k + 1) * grid"
  proof (cases "grid dvd value")
    case True
    then show ?thesis using assms by (simp add: round_grid_def Let_def)
  next
    case False
    then have "?r \<noteq> 0" by (simp add: dvd_eq_mod_eq_0)
    moreover have "?q * grid = value - ?r" by (simp add: minus_mod_eq_div_mult)
    ultimately have "?q * grid < value" "value < (?q + 1) * grid" "?r \<noteq> 0"
      using r by (auto simp: distrib_right)
    then show ?thesis using assms False by (auto simp: round_grid_def Let_def)
  qed
qed

theorem round_grid_witness:
  "round_grid 10 5 1 = Inl UnboundLocalError \<and> round_grid 10 5 (-1) = Inl UnboundLocalError"
  using conjunct2 [OF round_grid_spec [of 5 10]] by simp

section \<open>\<open>polygon_area\<close>\<close>

type_synonym point = "int \<times> int"

definition scale_points :: "int \<Rightarrow> point list \<Rightarrow> point list" where
  "scale_points precision points_list = map (\<lambda>(x, y). (x * precision, y * precision)) points_list"

definition close_polygon :: "point list \<Rightarrow> point list res" where
  "close_polygon points_list =
     rbind (py_get points_list (-1)) (\<lambda>l. rbind (py_get points_list 0) (\<lambda>f.
       Inr (if l \<noteq> f then points_list @ [f] else points_list)))"

fun add_areas :: "int \<Rightarrow> point list \<Rightarrow> int" where
  "add_areas area ((x_i, y_i) # (x_i_plus_1, y_i_plus_1) # ps) =
     add_areas (area + x_i_plus_1 * y_i - y_i_plus_1 * x_i) ((x_i_plus_1, y_i_plus_1) # ps)"
| "add_areas area _ = area"

text \<open>
  The function stores the scaled and closed polygon in the list it was given, so it returns that
  list as well.
\<close>

definition polygon_area :: "point list \<Rightarrow> int \<Rightarrow> (point list \<times> real) res" where
  "polygon_area points_list precision =
     rbind (close_polygon (scale_points precision points_list)) (\<lambda>points_list.
       let area = \<bar>add_areas 0 points_list div 2\<bar> in
       if precision ^ 2 = 0 then Inl ZeroDivisionError
       else Inr (points_list, real_of_int area / real_of_int (precision ^ 2)))"

text \<open>The shoelace sum over the edges of the polygon, the closing edge included.\<close>

definition cross :: "point \<Rightarrow> point \<Rightarrow> int" where
  "cross p q = fst q * snd p - snd q * fst p"

definition twice_area :: "point list \<Rightarrow> int" where
  "twice_area ps = (\<Sum>(p, q) \<leftarrow> zip ps (rotate1 ps). cross p q)"

lemma cross_simps [simp]: "cross p p = 0"
  "cross (case p of (x, y) \<Rightarrow> (x * c, y * c)) (case q of (x, y) \<Rightarrow> (x * c, y * c)) = c ^ 2 * cross p q"
  by (simp_all add: cross_def case_prod_beta power2_eq_square algebra_simps)

lemma add_areas_edges: "add_areas a (p # ps) = a + (\<Sum>(p, q) \<leftarrow> zip (p # ps) ps. cross p q)"
proof (induction ps arbitrary: a p)
  case (Cons q ps)
  then show ?case by (cases p; cases q) (simp add: cross_def)
qed simp

lemma zip_snoc_edges: "zip (p # ps @ [z]) (ps @ [z]) = zip (p # ps) (ps @ [z])"
  by (induction ps arbitrary: p) auto

lemma add_areas_closed:
  assumes "close_polygon ps = Inr qs"
  shows "add_areas 0 qs = twice_area ps"
proof -
  obtain p rest where ps: "ps = p # rest" using assms by (cases ps) (auto simp: close_polygon_def)
  show ?thesis
  proof (cases "last ps = p")
    case False
    then have "qs = p # rest @ [p]" using assms ps by (auto simp: close_polygon_def)
    then show ?thesis
      using add_areas_edges [of 0 p "rest @ [p]"] by (simp add: ps twice_area_def zip_snoc_edges)
  next
    case True
    then have "qs = p # rest" using assms ps by (auto simp: close_polygon_def)
    moreover have "twice_area ps = (\<Sum>(p, q) \<leftarrow> zip (p # rest) rest. cross p q)"
    proof (cases rest rule: rev_cases)
      case Nil
      then show ?thesis by (simp add: ps twice_area_def)
    next
      case (snoc us u)
      then have "u = p" using True ps by simp
      moreover have "zip (p # us @ [u]) ((us @ [u]) @ [p]) = zip (p # us) (us @ [u]) @ zip [u] [p]"
        by (subst zip_append [symmetric]) simp_all
      ultimately show ?thesis
        by (simp add: twice_area_def ps snoc zip_snoc_edges del: zip_Cons_Cons) simp
    qed
    ultimately show ?thesis by (simp add: add_areas_edges)
  qed
qed

lemma twice_area_scale: "twice_area (scale_points c ps) = c ^ 2 * twice_area ps"
proof -
  let ?f = "\<lambda>(x, y). (x * c, y * c)"
  have "zip (map ?f ps) (rotate1 (map ?f ps)) = map (map_prod ?f ?f) (zip ps (rotate1 ps))"
    by (simp add: rotate1_map zip_map_map map_prod_def)
  then show ?thesis
    unfolding twice_area_def scale_points_def
    by (simp add: o_def case_prod_beta sum_list_const_mult [symmetric] cross_def
        power2_eq_square algebra_simps cong: map_cong)
qed

lemma twice_area_rotate1: "twice_area (rotate1 ps) = twice_area ps"
proof -
  have zip: "zip (rotate1 xs) (rotate1 ys) = rotate1 (zip xs ys)" if "length xs = length ys"
    for xs ys :: "point list"
    using that by (cases xs; cases ys) simp_all
  have "sum_list (map f (rotate1 zs)) = sum_list (map f zs)" for f :: "point \<times> point \<Rightarrow> int" and zs
    by (cases zs) simp_all
  then show ?thesis unfolding twice_area_def by (simp add: zip)
qed

lemma twice_area_rev: "twice_area (rev ps) = - twice_area ps"
proof -
  define qs where "qs = rev (rotate1 (rev ps))"
  have ps: "rotate1 qs = ps" unfolding qs_def by (cases ps rule: rev_cases) simp_all
  have neg: "(\<Sum>(p, q) \<leftarrow> zip xs ys. cross p q) = - (\<Sum>(p, q) \<leftarrow> zip ys xs. cross p q)"
    if "length xs = length ys" for xs ys
    using that by (induction xs ys rule: list_induct2) (auto simp: cross_def)
  have "twice_area (rev ps) = (\<Sum>(p, q) \<leftarrow> zip (rev ps) (rev qs). cross p q)"
    by (simp add: twice_area_def qs_def)
  also have "zip (rev ps) (rev qs) = rev (zip ps qs)" by (rule zip_rev) (simp add: qs_def)
  also have "(\<Sum>(p, q) \<leftarrow> rev (zip ps qs). cross p q) = (\<Sum>(p, q) \<leftarrow> zip ps qs. cross p q)"
    by (simp add: rev_map [symmetric] sum_list_rev)
  also have "\<dots> = - twice_area qs"
    by (subst neg) (simp_all add: twice_area_def ps, simp add: qs_def)
  also have "twice_area qs = twice_area ps" using twice_area_rotate1 [of qs] ps by simp
  finally show ?thesis .
qed

text \<open>
  For an even precision (the default is 100) \<open>polygon_area\<close> of integer points is exactly
  half the absolute shoelace sum, whether or not the polygon was closed; so the starting point
  and the direction do not matter. Without points it raises \<open>IndexError\<close>.
\<close>

theorem polygon_area_spec:
  assumes "even precision" "precision \<noteq> 0"
  shows "if ps = [] then polygon_area ps precision = Inl IndexError
    else \<exists>qs. polygon_area ps precision = Inr (qs, real_of_int \<bar>twice_area ps\<bar> / 2) \<and>
      twice_area (rev ps) = - twice_area ps \<and> twice_area (rotate1 ps) = twice_area ps"
proof (cases ps)
  case Nil
  then show ?thesis by (simp add: polygon_area_def scale_points_def close_polygon_def)
next
  case (Cons p rest)
  then obtain qs where qs: "close_polygon (scale_points precision ps) = Inr qs"
    by (auto simp: close_polygon_def scale_points_def)
  have area: "add_areas 0 qs = precision ^ 2 * twice_area ps"
    by (simp add: add_areas_closed [OF qs] twice_area_scale)
  obtain h where h: "precision = 2 * h" using assms(1) by (rule evenE)
  have "add_areas 0 qs div 2 = 2 * h ^ 2 * twice_area ps"
    by (simp add: area h power2_eq_square)
  then have "real_of_int \<bar>add_areas 0 qs div 2\<bar> / real_of_int (precision ^ 2) =
      real_of_int \<bar>twice_area ps\<bar> / 2"
    using assms(2) by (simp add: h abs_mult power2_eq_square)
  then have "polygon_area ps precision = Inr (qs, real_of_int \<bar>twice_area ps\<bar> / 2)"
    using assms(2) by (simp add: polygon_area_def qs Let_def)
  moreover have "ps \<noteq> []" using Cons by simp
  ultimately show ?thesis using twice_area_rev twice_area_rotate1 by (simp only: if_False) blast
qed

theorem polygon_area_witness:
  "\<exists>qs. polygon_area [(0, 0), (0, 1), (1, 1), (1, 2), (2, 2), (2, 0), (0, 0)] 100 = Inr (qs, 3)"
  using polygon_area_spec [of 100 "[(0, 0), (0, 1), (1, 1), (1, 2), (2, 2), (2, 0), (0, 0)]"]
  by (simp add: twice_area_def cross_def)

text \<open>With an odd precision the halving rounds, differently in the two directions.\<close>

lemma polygon_area_odd_precision:
  "\<exists>qs. polygon_area [(0, 0), (1, 0), (0, 1)] 1 = Inr (qs, 1)"
  "\<exists>qs. polygon_area [(0, 1), (1, 0), (0, 0)] 1 = Inr (qs, 0)"
  by (simp_all add: polygon_area_def close_polygon_def scale_points_def)

end
