(* ===== verification/WorkerPool.thy ===== *)
theory WorkerPool
  imports Jobs
begin

text \<open>
  The worker threads of \<open>test.py\<close>. The main thread puts the jobs and then one stop job per
  worker in \<open>input_queue\<close>, collects as many results from \<open>output_queue\<close> as it put jobs, and
  then joins the workers; every worker loops over \<open>worker_thread.run\<close>; \<open>sigint_hook\<close> may set
  \<open>thread_exit\<close> at any moment. The threads run concurrently, so the program is a step relation:
  one step is what one thread does between two accesses to shared state. A queue is used
  through the interface \<open>fifo_queue\<close> below.
\<close>

section \<open>The queue the threads share\<close>

text \<open>
  \<open>Queue.Queue(0)\<close> is unbounded, so \<open>put\<close> never blocks; \<open>get\<close> blocks (here: is not enabled)
  while the queue is empty.
\<close>

locale fifo_queue =
  fixes empty :: 'q
    and put :: "'a \<Rightarrow> 'q \<Rightarrow> 'q"
    and get :: "'q \<Rightarrow> ('a \<times> 'q) option"
    and contents :: "'q \<Rightarrow> 'a list"
  assumes contents_empty: "contents empty = []"
    and contents_put: "contents (put x q) = contents q @ [x]"
    and get_None: "get q = None \<longleftrightarrow> contents q = []"
    and get_Some: "get q = Some (x, r) \<Longrightarrow> contents q = x # contents r"
begin

lemma mset_put: "mset (contents (put x q)) = add_mset x (mset (contents q))"
  by (simp add: contents_put)

lemma mset_get: "get q = Some (x, r) \<Longrightarrow> mset (contents q) = add_mset x (mset (contents r))"
  by (simp add: get_Some)

lemma get_enabled: "contents q \<noteq> [] \<Longrightarrow> \<exists>x r. get q = Some (x, r)"
  using get_None [of q] by (cases "get q") auto

lemma length_put: "length (contents (put x q)) = Suc (length (contents q))"
  by (simp add: contents_put)

lemma length_get: "get q = Some (x, r) \<Longrightarrow> length (contents q) = Suc (length (contents r))"
  by (simp add: get_Some)

end

type_synonym queue = "job list"

definition queue_put :: "job \<Rightarrow> queue \<Rightarrow> queue" where
  "queue_put j q = q @ [j]"

fun queue_get :: "queue \<Rightarrow> (job \<times> queue) option" where
  "queue_get [] = None"
| "queue_get (j # q) = Some (j, q)"

interpretation jobq: fifo_queue "[]" queue_put queue_get "\<lambda>q. q"
proof
  show "queue_get q = None \<longleftrightarrow> q = []" for q by (cases q) auto
  show "queue_get q = Some (x, r) \<Longrightarrow> q = x # r" for q x r by (cases q) auto
qed (simp_all add: queue_put_def)

section \<open>The state of the threads\<close>

text \<open>Where a worker is in its loop, with the job it holds.\<close>

datatype worker =
    Waiting
  | Took job
  | Running job
  | Done job
  | Exited

record pool =
  to_dispatch :: "job list"
  input_queue :: queue
  output_queue :: queue
  workers :: "worker list"
  thread_exit :: bool
  to_collect :: nat
  collected :: "job list"
  joined :: nat

text \<open>
  The main thread before it starts dispatching: \<open>jobs\<close> is the list \<open>run_tests\<close> has to put in
  the queue, and as many stop jobs follow as there are processors.
\<close>

definition stop_job :: job where
  "stop_job = set_is_break True new_job"

definition pool_init :: "job list \<Rightarrow> nat \<Rightarrow> pool" where
  "pool_init jobs processors =
     \<lparr> to_dispatch = jobs @ replicate processors stop_job, input_queue = [], output_queue = [],
       workers = replicate processors Waiting, thread_exit = False, to_collect = length jobs,
       collected = [], joined = 0 \<rparr>"

section \<open>The steps\<close>

text \<open>
  One turn of \<open>worker_thread.run\<close>, for the worker in state \<open>w\<close>: it takes a job, looks at
  \<open>is_break\<close>, \<open>thread_exit\<close> and \<open>is_skip\<close> in this order, runs the job, and puts it in the
  output queue. \<open>exec\<close> is what running does to a job (\<open>launch\<close> for given options).
\<close>

inductive worker_step :: "(job \<Rightarrow> job) \<Rightarrow> bool \<Rightarrow> worker \<times> queue \<times> queue \<Rightarrow> worker \<times> queue \<times> queue \<Rightarrow> bool"
  for exec :: "job \<Rightarrow> job" and stopping :: bool where
  take_job: "queue_get inq = Some (j, inq') \<Longrightarrow>
    worker_step exec stopping (Waiting, inq, outq) (Took j, inq', outq)"
| leave: "is_break j \<Longrightarrow>
    worker_step exec stopping (Took j, inq, outq) (Exited, inq, outq)"
| abandon: "\<not> is_break j \<Longrightarrow> stopping \<Longrightarrow>
    worker_step exec stopping (Took j, inq, outq) (Done (set_is_break True j), inq, outq)"
| skip: "\<not> is_break j \<Longrightarrow> \<not> stopping \<Longrightarrow> is_skip j \<Longrightarrow>
    worker_step exec stopping (Took j, inq, outq) (Done j, inq, outq)"
| start: "\<not> is_break j \<Longrightarrow> \<not> stopping \<Longrightarrow> \<not> is_skip j \<Longrightarrow>
    worker_step exec stopping (Took j, inq, outq) (Running j, inq, outq)"
| finish: "worker_step exec stopping (Running j, inq, outq) (Done (exec j), inq, outq)"
| report: "worker_step exec stopping (Done j, inq, outq) (Waiting, inq, queue_put j outq)"

inductive pool_step :: "(job \<Rightarrow> job) \<Rightarrow> pool \<Rightarrow> pool \<Rightarrow> bool" for exec :: "job \<Rightarrow> job" where
  dispatch: "to_dispatch s = j # js \<Longrightarrow>
    pool_step exec s (s\<lparr> to_dispatch := js, input_queue := queue_put j (input_queue s) \<rparr>)"
| worker: "i < length (workers s) \<Longrightarrow>
    worker_step exec (thread_exit s) (workers s ! i, input_queue s, output_queue s) (w, inq, outq) \<Longrightarrow>
    pool_step exec s (s\<lparr> workers := (workers s)[i := w], input_queue := inq, output_queue := outq \<rparr>)"
| collect: "to_dispatch s = [] \<Longrightarrow> to_collect s = Suc n \<Longrightarrow> queue_get (output_queue s) = Some (j, q) \<Longrightarrow>
    pool_step exec s (s\<lparr> to_collect := n, output_queue := q, collected := collected s @ [j] \<rparr>)"
| join: "to_dispatch s = [] \<Longrightarrow> to_collect s = 0 \<Longrightarrow> joined s < length (workers s) \<Longrightarrow>
    workers s ! joined s = Exited \<Longrightarrow> pool_step exec s (s\<lparr> joined := Suc (joined s) \<rparr>)"
| sigint: "\<not> thread_exit s \<Longrightarrow> pool_step exec s (s\<lparr> thread_exit := True \<rparr>)"

inductive_cases worker_stepE: "worker_step exec stopping (w, inq, outq) (w', inq', outq')"
inductive_simps worker_step_simps:
  "worker_step exec stopping (Took j, inq, outq) r"
  "worker_step exec stopping (Running j, inq, outq) r"
  "worker_step exec stopping (Done j, inq, outq) r"
  "worker_step exec stopping (Waiting, inq, outq) r"
  "worker_step exec stopping (Exited, inq, outq) r"
inductive_cases pool_stepE: "pool_step exec s s'"

definition pool_reach :: "(job \<Rightarrow> job) \<Rightarrow> job list \<Rightarrow> nat \<Rightarrow> pool \<Rightarrow> bool" where
  "pool_reach exec jobs processors s \<longleftrightarrow> (pool_step exec)\<^sup>*\<^sup>* (pool_init jobs processors) s"

text \<open>The main thread has joined every worker.\<close>

definition pool_final :: "pool \<Rightarrow> bool" where
  "pool_final s \<longleftrightarrow> to_dispatch s = [] \<and> to_collect s = 0 \<and> joined s = length (workers s)"

section \<open>No job is lost and none is reported twice\<close>

fun pending_of :: "worker \<Rightarrow> job multiset" where
  "pending_of (Took j) = (if is_break j then {#} else {#j#})"
| "pending_of (Running j) = {#j#}"
| "pending_of _ = {#}"

fun finished_of :: "worker \<Rightarrow> job multiset" where
  "finished_of (Done j) = {#j#}"
| "finished_of _ = {#}"

abbreviation regular :: "job list \<Rightarrow> job multiset" where
  "regular js \<equiv> {# j \<in># mset js. \<not> is_break j #}"

text \<open>The jobs that are still to be looked at, and the results that exist.\<close>

definition pending :: "pool \<Rightarrow> job multiset" where
  "pending s = regular (to_dispatch s) + (regular (input_queue s) + sum_list (map pending_of (workers s)))"

definition finished :: "pool \<Rightarrow> job multiset" where
  "finished s = mset (collected s) + (mset (output_queue s) + sum_list (map finished_of (workers s)))"

text \<open>What can become of a job: it is skipped, executed or, after an interrupt, abandoned.\<close>

definition outcome :: "(job \<Rightarrow> job) \<Rightarrow> bool \<Rightarrow> job \<Rightarrow> job \<Rightarrow> bool" where
  "outcome exec stopping j j' \<longleftrightarrow>
     stopping \<and> j' = set_is_break True j \<or> is_skip j \<and> j' = j \<or> \<not> is_skip j \<and> j' = exec j"

fun worker_ok :: "worker \<Rightarrow> bool" where
  "worker_ok (Running j) = (\<not> is_break j \<and> \<not> is_skip j)"
| "worker_ok _ = True"

lemma outcome_mono: "outcome exec False j j' \<Longrightarrow> outcome exec b j j'"
  by (auto simp: outcome_def)

lemma worker_step_effect:
  assumes "worker_step exec st (w, inq, outq) (w', inq', outq')" "worker_ok w"
  shows "worker_ok w' \<and>
    (regular inq' + pending_of w' = regular inq + pending_of w \<and>
     mset outq' + finished_of w' = mset outq + finished_of w \<or>
     (\<exists>j j'. regular inq + pending_of w = add_mset j (regular inq' + pending_of w') \<and>
       mset outq' + finished_of w' = add_mset j' (mset outq + finished_of w) \<and> outcome exec st j j'))"
  using assms by (auto elim!: worker_stepE simp: outcome_def queue_put_def dest!: jobq.get_Some)

definition conserved :: "(job \<Rightarrow> job) \<Rightarrow> job list \<Rightarrow> pool \<Rightarrow> bool" where
  "conserved exec jobs s \<longleftrightarrow> (\<forall>w \<in> set (workers s). worker_ok w) \<and>
     (\<exists>processed. mset jobs = pending s + processed \<and>
       rel_mset (outcome exec (thread_exit s)) processed (finished s))"

lemma conserved_init: "\<forall>j \<in> set jobs. \<not> is_break j \<Longrightarrow> conserved exec jobs (pool_init jobs p)"
proof -
  assume jobs: "\<forall>j \<in> set jobs. \<not> is_break j"
  have "regular (jobs @ replicate p stop_job) = mset jobs"
    using jobs by (induction jobs) (auto simp: stop_job_def set_is_break_def filter_mset_eq_conv)
  moreover have "sum_list (map f (replicate p Waiting)) = {#}" if "f Waiting = {#}"
    for f :: "worker \<Rightarrow> job multiset"
    using that by (induction p) auto
  ultimately show ?thesis
    by (simp add: conserved_def pool_init_def pending_def finished_def rel_mset_Zero)
qed

lemma conserved_worker:
  assumes inv: "conserved exec jobs s" and i: "i < length (workers s)"
    and step: "worker_step exec (thread_exit s) (workers s ! i, input_queue s, output_queue s) (w, inq, outq)"
  shows "conserved exec jobs
    (s\<lparr> workers := (workers s)[i := w], input_queue := inq, output_queue := outq \<rparr>)"
proof -
  let ?s = "s\<lparr> workers := (workers s)[i := w], input_queue := inq, output_queue := outq \<rparr>"
  let ?w = "workers s ! i"
  from inv obtain processed where ok: "\<forall>w \<in> set (workers s). worker_ok w"
    and jobs: "mset jobs = pending s + processed"
    and rel: "rel_mset (outcome exec (thread_exit s)) processed (finished s)"
    by (auto simp: conserved_def)
  note eff = worker_step_effect [OF step] 
  have "worker_ok ?w" using ok i by simp
  have okw: "\<forall>w \<in> set (workers ?s). worker_ok w"
    using eff \<open>worker_ok ?w\<close> ok set_update_subset_insert [of "workers s" i w] by auto
  have P: "pending ?s + (regular (input_queue s) + pending_of ?w) = pending s + (regular inq + pending_of w)"
    using sum_list_update_add [OF i, of pending_of w] by (simp add: pending_def) 
  have F: "finished ?s + (mset (output_queue s) + finished_of ?w) = finished s + (mset outq + finished_of w)"
    using sum_list_update_add [OF i, of finished_of w] by (simp add: finished_def)
  from eff \<open>worker_ok ?w\<close> consider
    "regular inq + pending_of w = regular (input_queue s) + pending_of ?w"
    "mset outq + finished_of w = mset (output_queue s) + finished_of ?w"
  | j j' where "regular (input_queue s) + pending_of ?w = add_mset j (regular inq + pending_of w)"
    "mset outq + finished_of w = add_mset j' (mset (output_queue s) + finished_of ?w)"
    "outcome exec (thread_exit s) j j'"
    by blast
  then show ?thesis
  proof cases
    case 1
    then have "pending ?s = pending s" "finished ?s = finished s" using P F by auto
    then show ?thesis using okw jobs rel unfolding conserved_def by auto
  next
    case 2
    then have "pending s = add_mset j (pending ?s)" "finished ?s = add_mset j' (finished s)"
      using P F by auto
    then have "mset jobs = pending ?s + add_mset j processed"
      "rel_mset (outcome exec (thread_exit ?s)) (add_mset j processed) (finished ?s)"
      using jobs rel_mset_Plus [OF 2(3) rel] by auto
    then show ?thesis using okw unfolding conserved_def by blast
  qed
qed

lemma conserved_step: "pool_step exec s s' \<Longrightarrow> conserved exec jobs s \<Longrightarrow> conserved exec jobs s'"
proof (induction rule: pool_step.induct)
  case (worker i s w inq outq)
  then show ?case by (rule_tac conserved_worker)
next
  case (dispatch s j js)
  then show ?case
    by (auto simp: conserved_def pending_def finished_def queue_put_def ac_simps)
next
  case (collect s n j q)
  then have "finished (s\<lparr> to_collect := n, output_queue := q, collected := collected s @ [j] \<rparr>) = finished s"
    by (simp add: finished_def jobq.mset_get)
  with collect show ?case by (simp add: conserved_def pending_def)
next
  case (join s)
  then show ?case by (simp add: conserved_def pending_def finished_def)
next
  case (sigint s)
  then obtain processed where "mset jobs = pending s + processed"
    "rel_mset (outcome exec True) processed (finished s)" "\<forall>w \<in> set (workers s). worker_ok w"
    using multiset.rel_mono_strong [of "outcome exec False"] outcome_mono
    by (fastforce simp: conserved_def)
  then show ?case by (auto simp: conserved_def pending_def finished_def)
qed

lemma conserved_reach:
  "pool_reach exec jobs p s \<Longrightarrow> \<forall>j \<in> set jobs. \<not> is_break j \<Longrightarrow> conserved exec jobs s"
  unfolding pool_reach_def
  by (induction rule: rtranclp_induct) (auto intro: conserved_init conserved_step)

section \<open>Stop jobs come last, one for each worker\<close>

fun stop_of :: "worker \<Rightarrow> nat" where
  "stop_of (Took j) = (if is_break j then 1 else 0)"
| "stop_of Exited = 1"
| "stop_of _ = 0"

definition stopped :: "pool \<Rightarrow> nat" where
  "stopped s = sum_list (map stop_of (workers s))"

definition in_flight :: "pool \<Rightarrow> job list" where
  "in_flight s = input_queue s @ to_dispatch s"

definition flow_ok :: "job list \<Rightarrow> nat \<Rightarrow> pool \<Rightarrow> bool" where
  "flow_ok jobs p s \<longleftrightarrow>
     length (workers s) = p \<and>
     length (filter is_break (in_flight s)) + stopped s = p \<and>
     sorted_wrt (\<lambda>a b. is_break a \<longrightarrow> is_break b) (in_flight s) \<and>
     (0 < stopped s \<longrightarrow> list_all is_break (in_flight s)) \<and>
     to_collect s + length (collected s) = length jobs \<and>
     joined s \<le> p \<and> (\<forall>i < joined s. workers s ! i = Exited)"

lemma worker_step_stops:
  assumes "worker_step exec st (w, inq, outq) (w', inq', outq')"
  shows "w \<noteq> Exited" and
    "inq' = inq \<and> stop_of w' = stop_of w \<or>
     (\<exists>j. inq = j # inq' \<and> stop_of w = 0 \<and> stop_of w' = (if is_break j then 1 else 0))"
  using assms by (auto elim!: worker_stepE dest!: jobq.get_Some)

lemma flow_ok_init: "\<forall>j \<in> set jobs. \<not> is_break j \<Longrightarrow> flow_ok jobs p (pool_init jobs p)"
proof -
  assume jobs: "\<forall>j \<in> set jobs. \<not> is_break j"
  have stop: "is_break stop_job" by (simp add: stop_job_def set_is_break_def)
  have "filter is_break jobs = []" using jobs by (simp add: filter_empty_conv)
  moreover have "sorted_wrt (\<lambda>a b. is_break a \<longrightarrow> is_break b) jobs"
    "sorted_wrt (\<lambda>a b. is_break a \<longrightarrow> is_break b) (replicate p stop_job)"
    using jobs stop by (simp_all add: sorted_wrt_iff_nth_less)
  then have "sorted_wrt (\<lambda>a b. is_break a \<longrightarrow> is_break b) (jobs @ replicate p stop_job)"
    using jobs by (simp add: sorted_wrt_append)
  moreover have "stopped (pool_init jobs p) = 0"
    by (simp add: stopped_def pool_init_def sum_list_replicate)
  ultimately show ?thesis using stop by (simp add: flow_ok_def in_flight_def pool_init_def)
qed

lemma flow_ok_worker:
  assumes inv: "flow_ok jobs p s" and i: "i < length (workers s)"
    and step: "worker_step exec (thread_exit s) (workers s ! i, input_queue s, output_queue s) (w, inq, outq)"
  shows "flow_ok jobs p
    (s\<lparr> workers := (workers s)[i := w], input_queue := inq, output_queue := outq \<rparr>)"
    (is "flow_ok jobs p ?s")
proof -
  have sum: "stopped ?s + stop_of (workers s ! i) = stopped s + stop_of w"
    using sum_list_update_add [OF i, of stop_of w] by (simp add: stopped_def)
  have joined: "\<forall>k < joined s. (workers s)[i := w] ! k = Exited"
  proof (intro allI impI)
    fix k
    assume "k < joined s"
    then have "workers s ! k = Exited" using inv by (simp add: flow_ok_def)
    then show "(workers s)[i := w] ! k = Exited"
      using worker_step_stops(1) [OF step] by (cases "k = i") auto
  qed
  from worker_step_stops(2) [OF step] show ?thesis
  proof (elim disjE exE conjE)
    assume "inq = input_queue s" "stop_of w = stop_of (workers s ! i)"
    then show ?thesis using inv sum joined by (simp add: flow_ok_def in_flight_def)
  next
    fix j
    assume j: "input_queue s = j # inq" "stop_of (workers s ! i) = 0"
      "stop_of w = (if is_break j then 1 else 0)"
    then have fl: "in_flight s = j # in_flight ?s" by (simp add: in_flight_def)
    show ?thesis
    proof (cases "is_break j")
      case True
      then have "list_all is_break (in_flight ?s)" using inv fl by (simp add: flow_ok_def list_all_iff)
      moreover have "length (filter is_break (in_flight ?s)) + stopped ?s = p"
      proof -
        have "length (filter is_break (in_flight s)) + stopped s = p" using inv by (simp only: flow_ok_def)
        then have "Suc (length (filter is_break (in_flight ?s))) + stopped s = p"
          by (simp only: fl filter.simps True if_True list.size)
        moreover have "stop_of w = 1" using j True by simp
        ultimately show ?thesis using sum j(2) by linarith
      qed
      ultimately show ?thesis using inv joined fl by (simp add: flow_ok_def)
    next
      case False
      then show ?thesis using inv sum joined j fl by (simp add: flow_ok_def)
    qed
  qed
qed

lemma flow_ok_step: "pool_step exec s s' \<Longrightarrow> flow_ok jobs p s \<Longrightarrow> flow_ok jobs p s'"
proof (induction rule: pool_step.induct)
  case (worker i s w inq outq)
  then show ?case by (rule_tac flow_ok_worker)
next
  case (dispatch s j js)
  then show ?case by (simp add: flow_ok_def in_flight_def stopped_def queue_put_def)
next
  case (join s)
  then show ?case by (auto simp: flow_ok_def in_flight_def stopped_def less_Suc_eq)
qed (simp_all add: flow_ok_def in_flight_def stopped_def)

lemma flow_ok_reach:
  "pool_reach exec jobs p s \<Longrightarrow> \<forall>j \<in> set jobs. \<not> is_break j \<Longrightarrow> flow_ok jobs p s"
  unfolding pool_reach_def
  by (induction rule: rtranclp_induct) (auto intro: flow_ok_init flow_ok_step)

text \<open>A worker that holds a job can always go on; a waiting one when there is something to take.\<close>

lemma worker_enabled:
  assumes "w \<noteq> Exited" "w = Waiting \<Longrightarrow> inq \<noteq> []"
  shows "\<exists>w' inq' outq'. worker_step exec st (w, inq, outq) (w', inq', outq')"
proof (cases w)
  case Waiting
  then show ?thesis using assms jobq.get_enabled [of inq] by (auto simp: worker_step_simps)
next
  case (Took j)
  then show ?thesis by (cases "is_break j"; cases st; cases "is_skip j") (auto simp: worker_step_simps)
qed (use assms in \<open>auto simp: worker_step_simps\<close>)

lemma stop_of_le: "stop_of w \<le> 1"
  by (cases w) auto

lemma sum_stop_of_le: "sum_list (map stop_of ws) \<le> length ws"
proof (induction ws)
  case (Cons w ws)
  then show ?case using stop_of_le [of w] by simp
qed simp

lemma stop_of_full: "sum_list (map stop_of ws) = length ws \<Longrightarrow> w \<in> set ws \<Longrightarrow> stop_of w = 1"
proof (induction ws)
  case (Cons v ws)
  then have "stop_of v = 1" "sum_list (map stop_of ws) = length ws"
    using stop_of_le [of v] sum_stop_of_le [of ws] by simp_all
  with Cons show ?case by auto
qed simp

lemma all_exited:
  assumes "flow_ok jobs p s" "0 < p" "to_dispatch s = []"
    and idle: "\<And>w. w \<in> set (workers s) \<Longrightarrow> w = Exited \<or> w = Waiting \<and> input_queue s = []"
  shows "\<forall>w \<in> set (workers s). w = Exited" "list_all is_break (input_queue s)"
proof -
  show exited: "\<forall>w \<in> set (workers s). w = Exited"
  proof (rule ccontr)
    assume "\<not> ?thesis"
    then have "Waiting \<in> set (workers s)" "input_queue s = []" using idle by blast+
    moreover from this have "sum_list (map stop_of (workers s)) = length (workers s)"
      using assms(1,3) by (simp add: flow_ok_def stopped_def in_flight_def)
    ultimately show False using stop_of_full by force
  qed
  obtain w where "w \<in> set (workers s)" using assms(1,2) by (cases "workers s") (auto simp: flow_ok_def)
  with exited have "stop_of w = 1" "w \<in> set (workers s)" by auto
  then have "0 < stopped s" unfolding stopped_def by (intro gr0I) force
  then show "list_all is_break (input_queue s)"
    using assms(1,3) by (simp add: flow_ok_def in_flight_def)
qed

section \<open>The properties of a run\<close>

lemma finished_final:
  assumes "conserved exec jobs s" "flow_ok jobs p s" "pool_final s"
  shows "pending s = {#}" "finished s = mset (collected s)"
proof -
  obtain processed where "mset jobs = pending s + processed" "size processed = size (finished s)"
    using assms(1) rel_mset_size by (fastforce simp: conserved_def)
  then have "length jobs = size (pending s) + size (finished s)" by (metis size_mset size_union)
  moreover have "length (collected s) = length jobs"
    using assms(2,3) by (simp add: flow_ok_def pool_final_def)
  ultimately show "pending s = {#}" "finished s = mset (collected s)" by (auto simp: finished_def)
qed

lemma outcome_run: "outcome exec False j j' \<longleftrightarrow> j' = (if is_skip j then j else exec j)"
  by (auto simp: outcome_def)

lemma rel_mset_fun: "rel_mset (\<lambda>a b. b = f a) M N \<Longrightarrow> N = image_mset f M"
proof -
  have "list_all2 (\<lambda>a b. b = f a) xs ys \<Longrightarrow> ys = map f xs" for xs ys
    by (induction rule: list_all2_induct) auto
  then show "rel_mset (\<lambda>a b. b = f a) M N \<Longrightarrow> N = image_mset f M"
    unfolding rel_mset_def by (metis mset_map)
qed

text \<open>
  C1: at every moment of every run, with any number of workers and an interrupt at any time,
  each job that was to be dispatched is either still pending or has exactly one result, which
  is the unchanged job if it is to be skipped, the executed job, or, only after an interrupt, the
  job marked as abandoned. When the main thread is through, the collected results are the
  results of all the jobs.
\<close>

theorem pool_conserves_jobs:
  assumes "pool_reach exec jobs processors s" "\<forall>j \<in> set jobs. \<not> is_break j"
  shows "\<exists>processed. mset jobs = pending s + processed \<and>
      rel_mset (outcome exec (thread_exit s)) processed (finished s) \<and>
      (pool_final s \<longrightarrow> processed = mset jobs \<and> finished s = mset (collected s))"
proof -
  note inv = conserved_reach [OF assms] and fl = flow_ok_reach [OF assms]
  from inv obtain processed where "mset jobs = pending s + processed"
    "rel_mset (outcome exec (thread_exit s)) processed (finished s)"
    by (auto simp: conserved_def)
  with finished_final [OF inv fl] show ?thesis by auto
qed

lemma pool_progress:
  assumes inv: "flow_ok jobs p s" "conserved exec jobs s" and "0 < p" and nf: "\<not> pool_final s"
  shows "\<exists>s'. pool_step exec s s' \<and> thread_exit s' = thread_exit s"
proof (rule ccontr)
  assume no: "\<not> ?thesis"
  have todo: "to_dispatch s = []"
    using no pool_step.dispatch [of s] by (cases "to_dispatch s") fastforce+
  have idle: "w = Exited \<or> w = Waiting \<and> input_queue s = []" if w: "w \<in> set (workers s)" for w
  proof (rule ccontr)
    assume "\<not> ?thesis"
    moreover obtain i where i: "i < length (workers s)" "workers s ! i = w"
      using w by (auto simp: in_set_conv_nth)
    ultimately obtain w' inq outq where
      "worker_step exec (thread_exit s) (workers s ! i, input_queue s, output_queue s) (w', inq, outq)"
      using worker_enabled [of w "input_queue s" exec "thread_exit s" "output_queue s"] by auto
    from pool_step.worker [OF i(1) this] show False using no by fastforce
  qed
  note exited = all_exited [OF inv(1) \<open>0 < p\<close> todo idle]
  have out: "output_queue s = []" if "to_collect s = Suc n" for n
    using no pool_step.collect [OF todo that] by (cases "output_queue s") fastforce+
  have "sum_list (map f (workers s)) = {#}" if "f Exited = {#}" for f :: "worker \<Rightarrow> job multiset"
    using exited(1) that by (intro sum_list_map_zero) auto
  moreover have "filter (\<lambda>j. \<not> is_break j) (input_queue s) = []"
    using exited(2) by (simp add: list_all_iff)
  then have "regular (input_queue s) = {#}" by (simp flip: mset_filter)
  ultimately have "pending s = {#}" "finished s = mset (collected s) + mset (output_queue s)"
    using todo by (simp_all add: pending_def finished_def)
  then have "length jobs = length (collected s) + length (output_queue s)"
    using inv(2) rel_mset_size by (fastforce simp: conserved_def simp flip: size_mset)
  then have "to_collect s = 0" using inv(1) out by (cases "to_collect s") (auto simp: flow_ok_def)
  moreover from this have "joined s < length (workers s)"
    using nf todo inv(1) by (auto simp: pool_final_def flow_ok_def)
  moreover from this have "workers s ! joined s = Exited" using exited(1) by simp
  ultimately show False using no pool_step.join [OF todo] by fastforce
qed

text \<open>What is left to do; every step of any thread reduces it.\<close>

fun worker_load :: "worker \<Rightarrow> nat" where
  "worker_load (Took j) = 4"
| "worker_load (Running j) = 3"
| "worker_load (Done j) = 2"
| "worker_load _ = 0"

definition load :: "pool \<Rightarrow> nat" where
  "load s = 6 * length (to_dispatch s) + 5 * length (input_queue s) +
     sum_list (map worker_load (workers s)) + length (output_queue s) +
     (length (workers s) - joined s) + (if thread_exit s then 0 else 1)"

lemma worker_step_load:
  "worker_step exec st (w, inq, outq) (w', inq', outq') \<Longrightarrow>
   5 * length inq' + worker_load w' + length outq' < 5 * length inq + worker_load w + length outq"
  by (auto elim!: worker_stepE simp: queue_put_def dest!: jobq.get_Some)

lemma pool_step_load: "pool_step exec s s' \<Longrightarrow> load s' < load s"
proof (induction rule: pool_step.induct)
  case (worker i s w inq outq)
  have "sum_list (map worker_load ((workers s)[i := w])) + worker_load (workers s ! i) =
      sum_list (map worker_load (workers s)) + worker_load w"
    by (rule sum_list_update_add [OF worker(1)])
  with worker_step_load [OF worker(2)] show ?case by (simp add: load_def)
qed (auto simp: load_def queue_put_def dest: jobq.length_get)

text \<open>
  C3: every step, of whatever thread, reduces \<open>load\<close>; so there is no infinite run, and a run
  with \<open>n\<close> jobs and \<open>p\<close> workers has at most \<open>6 n + 7 p + 1\<close> steps, whatever the scheduling and
  the interrupts.
\<close>

theorem pool_terminates:
  assumes "(pool_step exec ^^ k) (pool_init jobs processors) s"
  shows "k + load s \<le> 6 * length jobs + 7 * processors + 1"
proof -
  have "load (pool_init jobs processors) = 6 * length jobs + 7 * processors + 1"
    by (simp add: load_def pool_init_def sum_list_map_zero)
  moreover have "(pool_step exec ^^ k) s0 s \<Longrightarrow> k + load s \<le> load s0" for s0
    by (induction k arbitrary: s) (fastforce dest: pool_step_load)+
  ultimately show ?thesis using assms by metis
qed

lemma pool_gets_through:
  assumes "flow_ok jobs p s" "conserved exec jobs s" "0 < p"
  shows "\<exists>s'. (pool_step exec)\<^sup>*\<^sup>* s s' \<and> pool_final s' \<and> thread_exit s' = thread_exit s"
  using assms
proof (induction "load s" arbitrary: s rule: less_induct)
  case less
  show ?case
  proof (cases "pool_final s")
    case False
    obtain s' where s': "pool_step exec s s'" "thread_exit s' = thread_exit s"
      using pool_progress [OF less.prems False] by blast
    from less.hyps [OF pool_step_load [OF s'(1)]] less.prems
    obtain t where "(pool_step exec)\<^sup>*\<^sup>* s' t" "pool_final t" "thread_exit t = thread_exit s'"
      using flow_ok_step [OF s'(1)] conserved_step [OF s'(1)] by blast
    then show ?thesis using s' by (metis converse_rtranclp_into_rtranclp)
  qed blast
qed

text \<open>
  C2: with at least one worker the program cannot get stuck: in every state of a run, unless the
  main thread is through, some thread has a step to make that is not an interrupt, and the main
  thread gets through by such steps alone.
\<close>

theorem pool_deadlock_free:
  assumes "pool_reach exec jobs processors s" "\<forall>j \<in> set jobs. \<not> is_break j" "0 < processors"
  shows "(pool_final s \<or> (\<exists>s'. pool_step exec s s' \<and> thread_exit s' = thread_exit s)) \<and>
    (\<exists>s'. (pool_step exec)\<^sup>*\<^sup>* s s' \<and> pool_final s' \<and> thread_exit s' = thread_exit s)"
  using pool_progress pool_gets_through flow_ok_reach [OF assms(1,2)] conserved_reach [OF assms(1,2)]
    assms(3) by blast

text \<open>
  With no worker at all (\<open>os.sysconf\<close> answers -1 when the number is unknown) nothing takes the
  jobs: the main thread waits for a result for ever.
\<close>

lemma pool_stuck_without_workers:
  "pool_reach exec [new_job] 0 s \<Longrightarrow> \<not> pool_final s"
proof -
  assume "pool_reach exec [new_job] 0 s"
  then have "workers s = [] \<and> output_queue s = [] \<and> to_collect s = 1"
    unfolding pool_reach_def
    by (induction rule: rtranclp_induct) (auto simp: pool_init_def elim!: pool_stepE)
  then show ?thesis by (simp add: pool_final_def)
qed

lemma collected_sequential:
  assumes "pool_reach exec jobs processors s" "\<forall>j \<in> set jobs. \<not> is_break j"
    "pool_final s" "\<not> thread_exit s"
  shows "mset (collected s) = mset (map (\<lambda>j. if is_skip j then j else exec j) jobs)"
proof -
  note inv = conserved_reach [OF assms(1,2)] and fl = flow_ok_reach [OF assms(1,2)]
  have "rel_mset (outcome exec False) (mset jobs) (mset (collected s))"
    using inv finished_final [OF inv fl assms(3)] assms(4) by (auto simp: conserved_def)
  then show ?thesis
    using rel_mset_fun [of "\<lambda>j. if is_skip j then j else exec j"] by (simp add: outcome_run [abs_def])
qed

text \<open>
  C4: the schedule does not matter. Whatever the number of workers and the order in which the
  threads take their steps, a run without an interrupt collects the same results, each the same
  number of times: those of running the jobs one after the other.
\<close>

theorem pool_schedule_independent:
  assumes "pool_reach exec jobs processors s" "\<forall>j \<in> set jobs. \<not> is_break j"
    "pool_final s" "\<not> thread_exit s"
  shows "mset (collected s) = mset (map (\<lambda>j. if is_skip j then j else exec j) jobs)"
  by (rule collected_sequential [OF assms])

section \<open>The properties at a concrete pool\<close>

lemma pool_run_exists:
  assumes "\<forall>j \<in> set jobs. \<not> is_break j" "0 < p"
  shows "\<exists>s. pool_reach exec jobs p s \<and> pool_final s \<and> \<not> thread_exit s"
  using pool_gets_through [OF flow_ok_init [OF assms(1)] conserved_init [OF assms(1)] assms(2)]
  by (fastforce simp: pool_reach_def pool_init_def)

text \<open>Two jobs on three workers, the second to be skipped; executing a job sets return code 3.\<close>

definition two_jobs :: "job list" where
  "two_jobs = [set_display_name ''a'' new_job, set_is_skip True (set_display_name ''b'' new_job)]"

lemma two_jobs_ok: "\<forall>j \<in> set two_jobs. \<not> is_break j"
  by (simp add: two_jobs_def new_job_def job_setters)

theorem pool_conserves_jobs_witness:
  "\<exists>s. pool_reach (set_returncode 3) two_jobs 3 s \<and> pool_final s \<and>
     rel_mset (outcome (set_returncode 3) False) (mset two_jobs) (mset (collected s))"
proof -
  obtain s where s: "pool_reach (set_returncode 3) two_jobs 3 s" "pool_final s" "\<not> thread_exit s"
    using pool_run_exists [OF two_jobs_ok] by (metis zero_less_numeral)
  from pool_conserves_jobs [OF s(1) two_jobs_ok] s(2,3)
  have "rel_mset (outcome (set_returncode 3) False) (mset two_jobs) (mset (collected s))" by auto
  with s show ?thesis by blast
qed

theorem pool_terminates_witness:
  "1 + load (pool_init two_jobs 3\<lparr> thread_exit := True \<rparr>) \<le> 6 * length two_jobs + 7 * 3 + 1"
proof (rule pool_terminates [of 1 "set_returncode 3"])
  show "(pool_step (set_returncode 3) ^^ 1) (pool_init two_jobs 3)
      (pool_init two_jobs 3\<lparr> thread_exit := True \<rparr>)"
    unfolding relpowp_1 by (rule pool_step.sigint) (simp add: pool_init_def)
qed

theorem pool_deadlock_free_witness:
  "\<exists>s'. (pool_step (set_returncode 3))\<^sup>*\<^sup>* (pool_init two_jobs 3) s' \<and> pool_final s' \<and>
     thread_exit s' = thread_exit (pool_init two_jobs 3)"
proof -
  have "pool_reach (set_returncode 3) two_jobs 3 (pool_init two_jobs 3)" by (simp add: pool_reach_def)
  from conjunct2 [OF pool_deadlock_free [OF this two_jobs_ok]] show ?thesis by simp
qed

theorem pool_schedule_independent_witness:
  "\<exists>s. pool_reach (set_returncode 3) two_jobs 3 s \<and> pool_final s \<and>
     mset (collected s) = mset (map (\<lambda>j. if is_skip j then j else set_returncode 3 j) two_jobs)"
proof -
  obtain s where s: "pool_reach (set_returncode 3) two_jobs 3 s" "pool_final s" "\<not> thread_exit s"
    using pool_run_exists [OF two_jobs_ok] by (metis zero_less_numeral)
  from pool_schedule_independent [OF s(1) two_jobs_ok s(2,3)] s show ?thesis by blast
qed

end
