(* ===== verification/Results.thy ===== *)
theory Results
  imports WorkerPool Markup PyNum
begin

text \<open>
  What the main thread of \<open>test.py\<close> does with the collected results (\<open>run_tests\<close>, from
  the loop over \<open>output_queue.get()\<close> to the return value): the counters, the line printed for
  each job, the record appended to \<open>results.xml\<close>, the summary and the exit status. Reading a
  temporary result file is the parameter \<open>files\<close>; opening a file that is not there raises
  \<open>IOError\<close>.
\<close>

section \<open>Counters\<close>

datatype tally = Tally
  (passed_tests: nat) (failed_tests: nat) (crashed_tests: nat) (valgrind_errors: nat)
  (skipped_tests: nat)

instantiation tally :: comm_monoid_add
begin

definition zero_tally :: tally where
  "zero_tally = Tally 0 0 0 0 0"

definition plus_tally :: "tally \<Rightarrow> tally \<Rightarrow> tally" where
  "plus_tally a b = Tally (passed_tests a + passed_tests b) (failed_tests a + failed_tests b)
     (crashed_tests a + crashed_tests b) (valgrind_errors a + valgrind_errors b)
     (skipped_tests a + skipped_tests b)"

instance
  by standard (auto simp: zero_tally_def plus_tally_def)

end

text \<open>The status of a job, and the counter it bumps.\<close>

definition status :: "job \<Rightarrow> string" where
  "status j =
     (if is_skip j then ''SKIP''
      else if returncode j = 0 then ''PASS''
      else if returncode j = 1 then ''FAIL''
      else if returncode j = 2 then ''VALGR''
      else ''CRASH'')"

definition count_job :: "tally \<Rightarrow> job \<Rightarrow> tally" where
  "count_job t j =
     (case t of Tally p f c v s \<Rightarrow>
        if is_break j then t
        else if is_skip j then Tally p f c v (s + 1)
        else if returncode j = 0 then Tally (p + 1) f c v s
        else if returncode j = 1 then Tally p (f + 1) c v s
        else if returncode j = 2 then Tally p f c (v + 1) s
        else Tally p f (c + 1) v s)"

definition count_jobs :: "job list \<Rightarrow> tally" where
  "count_jobs js = foldl count_job (Tally 0 0 0 0 0) js"

lemma count_job_add: "count_job t j = t + count_job 0 j"
  by (cases t) (simp add: count_job_def zero_tally_def plus_tally_def)

lemma count_jobs_sum: "count_jobs js = sum_list (map (count_job 0) js)"
proof -
  have "foldl count_job t js = t + sum_list (map (count_job 0) js)" for t
  proof (induction js arbitrary: t)
    case (Cons j js)
    then show ?case by (simp add: add.assoc) (subst count_job_add, simp add: add.assoc)
  qed simp
  from this [of 0] show ?thesis by (simp only: count_jobs_def zero_tally_def [symmetric] add_0_left)
qed

lemma count_jobs_mset: "mset js = mset js' \<Longrightarrow> count_jobs js = count_jobs js'"
  by (simp add: count_jobs_sum flip: sum_mset_sum_list)

lemma count_jobs_passed:
  "passed_tests (count_jobs js) =
     length (filter (\<lambda>j. \<not> is_break j \<and> \<not> is_skip j \<and> returncode j = 0) js)"
  "skipped_tests (count_jobs js) = length (filter (\<lambda>j. \<not> is_break j \<and> is_skip j) js)"
  by (induction js)
     (auto simp: count_jobs_sum plus_tally_def zero_tally_def count_job_def)

section \<open>Records of \<open>results.xml\<close>\<close>

text \<open>\<open>%.3f\<close>: three digits after the point, halves to the even neighbour.\<close>

definition fmt3 :: "rat \<Rightarrow> string" where
  "fmt3 t =
     (let m = nat (round_half_even (\<bar>t\<bar> * 1000)) in
      (if t < 0 then ''-'' else '''') @ nat_str (m div 1000) @ ''.'' @
      [digit_char (m div 100 mod 10), digit_char (m div 10 mod 10), digit_char (m mod 10)])"

definition example_result :: "job \<Rightarrow> string" where
  "example_result j =
     (if status j = ''PASS'' then ''  <Result>PASS</Result>'' @ nl
      else if status j = ''FAIL'' then ''  <Result>FAIL</Result>'' @ nl
      else if status j = ''VALGR'' then ''  <Result>VALGR</Result>'' @ nl
      else if status j = ''SKIP'' then ''  <Result>SKIP</Result>'' @ nl
      else ''  <Result>CRASH</Result>'' @ nl)"

definition example_record :: "job \<Rightarrow> string" where
  "example_record j =
     ''<Example>'' @ nl @
     ''  <Name>'' @ display_name j @ ''</Name>'' @ nl @
     example_result j @
     ''  <Time real=\"'' @ fmt3 (elapsed_time j) @ ''\"/>'' @ nl @
     ''</Example>'' @ nl"

definition suite_record :: "(string \<Rightarrow> string option) \<Rightarrow> job \<Rightarrow> string res" where
  "suite_record files j =
     (if is_skip j then
        Inr (''<Test>'' @ nl @ ''  <Name>'' @ display_name j @ ''</Name>'' @ nl @
             ''  <Result>SKIP</Result>'' @ nl @ ''</Test>'' @ nl)
      else if returncode j = 0 \<or> returncode j = 1 \<or> returncode j = 2 then
        (case files (tmp_file_name j) of None \<Rightarrow> Inl IOError | Some s \<Rightarrow> Inr s)
      else
        Inr (''<Test>'' @ nl @ ''  <Name>'' @ display_name j @ ''</Name>'' @ nl @
             ''  <Result>CRASH</Suite>'' @ nl @ ''</Test>'' @ nl @
             (if returncode j = 2 then
                ''<Test>'' @ nl @ ''  <Name>'' @ display_name j @ ''</Name>'' @ nl @
                ''  <Result>VALGR</Result>'' @ nl @ ''</Test>'' @ nl
              else '''')))"

definition job_record :: "(string \<Rightarrow> string option) \<Rightarrow> job \<Rightarrow> string res" where
  "job_record files j =
     (if is_example j \<or> is_pyexample j then Inr (example_record j) else suite_record files j)"

definition status_line :: "job \<Rightarrow> string" where
  "status_line j =
     status j @ '': '' @ (if is_example j \<or> is_pyexample j then ''Example'' else ''TestSuite'') @
     '' '' @ display_name j @ nl"

text \<open>
  One turn of the loop: the counters, the text of \<open>results.xml\<close> and what has been printed.
\<close>

type_synonym report_state = "tally \<times> string \<times> string"

definition process_result ::
  "(string \<Rightarrow> string option) \<Rightarrow> report_state \<Rightarrow> job \<Rightarrow> report_state res" where
  "process_result files st j =
     (case st of (t, xml, out) \<Rightarrow>
        if is_break j then Inr (t, xml, out)
        else rbind (job_record files j) (\<lambda>r. Inr (count_job t j, xml @ r, out @ status_line j)))"

definition xml_header :: string where
  "xml_header = ''<?xml version=\"1.0\"?>'' @ nl @ ''<Results>'' @ nl"

definition xml_footer :: string where
  "xml_footer = ''</Results>'' @ nl"

definition summary_line :: "tally \<Rightarrow> nat \<Rightarrow> string" where
  "summary_line t total_tests =
     nat_str (passed_tests t) @ '' of '' @ nat_str total_tests @ '' tests passed ('' @
     nat_str (passed_tests t) @ '' passed, '' @ nat_str (skipped_tests t) @ '' skipped, '' @
     nat_str (failed_tests t) @ '' failed, '' @ nat_str (crashed_tests t) @ '' crashed, '' @
     nat_str (valgrind_errors t) @ '' valgrind errors)'' @ nl"

definition exit_status :: "tally \<Rightarrow> nat \<Rightarrow> int" where
  "exit_status t total_tests = (if passed_tests t + skipped_tests t = total_tests then 0 else 1)"

text \<open>
  All of it, for the results in the order in which they were collected: the return value, the
  contents of \<open>results.xml\<close> and what is printed.
\<close>

definition collect_results ::
  "(string \<Rightarrow> string option) \<Rightarrow> nat \<Rightarrow> job list \<Rightarrow> (int \<times> string \<times> string) res" where
  "collect_results files total_tests js =
     rbind (rfold (process_result files) (Tally 0 0 0 0 0, xml_header, '''') js) (\<lambda>(t, xml, out).
       Inr (exit_status t total_tests, xml @ xml_footer, out @ summary_line t total_tests))"

section \<open>The counters\<close>

lemma status_cases: "status j \<in> {''SKIP'', ''PASS'', ''FAIL'', ''VALGR'', ''CRASH''}"
  by (simp add: status_def)

lemma process_results_tally:
  "rfold (process_result files) (t, xml, out) js = Inr (t', xml', out') \<Longrightarrow> t' = foldl count_job t js"
proof (induction js arbitrary: t xml out)
  case (Cons j js)
  have "count_job t j = t" if "is_break j" using that by (cases t) (simp add: count_job_def)
  with Cons show ?case by (auto simp: process_result_def rbind_Inr_iff split: if_splits)
qed simp

lemma collect_results_code:
  "collect_results files n js = Inr (code, xml, out) \<Longrightarrow> code = exit_status (count_jobs js) n"
  by (auto simp: collect_results_def rbind_Inr_iff count_jobs_def dest!: process_results_tally)

lemma tally_plus:
  "passed_tests (a + b) = passed_tests a + passed_tests b"
  "failed_tests (a + b) = failed_tests a + failed_tests b"
  "crashed_tests (a + b) = crashed_tests a + crashed_tests b"
  "valgrind_errors (a + b) = valgrind_errors a + valgrind_errors b"
  "skipped_tests (a + b) = skipped_tests a + skipped_tests b"
  by (simp_all add: plus_tally_def)

lemma tally_zero:
  "passed_tests 0 = 0" "failed_tests 0 = 0" "crashed_tests 0 = 0" "valgrind_errors 0 = 0"
  "skipped_tests 0 = 0"
  by (simp_all add: zero_tally_def)

lemma count_job_selectors:
  "passed_tests (count_job 0 j) = (if \<not> is_break j \<and> status j = ''PASS'' then 1 else 0)"
  "failed_tests (count_job 0 j) = (if \<not> is_break j \<and> status j = ''FAIL'' then 1 else 0)"
  "crashed_tests (count_job 0 j) = (if \<not> is_break j \<and> status j = ''CRASH'' then 1 else 0)"
  "valgrind_errors (count_job 0 j) = (if \<not> is_break j \<and> status j = ''VALGR'' then 1 else 0)"
  "skipped_tests (count_job 0 j) = (if \<not> is_break j \<and> status j = ''SKIP'' then 1 else 0)"
  by (simp_all add: zero_tally_def count_job_def status_def)

definition with_status :: "string \<Rightarrow> job list \<Rightarrow> nat" where
  "with_status w js = length (filter (\<lambda>j. \<not> is_break j \<and> status j = w) js)"

lemma count_jobs_selectors:
  "passed_tests (count_jobs js) = with_status ''PASS'' js"
  "failed_tests (count_jobs js) = with_status ''FAIL'' js"
  "crashed_tests (count_jobs js) = with_status ''CRASH'' js"
  "valgrind_errors (count_jobs js) = with_status ''VALGR'' js"
  "skipped_tests (count_jobs js) = with_status ''SKIP'' js"
  unfolding count_jobs_sum with_status_def
  by (induction js) (simp_all add: tally_zero tally_plus count_job_selectors)

lemma with_status_all:
  "with_status ''PASS'' js + with_status ''FAIL'' js + with_status ''CRASH'' js +
   with_status ''VALGR'' js + with_status ''SKIP'' js + length (filter is_break js) = length js"
proof (induction js)
  case (Cons j js)
  have "with_status w (j # js) = (if \<not> is_break j \<and> status j = w then 1 else 0) + with_status w js" for w
    by (simp add: with_status_def)
  with Cons show ?case using status_cases [of j] by (cases "is_break j") auto
qed (simp add: with_status_def)

text \<open>
  Every collected result that was not abandoned bumps exactly one counter, the one of its
  status, whatever the order of the results.
\<close>

theorem count_jobs_spec:
  "passed_tests (count_jobs js) = with_status ''PASS'' js \<and>
   failed_tests (count_jobs js) = with_status ''FAIL'' js \<and>
   crashed_tests (count_jobs js) = with_status ''CRASH'' js \<and>
   valgrind_errors (count_jobs js) = with_status ''VALGR'' js \<and>
   skipped_tests (count_jobs js) = with_status ''SKIP'' js \<and>
   passed_tests (count_jobs js) + failed_tests (count_jobs js) + crashed_tests (count_jobs js) +
     valgrind_errors (count_jobs js) + skipped_tests (count_jobs js) +
     length (filter is_break js) = length js \<and>
   count_jobs (rev js) = count_jobs js"
  using with_status_all [of js] count_jobs_mset [of "rev js" js] by (simp add: count_jobs_selectors)

section \<open>The exit status\<close>

lemma passed_skipped_all:
  "passed_tests (count_jobs js) + skipped_tests (count_jobs js) = length js \<longleftrightarrow>
   (\<forall>j \<in> set js. \<not> is_break j \<and> (is_skip j \<or> returncode j = 0))"
proof -
  let ?P = "\<lambda>j. \<not> is_break j \<and> (is_skip j \<or> returncode j = 0)"
  have "passed_tests (count_jobs js) + skipped_tests (count_jobs js) = length (filter ?P js)"
    unfolding count_jobs_passed by (induction js) simp_all
  then show ?thesis by (simp only: length_filter_full)
qed

text \<open>
  C8: the exit status of a complete run is 0 exactly when no result was abandoned and each is a
  skipped job or one that returned 0. Without an interrupt this does not depend on the
  schedule: it is 0 exactly when each job that is not skipped returns 0 when it is launched.
\<close>

theorem exit_status_spec:
  assumes "pool_reach (launch opts spawn builddir) jobs processors s" "\<forall>j \<in> set jobs. \<not> is_break j"
    "pool_final s" "collect_results files (length jobs) (collected s) = Inr (code, xml, out)"
  shows "(code = 0 \<longleftrightarrow> (\<forall>j \<in> set (collected s). \<not> is_break j \<and> (is_skip j \<or> returncode j = 0))) \<and>
    (\<not> thread_exit s \<longrightarrow>
      (code = 0 \<longleftrightarrow> (\<forall>j \<in> set jobs. is_skip j \<or> returncode (launch opts spawn builddir j) = 0)))"
proof
  let ?f = "\<lambda>j. if is_skip j then j else launch opts spawn builddir j"
  note fl = flow_ok_reach [OF assms(1,2)]
  have "length (collected s) = length jobs"
    using fl assms(3) by (simp add: flow_ok_def pool_final_def)
  then show code: "code = 0 \<longleftrightarrow>
      (\<forall>j \<in> set (collected s). \<not> is_break j \<and> (is_skip j \<or> returncode j = 0))"
    using collect_results_code [OF assms(4)] passed_skipped_all [of "collected s"]
    by (simp add: exit_status_def)
  show "\<not> thread_exit s \<longrightarrow>
      (code = 0 \<longleftrightarrow> (\<forall>j \<in> set jobs. is_skip j \<or> returncode (launch opts spawn builddir j) = 0))"
  proof
    assume "\<not> thread_exit s"
    with assms(1-3) have "mset (collected s) = mset (map ?f jobs)" by (rule collected_sequential)
    then have "set (collected s) = ?f ` set jobs" by (metis set_mset_mset set_map)
    then have "code = 0 \<longleftrightarrow>
        (\<forall>j \<in> set jobs. \<not> is_break (?f j) \<and> (is_skip (?f j) \<or> returncode (?f j) = 0))"
      by (simp only: code ball_simps)
    moreover have "\<not> is_break (?f j) \<and> (is_skip (?f j) \<or> returncode (?f j) = 0) \<longleftrightarrow>
        is_skip j \<or> returncode (launch opts spawn builddir j) = 0" if "j \<in> set jobs" for j
      using assms(2) that by simp
    ultimately show "code = 0 \<longleftrightarrow>
        (\<forall>j \<in> set jobs. is_skip j \<or> returncode (launch opts spawn builddir j) = 0)"
      by simp
  qed
qed

section \<open>The document\<close>

lemma fmt3_plain: "CHR ''<'' \<notin> set (fmt3 t)" "CHR ''>'' \<notin> set (fmt3 t)"
proof -
  have "is_digit c \<Longrightarrow> c \<noteq> CHR ''<'' \<and> c \<noteq> CHR ''>''" for c by (auto simp: is_digit_def)
  moreover have "\<forall>c \<in> set (fmt3 t). is_digit c \<or> c = CHR ''-'' \<or> c = CHR ''.''"
    using nat_str_digits by (auto simp: fmt3_def Let_def)
  ultimately show "CHR ''<'' \<notin> set (fmt3 t)" "CHR ''>'' \<notin> set (fmt3 t)" by fastforce+
qed

lemma fragment_name: "CHR ''<'' \<notin> set s \<Longrightarrow> fragment (''  <Name>'' @ s @ ''</Name>'' @ nl)"
  by (rule fragment_wrap [of "[''Name'']"])
     (auto simp: opens_def closes_def nl_def scan_literal)

lemma fragment_literal_results:
  "fragment (''  <Result>PASS</Result>'' @ nl)" "fragment (''  <Result>FAIL</Result>'' @ nl)"
  "fragment (''  <Result>VALGR</Result>'' @ nl)" "fragment (''  <Result>SKIP</Result>'' @ nl)"
  "fragment (''  <Result>CRASH</Result>'' @ nl)"
  by (simp_all add: fragment_def nl_def scan_literal)

lemma fragment_time: "fragment (''  <Time real=\"'' @ fmt3 t @ ''\"/>'' @ nl)"
  by (simp add: fragment_def scan_text_append scan_attribute fmt3_plain nl_def)

lemma fragment_example_record:
  assumes "CHR ''<'' \<notin> set (display_name j)"
  shows "fragment (example_record j)"
proof -
  have ex: "opens [''Example''] (''<Example>'' @ nl)" "closes [''Example''] (''</Example>'' @ nl)"
    by (simp_all add: opens_def closes_def nl_def scan_literal)
  have "fragment (example_result j)"
    by (simp only: example_result_def if_distrib [of fragment] fragment_literal_results if_cancel)
  moreover have "example_record j = (''<Example>'' @ nl) @
      ((''  <Name>'' @ display_name j @ ''</Name>'' @ nl) @ example_result j @
       (''  <Time real=\"'' @ fmt3 (elapsed_time j) @ ''\"/>'' @ nl)) @ (''</Example>'' @ nl)"
    unfolding example_record_def by (simp only: append_assoc)
  ultimately show ?thesis
    using fragment_wrap [OF ex(1) _ ex(2)] fragment_append fragment_name [OF assms] fragment_time
    by metis
qed

text \<open>The record of a suite that crashed ends its \<open>Result\<close> with the tag \<open></Suite>\<close>.\<close>

definition crashed_suite :: "job \<Rightarrow> bool" where
  "crashed_suite j \<longleftrightarrow> \<not> is_break j \<and> \<not> is_skip j \<and> \<not> is_example j \<and> \<not> is_pyexample j \<and>
     returncode j \<notin> {0, 1, 2}"

lemma scan_skip_tail: "scan_text (''  <Result>SKIP</Result>'' @ nl @ ''</Test>'' @ nl) Text (''Test'' # stack) =
    Some (Text, stack)"
  and scan_crash_tail: "scan_text (''  <Result>CRASH</Suite>'' @ nl @ ''</Test>'' @ nl @ r) Text stack = None"
  by (simp_all add: nl_def scan_literal)

lemma scan_test_head:
  assumes "CHR ''<'' \<notin> set (display_name j)"
  shows "scan_text (''<Test>'' @ nl @ ''  <Name>'' @ display_name j @ ''</Name>'' @ nl @ r) Text stack =
    scan_text r Text (''Test'' # stack)"
  by (simp add: nl_def scan_literal scan_text_append scan_plain assms)

lemma scan_job_record:
  assumes plain: "CHR ''<'' \<notin> set (display_name j)" and "\<not> is_break j"
    and files: "\<And>s. files (tmp_file_name j) = Some s \<Longrightarrow> fragment s"
    and r: "job_record files j = Inr r"
  shows "scan_text r Text stack = (if crashed_suite j then None else Some (Text, stack))"
proof (cases "is_example j \<or> is_pyexample j")
  case True
  then have "r = example_record j" "\<not> crashed_suite j"
    using r by (auto simp: job_record_def crashed_suite_def)
  then show ?thesis using fragmentD [OF fragment_example_record [OF plain]] by simp
next
  case False
  then have r: "suite_record files j = Inr r" using r by (simp add: job_record_def)
  consider "is_skip j" | "\<not> is_skip j" "returncode j \<in> {0, 1, 2}" | "\<not> is_skip j" "returncode j \<notin> {0, 1, 2}"
    by blast
  then show ?thesis
  proof cases
    case 1
    then have "suite_record files j = Inr (''<Test>'' @ nl @ ''  <Name>'' @ display_name j @ ''</Name>'' @ nl @
        ''  <Result>SKIP</Result>'' @ nl @ ''</Test>'' @ nl)"
      by (simp only: suite_record_def if_True)
    with r have "r = ''<Test>'' @ nl @ ''  <Name>'' @ display_name j @ ''</Name>'' @ nl @
        ''  <Result>SKIP</Result>'' @ nl @ ''</Test>'' @ nl"
      by (simp only: sum.inject)
    then show ?thesis
      using 1 by (simp only: scan_test_head [OF plain] scan_skip_tail crashed_suite_def simp_thms if_False)
  next
    case 2
    then have "files (tmp_file_name j) = Some r"
      using r by (auto simp: suite_record_def split: option.splits)
    then show ?thesis using files 2 fragmentD by (auto simp: crashed_suite_def)
  next
    case 3
    then have n: "\<not> (returncode j = 0 \<or> returncode j = 1 \<or> returncode j = 2)" "returncode j \<noteq> 2" by auto
    have "crashed_suite j" using 3 False assms(2) by (simp add: crashed_suite_def)
    moreover obtain t where "r = ''<Test>'' @ nl @ ''  <Name>'' @ display_name j @ ''</Name>'' @ nl @
        ''  <Result>CRASH</Suite>'' @ nl @ ''</Test>'' @ nl @ t"
      using r unfolding suite_record_def if_not_P [OF 3(1)] if_not_P [OF n(1)] sum.inject by blast
    ultimately show ?thesis by (simp only: scan_test_head [OF plain] scan_crash_tail if_True)
  qed
qed

lemma scan_results:
  assumes "\<forall>j \<in> set js. CHR ''<'' \<notin> set (display_name j) \<and>
      (\<forall>s. files (tmp_file_name j) = Some s \<longrightarrow> fragment s)"
    and "rfold (process_result files) (t, xml, out) js = Inr (t', xml', out')"
    and "scan_text xml Text [] \<in> {None, Some (Text, stack)}"
  shows "scan_text xml' Text [] =
    (if \<exists>j \<in> set js. crashed_suite j then None else scan_text xml Text [])"
  using assms
proof (induction js arbitrary: t xml out)
  case (Cons j js)
  show ?case
  proof (cases "is_break j")
    case True
    then show ?thesis using Cons by (auto simp: process_result_def crashed_suite_def)
  next
    case False
    then obtain r where r: "job_record files j = Inr r" and
      run: "rfold (process_result files) (count_job t j, xml @ r, out @ status_line j) js = Inr (t', xml', out')"
      using Cons.prems(2) unfolding rfold.simps by (auto simp: process_result_def [of files "(t, xml, out)"] rbind_Inr_iff)
    have "scan_text r Text stack = (if crashed_suite j then None else Some (Text, stack))"
      using scan_job_record [OF _ False _ r] Cons.prems(1) by simp
    then have "scan_text (xml @ r) Text [] = (if crashed_suite j then None else scan_text xml Text [])"
      using Cons.prems(3) by (auto simp: scan_text_append)
    then show ?thesis using Cons.IH [OF _ run] Cons.prems(1,3) by auto
  qed
qed simp

lemma scan_header: "scan_text xml_header Text [] = Some (Text, [''Results''])"
  and scan_footer: "scan_text xml_footer Text [''Results''] = Some (Text, [])"
  by (simp_all add: xml_header_def xml_footer_def nl_def scan_literal)

text \<open>
  C9: when no name contains an opening angle bracket and every temporary result file is a
  fragment with balanced tags, \<open>results.xml\<close> has balanced tags exactly when no test suite
  crashed. (A crash writes an end tag that matches nothing, so the report cannot be parsed.)
\<close>

theorem results_xml_balanced:
  assumes "\<forall>j \<in> set js. CHR ''<'' \<notin> set (display_name j) \<and>
      (\<forall>s. files (tmp_file_name j) = Some s \<longrightarrow> fragment s)"
    and "collect_results files n js = Inr (code, xml, out)"
  shows "tags_balanced xml \<longleftrightarrow> \<not> (\<exists>j \<in> set js. crashed_suite j)"
proof -
  obtain t xml' out' where run: "rfold (process_result files) (Tally 0 0 0 0 0, xml_header, '''') js =
      Inr (t, xml', out')" and xml: "xml = xml' @ xml_footer"
    using assms(2) by (auto simp: collect_results_def rbind_Inr_iff)
  show ?thesis
    using scan_results [OF assms(1) run, of "[''Results'']"]
    by (simp add: scan_header scan_footer tags_balanced_def xml scan_text_append)
qed

section \<open>When the loop fails\<close>

lemma job_record_fails_iff:
  "(\<exists>e. job_record files j = Inl e) \<longleftrightarrow>
     \<not> is_example j \<and> \<not> is_pyexample j \<and> \<not> is_skip j \<and> returncode j \<in> {0, 1, 2} \<and>
     files (tmp_file_name j) = None"
  by (simp add: job_record_def suite_record_def split: option.split)

lemma process_results_ok:
  "(\<And>j. j \<in> set js \<Longrightarrow> files (tmp_file_name j) \<noteq> None) \<Longrightarrow>
   \<exists>st'. rfold (process_result files) st js = Inr st'"
proof (induction js arbitrary: st)
  case (Cons j js)
  obtain t xml out where st: "st = (t, xml, out)" by (cases st)
  have "\<exists>r. job_record files j = Inr r"
    using job_record_fails_iff [of files j] Cons.prems by (cases "job_record files j") auto
  then obtain r where r: "job_record files j = Inr r" ..
  show ?case
  proof (cases "is_break j")
    case True
    then show ?thesis using Cons by (simp add: process_result_def [of files "(t, xml, out)" j] st)
  next
    case False
    then show ?thesis using Cons r by (simp add: process_result_def [of files "(t, xml, out)" j] st)
  qed
next
  case Nil
  then show ?case by (cases st) simp
qed

lemma collect_results_ok:
  assumes "\<And>f. files f \<noteq> None"
  shows "\<exists>code xml out. collect_results files n js = Inr (code, xml, out)"
  using process_results_ok [of js files "(Tally 0 0 0 0 0, xml_header, '''')"] assms
  by (auto simp: collect_results_def)

text \<open>
  A test suite that ran to its end (return code 0, 1 or 2) contributes the contents of its
  result file and nothing else: a valgrind error (2) adds no record with the result \<open>VALGR\<close>.
  A result file that is missing raises \<open>IOError\<close>; only a crash is reported without a file.
\<close>

theorem suite_record_spec:
  assumes "\<not> is_skip j"
  shows "suite_record files j =
    (if returncode j \<in> {0, 1, 2}
     then (case files (tmp_file_name j) of None \<Rightarrow> Inl IOError | Some s \<Rightarrow> Inr s)
     else Inr (''<Test>'' @ nl @ ''  <Name>'' @ display_name j @ ''</Name>'' @ nl @
          ''  <Result>CRASH</Suite>'' @ nl @ ''</Test>'' @ nl))"
  using assms by (simp add: suite_record_def)

definition crash_job :: job where
  "crash_job = set_returncode 139 (set_display_name ''wifi'' new_job)"

theorem suite_record_witness:
  "suite_record (\<lambda>f. None) crash_job =
     Inr (''<Test>'' @ nl @ ''  <Name>wifi</Name>'' @ nl @ ''  <Result>CRASH</Suite>'' @ nl @ ''</Test>'' @ nl)"
  using suite_record_spec [of crash_job "\<lambda>f. None"]
  by (simp add: crash_job_def new_job_def job_setters)

theorem results_xml_balanced_witness:
  "\<exists>code xml out. collect_results (\<lambda>f. Some ''<Test></Test>'') 2 (crash_job # two_jobs) = Inr (code, xml, out) \<and>
     \<not> tags_balanced xml"
proof -
  obtain code xml out where
    r: "collect_results (\<lambda>f. Some ''<Test></Test>'') 2 (crash_job # two_jobs) = Inr (code, xml, out)"
    using collect_results_ok [of "\<lambda>f. Some ''<Test></Test>''" 2 "crash_job # two_jobs"] by auto
  have "fragment ''<Test></Test>''" by (simp add: fragment_def scan_literal)
  then have "\<forall>j \<in> set (crash_job # two_jobs). CHR ''<'' \<notin> set (display_name j) \<and>
      (\<forall>s. Some ''<Test></Test>'' = Some s \<longrightarrow> fragment s)"
    by (simp add: crash_job_def two_jobs_def new_job_def job_setters)
  from results_xml_balanced [OF this r] have "\<not> tags_balanced xml"
    by (simp add: crashed_suite_def crash_job_def new_job_def job_setters)
  with r show ?thesis by blast
qed

theorem exit_status_witness:
  "\<exists>s code xml out.
     pool_reach (launch default_options (\<lambda>c d. (3, [], [], 0)) ''/ns3/build'') two_jobs 3 s \<and>
     collect_results (\<lambda>f. Some []) (length two_jobs) (collected s) = Inr (code, xml, out) \<and> code \<noteq> 0"
proof -
  let ?exec = "launch default_options (\<lambda>c d. (3, [], [], 0)) ''/ns3/build''"
  obtain s where s: "pool_reach ?exec two_jobs 3 s" "pool_final s" "\<not> thread_exit s"
    using pool_run_exists [OF two_jobs_ok] by (metis zero_less_numeral)
  obtain code xml out where
    r: "collect_results (\<lambda>f. Some []) (length two_jobs) (collected s) = Inr (code, xml, out)"
    using collect_results_ok [of "\<lambda>f. Some []" "length two_jobs" "collected s"] by auto
  have "code = 0 \<longleftrightarrow> (\<forall>j \<in> set two_jobs. is_skip j \<or> returncode (?exec j) = 0)"
    using exit_status_spec [OF s(1) two_jobs_ok s(2) r] s(3) by blast
  then have "code \<noteq> 0"
    by (simp add: two_jobs_def new_job_def job_setters launch_def run_job_synchronously_def
        default_options_def)
  with s r show ?thesis by blast
qed

end
