(* ===== verification/Runner.thy ===== *)
theory Runner
  imports Dispatch Results Html
begin

text \<open>
  \<open>run_tests\<close> and \<open>main\<close> of \<open>test.py\<close> as a whole: the plan, the results of the jobs in the order
  in which the threads of the pool deliver them, the reports and the exit status. The order is a
  parameter here; the theory \<open>WorkerPool\<close> says which orders there are.
\<close>

section \<open>After the jobs\<close>

text \<open>The files written: the file of the option and its contents.\<close>

definition write_reports :: "options \<Rightarrow> (string \<Rightarrow> xml res) \<Rightarrow> string \<Rightarrow> (string \<times> string) list res" where
  "write_reports opts parse results =
     rbind (if html_file opts \<noteq> [] then
              rbind (rbind (parse results) translate_to_html) (\<lambda>t. Inr [(html_file opts, t)])
            else Inr []) (\<lambda>html.
     rbind (if text_file opts \<noteq> [] then
              rbind (rbind (parse results) translate_to_text) (\<lambda>t. Inr [(text_file opts, t)])
            else Inr []) (\<lambda>txt.
       Inr (html @ txt @ (if xml_file opts \<noteq> [] then [(xml_file opts, results)] else []))))"

definition disabled_note :: "string \<Rightarrow> string \<Rightarrow> string" where
  "disabled_note what option =
     ''***  Note: ns-3 '' @ what @ '' are currently disabled. Enable them by adding'' @ nl @
     ''***  \"'' @ option @ ''\" to ./waf configure or modifying your .ns3rc file.'' @ nl @ nl"

definition disabled_notes :: "globals \<Rightarrow> string res" where
  "disabled_notes g =
     rbind (global_var g ''ENABLE_TESTS'') (\<lambda>tests.
     rbind (global_var g ''ENABLE_EXAMPLES'') (\<lambda>examples.
       Inr (if \<not> truthy tests \<or> \<not> truthy examples then
              nl @ (if \<not> truthy tests then disabled_note ''tests'' ''--enable-tests'' else []) @
              (if \<not> truthy examples then disabled_note ''examples'' ''--enable-examples'' else [])
            else [])))"

section \<open>The whole run\<close>

record outcome =
  exit_code :: int
  reports :: "(string \<times> string) list"
  printed :: string
  kept_files :: bool

text \<open>
  \<open>schedule\<close> gives the results in the order of their arrival, \<open>result_files\<close> the files that the
  suites have written. Without jobs to run the function returns \<open>None\<close>, which exits with 0.
\<close>

definition run_tests ::
  "options \<Rightarrow> evaluator \<Rightarrow> surroundings \<Rightarrow> (string \<Rightarrow> string option) \<Rightarrow> (string \<Rightarrow> xml res) \<Rightarrow>
   ((job \<Rightarrow> job) \<Rightarrow> job list \<Rightarrow> job list) \<Rightarrow> outcome res" where
  "run_tests opts ev s result_files parse schedule =
     rbind (plan_tests opts ev s) (\<lambda>p.
       case p of
         WafDied rc \<Rightarrow> Inr \<lparr> exit_code = rc, reports = [], printed = [], kept_files = False \<rparr>
       | Listed texts \<Rightarrow>
           Inr \<lparr> exit_code = 0, reports = [], printed = concat (map (\<lambda>t. t @ nl) texts), kept_files = False \<rparr>
       | Dispatch js builddir g env \<Rightarrow>
           rbind (collect_results result_files (length js)
                    (schedule (launch opts (processes s env) builddir) js)) (\<lambda>(code, results, out).
           rbind (write_reports opts parse results) (\<lambda>rs.
           rbind (disabled_notes g) (\<lambda>remarks.
             Inr \<lparr> exit_code = code, reports = rs, printed = out @ remarks, kept_files = retain opts \<rparr>))))"

text \<open>\<open>sys.exit(main(sys.argv))\<close>: an exception that nobody catches exits with 1.\<close>

definition main_status :: "outcome res \<Rightarrow> int" where
  "main_status r =
     (case r of
        Inl (SystemExit n) \<Rightarrow> n
      | Inl _ \<Rightarrow> 1
      | Inr out \<Rightarrow> exit_code out)"

text \<open>What a run without threads does: one job after the other.\<close>

definition one_by_one :: "(job \<Rightarrow> job) \<Rightarrow> job list \<Rightarrow> job list" where
  "one_by_one exec js = map (\<lambda>j. if is_skip j then j else exec j) js"

section \<open>The run and its schedule\<close>

lemma plan_not_break:
  assumes "plan_tests opts ev s = Inr (Dispatch js b g env)"
  shows "\<forall>j \<in> set js. \<not> is_break j"
proof -
  have "\<forall>j \<in> set js. \<not> is_break j"
    if "dispatch_jobs opts ev g dir out ask programs scripts tests = Inr js" for g dir out ask programs scripts tests
    using that suite_jobs_ok example_jobs_ok pyexample_jobs_ok
    by (fastforce simp: dispatch_jobs_def rbind_Inr_iff list_all_iff)
  then have "\<forall>j \<in> set js. \<not> is_break j" if "plan_built opts ev s fs = Inr (Dispatch js b g env)" for fs
    using that by (auto simp: plan_built_def rbind_Inr_iff Let_def split: if_splits)
  then show ?thesis
    using assms by (auto simp: plan_tests_def split: if_splits prod.splits)
qed

lemma run_tests_dispatched:
  assumes "plan_tests opts ev s = Inr (Dispatch js b g env)"
    and "run_tests opts ev s result_files parse schedule = Inr out"
  shows "\<exists>lines remarks rs. disabled_notes g = Inr remarks \<and>
    out = \<lparr> exit_code = exit_status (count_jobs (schedule (launch opts (processes s env) b) js)) (length js),
      reports = rs,
      printed = lines @ summary_line (count_jobs (schedule (launch opts (processes s env) b) js)) (length js) @ remarks,
      kept_files = retain opts \<rparr>"
  using assms
  by (auto simp: run_tests_def rbind_Inr_iff collect_results_def count_jobs_def dest!: process_results_tally)
text \<open>
  C10: the threads do not matter for the outcome. When the results come from any complete run of
  the pool without an interrupt, the exit status, the last lines printed and what is kept are
  those of running the planned jobs one after the other; and the status is 0 exactly when each
  job is skipped or returns 0 when it is launched.
\<close>

theorem run_tests_refines:
  assumes "plan_tests opts ev s = Inr (Dispatch js b g env)"
    and "pool_reach (launch opts (processes s env) b) js processors pool" "pool_final pool" "\<not> thread_exit pool"
    and "run_tests opts ev s result_files parse (\<lambda>exec js. collected pool) = Inr out"
    and "run_tests opts ev s result_files' parse' one_by_one = Inr out'"
  shows "exit_code out = exit_code out' \<and> kept_files out = kept_files out' \<and>
    (\<exists>lines lines' last. printed out = lines @ last \<and> printed out' = lines' @ last \<and>
       (\<exists>remarks. last = summary_line (count_jobs (collected pool)) (length js) @ remarks)) \<and>
    (exit_code out = 0 \<longleftrightarrow>
      (\<forall>j \<in> set js. is_skip j \<or> returncode (launch opts (processes s env) b j) = 0))"
proof -
  let ?exec = "launch opts (processes s env) b"
  note live = plan_not_break [OF assms(1)]
  have "mset (collected pool) = mset (one_by_one ?exec js)"
    unfolding one_by_one_def by (rule collected_sequential [OF assms(2) live assms(3,4)])
  then have counts: "count_jobs (collected pool) = count_jobs (one_by_one ?exec js)"
    by (rule count_jobs_mset)
  have len: "length (one_by_one ?exec js) = length js" by (simp add: one_by_one_def)
  have "exit_status (count_jobs (one_by_one ?exec js)) (length js) = 0 \<longleftrightarrow>
      (\<forall>j \<in> set (one_by_one ?exec js). \<not> is_break j \<and> (is_skip j \<or> returncode j = 0))"
    using passed_skipped_all [of "one_by_one ?exec js"] by (simp add: exit_status_def len)
  also have "\<dots> \<longleftrightarrow> (\<forall>j \<in> set js. is_skip j \<or> returncode (?exec j) = 0)"
  proof -
    have "\<not> is_break (if is_skip j then j else ?exec j) \<and>
        (is_skip (if is_skip j then j else ?exec j) \<or> returncode (if is_skip j then j else ?exec j) = 0) \<longleftrightarrow>
        is_skip j \<or> returncode (?exec j) = 0" if "j \<in> set js" for j
      using live that by simp
    then show ?thesis unfolding one_by_one_def set_map ball_simps by blast
  qed
  finally have zero: "exit_status (count_jobs (one_by_one ?exec js)) (length js) = 0 \<longleftrightarrow>
      (\<forall>j \<in> set js. is_skip j \<or> returncode (?exec j) = 0)" .
  obtain lines rs remarks where out: "disabled_notes g = Inr remarks"
    "out = \<lparr> exit_code = exit_status (count_jobs (collected pool)) (length js), reports = rs,
       printed = lines @ summary_line (count_jobs (collected pool)) (length js) @ remarks, kept_files = retain opts \<rparr>"
    using run_tests_dispatched [OF assms(1,5)] by (elim exE conjE) (rule that)
  obtain lines' rs' remarks' where out': "disabled_notes g = Inr remarks'"
    "out' = \<lparr> exit_code = exit_status (count_jobs (one_by_one ?exec js)) (length js), reports = rs',
       printed = lines' @ summary_line (count_jobs (one_by_one ?exec js)) (length js) @ remarks', kept_files = retain opts \<rparr>"
    using run_tests_dispatched [OF assms(1,6)] by (elim exE conjE) (rule that)
  have "remarks' = remarks" using out(1) out'(1) by simp
  then have "exit_code out = exit_code out'" "kept_files out = kept_files out'"
    "printed out = lines @ summary_line (count_jobs (collected pool)) (length js) @ remarks"
    "printed out' = lines' @ summary_line (count_jobs (collected pool)) (length js) @ remarks"
    "exit_code out = exit_status (count_jobs (one_by_one ?exec js)) (length js)"
    using out(2) out'(2) counts by simp_all
  with zero show ?thesis by metis
qed

definition sample_disk :: "string \<Rightarrow> string option" where
  "sample_disk = [''.lock-wafbuild'' \<mapsto> ''out_dir = b'' @ nl, ''b/c4che/_cache.py'' \<mapsto> ''NS3_MODULE_PATH = []'' @ nl,
     ''b/build-status.py'' \<mapsto> []]"

definition sample_surroundings :: surroundings where
  "sample_surroundings = \<lparr> plat = Linux, run_waf = (\<lambda>c. (0, sample_disk)), disk = sample_disk,
     environment = [], processes = (\<lambda>env c d. (0, ''wifi'' @ nl, [], 0)), here = ''/ns3'', outdir = ''out'' \<rparr>"

definition setting_ev :: evaluator where
  "setting_ev = sample_ev\<lparr> exec_line := (\<lambda>s g. Inr (dset ''NS3_MODULE_PATH'' (PyList [])
     (dset ''NS3_ENABLED_MODULES'' (PyList []) g))) \<rparr>"

lemma sample_plan:
  "case plan_tests default_options setting_ev sample_surroundings of
     Inr (Dispatch js b g env) \<Rightarrow> disabled_notes g = Inr [] \<and> map display_name js = [''wifi'']
   | _ \<Rightarrow> False"
  by code_simp


theorem run_tests_witness:
  "\<exists>js b g env (pool :: pool) out out'.
     plan_tests default_options setting_ev sample_surroundings = Inr (Dispatch js b g env) \<and>
     run_tests default_options setting_ev sample_surroundings (\<lambda>f. Some []) (\<lambda>x. Inl PyException)
       (\<lambda>exec js. collected pool) = Inr out \<and>
     run_tests default_options setting_ev sample_surroundings (\<lambda>f. Some []) (\<lambda>x. Inl PyException)
       one_by_one = Inr out' \<and>
     exit_code out = exit_code out'"
proof -
  obtain js b g env where plan: "plan_tests default_options setting_ev sample_surroundings = Inr (Dispatch js b g env)"
    "disabled_notes g = Inr []"
    using sample_plan by (auto split: sum.splits plan.splits)
  let ?exec = "launch default_options (processes sample_surroundings env) b"
  obtain pool where pool: "pool_reach ?exec js 2 pool" "pool_final pool" "\<not> thread_exit pool"
    using pool_run_exists [OF plan_not_break [OF plan(1)], of 2] by auto
  have run: "\<exists>out. run_tests default_options setting_ev sample_surroundings (\<lambda>f. Some []) (\<lambda>x. Inl PyException) schedule = Inr out"
    for schedule
    using plan collect_results_ok [of "\<lambda>f. Some []" "length js" "schedule ?exec js"]
    by (auto simp: run_tests_def write_reports_def default_options_def)
  obtain out out' where outs:
    "run_tests default_options setting_ev sample_surroundings (\<lambda>f. Some []) (\<lambda>x. Inl PyException)
      (\<lambda>exec js. collected pool) = Inr out"
    "run_tests default_options setting_ev sample_surroundings (\<lambda>f. Some []) (\<lambda>x. Inl PyException) one_by_one = Inr out'"
    using run by metis
  note same = run_tests_refines [OF plan(1) pool outs, THEN conjunct1]
  show ?thesis by (intro exI conjI, rule plan(1), rule outs(1), rule outs(2), rule same)
qed

end
