(* ===== verification/ShellCmd.thy ===== *)
theory ShellCmd
  imports Shlex
begin

text \<open>
  The command language of \<open>waf-tools/shellcmd.py\<close>: the nodes of a pipeline, the parser
  \<open>Pipeline.parse\<close> and \<open>get_abbreviated_command\<close>. The debug message of the parser is left out.
\<close>

section \<open>Nodes\<close>

text \<open>Where an output goes: the constants of the class \<open>Command\<close>, or the name of a file.\<close>

datatype target = TargetFile string | TargetPipe | TargetStdout

record command =
  cmd_name :: string
  argv :: "string list"
  cmd_stdin :: "string option"
  cmd_stdout :: "target option"
  cmd_stderr :: "target option"
  env_vars :: "(string, string) dict option"

datatype node = Command command | Chdir "string option" | Pipe | And | Or

definition new_command :: "string \<Rightarrow> command" where
  "new_command name =
     \<lparr> cmd_name = name, argv = [name], cmd_stdin = None, cmd_stdout = None, cmd_stderr = None, env_vars = None \<rparr>"

section \<open>The parser\<close>

datatype parse_state = BEGIN | COMMAND | CHDIR | STDERR | STDOUT | STDIN

record line_parser =
  p_state :: parse_state
  current_command :: "node option"
  pipeline :: "node list"
  p_env :: "(string, string) dict"

text \<open>
  The expression for an assignment: word characters, an equals sign, and a text without white space
  up to the end of the token or to a newline that ends it.
\<close>

definition is_word_char :: "char \<Rightarrow> bool" where
  "is_word_char c \<longleftrightarrow>
     (let n = of_char c :: nat in 48 \<le> n \<and> n < 58 \<or> 65 \<le> n \<and> n < 91 \<or> 97 \<le> n \<and> n < 123 \<or> n = 95)"

definition chomp :: "string \<Rightarrow> string" where
  "chomp s = (if s \<noteq> [] \<and> last s = CHR 0x0A then butlast s else s)"

definition env_var_match :: "string \<Rightarrow> (string \<times> string) option" where
  "env_var_match token =
     (let name = takeWhile is_word_char token in
      case dropWhile is_word_char token of
        [] \<Rightarrow> None
      | c # rest \<Rightarrow>
          if name \<noteq> [] \<and> c = CHR ''='' \<and> chomp rest \<noteq> [] \<and> list_all (\<lambda>c. \<not> is_space c) (chomp rest)
          then Some (name, chomp rest) else None)"

definition commit_command :: "line_parser \<Rightarrow> line_parser res" where
  "commit_command p =
     (case current_command p of
        None \<Rightarrow> Inl AssertionError
      | Some n \<Rightarrow> Inr (p\<lparr> pipeline := pipeline p @ [n], current_command := None \<rparr>))"

definition add_node :: "node \<Rightarrow> line_parser \<Rightarrow> line_parser" where
  "add_node n p = p\<lparr> pipeline := pipeline p @ [n], p_state := BEGIN \<rparr>"

text \<open>
  A change of the current command; an attribute of \<open>None\<close> or of another node is not there.
\<close>

definition on_command :: "(command \<Rightarrow> command res) \<Rightarrow> line_parser \<Rightarrow> line_parser res" where
  "on_command f p =
     (case current_command p of
        Some (Command c) \<Rightarrow> rbind (f c) (\<lambda>c'. Inr (p\<lparr> current_command := Some (Command c') \<rparr>))
      | _ \<Rightarrow> Inl AttributeError)"

definition py_assert :: "bool \<Rightarrow> 'a \<Rightarrow> 'a res" where
  "py_assert b a = (if b then Inr a else Inl AssertionError)"

definition begin_step :: "string \<Rightarrow> line_parser \<Rightarrow> line_parser res" where
  "begin_step token p =
     (case env_var_match token of
        Some (name, v) \<Rightarrow> Inr (p\<lparr> p_env := dset name v (p_env p) \<rparr>)
      | None \<Rightarrow>
          if current_command p \<noteq> None then Inl AssertionError
          else if token = ''cd'' then
            py_assert (p_env p = []) (p\<lparr> current_command := Some (Chdir None), p_state := CHDIR \<rparr>)
          else
            (let c = new_command token in
             Inr (p\<lparr> current_command :=
                       Some (Command (if p_env p \<noteq> [] then c\<lparr> env_vars := Some (p_env p) \<rparr> else c)),
                     p_env := [], p_state := COMMAND \<rparr>)))"

definition command_step :: "string \<Rightarrow> line_parser \<Rightarrow> line_parser res" where
  "command_step token p =
     (if token = ''>'' then Inr (p\<lparr> p_state := STDOUT \<rparr>)
      else if token = ''2>'' then Inr (p\<lparr> p_state := STDERR \<rparr>)
      else if token = ''2>&1'' then
        on_command (\<lambda>c. py_assert (cmd_stderr c = None) (c\<lparr> cmd_stderr := Some TargetStdout \<rparr>)) p
      else if token = ''<'' then Inr (p\<lparr> p_state := STDIN \<rparr>)
      else if token = ''|'' then
        rbind (on_command (\<lambda>c. py_assert (cmd_stdout c = None) (c\<lparr> cmd_stdout := Some TargetPipe \<rparr>)) p) (\<lambda>p1.
        rbind (commit_command p1) (\<lambda>p2. Inr (add_node Pipe p2)))
      else if token = ''&&'' then rbind (commit_command p) (\<lambda>p1. Inr (add_node And p1))
      else if token = ''||'' then rbind (commit_command p) (\<lambda>p1. Inr (add_node Or p1))
      else on_command (\<lambda>c. Inr (c\<lparr> argv := argv c @ [token] \<rparr>)) p)"

definition chdir_step :: "string \<Rightarrow> line_parser \<Rightarrow> line_parser res" where
  "chdir_step token p =
     (if token = ''&&'' then rbind (commit_command p) (\<lambda>p1. Inr (add_node And p1))
      else
        (case current_command p of
           Some (Chdir None) \<Rightarrow> Inr (p\<lparr> current_command := Some (Chdir (Some token)) \<rparr>)
         | Some (Chdir (Some d)) \<Rightarrow> Inl AssertionError
         | _ \<Rightarrow> Inl AttributeError))"

definition parse_step :: "line_parser \<Rightarrow> string \<Rightarrow> line_parser res" where
  "parse_step p token =
     (case p_state p of
        BEGIN \<Rightarrow> begin_step token p
      | COMMAND \<Rightarrow> command_step token p
      | CHDIR \<Rightarrow> chdir_step token p
      | STDOUT \<Rightarrow>
          on_command (\<lambda>c. py_assert (cmd_stdout c = None) (c\<lparr> cmd_stdout := Some (TargetFile token) \<rparr>))
            (p\<lparr> p_state := COMMAND \<rparr>)
      | STDERR \<Rightarrow>
          on_command (\<lambda>c. py_assert (cmd_stderr c = None) (c\<lparr> cmd_stderr := Some (TargetFile token) \<rparr>))
            (p\<lparr> p_state := COMMAND \<rparr>)
      | STDIN \<Rightarrow>
          on_command (\<lambda>c. py_assert (cmd_stdin c = None) (c\<lparr> cmd_stdin := Some token \<rparr>))
            (p\<lparr> p_state := COMMAND \<rparr>))"

definition new_parser :: line_parser where
  "new_parser = \<lparr> p_state = BEGIN, current_command = None, pipeline = [], p_env = [] \<rparr>"

definition parse_tokens :: "string list \<Rightarrow> node list res" where
  "parse_tokens tokens =
     rbind (rfold parse_step new_parser tokens) (\<lambda>p. rbind (commit_command p) (\<lambda>p'. Inr (pipeline p')))"

definition parse :: "string \<Rightarrow> node list res" where
  "parse line = rbind (shlex_split line) parse_tokens"

text \<open>The second test for \<open>And\<close> in the source stands where \<open>Or\<close> is meant.\<close>

definition abbreviated_word :: "node \<Rightarrow> string list" where
  "abbreviated_word n =
     (case n of
        Command c \<Rightarrow> [cmd_name c]
      | Chdir d \<Rightarrow> [''cd '' @ (case d of None \<Rightarrow> ''None'' | Some s \<Rightarrow> s)]
      | Pipe \<Rightarrow> [''|'']
      | And \<Rightarrow> [''&&'']
      | Or \<Rightarrow> [])"

definition get_abbreviated_command :: "node list \<Rightarrow> string" where
  "get_abbreviated_command ns = join_with '' '' (concat (map abbreviated_word ns))"

section \<open>Well-formed pipelines\<close>

definition operators :: "string list" where
  "operators = [''>'', ''2>'', ''2>&1'', ''<'', ''|'', ''&&'', ''||'']"

definition assignment :: "string \<times> string \<Rightarrow> bool" where
  "assignment kv \<longleftrightarrow> fst kv \<noteq> [] \<and> list_all is_word_char (fst kv) \<and>
     snd kv \<noteq> [] \<and> list_all (\<lambda>c. \<not> is_space c) (snd kv)"

definition env_ok :: "(string, string) dict \<Rightarrow> bool" where
  "env_ok d \<longleftrightarrow> dict_ok d \<and> list_all assignment d"

definition command_ok :: "command \<Rightarrow> bool" where
  "command_ok c \<longleftrightarrow> env_var_match (cmd_name c) = None \<and> cmd_name c \<noteq> ''cd'' \<and>
     (\<exists>args. argv c = cmd_name c # args \<and> list_all (\<lambda>a. a \<notin> set operators) args) \<and>
     cmd_stdout c \<noteq> Some TargetStdout \<and> cmd_stderr c \<noteq> Some TargetPipe \<and>
     (case env_vars c of None \<Rightarrow> True | Some d \<Rightarrow> d \<noteq> [] \<and> env_ok d)"

text \<open>A node with the operator behind it, and the last node.\<close>

fun link_ok :: "node \<Rightarrow> node \<Rightarrow> bool" where
  "link_ok (Command c) Pipe = (command_ok c \<and> cmd_stdout c = Some TargetPipe)"
| "link_ok (Command c) And = (command_ok c \<and> cmd_stdout c \<noteq> Some TargetPipe)"
| "link_ok (Command c) Or = (command_ok c \<and> cmd_stdout c \<noteq> Some TargetPipe)"
| "link_ok (Chdir d) And = (d \<noteq> Some ''&&'')"
| "link_ok _ _ = False"

fun last_ok :: "node \<Rightarrow> bool" where
  "last_ok (Command c) = (command_ok c \<and> cmd_stdout c \<noteq> Some TargetPipe)"
| "last_ok (Chdir d) = (d \<noteq> Some ''&&'')"
| "last_ok _ = False"

fun wf_prefix :: "node list \<Rightarrow> bool" where
  "wf_prefix [] = True"
| "wf_prefix [n] = False"
| "wf_prefix (n # op # ns) = (link_ok n op \<and> wf_prefix ns)"

fun wf_pipeline :: "node list \<Rightarrow> bool" where
  "wf_pipeline [] = False"
| "wf_pipeline [n] = last_ok n"
| "wf_pipeline (n # op # ns) = (link_ok n op \<and> wf_pipeline ns)"

lemma wf_prefix_append: "wf_prefix ns \<Longrightarrow> wf_prefix (ns @ ms) \<longleftrightarrow> wf_prefix ms"
  by (induction ns rule: wf_prefix.induct) auto

lemma wf_pipeline_append: "wf_prefix ns \<Longrightarrow> wf_pipeline (ns @ ms) \<longleftrightarrow> wf_pipeline ms"
  by (induction ns rule: wf_prefix.induct) auto

lemma env_var_matchD: "env_var_match token = Some kv \<Longrightarrow> assignment kv"
  by (cases kv)
    (auto simp: env_var_match_def assignment_def Let_def list_all_iff dest: set_takeWhileD split: list.splits if_splits)

lemma env_var_match_assignment:
  assumes "assignment (k, v)"
  shows "env_var_match (k @ ''='' @ v) = Some (k, v)"
proof -
  have "\<not> is_word_char (CHR ''='')" by (simp add: is_word_char_def)
  then have "takeWhile is_word_char (k @ ''='' @ v) = k" "dropWhile is_word_char (k @ ''='' @ v) = ''='' @ v"
    using assms by (auto simp: assignment_def list_all_iff takeWhile_append dropWhile_append)
  moreover have "chomp v = v"
    using assms by (auto simp: chomp_def assignment_def list_all_iff is_space_def dest!: last_in_set)
  ultimately show ?thesis using assms by (simp add: env_var_match_def assignment_def)
qed

section \<open>What the parser returns\<close>

definition parser_ok :: "line_parser \<Rightarrow> bool" where
  "parser_ok p \<longleftrightarrow> wf_prefix (pipeline p) \<and>
     (case p_state p of
        BEGIN \<Rightarrow> current_command p = None \<and> env_ok (p_env p)
      | CHDIR \<Rightarrow> p_env p = [] \<and> (\<exists>d. current_command p = Some (Chdir d) \<and> d \<noteq> Some ''&&'')
      | _ \<Rightarrow> p_env p = [] \<and>
          (\<exists>c. current_command p = Some (Command c) \<and> command_ok c \<and> cmd_stdout c \<noteq> Some TargetPipe))"

lemma new_parser_ok: "parser_ok new_parser"
  by (simp add: parser_ok_def new_parser_def env_ok_def)

lemma env_ok_dset:
  assumes "env_ok d" "assignment (k, v)"
  shows "env_ok (dset k v d)"
proof -
  have "list_all assignment d \<Longrightarrow> list_all assignment (dset k v d)"
    using assms(2) by (induction k v d rule: dset.induct) auto
  with assms(1) show ?thesis by (simp add: env_ok_def)
qed

lemma begin_step_ok:
  assumes "parser_ok p" "p_state p = BEGIN" "begin_step token p = Inr p'"
  shows "parser_ok p'"
proof (cases "env_var_match token")
  case None
  then show ?thesis
    using assms by (auto simp: parser_ok_def begin_step_def new_command_def command_ok_def py_assert_def Let_def split: if_splits)
next
  case (Some kv)
  then show ?thesis
    using assms env_var_matchD [OF Some] by (cases kv) (auto simp: parser_ok_def begin_step_def env_ok_dset)
qed

lemma command_step_ok:
  assumes "parser_ok p" "p_state p = COMMAND" "command_step token p = Inr p'"
  shows "parser_ok p'"
  using assms
  by (auto simp: parser_ok_def command_step_def on_command_def commit_command_def add_node_def py_assert_def
      wf_prefix_append command_ok_def operators_def env_ok_def rbind_Inr_iff split: if_splits)

lemma chdir_step_ok:
  assumes "parser_ok p" "p_state p = CHDIR" "chdir_step token p = Inr p'"
  shows "parser_ok p'"
  using assms
  by (auto simp: parser_ok_def chdir_step_def commit_command_def add_node_def wf_prefix_append env_ok_def
      split: if_splits option.splits)

lemma parse_step_ok: "parser_ok p \<Longrightarrow> parse_step p token = Inr p' \<Longrightarrow> parser_ok p'"
  using begin_step_ok [of p token p'] command_step_ok [of p token p'] chdir_step_ok [of p token p']
  by (cases "p_state p")
    (auto simp: parse_step_def parser_ok_def on_command_def py_assert_def command_ok_def rbind_Inr_iff split: if_splits)

lemma parse_steps_ok: "parser_ok p \<Longrightarrow> rfold parse_step p tokens = Inr p' \<Longrightarrow> parser_ok p'"
  by (induction tokens arbitrary: p) (auto simp: rbind_Inr_iff dest: parse_step_ok)

lemma parse_wf:
  assumes "parse_tokens tokens = Inr ns"
  shows "wf_pipeline ns"
proof -
  obtain p p' where p: "rfold parse_step new_parser tokens = Inr p" "commit_command p = Inr p'" "ns = pipeline p'"
    using assms by (auto simp: parse_tokens_def rbind_Inr_iff)
  then obtain n where n: "current_command p = Some n" "ns = pipeline p @ [n]"
    by (auto simp: commit_command_def split: option.splits)
  have "parser_ok p" using parse_steps_ok [OF new_parser_ok p(1)] .
  then show ?thesis
    using n by (cases "p_state p") (auto simp: parser_ok_def wf_pipeline_append)
qed

section \<open>Reading back what is written\<close>

definition unparse_target :: "target option \<Rightarrow> string \<Rightarrow> string list" where
  "unparse_target t op =
     (case t of Some (TargetFile f) \<Rightarrow> [op, f] | Some TargetStdout \<Rightarrow> [''2>&1''] | _ \<Rightarrow> [])"

definition unparse_env :: "(string, string) dict option \<Rightarrow> string list" where
  "unparse_env env = (case env of None \<Rightarrow> [] | Some d \<Rightarrow> map (\<lambda>(k, v). k @ ''='' @ v) d)"

fun unparse_node :: "node \<Rightarrow> string list" where
  "unparse_node (Command c) =
     unparse_env (env_vars c) @ argv c @ (case cmd_stdin c of None \<Rightarrow> [] | Some f \<Rightarrow> [''<'', f]) @
     unparse_target (cmd_stdout c) ''>'' @ unparse_target (cmd_stderr c) ''2>''"
| "unparse_node (Chdir d) = ''cd'' # (case d of None \<Rightarrow> [] | Some s \<Rightarrow> [s])"
| "unparse_node Pipe = [''|'']"
| "unparse_node And = [''&&'']"
| "unparse_node Or = [''||'']"

definition unparse :: "node list \<Rightarrow> string list" where
  "unparse ns = concat (map unparse_node ns)"

lemma dset_new: "k \<notin> set (dkeys d) \<Longrightarrow> dset k v d = d @ [(k, v)]"
  by (induction k v d rule: dset.induct) (auto simp: dkeys_def)

lemma parse_env:
  assumes "p_state p = BEGIN" "list_all assignment d" "distinct (dkeys (p_env p @ d))"
  shows "rfold parse_step p (map (\<lambda>(k, v). k @ ''='' @ v) d) = Inr (p\<lparr> p_env := p_env p @ d \<rparr>)"
  using assms
proof (induction d arbitrary: p)
  case (Cons kv d)
  obtain k v where kv: "kv = (k, v)" by fastforce
  have "k \<notin> set (dkeys (p_env p))" using Cons.prems(3) kv by (auto simp: dkeys_def)
  then have "parse_step p (k @ ''='' @ v) = Inr (p\<lparr> p_env := p_env p @ [(k, v)] \<rparr>)"
    using Cons.prems env_var_match_assignment [of k v] kv by (simp add: parse_step_def begin_step_def dset_new)
  then show ?case using Cons.IH [of "p\<lparr> p_env := p_env p @ [(k, v)] \<rparr>"] Cons.prems kv by simp
qed simp

lemma parse_args:
  assumes "p_state p = COMMAND" "current_command p = Some (Command c)" "list_all (\<lambda>a. a \<notin> set operators) args"
  shows "rfold parse_step p args = Inr (p\<lparr> current_command := Some (Command (c\<lparr> argv := argv c @ args \<rparr>)) \<rparr>)"
  using assms
proof (induction args arbitrary: p c)
  case (Cons a args)
  have "parse_step p a = Inr (p\<lparr> current_command := Some (Command (c\<lparr> argv := argv c @ [a] \<rparr>)) \<rparr>)"
    using Cons.prems by (simp add: parse_step_def command_step_def on_command_def operators_def)
  then show ?case
    using Cons.IH [of "p\<lparr> current_command := Some (Command (c\<lparr> argv := argv c @ [a] \<rparr>)) \<rparr>"
        "c\<lparr> argv := argv c @ [a] \<rparr>"] Cons.prems
    by simp
qed simp

lemma parse_stdin:
  assumes "p_state p = COMMAND" "current_command p = Some (Command c)" "cmd_stdin c = None"
  shows "rfold parse_step p (case i of None \<Rightarrow> [] | Some f \<Rightarrow> [''<'', f]) =
    Inr (p\<lparr> current_command := Some (Command (c\<lparr> cmd_stdin := i \<rparr>)) \<rparr>)"
  using assms by (cases i) (simp_all add: parse_step_def command_step_def on_command_def py_assert_def)

lemma parse_stdout:
  assumes "p_state p = COMMAND" "current_command p = Some (Command c)" "cmd_stdout c = None" "t \<noteq> Some TargetStdout"
  shows "rfold parse_step p (unparse_target t ''>'') =
    Inr (p\<lparr> current_command := Some (Command (c\<lparr> cmd_stdout := (if t = Some TargetPipe then None else t) \<rparr>)) \<rparr>)"
  using assms
  by (cases t rule: option.exhaust; cases "the t")
    (simp_all add: unparse_target_def parse_step_def command_step_def on_command_def py_assert_def)

lemma parse_stderr:
  assumes "p_state p = COMMAND" "current_command p = Some (Command c)" "cmd_stderr c = None" "t \<noteq> Some TargetPipe"
  shows "rfold parse_step p (unparse_target t ''2>'') =
    Inr (p\<lparr> current_command := Some (Command (c\<lparr> cmd_stderr := t \<rparr>)) \<rparr>)"
  using assms
  by (cases t rule: option.exhaust; cases "the t")
    (simp_all add: unparse_target_def parse_step_def command_step_def on_command_def py_assert_def)

text \<open>A command is read up to the question whether its output goes to a pipe.\<close>

definition idle :: "node list \<Rightarrow> line_parser" where
  "idle ns = \<lparr> p_state = BEGIN, current_command = None, pipeline = ns, p_env = [] \<rparr>"

definition reading :: "node list \<Rightarrow> command \<Rightarrow> line_parser" where
  "reading ns c = \<lparr> p_state = COMMAND, current_command = Some (Command c), pipeline = ns, p_env = [] \<rparr>"

lemma parse_command:
  assumes "command_ok c"
  shows "rfold parse_step (idle ns) (unparse_node (Command c)) =
    Inr (reading ns (c\<lparr> cmd_stdout := (if cmd_stdout c = Some TargetPipe then None else cmd_stdout c) \<rparr>))"
proof -
  obtain args where args: "argv c = cmd_name c # args" "list_all (\<lambda>a. a \<notin> set operators) args"
    using assms by (auto simp: command_ok_def)
  define d where "d = (case env_vars c of None \<Rightarrow> [] | Some d \<Rightarrow> d)"
  have d: "list_all assignment d" "distinct (dkeys d)" "env_vars c = (if d \<noteq> [] then Some d else None)"
    "unparse_env (env_vars c) = map (\<lambda>(k, v). k @ ''='' @ v) d"
    using assms by (auto simp: command_ok_def d_def env_ok_def dict_ok_def unparse_env_def dkeys_def split: option.splits)
  have 1: "rfold parse_step (idle ns) (unparse_env (env_vars c)) = Inr ((idle ns)\<lparr> p_env := d \<rparr>)"
    using parse_env [of "idle ns" d] d by (simp add: idle_def)
  define c1 where "c1 = (new_command (cmd_name c))\<lparr> env_vars := env_vars c \<rparr>"
  have 2: "parse_step ((idle ns)\<lparr> p_env := d \<rparr>) (cmd_name c) = Inr (reading ns c1)"
    using assms d(3) by (simp add: parse_step_def begin_step_def idle_def reading_def command_ok_def c1_def new_command_def Let_def)
  have 3: "rfold parse_step (reading ns c1) args = Inr (reading ns (c1\<lparr> argv := argv c \<rparr>))"
    using parse_args [of "reading ns c1" c1 args] args by (simp add: reading_def c1_def new_command_def)
  have 4: "rfold parse_step (reading ns (c1\<lparr> argv := argv c \<rparr>)) (case cmd_stdin c of None \<Rightarrow> [] | Some f \<Rightarrow> [''<'', f]) =
      Inr (reading ns (c1\<lparr> argv := argv c, cmd_stdin := cmd_stdin c \<rparr>))"
    using parse_stdin [of "reading ns (c1\<lparr> argv := argv c \<rparr>)" "c1\<lparr> argv := argv c \<rparr>" "cmd_stdin c"]
    by (simp add: reading_def c1_def new_command_def)
  let ?out = "if cmd_stdout c = Some TargetPipe then None else cmd_stdout c"
  let ?c4 = "c1\<lparr> argv := argv c, cmd_stdin := cmd_stdin c \<rparr>"
  have 5: "rfold parse_step (reading ns ?c4) (unparse_target (cmd_stdout c) ''>'') = Inr (reading ns (?c4\<lparr> cmd_stdout := ?out \<rparr>))"
    using parse_stdout [of "reading ns ?c4" ?c4 "cmd_stdout c"] assms
    by (simp add: reading_def c1_def new_command_def command_ok_def)
  have 6: "rfold parse_step (reading ns (?c4\<lparr> cmd_stdout := ?out \<rparr>)) (unparse_target (cmd_stderr c) ''2>'') =
      Inr (reading ns (?c4\<lparr> cmd_stdout := ?out, cmd_stderr := cmd_stderr c \<rparr>))"
    using parse_stderr [of "reading ns (?c4\<lparr> cmd_stdout := ?out \<rparr>)" "?c4\<lparr> cmd_stdout := ?out \<rparr>" "cmd_stderr c"] assms
    by (simp add: reading_def c1_def new_command_def command_ok_def)
  have "?c4\<lparr> cmd_stdout := ?out, cmd_stderr := cmd_stderr c \<rparr> = c\<lparr> cmd_stdout := ?out \<rparr>"
    by (simp add: c1_def new_command_def)
  then show ?thesis using 1 2 3 4 5 6 args(1) by simp
qed

lemma parse_chdir:
  assumes "d \<noteq> Some ''&&''"
  shows "rfold parse_step (idle ns) (unparse_node (Chdir d)) =
    Inr \<lparr> p_state = CHDIR, current_command = Some (Chdir d), pipeline = ns, p_env = [] \<rparr>"
  using assms
  by (cases d) (simp_all add: parse_step_def begin_step_def chdir_step_def idle_def py_assert_def env_var_match_def
      is_word_char_def Let_def)

lemma rfold_through: "rfold f s xs = Inr s' \<Longrightarrow> rfold f s (xs @ ys) = rfold f s' ys"
  by simp

lemma parse_link:
  assumes "link_ok n op"
  shows "rfold parse_step (idle ns) (unparse_node n @ unparse_node op) = Inr (idle (ns @ [n, op]))"
proof (cases n)
  case (Command c)
  have "rfold parse_step (idle ns) (unparse_node n) =
      Inr (reading ns (c\<lparr> cmd_stdout := (if cmd_stdout c = Some TargetPipe then None else cmd_stdout c) \<rparr>))"
    using assms Command parse_command [of c ns] by (cases op) auto
  from rfold_through [OF this, of "unparse_node op"] assms Command show ?thesis
    by (cases op) (simp_all del: unparse_node.simps(1) add: parse_step_def command_step_def on_command_def py_assert_def commit_command_def
        add_node_def reading_def idle_def)
next
  case (Chdir d)
  with assms have op: "op = And" "d \<noteq> Some ''&&''" by (cases op; auto)+
  from rfold_through [OF parse_chdir [OF op(2), of ns], of "unparse_node op"] op Chdir show ?thesis
    by (simp del: unparse_node.simps(2) add: parse_step_def chdir_step_def commit_command_def add_node_def idle_def)
qed (use assms in simp_all)

lemma parse_last:
  assumes "last_ok n"
  shows "\<exists>p. rfold parse_step (idle ns) (unparse_node n) = Inr p \<and> current_command p = Some n \<and> pipeline p = ns"
proof (cases n)
  case (Command c)
  then show ?thesis using assms parse_command [of c ns] by (simp add: reading_def)
next
  case (Chdir d)
  then show ?thesis using assms parse_chdir [of d ns] by simp
qed (use assms in simp_all)

lemma parse_unparse_from:
  "wf_pipeline ns \<Longrightarrow> \<exists>p n. rfold parse_step (idle ms) (unparse ns) = Inr p \<and> current_command p = Some n \<and>
     ms @ ns = pipeline p @ [n]"
proof (induction ns arbitrary: ms rule: wf_pipeline.induct)
  case (2 n)
  then show ?case using parse_last [of n ms] by (fastforce simp: unparse_def)
next
  case (3 n op ns)
  then have "link_ok n op" by simp
  from rfold_through [OF parse_link [OF this, of ms], of "unparse ns"] show ?case
    using "3.IH" [of "ms @ [n, op]"] "3.prems" by (simp add: unparse_def del: rfold_append)
qed simp

lemma parse_unparse: "wf_pipeline ns \<Longrightarrow> parse_tokens (unparse ns) = Inr ns"
proof -
  assume "wf_pipeline ns"
  then obtain p n where "rfold parse_step new_parser (unparse ns) = Inr p" "current_command p = Some n" "ns = pipeline p @ [n]"
    using parse_unparse_from [of ns "[]"] by (auto simp: new_parser_def idle_def)
  then show ?thesis by (simp add: parse_tokens_def commit_command_def)
qed

definition write_pipeline :: "node list \<Rightarrow> string" where
  "write_pipeline ns = join_with '' '' (map quote_word (unparse ns))"

lemma parse_line_wf: "parse line = Inr ns \<Longrightarrow> wf_pipeline ns"
  by (auto simp: parse_def rbind_Inr_iff intro: parse_wf)

text \<open>
  C14: the values of \<open>parse\<close> are exactly the well-formed pipelines: commands and changes of the
  directory with operators between them, a command standing before a pipe has its output sent
  to the pipe and no other has, \<open>cd\<close> is followed by \<open>&&\<close> or nothing, and no argument is an
  operator. Each of them is read back from the line that writes it.
\<close>

theorem parse_values:
  "if wf_pipeline ns then parse (write_pipeline ns) = Inr ns else \<forall>line. parse line \<noteq> Inr ns"
  using parse_unparse [of ns] parse_line_wf [of _ ns] by (auto simp: parse_def write_pipeline_def shlex_split_quoted)

section \<open>Exceptions of the parser\<close>

lemma parse_step_error:
  assumes "parser_ok p" "parse_step p token = Inl e"
  shows "e = AssertionError"
  using assms
  by (cases "p_state p")
    (auto simp: parse_step_def begin_step_def command_step_def chdir_step_def parser_ok_def on_command_def py_assert_def
      commit_command_def rbind_Inl_iff Let_def split: if_splits option.splits)

lemma parse_steps_error:
  "parser_ok p \<Longrightarrow> rfold parse_step p tokens = Inl e \<Longrightarrow> e = AssertionError"
  by (induction tokens arbitrary: p) (auto simp: rbind_Inl_iff dest: parse_step_error parse_step_ok)

lemma parse_error: "parse line = Inl e \<Longrightarrow> e = ValueError \<or> e = AssertionError"
  using lex_error [of Blank "[]" False line e] parse_steps_error [OF new_parser_ok]
  by (auto simp: parse_def parse_tokens_def shlex_split_def commit_command_def rbind_Inl_iff split: option.splits)

end
