(* ===== verification/ShellRun.thy ===== *)
theory ShellRun
  imports ShellCmd Actions Paths
begin

text \<open>
  \<open>Pipeline.run\<close> of \<open>waf-tools/shellcmd.py\<close>: starting the commands of a pipeline, connecting them,
  waiting for them, closing the files and deciding at each operator whether to go on. The system
  is a parameter: whether a file can be opened and a process started, and the exit code of a
  process, may all depend on everything that happened before.
\<close>

section \<open>The system\<close>

text \<open>
  A handle is the null device, which is opened once when the module is loaded and never closed, or
  a file, known by the number of files opened before it. A process is known by the number of
  processes started before it.
\<close>

datatype handle = DevNull | Handle nat

datatype stream_in = InInherit | InFile handle | InProc nat

datatype stream_out = OutInherit | OutPipe | OutStdout | OutFile handle

record child =
  proc_argv :: "string list"
  proc_stdin :: stream_in
  proc_stdout :: stream_out
  proc_stderr :: stream_out
  proc_env :: "(string, string) dict option"
  proc_cwd :: "string option"

datatype sys_event =
    OpenIn string
  | OpenOut string
  | Started child
  | Waited nat int
  | Closed nat
  | Printed string

record system =
  can_open :: "sys_event list \<Rightarrow> string \<Rightarrow> bool"
  can_start :: "sys_event list \<Rightarrow> child \<Rightarrow> bool"
  exit_code :: "sys_event list \<Rightarrow> nat \<Rightarrow> int"
  environ :: "(string, string) dict"
  dict_order :: "(string, string) dict \<Rightarrow> (string, string) dict"

fun is_open_event :: "sys_event \<Rightarrow> bool" where
  "is_open_event (OpenIn f) = True"
| "is_open_event (OpenOut f) = True"
| "is_open_event _ = False"

fun is_start_event :: "sys_event \<Rightarrow> bool" where
  "is_start_event (Started p) = True"
| "is_start_event _ = False"

definition opened :: "sys_event list \<Rightarrow> nat" where
  "opened tr = length (filter is_open_event tr)"

definition started :: "sys_event list \<Rightarrow> nat" where
  "started tr = length (filter is_start_event tr)"

definition sys_open :: "system \<Rightarrow> (string \<Rightarrow> sys_event) \<Rightarrow> string \<Rightarrow> (sys_event list, handle) action" where
  "sys_open sys mode f tr =
     (if can_open sys tr f then (Inr (Handle (opened tr)), tr @ [mode f]) else (Inl IOError, tr))"

definition sys_start :: "system \<Rightarrow> child \<Rightarrow> (sys_event list, nat) action" where
  "sys_start sys p tr =
     (if can_start sys tr p then (Inr (started tr), tr @ [Started p]) else (Inl OSError, tr))"

definition sys_wait :: "system \<Rightarrow> nat \<Rightarrow> (sys_event list, int) action" where
  "sys_wait sys n tr = (Inr (exit_code sys tr n), tr @ [Waited n (exit_code sys tr n)])"

definition sys_close :: "handle \<Rightarrow> (sys_event list, unit) action" where
  "sys_close h tr = (Inr (), case h of DevNull \<Rightarrow> tr | Handle n \<Rightarrow> tr @ [Closed n])"

definition open_out_file :: "system \<Rightarrow> string \<Rightarrow> (sys_event list, handle) action" where
  "open_out_file sys f =
     (if f = ''NUL:'' \<or> f = ''/dev/null'' then io_ret DevNull else sys_open sys OpenOut f)"

section \<open>The streams of a command\<close>

text \<open>
  \<open>prev\<close> is the process before a pipe with whether its output is a pipe. The results are the
  stream and the files that were opened for it.
\<close>

definition stdin_of :: "system \<Rightarrow> (nat \<times> bool) option \<Rightarrow> command \<Rightarrow> (sys_event list, stream_in \<times> handle list) action" where
  "stdin_of sys prev c =
     (case prev of
        Some (n, piped) \<Rightarrow> io_ret (if piped then InProc n else InInherit, [])
      | None \<Rightarrow>
          (case cmd_stdin c of
             None \<Rightarrow> io_ret (InInherit, [])
           | Some f \<Rightarrow> io_bind (sys_open sys OpenIn f) (\<lambda>h. io_ret (InFile h, [h]))))"

definition target_of :: "system \<Rightarrow> target option \<Rightarrow> (sys_event list, stream_out \<times> handle list) action" where
  "target_of sys t =
     (case t of
        None \<Rightarrow> io_ret (OutInherit, [])
      | Some TargetPipe \<Rightarrow> io_ret (OutPipe, [])
      | Some TargetStdout \<Rightarrow> io_ret (OutStdout, [])
      | Some (TargetFile f) \<Rightarrow> io_bind (open_out_file sys f) (\<lambda>h. io_ret (OutFile h, [h])))"

definition process_of :: "system \<Rightarrow> string \<Rightarrow> command \<Rightarrow> stream_in \<Rightarrow> stream_out \<Rightarrow> stream_out \<Rightarrow> child" where
  "process_of sys dir c i out err =
     \<lparr> proc_argv = argv c, proc_stdin = i, proc_stdout = out, proc_stderr = err,
       proc_env =
         (case env_vars c of
            None \<Rightarrow> None
          | Some d \<Rightarrow> if d = [] then None else Some (foldl (\<lambda>e (k, v). dset k v e) (environ sys) d)),
       proc_cwd = (if dir = ''.'' then None else Some dir) \<rparr>"

section \<open>The loop\<close>

text \<open>The local variables of \<open>run\<close>. \<open>piped\<close> holds the processes of the pipe being built.\<close>

record run_state =
  trace :: "sys_event list"
  files_to_close :: "handle list"
  piped :: "(nat \<times> bool) list"
  in_pipe :: bool
  cwd :: string
  display :: "string list"

definition on_trace :: "(sys_event list, 'a) action \<Rightarrow> (run_state, 'a) action" where
  "on_trace m s = (case m (trace s) of (r, tr) \<Rightarrow> (r, s\<lparr> trace := tr \<rparr>))"

definition keep_open :: "handle list \<Rightarrow> (run_state, unit) action" where
  "keep_open hs s = (Inr (), s\<lparr> files_to_close := files_to_close s @ hs \<rparr>)"

definition show_words :: "string list \<Rightarrow> (run_state, unit) action" where
  "show_words ws s = (Inr (), s\<lparr> display := display s @ ws \<rparr>)"

definition display_command :: "system \<Rightarrow> command \<Rightarrow> string" where
  "display_command sys c =
     (case env_vars c of
        Some (kv # d) \<Rightarrow>
          join_with '' '' (map (\<lambda>(k, v). k @ ''='' @ v) (dict_order sys (kv # d))) @ '' '' @ join_with '' '' (argv c)
      | _ \<Rightarrow> join_with '' '' (argv c))"

definition last_piped :: "run_state \<Rightarrow> (nat \<times> bool) option res" where
  "last_piped s =
     (if in_pipe s then (if piped s = [] then Inl IndexError else Inr (Some (last (piped s)))) else Inr None)"

text \<open>What is shown of a redirection in the verbose mode.\<close>

definition stdin_words :: "(nat \<times> bool) option \<Rightarrow> command \<Rightarrow> string list" where
  "stdin_words prev c = (case (prev, cmd_stdin c) of (None, Some f) \<Rightarrow> [''< '' @ f] | _ \<Rightarrow> [])"

definition target_words :: "target option \<Rightarrow> string \<Rightarrow> string list" where
  "target_words t op =
     (case t of Some (TargetFile f) \<Rightarrow> [op @ '' '' @ f] | Some TargetStdout \<Rightarrow> [''2>&1''] | _ \<Rightarrow> [])"

definition run_command :: "system \<Rightarrow> bool \<Rightarrow> command \<Rightarrow> (run_state, unit) action" where
  "run_command sys verbose c =
     io_seq (io_when verbose (show_words [display_command sys c]))
     (io_bind (\<lambda>s. (last_piped s, s)) (\<lambda>prev.
      io_bind (on_trace (stdin_of sys prev c)) (\<lambda>(i, hs).
      io_seq (io_when verbose (show_words (stdin_words prev c))) (io_seq (keep_open hs)
     (io_bind (on_trace (target_of sys (cmd_stdout c))) (\<lambda>(out, hs).
      io_seq (keep_open hs) (io_seq (io_when verbose (show_words (target_words (cmd_stdout c) ''>'')))
     (io_bind (on_trace (target_of sys (cmd_stderr c))) (\<lambda>(err, hs).
      io_seq (keep_open hs) (io_seq (io_when verbose (show_words (target_words (cmd_stderr c) ''2>'')))
     (io_bind (\<lambda>s. on_trace (sys_start sys (process_of sys (cwd s) c i out err)) s) (\<lambda>n.
      (\<lambda>s. (Inr (), s\<lparr> piped := piped s @ [(n, cmd_stdout c = Some TargetPipe)] \<rparr>))))))))))))))"

text \<open>\<open>_exec_piped_commands\<close>, and the closing of the files in the \<open>finally\<close> block behind it.\<close>

definition pipe_status :: "int list \<Rightarrow> int" where
  "pipe_status retvals = (if list_ex (\<lambda>r. r \<noteq> 0) retvals then last retvals else 0)"

definition exec_piped_commands :: "system \<Rightarrow> nat list \<Rightarrow> (sys_event list, int) action" where
  "exec_piped_commands sys ns = io_bind (io_map (sys_wait sys) ns) (\<lambda>retvals. io_ret (pipe_status retvals))"

definition finish_pipe :: "system \<Rightarrow> (run_state, int) action" where
  "finish_pipe sys s =
     io_bind (on_trace (exec_piped_commands sys (map fst (piped s)))) (\<lambda>r.
     io_seq (on_trace (io_each sys_close (files_to_close s))) (\<lambda>s'. (Inr r, s'\<lparr> files_to_close := [] \<rparr>))) s"

definition next_pipe :: "(run_state, unit) action" where
  "next_pipe s = (Inr (), s\<lparr> in_pipe := False, piped := [], display := [] \<rparr>)"

text \<open>
  An operator between two commands. In the verbose mode the message uses the local \<open>retval\<close>, which is
  assigned only behind the last command.
\<close>

definition at_operator :: "system \<Rightarrow> bool \<Rightarrow> (int \<Rightarrow> bool) \<Rightarrow> (run_state, int option) action \<Rightarrow>
    (run_state, int option) action" where
  "at_operator sys verbose stops continue =
     io_bind (finish_pipe sys) (\<lambda>this_retval.
       if verbose then io_throw UnboundLocalError
       else if stops this_retval then io_ret (Some this_retval)
       else io_seq next_pipe continue)"

definition at_end :: "system \<Rightarrow> bool \<Rightarrow> (run_state, int option) action" where
  "at_end sys verbose =
     io_bind (finish_pipe sys) (\<lambda>retval.
     io_seq (io_when verbose (\<lambda>s. on_trace (\<lambda>tr. (Inr (), tr @
         [Printed (join_with '' '' (display s) @ '': exit code '' @ int_str retval)])) s))
       (io_ret (Some retval)))"

text \<open>
  \<open>os.path.join\<close> with \<open>None\<close> raises \<open>AttributeError\<close>, and taking from an empty list \<open>IndexError\<close>. When
  the list is used up at the start of the loop, \<open>run\<close> ends without a value.
\<close>

fun run_nodes :: "system \<Rightarrow> bool \<Rightarrow> node list \<Rightarrow> (run_state, int option) action" where
  "run_nodes sys verbose [] = io_ret None"
| "run_nodes sys verbose [Chdir d] = io_throw IndexError"
| "run_nodes sys verbose (Chdir d # op # ns) =
     (if op \<noteq> And then io_throw AssertionError
      else
        (case d of
           None \<Rightarrow> io_throw AttributeError
         | Some dir \<Rightarrow>
             io_seq (\<lambda>s. (Inr (), s\<lparr> cwd := path_join (cwd s) dir \<rparr>))
               (io_seq (io_when verbose (show_words [''cd '' @ dir @ '' &&''])) (run_nodes sys verbose ns))))"
| "run_nodes sys verbose [Command c] = io_seq (run_command sys verbose c) (at_end sys verbose)"
| "run_nodes sys verbose (Command c # op # ns) =
     io_seq (run_command sys verbose c)
       (case op of
          Pipe \<Rightarrow> io_seq (\<lambda>s. (Inr (), s\<lparr> in_pipe := True, display := display s @ [''|''] \<rparr>)) (run_nodes sys verbose ns)
        | Or \<Rightarrow> at_operator sys verbose (\<lambda>r. r = 0) (run_nodes sys verbose ns)
        | And \<Rightarrow> at_operator sys verbose (\<lambda>r. r \<noteq> 0) (run_nodes sys verbose ns)
        | _ \<Rightarrow> run_nodes sys verbose ns)"
| "run_nodes sys verbose (n # ns) = io_throw AssertionError"

definition new_run :: "sys_event list \<Rightarrow> run_state" where
  "new_run tr = \<lparr> trace = tr, files_to_close = [], piped = [], in_pipe = False, cwd = ''.'', display = [] \<rparr>"

definition run_pipeline :: "system \<Rightarrow> bool \<Rightarrow> node list \<Rightarrow> (sys_event list, int option) action" where
  "run_pipeline sys verbose ns tr =
     (case run_nodes sys verbose ns (new_run tr) of (r, s) \<Rightarrow> (r, trace s))"

section \<open>Jobs: what a pipeline means\<close>

text \<open>
  A job is the list of commands that are connected by pipes, each with its directory. A pipeline is a
  list of jobs, each with the operator behind it.
\<close>

type_synonym pipe_job = "(string \<times> command) list"

fun jobs_of :: "string \<Rightarrow> pipe_job \<Rightarrow> node list \<Rightarrow> (pipe_job \<times> node option) list" where
  "jobs_of d job [Command c] = [(job @ [(d, c)], None)]"
| "jobs_of d job (Command c # op # ns) =
     (if op = Pipe then jobs_of d (job @ [(d, c)]) ns else (job @ [(d, c)], Some op) # jobs_of d [] ns)"
| "jobs_of d job (Chdir (Some dir) # op # ns) = jobs_of (path_join d dir) job ns"
| "jobs_of d job _ = []"

definition start_command :: "system \<Rightarrow> (nat \<times> bool) option \<Rightarrow> string \<Rightarrow> command \<Rightarrow> (sys_event list, nat \<times> handle list) action" where
  "start_command sys prev d c =
     io_bind (stdin_of sys prev c) (\<lambda>(i, hs_in).
     io_bind (target_of sys (cmd_stdout c)) (\<lambda>(out, hs_out).
     io_bind (target_of sys (cmd_stderr c)) (\<lambda>(err, hs_err).
     io_bind (sys_start sys (process_of sys d c i out err)) (\<lambda>n. io_ret (n, hs_in @ hs_out @ hs_err)))))"

definition to_pipe :: "command \<Rightarrow> bool" where
  "to_pipe c \<longleftrightarrow> cmd_stdout c = Some TargetPipe"

fun start_job :: "system \<Rightarrow> (nat \<times> bool) option \<Rightarrow> pipe_job \<Rightarrow> (sys_event list, nat list \<times> handle list) action" where
  "start_job sys prev [] = io_ret ([], [])"
| "start_job sys prev ((d, c) # job) =
     io_bind (start_command sys prev d c) (\<lambda>(n, hs).
     io_bind (start_job sys (Some (n, to_pipe c)) job) (\<lambda>(ns, hs'). io_ret (n # ns, hs @ hs')))"

definition exec_job :: "system \<Rightarrow> pipe_job \<Rightarrow> (sys_event list, int) action" where
  "exec_job sys job =
     io_bind (start_job sys None job) (\<lambda>(ns, hs).
     io_bind (exec_piped_commands sys ns) (\<lambda>r. io_seq (io_each sys_close hs) (io_ret r)))"

text \<open>From left to right; the first job whose status decides its operator ends the run.\<close>

fun run_jobs :: "system \<Rightarrow> (pipe_job \<times> node option) list \<Rightarrow> (sys_event list, int) action" where
  "run_jobs sys [] = io_throw IndexError"
| "run_jobs sys ((job, op) # jobs) =
     io_bind (exec_job sys job) (\<lambda>r.
       if (case op of None \<Rightarrow> True | Some And \<Rightarrow> r \<noteq> 0 | Some Or \<Rightarrow> r = 0 | _ \<Rightarrow> False) then io_ret r
       else run_jobs sys jobs)"

section \<open>Starting a command\<close>

lemma last_piped_update [simp]: "last_piped (s\<lparr> display := x \<rparr>) = last_piped s"
  by (simp add: last_piped_def)

text \<open>What \<open>run_command\<close> does is \<open>start_command\<close>, with the results noted in the local variables.\<close>

definition noted :: "run_state \<Rightarrow> command \<Rightarrow> nat \<times> handle list \<Rightarrow> sys_event list \<Rightarrow> string list \<Rightarrow> run_state" where
  "noted s c nh tr shown =
     s\<lparr> trace := tr, files_to_close := files_to_close s @ snd nh,
        piped := piped s @ [(fst nh, to_pipe c)], display := shown \<rparr>"

lemma run_command_start:
  assumes "last_piped s = Inr prev"
  shows "case start_command sys prev (cwd s) c (trace s) of
      (Inl e, tr) \<Rightarrow> \<exists>s'. run_command sys verbose c s = (Inl e, s') \<and> trace s' = tr
    | (Inr r, tr) \<Rightarrow> \<exists>shown. run_command sys verbose c s = (Inr (), noted s c r tr shown)"
  using assms
  by (cases verbose)
    (auto simp: run_command_def start_command_def io_bind_def io_seq_def io_when_def on_trace_def keep_open_def
      show_words_def to_pipe_def noted_def intro!: run_state.equality split: prod.split sum.split)

lemma run_command_cases:
  assumes "last_piped s = Inr prev"
  obtains (error) e s' where "start_command sys prev (cwd s) c (trace s) = (Inl e, trace s')"
      "run_command sys verbose c s = (Inl e, s')"
  | (started) r tr shown where "start_command sys prev (cwd s) c (trace s) = (Inr r, tr)"
      "run_command sys verbose c s = (Inr (), noted s c r tr shown)"
  using run_command_start [OF assms, where sys = sys and c = c and verbose = verbose] by (auto split: prod.splits sum.splits)

section \<open>Starting a job\<close>

text \<open>The process before the end of a job that has been started so far.\<close>

definition last_of :: "nat list \<Rightarrow> pipe_job \<Rightarrow> (nat \<times> bool) option" where
  "last_of ns job = (if job = [] then None else Some (last ns, to_pipe (snd (last job))))"

lemma start_job_length: "start_job sys prev job tr = (Inr (ns, hs), tr') \<Longrightarrow> length ns = length job"
  by (induction job arbitrary: prev tr ns hs tr') (auto simp: io_bind_eq_Inr)

lemma start_job_append:
  assumes "start_job sys prev job tr = (Inr (ns, hs), tr1)"
  shows "start_job sys prev (job @ rest) tr =
    io_bind (start_job sys (if job = [] then prev else last_of ns job) rest) (\<lambda>(ns', hs'). io_ret (ns @ ns', hs @ hs')) tr1"
  using assms
proof (induction job arbitrary: prev tr ns hs)
  case Nil
  then show ?case by (simp add: io_bind_def split: prod.split sum.split)
next
  case (Cons dc job)
  obtain d c where dc: "dc = (d, c)" by fastforce
  obtain n hs1 tr0 ns' hs' where first: "start_command sys prev d c tr = (Inr (n, hs1), tr0)"
    and rest: "start_job sys (Some (n, to_pipe c)) job tr0 = (Inr (ns', hs'), tr1)" "ns = n # ns'" "hs = hs1 @ hs'"
    using Cons.prems dc by (auto simp: io_bind_eq_Inr)
  have "(if job = [] then Some (n, to_pipe c) else last_of ns' job) = last_of ns (dc # job)"
    using rest(2) dc start_job_length [OF rest(1)] by (auto simp: last_of_def)
  then show ?case
    using Cons.IH [OF rest(1)] dc first rest(2,3)
    by (simp add: io_bind_def split: prod.split sum.split)
qed

lemma start_job_error: "start_job sys prev job tr = (Inl e, tr1) \<Longrightarrow> start_job sys prev (job @ rest) tr = (Inl e, tr1)"
  by (induction job arbitrary: prev tr) (auto simp: io_bind_def split: prod.splits sum.splits)

lemma start_job_snoc:
  assumes "start_job sys None job tr = (Inr (ns, hs), tr1)"
  shows "start_command sys (last_of ns job) d c tr1 = (Inl e, tr2) \<Longrightarrow> start_job sys None (job @ [(d, c)]) tr = (Inl e, tr2)"
    and "start_command sys (last_of ns job) d c tr1 = (Inr (n, hs'), tr2) \<Longrightarrow>
      start_job sys None (job @ [(d, c)]) tr = (Inr (ns @ [n], hs @ hs'), tr2)"
  using start_job_append [OF assms, of "[(d, c)]"] by (auto simp: last_of_def io_bind_def split: if_splits)

section \<open>The loop runs the jobs\<close>

text \<open>How nodes and operators follow one another; the words of the commands do not matter here.\<close>

fun link_shape :: "node \<Rightarrow> node \<Rightarrow> bool" where
  "link_shape (Command c) Pipe = (cmd_stdout c = Some TargetPipe)"
| "link_shape (Command c) And = (cmd_stdout c \<noteq> Some TargetPipe)"
| "link_shape (Command c) Or = (cmd_stdout c \<noteq> Some TargetPipe)"
| "link_shape (Chdir d) And = True"
| "link_shape _ _ = False"

fun last_shape :: "node \<Rightarrow> bool" where
  "last_shape (Command c) = (cmd_stdout c \<noteq> Some TargetPipe)"
| "last_shape (Chdir d) = True"
| "last_shape _ = False"

fun shape_ok :: "node list \<Rightarrow> bool" where
  "shape_ok [] = False"
| "shape_ok [n] = last_shape n"
| "shape_ok (n # op # ns) = (link_shape n op \<and> shape_ok ns)"

lemma wf_shape: "wf_pipeline ns \<Longrightarrow> shape_ok ns"
proof (induction ns rule: wf_pipeline.induct)
  case (2 n)
  then show ?case by (cases n) auto
next
  case (3 n op ns)
  then show ?case by (cases n; cases op) auto
qed simp

text \<open>A pipeline that ends with a command and names the directory of every \<open>cd\<close>.\<close>

fun runnable :: "node list \<Rightarrow> bool" where
  "runnable [] = False"
| "runnable [n] = (case n of Command c \<Rightarrow> last_shape n | _ \<Rightarrow> False)"
| "runnable (n # op # ns) = (link_shape n op \<and> n \<noteq> Chdir None \<and> runnable ns)"

lemma runnable_cases:
  assumes "runnable ns"
  obtains (final) c where "ns = [Command c]" "\<not> to_pipe c"
  | (command) c op ns' where "ns = Command c # op # ns'" "op = Pipe \<and> to_pipe c \<or> (op = And \<or> op = Or) \<and> \<not> to_pipe c" "runnable ns'"
  | (chdir) dir ns' where "ns = Chdir (Some dir) # And # ns'" "runnable ns'"
proof (cases ns rule: runnable.cases)
  case (2 n)
  then show thesis using assms final by (cases n) (auto simp: to_pipe_def)
next
  case (3 n op ns')
  have link: "link_shape n op" "n \<noteq> Chdir None" "runnable ns'" using assms 3 by auto
  then consider c where "n = Command c" | dir where "n = Chdir (Some dir)" by (cases n) auto
  then show thesis
  proof cases
    case 1
    with 3 link show thesis using command by (cases op) (auto simp: to_pipe_def)
  next
    case 2
    with 3 link show thesis using chdir by (cases op) auto
  qed
qed (use assms in simp)

lemma jobs_head:
  "runnable ns \<Longrightarrow> \<exists>more op jobs. jobs_of d job ns = (job @ more, op) # jobs"
proof (induction ns arbitrary: d job rule: length_induct)
  case (1 ns)
  from 1(2) show ?case
  proof (cases rule: runnable_cases)
    case (final c)
    then show ?thesis by simp
  next
    case (command c op ns')
    show ?thesis
    proof (cases "op = Pipe")
      case True
      have "length ns' < length ns" using command(1) by simp
      from 1(1) [rule_format, OF this command(3)]
      obtain more op' jobs where "jobs_of d (job @ [(d, c)]) ns' = ((job @ [(d, c)]) @ more, op') # jobs" by blast
      with True command(1) show ?thesis by simp
    next
      case False
      with command(1) show ?thesis by simp
    qed
  next
    case (chdir dir ns')
    with 1(1) show ?thesis by simp
  qed
qed

text \<open>The local variables, when the commands of \<open>job\<close> have been started from the trace \<open>tr0\<close>.\<close>

definition building :: "system \<Rightarrow> sys_event list \<Rightarrow> pipe_job \<Rightarrow> run_state \<Rightarrow> bool" where
  "building sys tr0 job s \<longleftrightarrow>
     start_job sys None job tr0 = (Inr (map fst (piped s), files_to_close s), trace s) \<and>
     map snd (piped s) = map (\<lambda>(d, c). to_pipe c) job \<and> (in_pipe s \<longleftrightarrow> job \<noteq> [])"

lemma building_last:
  assumes "building sys tr0 job s"
  shows "last_piped s = Inr (last_of (map fst (piped s)) job)"
proof (cases "job = []")
  case True
  with assms show ?thesis by (simp add: building_def last_piped_def last_of_def)
next
  case False
  then have ne: "piped s \<noteq> []" using assms by (auto simp: building_def)
  have "snd (last (piped s)) = to_pipe (snd (last job))"
    using assms ne False last_map [of "piped s" snd] last_map [of job "\<lambda>(d, c). to_pipe c"]
    by (auto simp: building_def split: prod.splits)
  with ne False assms show ?thesis
    by (simp add: building_def last_piped_def last_of_def last_map prod_eq_iff)
qed

lemma building_command:
  assumes "building sys tr0 job s"
  obtains (error) e s' where "run_command sys verbose c s = (Inl e, s')"
      "start_job sys None (job @ [(cwd s, c)]) tr0 = (Inl e, trace s')"
  | (started) s' where "run_command sys verbose c s = (Inr (), s')" "cwd s' = cwd s"
      "\<And>shown. building sys tr0 (job @ [(cwd s, c)]) (s'\<lparr> in_pipe := True, display := shown \<rparr>)"
proof -
  have job: "start_job sys None job tr0 = (Inr (map fst (piped s), files_to_close s), trace s)"
    using assms by (simp add: building_def)
  consider (error) e s' where "start_command sys (last_of (map fst (piped s)) job) (cwd s) c (trace s) = (Inl e, trace s')"
      "run_command sys verbose c s = (Inl e, s')"
    | (started) r tr shown where "start_command sys (last_of (map fst (piped s)) job) (cwd s) c (trace s) = (Inr r, tr)"
      "run_command sys verbose c s = (Inr (), noted s c r tr shown)"
    using run_command_cases [OF building_last [OF assms], of sys c verbose] by metis
  then show thesis
  proof cases
    case (error e s')
    then show thesis using that(1) start_job_snoc(1) [OF job] by blast
  next
    case (started r tr shown)
    then have "start_job sys None (job @ [(cwd s, c)]) tr0 = (Inr (map fst (piped s) @ [fst r], files_to_close s @ snd r), tr)"
      using start_job_snoc(2) [OF job, of "cwd s" c "fst r" "snd r" tr] by simp
    then show thesis
      using that(2) [of "noted s c r tr shown"] started(2) assms by (simp add: noted_def building_def)
  qed
qed

lemma close_all: "\<exists>tr'. io_each sys_close hs tr = (Inr (), tr')"
  by (induction hs arbitrary: tr) (auto simp: io_seq_def io_bind_def sys_close_def)

lemma wait_all: "\<exists>rs tr'. io_map (sys_wait sys) ns tr = (Inr rs, tr')"
proof (induction ns arbitrary: tr)
  case (Cons n ns)
  obtain rs tr' where "io_map (sys_wait sys) ns (tr @ [Waited n (exit_code sys tr n)]) = (Inr rs, tr')"
    using Cons.IH by blast
  moreover have "sys_wait sys n tr = (Inr (exit_code sys tr n), tr @ [Waited n (exit_code sys tr n)])"
    by (simp add: sys_wait_def)
  ultimately show ?case by simp
qed auto

lemma building_finish:
  assumes "building sys tr0 job (s\<lparr> in_pipe := True, display := shown \<rparr>)"
  obtains r tr where "finish_pipe sys s = (Inr r, s\<lparr> trace := tr, files_to_close := [] \<rparr>)" "exec_job sys job tr0 = (Inr r, tr)"
proof -
  obtain rs tr1 where 1: "io_map (sys_wait sys) (map fst (piped s)) (trace s) = (Inr rs, tr1)" using wait_all by blast
  obtain tr2 where 2: "io_each sys_close (files_to_close s) tr1 = (Inr (), tr2)" using close_all by blast
  have job: "start_job sys None job tr0 = (Inr (map fst (piped s), files_to_close s), trace s)"
    using assms by (simp add: building_def)
  have "finish_pipe sys s = (Inr (pipe_status rs), s\<lparr> trace := tr2, files_to_close := [] \<rparr>)"
    using 1 2 by (simp add: finish_pipe_def exec_piped_commands_def on_trace_def io_bind_def io_seq_def)
  moreover have "exec_job sys job tr0 = (Inr (pipe_status rs), tr2)"
    using 1 2 job by (simp add: exec_job_def exec_piped_commands_def io_bind_def io_seq_def)
  ultimately show thesis using that by blast
qed

lemma exec_job_error:
  assumes "runnable ns" "start_job sys None job tr0 = (Inl e, tr)"
  shows "run_jobs sys (jobs_of d job ns) tr0 = (Inl e, tr)"
proof -
  obtain more op jobs where "jobs_of d job ns = (job @ more, op) # jobs" using jobs_head [OF assms(1)] by blast
  with start_job_error [OF assms(2)] show ?thesis by (simp add: exec_job_def io_bind_def)
qed

lemma run_nodes_jobs:
  assumes "runnable ns" "building sys tr0 job s"
  shows "\<exists>r s'. run_nodes sys False ns s = (rbind r (\<lambda>x. Inr (Some x)), s') \<and> run_jobs sys (jobs_of (cwd s) job ns) tr0 = (r, trace s')"
  using assms
proof (induction ns arbitrary: tr0 job s rule: length_induct)
  case (1 ns)
  note IH = 1(1) [rule_format] and run = 1(2) and b = 1(3)
  from run show ?case
  proof (cases rule: runnable_cases)
    case (final c)
    from b show ?thesis
    proof (cases rule: building_command [where c = c and verbose = False])
      case (error e s')
      with final(1) show ?thesis by (intro exI [of _ "Inl e"] exI [of _ s']) (simp add: exec_job_def io_seq_def io_bind_def)
    next
      case (started s')
      from building_finish [OF started(3)] obtain r tr where
        "finish_pipe sys s' = (Inr r, s'\<lparr> trace := tr, files_to_close := [] \<rparr>)" "exec_job sys (job @ [(cwd s, c)]) tr0 = (Inr r, tr)" .
      with final(1) started(1) show ?thesis
        by (intro exI [of _ "Inr r"] exI [of _ "s'\<lparr> trace := tr, files_to_close := [] \<rparr>"])
          (simp add: at_end_def io_seq_def io_bind_def io_when_def)
    qed
  next
    case (command c op ns')
    have len: "length ns' < length ns" using command(1) by simp
    from b show ?thesis
    proof (cases rule: building_command [where c = c and verbose = False])
      case (error e s')
      have "run_jobs sys (jobs_of (cwd s) job ns) tr0 = (Inl e, trace s')"
      proof (cases "op = Pipe")
        case True
        then show ?thesis using command(1) exec_job_error [OF command(3) error(2)] by simp
      next
        case False
        then show ?thesis using command(1) error(2) by (simp add: exec_job_def io_bind_def)
      qed
      with command(1) error(1) show ?thesis
        by (intro exI [of _ "Inl e"] exI [of _ s']) (simp add: io_seq_def io_bind_def)
    next
      case (started s')
      show ?thesis
      proof (cases "op = Pipe")
        case True
        let ?s = "s'\<lparr> in_pipe := True, display := display s' @ [''|''] \<rparr>"
        obtain r2 s2 where "run_nodes sys False ns' ?s = (rbind r2 (\<lambda>x. Inr (Some x)), s2)"
          "run_jobs sys (jobs_of (cwd s) (job @ [(cwd s, c)]) ns') tr0 = (r2, trace s2)"
          using IH [OF len command(3) started(3) [of "display s' @ [''|'']"]] started(2) by auto
        with True command(1) started(1) show ?thesis
          by (intro exI [of _ r2] exI [of _ s2]) (simp add: io_seq_def io_bind_def)
      next
        case False
        then have op: "op = And \<or> op = Or" using command(2) by blast
        from building_finish [OF started(3)] obtain r tr where
          fin: "finish_pipe sys s' = (Inr r, s'\<lparr> trace := tr, files_to_close := [] \<rparr>)" "exec_job sys (job @ [(cwd s, c)]) tr0 = (Inr r, tr)" .
        define s1 where "s1 = s'\<lparr> trace := tr, files_to_close := [], in_pipe := False, piped := [], display := [] \<rparr>"
        have "building sys tr [] s1" by (simp add: building_def s1_def)
        from IH [OF len command(3) this] obtain r2 s2 where
          rest: "run_nodes sys False ns' s1 = (rbind r2 (\<lambda>x. Inr (Some x)), s2)" "run_jobs sys (jobs_of (cwd s1) [] ns') tr = (r2, trace s2)" by blast
        have cwd: "cwd s1 = cwd s" using started(2) by (simp add: s1_def)
        show ?thesis
        proof (cases "if op = And then r \<noteq> 0 else r = 0")
          case True
          with op command(1) started(1) fin show ?thesis
            by (intro exI [of _ "Inr r"] exI [of _ "s'\<lparr> trace := tr, files_to_close := [] \<rparr>"])
              (auto simp: at_operator_def io_seq_def io_bind_def)
        next
          case False
          with op command(1) started(1) fin rest cwd show ?thesis
            by (intro exI [of _ r2] exI [of _ s2])
              (auto simp: at_operator_def next_pipe_def io_seq_def io_bind_def s1_def)
        qed
      qed
    qed
  next
    case (chdir dir ns')
    let ?s = "s\<lparr> cwd := path_join (cwd s) dir \<rparr>"
    have "building sys tr0 job ?s" using b by (simp add: building_def)
    from IH [OF _ chdir(2) this] chdir(1) show ?thesis by (simp add: io_seq_def io_bind_def io_when_def)
  qed
qed

text \<open>
  C12: running a pipeline is running its jobs from left to right: the processes of a job are
  started and connected in order, then all are waited for and the files of the job are closed;
  the status of a job is that of its last process, and the first job that fails before
  \<open>&&\<close> or succeeds before \<open>||\<close> ends the run, even when another operator follows.
\<close>

theorem run_refines_jobs:
  assumes "runnable ns"
  shows "run_pipeline sys False ns tr =
    (case run_jobs sys (jobs_of ''.'' [] ns) tr of (r, tr') \<Rightarrow> (rbind r (\<lambda>x. Inr (Some x)), tr'))"
proof -
  have "building sys tr [] (new_run tr)" by (simp add: building_def new_run_def)
  from run_nodes_jobs [OF assms this] show ?thesis
    by (auto simp: run_pipeline_def new_run_def)
qed

section \<open>Files and processes\<close>

fun closed_by :: "sys_event \<Rightarrow> nat list" where
  "closed_by (Closed n) = [n]"
| "closed_by _ = []"

fun waited_by :: "sys_event \<Rightarrow> nat list" where
  "waited_by (Waited n r) = [n]"
| "waited_by _ = []"

definition closes :: "sys_event list \<Rightarrow> nat list" where
  "closes tr = concat (map closed_by tr)"

definition waits :: "sys_event list \<Rightarrow> nat list" where
  "waits tr = concat (map waited_by tr)"

lemma counts_append [simp]:
  "opened (a @ b) = opened a + opened b" "started (a @ b) = started a + started b"
  "closes (a @ b) = closes a @ closes b" "waits (a @ b) = waits a @ waits b"
  by (simp_all add: opened_def started_def closes_def waits_def)

definition numbers :: "handle list \<Rightarrow> nat list" where
  "numbers hs = concat (map (\<lambda>h. case h of DevNull \<Rightarrow> [] | Handle n \<Rightarrow> [n]) hs)"

text \<open>Between two traces some files are opened and some processes started, and nothing else happens.\<close>

definition grown :: "sys_event list \<Rightarrow> sys_event list \<Rightarrow> handle list \<Rightarrow> nat list \<Rightarrow> bool" where
  "grown tr tr' hs ns \<longleftrightarrow> closes tr' = closes tr \<and> waits tr' = waits tr \<and> opened tr \<le> opened tr' \<and>
     numbers hs = [opened tr ..< opened tr'] \<and> started tr \<le> started tr' \<and> ns = [started tr ..< started tr']"

lemma upt_join: "i \<le> j \<Longrightarrow> j \<le> k \<Longrightarrow> [i ..< j] @ [j ..< k] = [i ..< k]"
  by (metis le_Suc_ex upt_add_eq_append)

lemma grown_trans:
  assumes "grown a b hs ns" "grown b c hs' ns'"
  shows "grown a c (hs @ hs') (ns @ ns')"
  using assms by (auto simp: grown_def numbers_def upt_join)

lemma grown_refl [simp]: "grown tr tr [] []"
  by (simp add: grown_def numbers_def)

lemma counts_event [simp]:
  "opened [OpenIn f] = 1" "opened [OpenOut f] = 1" "opened [Started p] = 0" "opened [Waited n r] = 0" "opened [Closed n] = 0"
  "started [OpenIn f] = 0" "started [OpenOut f] = 0" "started [Started p] = 1" "started [Waited n r] = 0" "started [Closed n] = 0"
  "closes [OpenIn f] = []" "closes [OpenOut f] = []" "closes [Started p] = []" "closes [Waited n r] = []" "closes [Closed n] = [n]"
  "waits [OpenIn f] = []" "waits [OpenOut f] = []" "waits [Started p] = []" "waits [Waited n r] = [n]" "waits [Closed n] = []"
  by (simp_all add: opened_def started_def closes_def waits_def)

lemma grown_streams:
  "stdin_of sys prev c tr = (Inr (i, hs), tr') \<Longrightarrow> grown tr tr' hs []"
  "target_of sys t tr = (Inr (out, hs), tr') \<Longrightarrow> grown tr tr' hs []"
  by (auto simp: stdin_of_def target_of_def open_out_file_def sys_open_def grown_def numbers_def io_bind_eq_Inr
      split: option.splits prod.splits if_splits target.splits)

lemma grown_command: "start_command sys prev d c tr = (Inr (n, hs), tr') \<Longrightarrow> grown tr tr' hs [n]"
proof -
  assume "start_command sys prev d c tr = (Inr (n, hs), tr')"
  then obtain i h1 t1 out h2 t2 err h3 t3 where
    s: "stdin_of sys prev c tr = (Inr (i, h1), t1)" "target_of sys (cmd_stdout c) t1 = (Inr (out, h2), t2)"
      "target_of sys (cmd_stderr c) t2 = (Inr (err, h3), t3)" "sys_start sys (process_of sys d c i out err) t3 = (Inr n, tr')"
      "hs = h1 @ h2 @ h3"
    by (auto simp: start_command_def io_bind_eq_Inr)
  have "grown t3 tr' [] [n]" using s(4) by (auto simp: sys_start_def grown_def numbers_def split: if_splits)
  with grown_trans [OF grown_streams(1) [OF s(1)] grown_trans [OF grown_streams(2) [OF s(2)] grown_streams(2) [OF s(3)]]]
  show ?thesis using grown_trans [of tr t3 "h1 @ h2 @ h3" "[]" tr' "[]" "[n]"] s(5) by simp
qed

lemma grown_job: "start_job sys prev job tr = (Inr (ns, hs), tr') \<Longrightarrow> grown tr tr' hs ns"
proof (induction job arbitrary: prev tr ns hs)
  case (Cons dc job)
  then obtain n h1 t1 ns' h2 where "start_command sys prev (fst dc) (snd dc) tr = (Inr (n, h1), t1)"
    "start_job sys (Some (n, to_pipe (snd dc))) job t1 = (Inr (ns', h2), tr')" "ns = n # ns'" "hs = h1 @ h2"
    by (cases dc) (auto simp: io_bind_eq_Inr)
  then show ?case using grown_trans [OF grown_command Cons.IH, of sys prev "fst dc" "snd dc" tr n h1] by fastforce
qed (auto simp: grown_def numbers_def)

lemma counts_wait:
  "io_map (sys_wait sys) ns tr = (Inr rs, tr') \<Longrightarrow>
    opened tr' = opened tr \<and> started tr' = started tr \<and> closes tr' = closes tr \<and> waits tr' = waits tr @ ns"
  by (induction ns arbitrary: tr rs) (auto simp: io_bind_eq_Inr sys_wait_def)

lemma counts_close:
  "io_each sys_close hs tr = (Inr (), tr') \<Longrightarrow>
    opened tr' = opened tr \<and> started tr' = started tr \<and> closes tr' = closes tr @ numbers hs \<and> waits tr' = waits tr"
  by (induction hs arbitrary: tr)
    (auto simp: io_seq_def io_bind_eq_Inr sys_close_def numbers_def split: handle.splits)

text \<open>What has been opened is closed, and what has been started is waited for.\<close>

definition settled :: "sys_event list \<Rightarrow> sys_event list \<Rightarrow> bool" where
  "settled tr tr' \<longleftrightarrow> opened tr \<le> opened tr' \<and> closes tr' = closes tr @ [opened tr ..< opened tr'] \<and>
     started tr \<le> started tr' \<and> waits tr' = waits tr @ [started tr ..< started tr']"

lemma settled_trans: "settled a b \<Longrightarrow> settled b c \<Longrightarrow> settled a c"
  by (auto simp: settled_def upt_join)

lemma settled_exec_job:
  assumes "exec_job sys job tr = (Inr r, tr')"
  shows "settled tr tr'"
proof -
  from assms obtain ns hs t1 rs t2 where 1: "start_job sys None job tr = (Inr (ns, hs), t1)"
    "io_map (sys_wait sys) ns t1 = (Inr rs, t2)" "io_each sys_close hs t2 = (Inr (), tr')"
    by (auto simp: exec_job_def exec_piped_commands_def io_bind_eq_Inr io_seq_def)
  from grown_job [OF 1(1)] counts_wait [OF 1(2)] counts_close [OF 1(3)] show ?thesis
    by (auto simp: grown_def settled_def)
qed

lemma settled_run_jobs: "run_jobs sys jobs tr = (Inr r, tr') \<Longrightarrow> settled tr tr'"
  by (induction sys jobs arbitrary: tr rule: run_jobs.induct)
    (auto simp: io_bind_eq_Inr split: if_splits intro: settled_trans settled_exec_job)

text \<open>
  C13: when \<open>run\<close> returns, every file it has opened has been closed and every process it has
  started has been waited for, each once and in their order. (After an exception the files
  opened for the job are left open.)
\<close>

theorem run_settles:
  assumes "runnable ns" "run_pipeline sys False ns tr = (Inr r, tr')"
  shows "closes tr' = closes tr @ [opened tr ..< opened tr'] \<and> waits tr' = waits tr @ [started tr ..< started tr']"
proof -
  have "building sys tr [] (new_run tr)" by (simp add: building_def new_run_def)
  from run_nodes_jobs [OF assms(1) this] obtain res s' where
    "run_nodes sys False ns (new_run tr) = (rbind res (\<lambda>x. Inr (Some x)), s')"
    "run_jobs sys (jobs_of (cwd (new_run tr)) [] ns) tr = (res, trace s')" by blast
  with assms(2) obtain x where "run_jobs sys (jobs_of (cwd (new_run tr)) [] ns) tr = (Inr x, tr')"
    by (auto simp: run_pipeline_def rbind_Inr_iff)
  from settled_run_jobs [OF this] show ?thesis by (simp add: settled_def)
qed

section \<open>Exceptions\<close>

text \<open>A command with \<open>&&\<close> or \<open>||\<close> behind it.\<close>

fun compound :: "node list \<Rightarrow> bool" where
  "compound (Command c # op # ns) = (op = And \<or> op = Or \<or> compound ns)"
| "compound (n # op # ns) = compound ns"
| "compound _ = False"

lemma open_errors:
  "sys_open sys mode f tr = (Inl e, tr') \<Longrightarrow> e = IOError"
  "stdin_of sys prev c tr = (Inl e, tr') \<Longrightarrow> e = IOError"
  "target_of sys t tr = (Inl e, tr') \<Longrightarrow> e = IOError"
  "sys_start sys p tr = (Inl e, tr') \<Longrightarrow> e = OSError"
  by (auto simp: sys_open_def stdin_of_def target_of_def open_out_file_def sys_start_def io_bind_def
      split: option.splits prod.splits if_splits target.splits sum.splits)

lemma start_errors: "start_command sys prev d c tr = (Inl e, tr') \<Longrightarrow> e = IOError \<or> e = OSError"
  using open_errors
  by (auto simp: start_command_def io_bind_def split: prod.splits sum.splits)

definition connected :: "run_state \<Rightarrow> bool" where
  "connected s \<longleftrightarrow> (in_pipe s \<longrightarrow> piped s \<noteq> [])"

lemma command_outcome:
  assumes "connected s" "run_command sys verbose c s = (res, s')"
  shows "case res of Inl e \<Rightarrow> e = IOError \<or> e = OSError | Inr u \<Rightarrow> piped s' \<noteq> []"
proof -
  have "\<exists>prev. last_piped s = Inr prev" using assms(1) by (simp add: last_piped_def connected_def)
  then obtain prev where "last_piped s = Inr prev" ..
  then show ?thesis
  proof (cases rule: run_command_cases [of s prev sys c verbose])
    case (error e s'')
    then show ?thesis using assms(2) start_errors [OF error(1)] by simp
  next
    case (started r tr shown)
    then show ?thesis using assms(2) by (simp add: noted_def)
  qed
qed

lemma finish_returns: "\<exists>r s'. finish_pipe sys s = (Inr r, s')"
proof -
  obtain rs tr1 where "io_map (sys_wait sys) (map fst (piped s)) (trace s) = (Inr rs, tr1)" using wait_all by blast
  moreover obtain tr2 where "io_each sys_close (files_to_close s) tr1 = (Inr (), tr2)" using close_all by blast
  ultimately show ?thesis
    by (simp add: finish_pipe_def exec_piped_commands_def on_trace_def io_bind_def io_seq_def)
qed

text \<open>How a run may end.\<close>

definition run_outcome :: "bool \<Rightarrow> node list \<Rightarrow> int option res \<Rightarrow> bool" where
  "run_outcome verbose ns res \<longleftrightarrow>
     (case res of
        Inr r \<Rightarrow> r \<noteq> None \<and> \<not> (verbose \<and> compound ns)
      | Inl e \<Rightarrow> e \<in> {IOError, OSError} \<or> e \<in> {IndexError, AttributeError} \<and> \<not> runnable ns \<or>
          e = UnboundLocalError \<and> verbose \<and> compound ns)"

lemma run_nodes_outcome:
  "shape_ok ns \<Longrightarrow> connected s \<Longrightarrow> run_outcome verbose ns (fst (run_nodes sys verbose ns s))"
proof (induction ns arbitrary: s rule: shape_ok.induct)
  case (2 n)
  show ?case
  proof (cases n)
    case (Command c)
    obtain res s' where run: "run_command sys verbose c s = (res, s')" by fastforce
    obtain r s'' where "finish_pipe sys s' = (Inr r, s'')" using finish_returns by blast
    with run command_outcome [OF 2(2) run] Command 2(1) show ?thesis
      by (cases res) (auto simp: at_end_def io_seq_def io_bind_def io_when_def run_outcome_def on_trace_def)
  next
    case (Chdir d)
    then show ?thesis by (simp add: run_outcome_def)
  qed (use 2 in simp_all)
next
  case (3 n op ns)
  have ok: "link_shape n op" "shape_ok ns" using 3(2) by simp_all
  show ?case
  proof (cases n)
    case (Chdir d)
    show ?thesis
    proof (cases d)
      case None
      then show ?thesis using Chdir ok by (cases op) (auto simp: run_outcome_def)
    next
      case (Some dir)
      define s1 where "s1 = s\<lparr> cwd := path_join (cwd s) dir,
        display := display s @ (if verbose then [''cd '' @ dir @ '' &&''] else []) \<rparr>"
      have s1: "connected s1" "run_nodes sys verbose (Chdir (Some dir) # And # ns) s = run_nodes sys verbose ns s1"
        using 3(3)
        by (simp_all add: s1_def io_seq_def io_bind_def io_when_def show_words_def connected_def)
      with "3.IH" [OF ok(2) s1(1)] Chdir Some ok show ?thesis
        by (cases op) (auto simp: run_outcome_def split: sum.splits)
    qed
  next
    case (Command c)
    obtain res s' where run: "run_command sys verbose c s = (res, s')" by fastforce
    note out = command_outcome [OF 3(3) run]
    show ?thesis
    proof (cases res)
      case (Inl e)
      with run out Command show ?thesis by (simp add: io_seq_def io_bind_def run_outcome_def)
    next
      case (Inr u)
      then have ne: "piped s' \<noteq> []" using out by simp
      obtain r s2 where fin: "finish_pipe sys s' = (Inr r, s2)" using finish_returns by blast
      have "connected (s'\<lparr> in_pipe := True, display := display s' @ [''|''] \<rparr>)"
        "connected (s2\<lparr> in_pipe := False, piped := [], display := [] \<rparr>)" using ne by (simp_all add: connected_def)
      note next_ok = this [THEN "3.IH" [OF ok(2)]]
      from ok(1) Command consider "op = Pipe" | "op = And" | "op = Or" by (cases op) auto
      then show ?thesis
      proof cases
        case 1
        with run Inr next_ok(1) Command ok show ?thesis
          by (auto simp: io_seq_def io_bind_def run_outcome_def split: sum.splits)
      next
        case 2
        with run Inr next_ok(2) Command ok fin show ?thesis
          by (auto simp: io_seq_def io_bind_def at_operator_def next_pipe_def run_outcome_def split: sum.splits)
      next
        case 3
        with run Inr next_ok(2) Command ok fin show ?thesis
          by (auto simp: io_seq_def io_bind_def at_operator_def next_pipe_def run_outcome_def split: sum.splits)
      qed
    qed
  qed (use ok in simp_all)
qed simp

text \<open>
  C16: how the run of a parsed line may end. It returns a status, or raises \<open>IOError\<close> for a file or
  \<open>OSError\<close> for a program; \<open>IndexError\<close> and \<open>AttributeError\<close> come from a \<open>cd\<close> at the end or without
  a directory; no assertion fails. In the verbose mode a line with \<open>&&\<close> or \<open>||\<close> behind a command never
  returns, because of a local that is not bound.
\<close>

theorem run_outcomes:
  assumes "parse line = Inr ns"
  shows "case fst (run_pipeline sys verbose ns tr) of
      Inr r \<Rightarrow> r \<noteq> None \<and> \<not> (verbose \<and> compound ns)
    | Inl e \<Rightarrow> e \<in> {IOError, OSError} \<or> e \<in> {IndexError, AttributeError} \<and> \<not> runnable ns \<or>
        e = UnboundLocalError \<and> verbose \<and> compound ns"
proof -
  have "connected (new_run tr)" by (simp add: connected_def new_run_def)
  from run_nodes_outcome [OF wf_shape [OF parse_line_wf [OF assms]] this, of verbose sys] show ?thesis
    by (cases "run_nodes sys verbose ns (new_run tr)") (simp add: run_pipeline_def run_outcome_def)
qed

section \<open>Examples\<close>

text \<open>A system on which everything works; the exit code is 0.\<close>

definition good_system :: system where
  "good_system = \<lparr> can_open = (\<lambda>tr f. True), can_start = (\<lambda>tr p. True), exit_code = (\<lambda>tr n. 0), environ = [],
     dict_order = (\<lambda>d. d) \<rparr>"

definition sample_nodes :: "node list" where
  "sample_nodes =
     [Command ((new_command ''a'')\<lparr> cmd_stdout := Some (TargetFile ''f'') \<rparr>), Or, Command (new_command ''b''), And,
      Command (new_command ''c'')]"

lemma no_assignment: "list_all is_word_char s \<Longrightarrow> env_var_match s = None"
proof -
  assume "list_all is_word_char s"
  then have "dropWhile is_word_char s = []" by (induction s) auto
  then show ?thesis unfolding env_var_match_def Let_def by (simp only: list.case)
qed

lemma sample_runnable: "runnable sample_nodes"
  by (simp add: sample_nodes_def new_command_def command_ok_def no_assignment is_word_char_def)

theorem run_refines_witness:
  "fst (run_pipeline good_system False sample_nodes []) = Inr (Some 0)"
  unfolding run_refines_jobs [OF sample_runnable]
  by (simp add: sample_nodes_def new_command_def exec_job_def start_command_def stdin_of_def target_of_def open_out_file_def
      sys_open_def sys_start_def good_system_def exec_piped_commands_def sys_wait_def sys_close_def pipe_status_def
      io_bind_def io_seq_def opened_def started_def)

theorem run_settles_witness:
  "closes (snd (run_pipeline good_system False sample_nodes [])) = [0] \<and>
   waits (snd (run_pipeline good_system False sample_nodes [])) = [0]"
proof -
  obtain r tr where run: "run_pipeline good_system False sample_nodes [] = (Inr r, tr)"
    "opened tr = 1" "started tr = 1"
    by (simp add: run_pipeline_def new_run_def sample_nodes_def new_command_def run_command_def last_piped_def at_operator_def
        finish_pipe_def on_trace_def keep_open_def stdin_of_def target_of_def open_out_file_def
        sys_open_def sys_start_def good_system_def exec_piped_commands_def sys_wait_def sys_close_def pipe_status_def
        io_bind_def io_seq_def io_when_def opened_def started_def)
  from run_settles [OF sample_runnable run(1)] run show ?thesis
    by (simp add: closes_def waits_def opened_def started_def)
qed

theorem run_outcomes_witness:
  "fst (run_pipeline good_system True sample_nodes []) \<notin> {Inr None, Inl AssertionError}"
proof -
  have "wf_pipeline sample_nodes"
    by (simp add: sample_nodes_def new_command_def command_ok_def no_assignment is_word_char_def)
  then have "parse (write_pipeline sample_nodes) = Inr sample_nodes"
    by (simp add: parse_def write_pipeline_def shlex_split_quoted parse_unparse)
  from run_outcomes [OF this, where sys = good_system and verbose = True and tr = "[]"]
  show ?thesis by (auto split: sum.splits)
qed

end
