(* ===== verification/ShellTask.thy ===== *)
theory ShellTask
  imports ShellRun
begin

text \<open>
  The tasks of \<open>waf-tools/command.py\<close>, which run a command line of a build script: references such as
  \<open>${SRC}\<close> are replaced in the parsed pipeline before it is run. Evaluating the expression of a
  reference in the name space of the task is the parameter \<open>ev\<close>; nodes of the build system are known
  by their source path and their path in the build directory.
\<close>

section \<open>Substitution\<close>

datatype subst_value =
    NodeValue string string
  | InputsValue
  | OutputsValue
  | ListValue "subst_value list"
  | TextValue string
  | NoneValue
  | OtherValue

record task =
  task_inputs :: "(string \<times> string) list"
  task_outputs :: "(string \<times> string) list"

text \<open>What \<open>re.sub\<close> makes of the value of the replacement function: \<open>None\<close> counts as empty.\<close>

definition sub_text :: "subst_value \<Rightarrow> string res" where
  "sub_text v = (case v of TextValue s \<Rightarrow> Inr s | NoneValue \<Rightarrow> Inr [] | _ \<Rightarrow> Inl TypeError)"

definition ref_text :: "task \<Rightarrow> string \<Rightarrow> subst_value \<Rightarrow> string res" where
  "ref_text t var v =
     (case v of
        NodeValue src bld \<Rightarrow>
          if var = ''TGT'' then Inr bld else if var = ''SRC'' then Inr src else Inl ValueError
      | InputsValue \<Rightarrow> (case task_inputs t of [(src, bld)] \<Rightarrow> Inr src | _ \<Rightarrow> Inl ValueError)
      | OutputsValue \<Rightarrow> (case task_outputs t of [(src, bld)] \<Rightarrow> Inr bld | _ \<Rightarrow> Inl ValueError)
      | ListValue vs \<Rightarrow> (case vs of [v'] \<Rightarrow> sub_text v' | _ \<Rightarrow> Inl AssertionError)
      | _ \<Rightarrow> sub_text v)"

text \<open>
  The part of the expression behind \<open>${\<close>: a name, and anything on the same line up to the first closing
  brace. The result are the name, the code behind it and the rest of the text.
\<close>

definition match_ref :: "string \<Rightarrow> (string \<times> string \<times> string) option" where
  "match_ref s =
     (let var = takeWhile is_word_char s;
          code = takeWhile (\<lambda>c. c \<noteq> CHR ''}'' \<and> c \<noteq> CHR 0x0A) (dropWhile is_word_char s) in
      case drop (length var + length code) s of
        [] \<Rightarrow> None
      | c # rest \<Rightarrow> if var \<noteq> [] \<and> c = CHR ''}'' then Some (var, code, rest) else None)"

lemma match_ref_shorter: "match_ref s = Some (var, code, rest) \<Longrightarrow> length rest < length s"
proof -
  assume "match_ref s = Some (var, code, rest)"
  then obtain k c where "drop k s = c # rest"
    by (auto simp: match_ref_def Let_def split: list.splits if_splits)
  then have "length (drop k s) = Suc (length rest)" by simp
  then show ?thesis by simp
qed

function subst_arg :: "(string \<Rightarrow> subst_value res) \<Rightarrow> task \<Rightarrow> string \<Rightarrow> string res" where
  "subst_arg ev t [] = Inr []"
| "subst_arg ev t (c # cs) =
     (if c = CHR ''$'' \<and> cs \<noteq> [] \<and> hd cs = CHR ''$'' then
        rbind (subst_arg ev t (tl cs)) (\<lambda>s. Inr (CHR ''$'' # s))
      else
        (case (if c = CHR ''$'' \<and> cs \<noteq> [] \<and> hd cs = CHR ''{'' then match_ref (tl cs) else None) of
           Some (var, code, rest) \<Rightarrow>
             rbind (rbind (ev (var @ code)) (ref_text t var)) (\<lambda>v.
             rbind (subst_arg ev t rest) (\<lambda>s. Inr (v @ s)))
         | None \<Rightarrow> rbind (subst_arg ev t cs) (\<lambda>s. Inr (c # s))))"
  by pat_completeness auto
termination
proof (relation "measure (\<lambda>(ev, t, s). length s)")
  fix ev t c cs p var q code rest
  assume "(if c = CHR ''$'' \<and> cs \<noteq> [] \<and> hd cs = CHR ''{'' then match_ref (tl cs) else None) = Some p"
    "(var, q) = p" "(code, rest) = q"
  then have "length rest < length (tl cs)" by (auto split: if_splits dest: match_ref_shorter)
  then show "((ev, t, rest), ev, t, c # cs) \<in> measure (\<lambda>(ev, t, s). length s)" by simp
qed auto

declare subst_arg.simps(2) [simp del]

section \<open>Running a task\<close>

definition subst_target :: "(string \<Rightarrow> subst_value res) \<Rightarrow> task \<Rightarrow> target option \<Rightarrow> target option res" where
  "subst_target ev t x =
     (case x of
        Some (TargetFile f) \<Rightarrow> rbind (subst_arg ev t f) (\<lambda>f'. Inr (Some (TargetFile f')))
      | _ \<Rightarrow> Inr x)"

definition subst_optional :: "('a \<Rightarrow> 'b res) \<Rightarrow> 'a option \<Rightarrow> 'b option res" where
  "subst_optional f x = (case x of None \<Rightarrow> Inr None | Some a \<Rightarrow> rbind (f a) (\<lambda>b. Inr (Some b)))"

definition subst_command :: "(string \<Rightarrow> subst_value res) \<Rightarrow> task \<Rightarrow> command \<Rightarrow> command res" where
  "subst_command ev t c =
     rbind (subst_optional (subst_arg ev t) (cmd_stdin c)) (\<lambda>i.
     rbind (subst_target ev t (cmd_stdout c)) (\<lambda>out.
     rbind (subst_target ev t (cmd_stderr c)) (\<lambda>err.
     rbind (rmap (subst_arg ev t) (argv c)) (\<lambda>args.
     rbind (subst_optional (rmap (\<lambda>(k, v). rbind (subst_arg ev t v) (\<lambda>v'. Inr (k, v')))) (env_vars c)) (\<lambda>env.
       Inr (c\<lparr> cmd_stdin := i, cmd_stdout := out, cmd_stderr := err, argv := args, env_vars := env \<rparr>))))))"

text \<open>A \<open>cd\<close> without a directory has \<open>None\<close> as its text.\<close>

definition subst_node :: "(string \<Rightarrow> subst_value res) \<Rightarrow> task \<Rightarrow> node \<Rightarrow> node res" where
  "subst_node ev t n =
     (case n of
        Command c \<Rightarrow> rbind (subst_command ev t c) (\<lambda>c'. Inr (Command c'))
      | Chdir None \<Rightarrow> Inl TypeError
      | Chdir (Some d) \<Rightarrow> rbind (subst_arg ev t d) (\<lambda>d'. Inr (Chdir (Some d')))
      | _ \<Rightarrow> Inr n)"

definition run_task :: "(string \<Rightarrow> subst_value res) \<Rightarrow> task \<Rightarrow> system \<Rightarrow> bool \<Rightarrow> string \<Rightarrow> (sys_event list, int option) action" where
  "run_task ev t sys verbose line =
     io_bind (io_lift (rbind (parse line) (rmap (subst_node ev t)))) (run_pipeline sys verbose)"

definition task_str :: "string list \<Rightarrow> string list \<Rightarrow> string \<Rightarrow> string res" where
  "task_str sources targets line =
     rbind (parse line) (\<lambda>ns.
       Inr (''command ('' @ get_abbreviated_command ns @ ''): '' @ join_with '' '' sources @
            (if targets \<noteq> [] then '' -> '' else []) @ join_with '' '' targets @ nl))"

section \<open>What is substituted\<close>

datatype piece = Literal string | Dollar | Ref string string

definition render_piece :: "piece \<Rightarrow> string" where
  "render_piece p =
     (case p of
        Literal s \<Rightarrow> s
      | Dollar \<Rightarrow> ''$$''
      | Ref var code \<Rightarrow> ''${'' @ var @ code @ ''}'')"

definition piece_ok :: "piece \<Rightarrow> bool" where
  "piece_ok p \<longleftrightarrow>
     (case p of
        Literal s \<Rightarrow> CHR ''$'' \<notin> set s
      | Dollar \<Rightarrow> True
      | Ref var code \<Rightarrow> var \<noteq> [] \<and> list_all is_word_char var \<and>
          list_all (\<lambda>c. c \<noteq> CHR ''}'' \<and> c \<noteq> CHR 0x0A) code \<and> (code = [] \<or> \<not> is_word_char (hd code)))"

definition piece_text :: "(string \<Rightarrow> subst_value res) \<Rightarrow> task \<Rightarrow> piece \<Rightarrow> string res" where
  "piece_text ev t p =
     (case p of
        Literal s \<Rightarrow> Inr s
      | Dollar \<Rightarrow> Inr ''$''
      | Ref var code \<Rightarrow> rbind (ev (var @ code)) (ref_text t var))"

lemma rbind_assoc: "rbind (rbind m f) g = rbind m (\<lambda>x. rbind (f x) g)"
  by (cases m) auto

lemma subst_literal:
  "CHR ''$'' \<notin> set s \<Longrightarrow> subst_arg ev t (s @ r) = rbind (subst_arg ev t r) (\<lambda>x. Inr (s @ x))"
  by (induction s) (auto simp: subst_arg.simps(2) rbind_def split: sum.splits)

lemma match_ref_render:
  assumes "piece_ok (Ref var code)"
  shows "match_ref (var @ code @ CHR ''}'' # r) = Some (var, code, r)"
proof -
  have brace: "\<not> is_word_char (CHR ''}'')" by (simp add: is_word_char_def)
  have "takeWhile is_word_char (var @ code @ CHR ''}'' # r) = var"
    "dropWhile is_word_char (var @ code @ CHR ''}'' # r) = code @ CHR ''}'' # r"
    using assms brace by (cases code; auto simp: piece_ok_def list_all_iff takeWhile_append dropWhile_append)+
  moreover have "takeWhile (\<lambda>c. c \<noteq> CHR ''}'' \<and> c \<noteq> CHR 0x0A) (code @ CHR ''}'' # r) = code"
    using assms by (auto simp: piece_ok_def list_all_iff takeWhile_append)
  ultimately show ?thesis using assms by (simp add: match_ref_def piece_ok_def)
qed

lemma subst_piece:
  assumes "piece_ok p"
  shows "subst_arg ev t (render_piece p @ r) =
    rbind (piece_text ev t p) (\<lambda>v. rbind (subst_arg ev t r) (\<lambda>s. Inr (v @ s)))"
proof (cases p)
  case (Literal s)
  then show ?thesis using assms subst_literal [of s ev t r] by (simp add: render_piece_def piece_ok_def piece_text_def)
next
  case Dollar
  then show ?thesis by (simp add: render_piece_def piece_text_def subst_arg.simps(2))
next
  case (Ref var code)
  then show ?thesis
    using assms match_ref_render [of var code r]
    by (simp add: render_piece_def piece_text_def subst_arg.simps(2) rbind_assoc)
qed

text \<open>
  The text that comes out of a substitution. Pieces of text are kept, \<open>$$\<close> stands for a dollar sign,
  and a reference is replaced by the text of its value; what was put in is not searched again.
  The first piece that raises an exception decides.
\<close>

theorem subst_pieces:
  assumes "list_all piece_ok ps"
  shows "subst_arg ev t (concat (map render_piece ps)) = rbind (rmap (piece_text ev t) ps) (\<lambda>ts. Inr (concat ts))"
  using assms by (induction ps) (simp_all add: subst_piece rbind_assoc)

theorem subst_pieces_witness:
  "subst_arg (\<lambda>x. Inr InputsValue) \<lparr> task_inputs = [(''a.c'', ''b/a.c'')], task_outputs = [] \<rparr> ''-I$${SRC} ${SRC}'' =
    Inr ''-I${SRC} a.c''"
proof -
  have "list_all piece_ok [Literal ''-I'', Dollar, Literal ''{SRC} '', Ref ''SRC'' []]"
    by (simp add: piece_ok_def is_word_char_def)
  from subst_pieces [OF this, of "\<lambda>x. Inr InputsValue" "\<lparr> task_inputs = [(''a.c'', ''b/a.c'')], task_outputs = [] \<rparr>"]
  show ?thesis by (simp add: render_piece_def piece_text_def ref_text_def)
qed

section \<open>What a substitution cannot change\<close>

text \<open>Two pipelines of the same build: the same operators and connections, and as many arguments.\<close>

fun same_build :: "node \<Rightarrow> node \<Rightarrow> bool" where
  "same_build (Command c) (Command c') =
     (length (argv c) = length (argv c') \<and> to_pipe c = to_pipe c' \<and> (cmd_stdin c = None \<longleftrightarrow> cmd_stdin c' = None) \<and>
      (cmd_stdout c = None \<longleftrightarrow> cmd_stdout c' = None) \<and> (cmd_stderr c = None \<longleftrightarrow> cmd_stderr c' = None))"
| "same_build (Chdir (Some d)) (Chdir (Some d')) = True"
| "same_build n n' = (n = n' \<and> (n = Pipe \<or> n = And \<or> n = Or))"

lemma subst_same_build: "subst_node ev t n = Inr n' \<Longrightarrow> same_build n n'"
  by (auto simp: subst_node_def subst_command_def subst_optional_def subst_target_def rbind_Inr_iff to_pipe_def
      split: node.splits option.splits target.splits dest!: rmap_length)

lemma subst_nodes_same:
  "rmap (subst_node ev t) ns = Inr ns' \<Longrightarrow> list_all2 same_build ns ns'"
  by (induction ns arbitrary: ns') (auto simp: rbind_Inr_iff intro: subst_same_build)

definition job_shape :: "pipe_job \<times> node option \<Rightarrow> nat list \<times> node option" where
  "job_shape j = (map (\<lambda>(d, c). length (argv c)) (fst j), snd j)"

lemma job_shape_pair [simp]: "job_shape (job, op) = (map (\<lambda>(d, c). length (argv c)) job, op)"
  by (simp add: job_shape_def)

lemma same_build_simps [simp]:
  "same_build Pipe n \<longleftrightarrow> n = Pipe" "same_build And n \<longleftrightarrow> n = And" "same_build Or n \<longleftrightarrow> n = Or"
  by (cases n; simp)+

lemma same_build_CommandE:
  assumes "same_build (Command c) n"
  obtains c' where "n = Command c'" "length (argv c') = length (argv c)" "to_pipe c' = to_pipe c"
  using assms by (cases n) auto

lemma same_build_ChdirE:
  assumes "same_build (Chdir d) n"
  obtains e e' where "d = Some e" "n = Chdir (Some e')"
  using assms by (cases d; cases n rule: node.exhaust) (auto elim: same_build.elims)

lemma runnable_link: "runnable (n # op # ns) \<Longrightarrow> runnable ns"
  by simp

lemma jobs_same:
  assumes "runnable ns" "list_all2 same_build ns ns'"
    and "map (\<lambda>(d, c). length (argv c)) job = map (\<lambda>(d, c). length (argv c)) job'"
  shows "map job_shape (jobs_of d job ns) = map job_shape (jobs_of d' job' ns') \<and> runnable ns'"
  using assms
proof (induction ns arbitrary: ns' d d' job job' rule: length_induct)
  case (1 ns)
  note IH = 1(1) [rule_format]
  from 1(2) show ?case
  proof (cases rule: runnable_cases)
    case (final c)
    then obtain c' where "ns' = [Command c']" "length (argv c') = length (argv c)" "\<not> to_pipe c'"
      using 1(3) by (auto simp: list_all2_Cons1 elim: same_build_CommandE)
    with final 1(4) show ?thesis by (simp add: to_pipe_def)
  next
    case (command c op ns1)
    then obtain c' ns1' where c': "ns' = Command c' # op # ns1'" "length (argv c') = length (argv c)" "to_pipe c' = to_pipe c"
      "list_all2 same_build ns1 ns1'"
      using 1(3) by (auto simp: list_all2_Cons1 elim!: same_build_CommandE)
    have "length ns1 < length ns" using command(1) by simp
    note rest = IH [OF this command(3) c'(4)]
    show ?thesis
    proof (cases "op = Pipe")
      case True
      with command c' 1(4) rest [of "job @ [(d, c)]" "job' @ [(d', c')]" d d'] show ?thesis
        by (simp add: to_pipe_def)
    next
      case False
      with command c' 1(4) rest [of "[]" "[]" d d'] show ?thesis
        by (auto simp: to_pipe_def)
    qed
  next
    case (chdir dir ns1)
    then obtain dir' ns1' where d': "ns' = Chdir (Some dir') # And # ns1'" "list_all2 same_build ns1 ns1'"
      using 1(3) by (auto simp: list_all2_Cons1 elim!: same_build_ChdirE)
    have "length ns1 < length ns" using chdir(1) by simp
    from IH [OF this chdir(2) d'(2) 1(4), of "path_join d dir" "path_join d' dir'"] chdir(1) d'(1) show ?thesis by simp
  qed
qed

text \<open>
  C15: what is put in for a reference is never read as shell syntax. Whatever the values contain, even
  operators and blanks, the pipeline after the substitution has the same jobs with the same operators
  between them, and each command keeps its number of arguments; so it can be run as before.
\<close>

theorem subst_keeps_jobs:
  assumes "runnable ns" "rmap (subst_node ev t) ns = Inr ns'"
  shows "map job_shape (jobs_of d [] ns') = map job_shape (jobs_of d [] ns) \<and> runnable ns'"
  using jobs_same [OF assms(1) subst_nodes_same [OF assms(2)], of "[]" "[]" d d] by simp

theorem subst_keeps_jobs_witness:
  "\<exists>ns'. rmap (subst_node (\<lambda>x. Inr (TextValue ''&& rm'')) \<lparr> task_inputs = [], task_outputs = [] \<rparr>) sample_nodes = Inr ns' \<and>
     map job_shape (jobs_of ''.'' [] ns') = map job_shape (jobs_of ''.'' [] sample_nodes)"
proof -
  let ?s = "rmap (subst_node (\<lambda>x. Inr (TextValue ''&& rm'')) \<lparr> task_inputs = [], task_outputs = [] \<rparr>) sample_nodes"
  have "\<exists>ns'. ?s = Inr ns'"
    by (simp add: sample_nodes_def new_command_def subst_node_def subst_command_def subst_optional_def subst_target_def
        subst_arg.simps(2))
  then show ?thesis using subst_keeps_jobs [OF sample_runnable] by blast
qed

end
