(* ===== verification/Style.thy ===== *)
theory Style
  imports Patches Files
begin

text \<open>
  The style checker \<open>utils/check-style.py\<close>. The programs \<open>uncrustify\<close>, \<open>patch\<close> and \<open>hg\<close> and the
  difference algorithm of \<open>difflib\<close> are parameters; the configuration files, the way the four
  are combined, the treatment of the differences and the files read and written are the code's.
  \<open>filecmp.cmp\<close> compares contents; its shortcut by size and time of change is left aside.
\<close>

section \<open>The configuration of uncrustify\<close>

definition level0 :: "string list" where
  "level0 = [
    '''', ''sp_func_proto_paren=Add'', ''sp_func_def_paren=Add'', ''sp_func_call_paren=Add'',
    ''sp_after_semi_for=Ignore'', ''sp_before_sparen=Ignore'', ''sp_type_func=Ignore'',
    ''sp_after_type=Ignore'', ''nl_class_leave_one_liners=True'',
    ''nl_enum_leave_one_liners=True'', ''nl_func_leave_one_liners=True'',
    ''nl_assign_leave_one_liners=True'', ''#nl_collapse_empty_body=False'',
    ''nl_getset_leave_one_liners=True'', ''nl_if_leave_one_liners=True'',
    ''nl_fdef_brace=Ignore'', ''# finally, indentation configuration'', ''indent_with_tabs=0'',
    ''indent_namespace=false'', ''indent_columns=2'', ''indent_brace=2'', ''indent_case_brace=2'',
    ''indent_class=true'', ''indent_class_colon=True'', ''# alignment'',
    ''indent_align_assign=False'', ''align_left_shift=True'', ''# comment reformating disabled'',
    ''cmt_reflow_mode=1 # do not touch comments at all'',
    ''cmt_indent_multi=False # really, do not touch them'']"

definition level1 :: "string list" where
  "level1 = [
    '''', ''# extra spaces here and there'', ''sp_brace_typedef=Add'', ''sp_enum_assign=Add'',
    ''sp_before_sparen=Add'', ''sp_after_semi_for=Add'', ''sp_arith=Add'', ''sp_assign=Add'',
    ''sp_compare=Add'', ''sp_func_class_paren=Add'', ''sp_after_type=Add'', ''sp_type_func=Add'',
    ''sp_angle_paren=Add'']"

definition level2 :: "string list" where
  "level2 = [
    '''', ''nl_collapse_empty_body=False'', ''nl_if_brace=Add'', ''nl_brace_else=Add'',
    ''nl_elseif_brace=Add'', ''nl_else_brace=Add'', ''nl_while_brace=Add'', ''nl_do_brace=Add'',
    ''nl_for_brace=Add'', ''nl_brace_while=Add'', ''nl_switch_brace=Add'', ''nl_after_case=True'',
    ''nl_namespace_brace=Remove'', ''nl_after_brace_open=True'',
    ''nl_class_leave_one_liners=False'', ''nl_enum_leave_one_liners=False'',
    ''nl_func_leave_one_liners=False'', ''nl_if_leave_one_liners=False'',
    ''nl_class_colon=Ignore'', ''nl_after_access_spec=1'', ''nl_after_semicolon=True'',
    ''pos_class_colon=Lead'', ''pos_class_comma=Trail'', ''pos_bool=Lead'',
    ''nl_class_init_args=Add'', ''nl_template_class=Add'', ''nl_class_brace=Add'',
    ''# does not work very well'', ''nl_func_type_name=Ignore'', ''nl_func_scope_name=Ignore'',
    ''nl_func_type_name_class=Ignore'', ''nl_func_proto_type_name=Ignore'',
    ''# function'' @ [CHR 0x5C] @ ''n('', ''nl_func_paren=Remove'', ''nl_fdef_brace=Add'',
    ''nl_struct_brace=Add'', ''nl_enum_brace=Add'', ''nl_union_brace=Add'',
    ''mod_full_brace_do=Add'', ''mod_full_brace_for=Add'', ''mod_full_brace_if=Add'',
    ''mod_full_brace_while=Add'', ''mod_full_brace_for=Add'', ''mod_remove_extra_semicolon=True'',
    ''# max code width'', ''#code_width=128'', ''#ls_for_split_full=True'',
    ''#ls_func_split_full=True'']"

definition uncrustify_config :: "int \<Rightarrow> string" where
  "uncrustify_config level =
     concat (map (\<lambda>l. l @ nl)
       (level0 @ (if level \<ge> 1 then level1 else []) @ (if level \<ge> 2 then level2 else [])))"

definition uncrustify_config_file :: "int \<Rightarrow> string io" where
  "uncrustify_config_file level =
     io_bind mkstemp (\<lambda>pathname.
       io_seq (write_file pathname (uncrustify_config level)) (io_ret pathname))"

definition copy_file :: "string \<Rightarrow> string io" where
  "copy_file filename =
     io_bind mkstemp (\<lambda>pathname.
       io_bind (read_file filename) (\<lambda>src.
         io_seq (write_file pathname (concat (lines_of src))) (io_ret pathname)))"

section \<open>Indenting one file\<close>

text \<open>
  \<open>uncrustify\<close> maps a configuration and the input file to the output file and what it says on its
  two streams; \<open>None\<close> when the program cannot be started. \<open>patch_file\<close> applies the text of a patch
  to a file.
\<close>

record tools =
  uncrustify :: "string \<Rightarrow> string option \<Rightarrow> (string \<times> string \<times> string) option"
  unified_diff :: "string list \<Rightarrow> string list \<Rightarrow> string \<Rightarrow> string \<Rightarrow> string list"
  patch_file :: "string \<Rightarrow> string \<Rightarrow> string"
  patch_says :: "string \<Rightarrow> string \<Rightarrow> string \<times> string"
  hg_status :: "string list"

definition say :: "bool \<Rightarrow> string list \<Rightarrow> unit io" where
  "say debug ss = io_when debug (io_each print_err ss)"

definition apply_uncrustify :: "tools \<Rightarrow> bool \<Rightarrow> string \<Rightarrow> string \<Rightarrow> string \<Rightarrow> unit io" where
  "apply_uncrustify t debug cfg source output w =
     (case files w cfg of
        None \<Rightarrow> (Inl IOError, w)
      | Some c \<Rightarrow>
         (case uncrustify t c (files w source) of
            None \<Rightarrow> (Inl PyException, w)
          | Some (text, o', e) \<Rightarrow> io_seq (write_file output text) (say debug [o', e]) w))"

text \<open>
  The difference is a generator: when it is written to the file for debugging, nothing of it is
  left for the code after that.
\<close>

definition make_diff :: "tools \<Rightarrow> bool \<Rightarrow> string \<Rightarrow> string \<Rightarrow> string list io" where
  "make_diff t debug source output =
     io_bind (read_file source) (\<lambda>s. io_bind (read_file output) (\<lambda>d.
       let diff = unified_diff t (lines_of s) (lines_of d) source output
       in if debug then
            io_bind mkstemp (\<lambda>initial_diff.
              io_seq (print_err (''initial diff file='' @ initial_diff @ nl))
                (io_seq (write_file initial_diff (concat diff)) (io_ret [])))
          else io_ret diff))"

definition final_diff_text :: "int \<Rightarrow> string list \<Rightarrow> string res" where
  "final_diff_text level diff =
     (if level < 3 then
        rbind (remove_trailing_whitespace_changes diff) (\<lambda>patchset.
          case patchset of [] \<Rightarrow> Inr [] | p # _ \<Rightarrow> rbind (write_patch p) (\<lambda>ls. Inr (concat ls)))
      else Inr (concat diff))"

definition apply_patch :: "tools \<Rightarrow> bool \<Rightarrow> string \<Rightarrow> string \<Rightarrow> unit io" where
  "apply_patch t debug final_diff output =
     io_bind (read_file final_diff) (\<lambda>p. io_bind (read_file output) (\<lambda>s.
       io_seq (write_file output (patch_file t p s))
         (say debug [fst (patch_says t p s), snd (patch_says t p s)])))"

definition indent :: "tools \<Rightarrow> string \<Rightarrow> bool \<Rightarrow> int \<Rightarrow> string io" where
  "indent t source debug level =
     io_bind mkstemp (\<lambda>output. io_bind (uncrustify_config_file level) (\<lambda>cfg.
       io_seq (say debug [''original file='' @ source @ nl, ''uncrustify config file='' @ cfg @ nl,
                          ''temporary file='' @ output @ nl])
      (io_seq (apply_uncrustify t debug cfg source output)
      (io_bind (make_diff t debug source output) (\<lambda>diff.
       io_bind mkstemp (\<lambda>final_diff.
       io_bind (io_lift (final_diff_text level diff)) (\<lambda>text.
       io_seq (write_file final_diff text)
      (io_seq (say debug [''final diff file='' @ final_diff @ nl])
      (io_seq (copy source output)
      (io_seq (apply_patch t debug final_diff output) (io_ret output)))))))))))"

section \<open>Checking files\<close>

definition differs :: "string \<times> string \<Rightarrow> bool io" where
  "differs e = (case e of (src, dst) \<Rightarrow>
     io_bind (read_file src) (\<lambda>s. io_bind (read_file dst) (\<lambda>d. io_ret (s \<noteq> d))))"

fun failed_files :: "(string \<times> string) list \<Rightarrow> (string \<times> string) list io" where
  "failed_files [] = io_ret []"
| "failed_files (e # es) = io_bind (differs e) (\<lambda>b. io_bind (failed_files es) (\<lambda>fs.
     io_ret (if b then e # fs else fs)))"

definition report_failed :: "tools \<Rightarrow> bool \<Rightarrow> (string \<times> string) list \<Rightarrow> unit io" where
  "report_failed t diff failed =
     (if \<not> diff then
        io_seq (print_out (''Found '' @ nat_str (length failed) @ '' badly indented files:'' @ nl))
          (io_each (\<lambda>(src, dst). print_out (''  '' @ src @ nl)) failed)
      else io_each (\<lambda>(src, dst).
             io_bind (read_file src) (\<lambda>s. io_bind (read_file dst) (\<lambda>d.
               io_each print_out (unified_diff t (lines_of s) (lines_of d) src dst)))) failed)"

definition indent_files :: "tools \<Rightarrow> string list \<Rightarrow> bool \<Rightarrow> bool \<Rightarrow> int \<Rightarrow> bool \<Rightarrow> bool io" where
  "indent_files t fs diff debug level inplace =
     io_bind (io_map (\<lambda>f. io_bind (indent t f debug level) (\<lambda>dst. io_ret (f, dst))) fs) (\<lambda>output.
       if inplace then
         io_seq (io_each (\<lambda>(src, dst). copy dst src) output) (io_ret True)
       else io_bind (failed_files output) (\<lambda>failed.
         if failed \<noteq> [] then io_seq (report_failed t diff failed) (io_ret False)
         else io_ret True))"

definition hg_modified_files :: "tools \<Rightarrow> string list" where
  "hg_modified_files t = map strip (hg_status t)"

text \<open>A hook of Mercurial fails by returning a true value.\<close>

definition run_as_hg_hook :: "tools \<Rightarrow> bool io" where
  "run_as_hg_hook t =
     io_bind (indent_files t (hg_modified_files t) False False 0 False) (\<lambda>ok. io_ret (\<not> ok))"

record style_options =
  opt_debug :: bool
  opt_level :: int
  opt_hg_hook :: bool
  opt_hg :: bool
  opt_file :: string
  opt_diff :: bool
  opt_in_place :: bool

definition style_defaults :: style_options where
  "style_defaults = \<lparr> opt_debug = False, opt_level = 0, opt_hg_hook = False, opt_hg = False,
     opt_file = [], opt_diff = False, opt_in_place = False \<rparr>"

definition exists_file :: "string \<Rightarrow> bool io" where
  "exists_file f w = (Inr (files w f \<noteq> None), w)"

definition run_as_main :: "tools \<Rightarrow> style_options \<Rightarrow> unit io" where
  "run_as_main t opts =
     (if opt_hg_hook opts then
        io_bind (indent_files t (hg_modified_files t) False (opt_debug opts) (opt_level opts) False)
          (\<lambda>ok. io_throw (SystemExit (if ok then 0 else 1)))
      else if opt_hg opts then
        io_bind (indent_files t (hg_modified_files t) (opt_diff opts) (opt_debug opts)
            (opt_level opts) (opt_in_place opts))
          (\<lambda>_. io_throw (SystemExit 0))
      else if opt_file opts \<noteq> [] then
        io_bind (exists_file (opt_file opts)) (\<lambda>there.
          if \<not> there then
            io_seq (print_out (''file '' @ opt_file opts @ '' does not exist'' @ nl))
              (io_throw (SystemExit 1))
          else
            io_bind (indent_files t [opt_file opts] (opt_diff opts) (opt_debug opts)
                (opt_level opts) (opt_in_place opts))
              (\<lambda>_. io_throw (SystemExit 0)))
      else io_throw (SystemExit 0))"

section \<open>What a file is turned into\<close>

definition indented :: "tools \<Rightarrow> bool \<Rightarrow> int \<Rightarrow> string \<Rightarrow> string \<Rightarrow> string \<Rightarrow> string res" where
  "indented t debug level source output s =
     (case uncrustify t (uncrustify_config level) (Some s) of
        None \<Rightarrow> Inl PyException
      | Some (d, _) \<Rightarrow>
          rbind (final_diff_text level
              (if debug then [] else unified_diff t (lines_of s) (lines_of d) source output))
            (\<lambda>p. Inr (patch_file t p s)))"

lemma say_run [simp]: "say b ss w = (Inr (), if b then w\<lparr> stderr := stderr w @ ss \<rparr> else w)"
  by (simp add: say_def io_when_def io_each_stderr)

lemma config_run:
  "uncrustify_config_file level w =
     (Inr (temp_name (temps w)),
      w\<lparr> files := (files w)(temp_name (temps w) \<mapsto> uncrustify_config level), temps := Suc (temps w) \<rparr>)"
  by (simp add: uncrustify_config_file_def mkstemp_def write_file_def io_bind_def io_seq_def)

lemma indent_run:
  assumes fresh: "temps_fresh w" and s: "files w source = Some s"
    and r: "indented t debug level source (temp_name (temps w)) s = Inr r"
  obtains w' where "indent t source debug level w = (Inr (temp_name (temps w)), w')"
    "extends w w'" "temps w < temps w'" "files w' (temp_name (temps w)) = Some r"
proof -
  have ne [simp]: "temp_name n \<noteq> source" "source \<noteq> temp_name n" if "temps w \<le> n" for n
    using fresh s that by (auto simp: temps_fresh_def)
  obtain d o' e where u: "uncrustify t (uncrustify_config level) (Some s) = Some (d, o', e)"
    using r by (auto simp: indented_def split: option.splits)
  let ?diff = "if debug then [] else unified_diff t (lines_of s) (lines_of d) source (temp_name (temps w))"
  obtain p where p: "final_diff_text level ?diff = Inr p" "r = patch_file t p s"
    using r u by (auto simp: indented_def rbind_Inr_iff)
  let ?w' = "snd (indent t source debug level w)"
  have "fst (indent t source debug level w) = Inr (temp_name (temps w)) \<and> temps w < temps ?w' \<and>
    (\<forall>f. (\<forall>n. temps w \<le> n \<and> n < temps ?w' \<longrightarrow> f \<noteq> temp_name n) \<longrightarrow> files ?w' f = files w f) \<and>
    files ?w' (temp_name (temps w)) = Some r"
    using p u s
    by (cases debug)
      (simp_all add: indent_def io_bind_def io_seq_def config_run mkstemp_def apply_uncrustify_def
        make_diff_def read_file_def write_file_def print_err_def copy_def apply_patch_def Let_def)
  then show ?thesis using that [of ?w'] by (cases "indent t source debug level w") (auto simp: extends_def)
qed

lemma indent_all:
  assumes "temps_fresh w"
    and "\<And>f. f \<in> set fs \<Longrightarrow> \<exists>s. files w f = Some s \<and> (\<forall>out. indented t debug level f out s = Inr (g f))"
  shows "\<exists>es w'. io_map (\<lambda>f. io_bind (indent t f debug level) (\<lambda>dst. io_ret (f, dst))) fs w = (Inr es, w') \<and>
    extends w w' \<and> map fst es = fs \<and>
    (\<forall>(f, d) \<in> set es. files w' d = Some (g f) \<and> (\<exists>n \<ge> temps w. d = temp_name n))"
  using assms
proof (induction fs arbitrary: w)
  case (Cons f fs)
  obtain s where s: "files w f = Some s" "indented t debug level f (temp_name (temps w)) s = Inr (g f)"
    using Cons.prems(2) [of f] by auto
  obtain w1 where w1: "indent t f debug level w = (Inr (temp_name (temps w)), w1)" "extends w w1"
    "temps w < temps w1" "files w1 (temp_name (temps w)) = Some (g f)"
    using indent_run [OF Cons.prems(1) s] by blast
  have fresh1: "temps_fresh w1" using Cons.prems(1) w1(2) by (rule temps_fresh_extends)
  have "\<exists>s. files w1 f' = Some s \<and> (\<forall>out. indented t debug level f' out s = Inr (g f'))" if "f' \<in> set fs" for f'
    using Cons.prems(2) [of f'] that extends_Some [OF Cons.prems(1) w1(2)] by auto
  from Cons.IH [OF fresh1 this] obtain es w' where IH:
    "io_map (\<lambda>f. io_bind (indent t f debug level) (\<lambda>dst. io_ret (f, dst))) fs w1 = (Inr es, w')"
    "extends w1 w'" "map fst es = fs"
    "\<forall>(f, d) \<in> set es. files w' d = Some (g f) \<and> (\<exists>n \<ge> temps w1. d = temp_name n)"
    by blast
  have "files w' (temp_name (temps w)) = Some (g f)"
    using extends_Some [OF fresh1 IH(2) w1(4)] .
  moreover have "\<forall>(f, d) \<in> set es. \<exists>n \<ge> temps w. d = temp_name n"
    using IH(4) w1(3) by (fastforce dest: less_imp_le)
  ultimately have rest: "extends w w' \<and> map fst ((f, temp_name (temps w)) # es) = f # fs \<and>
      (\<forall>(f, d) \<in> set ((f, temp_name (temps w)) # es). files w' d = Some (g f) \<and> (\<exists>n \<ge> temps w. d = temp_name n))"
    using IH extends_trans [OF w1(2) IH(2)] by auto
  have "io_map (\<lambda>f. io_bind (indent t f debug level) (\<lambda>dst. io_ret (f, dst))) (f # fs) w =
      (Inr ((f, temp_name (temps w)) # es), w')"
    using w1(1) IH(1) by simp
  then show ?case using rest by (intro exI) (rule conjI)
qed simp

lemma failed_run:
  assumes "\<forall>(f, d) \<in> set es. files w f \<noteq> None \<and> files w d \<noteq> None"
  shows "failed_files es w = (Inr (filter (\<lambda>(f, d). files w f \<noteq> files w d) es), w)"
  using assms by (induction es) (auto simp: differs_def read_file_def io_bind_def)

lemma io_each_output:
  assumes "\<And>x w'. x \<in> set xs \<Longrightarrow> files w' = files w \<Longrightarrow> fst (f x w') = Inr () \<and> files (snd (f x w')) = files w"
  shows "\<exists>w'. io_each f xs w = (Inr (), w') \<and> files w' = files w"
proof -
  have "\<exists>w''. io_each f xs w' = (Inr (), w'') \<and> files w'' = files w" if "files w' = files w" for w'
    using assms that
  proof (induction xs arbitrary: w')
    case (Cons x xs)
    obtain w1 where "f x w' = (Inr (), w1)" "files w1 = files w"
      using Cons.prems(1) [of x w'] Cons.prems(2) by (cases "f x w'") auto
    with Cons.IH [of w1] Cons.prems(1) show ?case by simp
  qed simp
  then show ?thesis by simp
qed

lemma report_run:
  assumes "\<forall>(f, d) \<in> set es. files w f \<noteq> None \<and> files w d \<noteq> None"
  shows "\<exists>w'. report_failed t diff es w = (Inr (), w') \<and> files w' = files w"
proof (cases diff)
  case True
  have "\<exists>w'. io_each (\<lambda>(src, dst). io_bind (read_file src) (\<lambda>s. io_bind (read_file dst) (\<lambda>d.
      io_each print_out (unified_diff t (lines_of s) (lines_of d) src dst)))) es w = (Inr (), w') \<and> files w' = files w"
    by (rule io_each_output)
      (use assms in \<open>auto simp: read_file_def io_bind_def io_each_stdout\<close>)
  with True show ?thesis by (simp add: report_failed_def)
next
  case False
  have "\<exists>w''. io_each (\<lambda>(src, dst). print_out (''  '' @ src @ nl)) es w' = (Inr (), w'') \<and> files w'' = files w'" for w'
    by (rule io_each_output) (auto simp: print_out_def)
  then obtain w'' where "io_each (\<lambda>(src, dst). print_out (''  '' @ src @ nl)) es
      (w\<lparr> stdout := stdout w @ [''Found '' @ nat_str (length es) @ '' badly indented files:'' @ nl] \<rparr>) = (Inr (), w'')"
    "files w'' = files w" by fastforce
  with False show ?thesis by (simp add: report_failed_def print_out_def io_seq_def io_bind_def)
qed

lemma copies_run:
  assumes "\<And>f d. (f, d) \<in> set es \<Longrightarrow> files w d = Some (g f) \<and> (\<forall>f' \<in> fst ` set es. d \<noteq> f')"
  shows "\<exists>w'. io_each (\<lambda>(src, dst). copy dst src) es w = (Inr (), w') \<and>
    (\<forall>f. files w' f = (if f \<in> fst ` set es then Some (g f) else files w f))"
  using assms
proof (induction es arbitrary: w)
  case (Cons e es)
  obtain f d where e: "e = (f, d)" by (cases e)
  let ?w1 = "w\<lparr> files := (files w)(f \<mapsto> g f) \<rparr>"
  have "copy d f w = (Inr (), ?w1)"
    using Cons.prems [of f d] by (simp add: e copy_def read_file_def write_file_def io_bind_def)
  moreover have "\<exists>w'. io_each (\<lambda>(src, dst). copy dst src) es ?w1 = (Inr (), w') \<and>
      (\<forall>f'. files w' f' = (if f' \<in> fst ` set es then Some (g f') else files ?w1 f'))"
    using Cons.prems by (intro Cons.IH) (auto simp: e)
  ultimately show ?case by (auto simp: e)
qed simp

text \<open>
  C21: \<open>indent_files\<close> reports success exactly when no file differs from what indenting makes of it,
  and leaves every file as it was; with \<open>inplace\<close> it replaces each of the files by its indented
  form, touches no other file and always reports success. The indented forms all come from the
  files as they were before the first copy.
\<close>

theorem indent_files_spec:
  assumes "temps_fresh w"
    and "\<And>f. f \<in> set fs \<Longrightarrow> \<exists>s. files w f = Some s \<and> (\<forall>out. indented t debug level f out s = Inr (g f))"
  shows "\<exists>w'. indent_files t fs diff debug level inplace w =
      (Inr (inplace \<or> (\<forall>f \<in> set fs. files w f = Some (g f))), w') \<and>
    (\<forall>f. files w f \<noteq> None \<longrightarrow> files w' f = (if inplace \<and> f \<in> set fs then Some (g f) else files w f))"
proof -
  obtain es w1 where run: "io_map (\<lambda>f. io_bind (indent t f debug level) (\<lambda>dst. io_ret (f, dst))) fs w = (Inr es, w1)"
    and ext: "extends w w1" and fst: "map fst es = fs"
    and es: "\<forall>(f, d) \<in> set es. files w1 d = Some (g f) \<and> (\<exists>n \<ge> temps w. d = temp_name n)"
    using indent_all [OF assms] by blast
  have old: "files w1 f = files w f" if "files w f \<noteq> None" for f
    using that extends_Some [OF assms(1) ext] by force
  have there: "files w f \<noteq> None" if "f \<in> set fs" for f using assms(2) [OF that] by auto
  have set_fs: "fst ` set es = set fs" using fst by (metis set_map)
  have es_in: "f \<in> set fs" if "(f, d) \<in> set es" for f d using that set_fs by force
  show ?thesis
  proof (cases inplace)
    case True
    have "files w1 d = Some (g f) \<and> (\<forall>f' \<in> fst ` set es. d \<noteq> f')" if "(f, d) \<in> set es" for f d
    proof -
      from es that obtain n where n: "files w1 d = Some (g f)" "n \<ge> temps w" "d = temp_name n" by auto
      then have "d \<notin> set fs" using there [of d] assms(1) by (auto simp: temps_fresh_def)
      with n(1) set_fs show ?thesis by blast
    qed
    from copies_run [where es = es and w = w1 and g = g, OF this] obtain w2 where
      "io_each (\<lambda>(src, dst). copy dst src) es w1 = (Inr (), w2)"
      "\<forall>f. files w2 f = (if f \<in> set fs then Some (g f) else files w1 f)" by (auto simp: set_fs)
    with run True old show ?thesis by (auto simp: indent_files_def)
  next
    case False
    have both: "\<forall>(f, d) \<in> set es. files w1 f \<noteq> None \<and> files w1 d \<noteq> None"
      using es es_in there old by fastforce
    let ?bad = "filter (\<lambda>(f, d). files w1 f \<noteq> files w1 d) es"
    obtain w2 where w2: "report_failed t diff ?bad w1 = (Inr (), w2)" "files w2 = files w1"
    proof -
      have "\<forall>(f, d) \<in> set ?bad. files w1 f \<noteq> None \<and> files w1 d \<noteq> None" using both by auto
      from report_run [OF this, of t diff] that show ?thesis by blast
    qed
    have "files w1 f = files w1 d \<longleftrightarrow> files w f = Some (g f)" if "(f, d) \<in> set es" for f d
    proof -
      from that have "files w f \<noteq> None" using es_in there by blast
      moreover have "files w1 d = Some (g f)" using es that by auto
      ultimately show ?thesis using old [of f] by simp
    qed
    then have "?bad = [] \<longleftrightarrow> (\<forall>(f, d) \<in> set es. files w f = Some (g f))"
      by (auto simp: filter_empty_conv)
    also have "\<dots> \<longleftrightarrow> (\<forall>f \<in> set fs. files w f = Some (g f))"
      unfolding set_fs [symmetric] by auto
    finally have bad: "?bad = [] \<longleftrightarrow> (\<forall>f \<in> set fs. files w f = Some (g f))" .
    have "indent_files t fs diff debug level inplace w = (Inr (?bad = []), if ?bad = [] then w1 else w2)"
      using run failed_run [OF both] w2(1) False by (simp add: indent_files_def)
    then show ?thesis using bad False old w2(2) by auto
  qed
qed

text \<open>Tools for examples: all tabs are removed, and a difference is the whole new text.\<close>

definition sample_tools :: tools where
  "sample_tools = \<lparr>
     uncrustify = (\<lambda>c. map_option (\<lambda>s. (filter (\<lambda>x. x \<noteq> CHR 0x09) s, [], []))),
     unified_diff = (\<lambda>a b f g. if a = b then [] else ''='' # b),
     patch_file = (\<lambda>p s. if p = [] then s else tl p),
     patch_says = (\<lambda>p s. ([], [])),
     hg_status = [''a.cc'' @ nl] \<rparr>"

definition sample_world :: world where
  "sample_world = \<lparr> files = [''a.cc'' \<mapsto> [CHR 0x09, CHR ''x''], ''b.cc'' \<mapsto> ''y''],
     temps = 0, stdout = [], stderr = [] \<rparr>"

lemma sample_world_fresh: "temps_fresh sample_world"
  by (simp add: temps_fresh_def sample_world_def temp_name_def)

theorem indent_files_witness:
  "\<exists>w'. indent_files sample_tools [''a.cc'', ''b.cc''] False False 3 True sample_world = (Inr True, w') \<and>
    files w' ''a.cc'' = Some ''x'' \<and> files w' ''b.cc'' = Some ''y''"
proof -
  have "\<exists>s. files sample_world f = Some s \<and> (\<forall>out. indented sample_tools False 3 f out s =
      Inr (if f = ''a.cc'' then ''x'' else ''y''))" if "f \<in> set [''a.cc'', ''b.cc'']" for f
    using that by (auto simp: sample_world_def sample_tools_def indented_def final_diff_text_def)
  from indent_files_spec [where fs = "[''a.cc'', ''b.cc'']" and diff = False and inplace = True,
      OF sample_world_fresh this]
  obtain w' where w': "indent_files sample_tools [''a.cc'', ''b.cc''] False False 3 True sample_world = (Inr True, w')"
    "\<And>f. files sample_world f \<noteq> None \<Longrightarrow>
      files w' f = (if f \<in> {''a.cc'', ''b.cc''} then Some (if f = ''a.cc'' then ''x'' else ''y'') else files sample_world f)"
    by auto
  then show ?thesis using w'(2) [of "''a.cc''"] w'(2) [of "''b.cc''"] by (simp add: sample_world_def)
qed

text \<open>
  The promise of the check: a file passes when \<open>uncrustify\<close> would leave it as it is.
\<close>

definition well_formatted :: "tools \<Rightarrow> int \<Rightarrow> string \<Rightarrow> bool" where
  "well_formatted t level s \<longleftrightarrow> map_option fst (uncrustify t (uncrustify_config level) (Some s)) = Some s"

lemma indented_full:
  assumes "\<And>a b f g. patch_file t (concat (unified_diff t a b f g)) (concat a) = concat b"
    and "level \<ge> 3" "uncrustify t (uncrustify_config level) (Some s) = Some (d, e)"
  shows "indented t False level source out s = Inr d"
  using assms(2,3) assms(1) [of "lines_of s" "lines_of d"] by (simp add: indented_def final_diff_text_def)



text \<open>
  With \<open>debug\<close> the check finds no fault in any file, whatever \<open>uncrustify\<close> makes of it, and
  \<open>inplace\<close> changes no file: writing the difference to a file for debugging uses up the
  generator, so the patch that is applied is empty.
\<close>

theorem debug_check_passes:
  assumes "temps_fresh w" and "\<And>s. patch_file t [] s = s"
    and "\<And>s. uncrustify t (uncrustify_config level) (Some s) \<noteq> None"
    and "\<And>f. f \<in> set fs \<Longrightarrow> files w f \<noteq> None"
  shows "\<exists>w'. indent_files t fs diff True level inplace w = (Inr True, w') \<and>
    (\<forall>f. files w f \<noteq> None \<longrightarrow> files w' f = files w f)"
proof -
  have empty: "final_diff_text level [] = Inr []"
    by (simp add: final_diff_text_def remove_trailing_whitespace_changes_def parse_patchset_def)
  have g: "\<exists>s. files w f = Some s \<and> (\<forall>out. indented t True level f out s = Inr (the (files w f)))" if "f \<in> set fs" for f
    using assms(2,4) that assms(3) [of "the (files w f)"] empty by (fastforce simp: indented_def)
  from indent_files_spec [where fs = fs and diff = diff and inplace = inplace, OF assms(1) this] assms(4)
  show ?thesis by fastforce
qed

theorem debug_check_witness:
  "\<exists>w'. indent_files sample_tools [''a.cc''] False True 0 False sample_world = (Inr True, w') \<and>
    files w' ''a.cc'' = Some [CHR 0x09, CHR ''x'']"
proof -
  have a: "files sample_world ''a.cc'' = Some [CHR 0x09, CHR ''x'']" by (simp add: sample_world_def)
  have "\<exists>w'. indent_files sample_tools [''a.cc''] False True 0 False sample_world = (Inr True, w') \<and>
    (\<forall>f. files sample_world f \<noteq> None \<longrightarrow> files w' f = files sample_world f)"
    by (rule debug_check_passes [OF sample_world_fresh]) (simp_all add: sample_tools_def sample_world_def)
  then show ?thesis using a by force
qed

text \<open>
  Only \<open>--check-hg-hook\<close> reports the outcome of the check in the exit status; \<open>--check-hg\<close> and
  \<open>--check-file\<close> on a file that is there end with 0 unless an exception is raised.
\<close>

lemma hook_status:
  assumes "opt_hg_hook opts"
    and "indent_files t (hg_modified_files t) False (opt_debug opts) (opt_level opts) False w = (Inr ok, w')"
  shows "run_as_main t opts w = (Inl (SystemExit (if ok then 0 else 1)), w')"
  using assms by (simp add: run_as_main_def)

lemma check_file_status:
  assumes "\<not> opt_hg_hook opts" "\<not> opt_hg opts" "opt_file opts \<noteq> []" "files w (opt_file opts) \<noteq> None"
    and "indent_files t [opt_file opts] (opt_diff opts) (opt_debug opts) (opt_level opts) (opt_in_place opts) w =
      (Inr ok, w')"
  shows "run_as_main t opts w = (Inl (SystemExit 0), w')"
  using assms by (simp add: run_as_main_def exists_file_def io_bind_def)

text \<open>The configuration of a level contains those of the lower levels.\<close>

lemma config_levels:
  "level \<le> level' \<Longrightarrow> \<exists>more. uncrustify_config level' = uncrustify_config level @ more"
  by (auto simp: uncrustify_config_def)

end
