(* ===== verification/VizTraffic.thy ===== *)
theory VizTraffic
  imports Actions RadStats
begin

text \<open>
  The traffic that the visualizer shows (\<open>src/visualizer/visualizer/core.py\<close>, with the scales of \<open>base.py\<close>): the
  samples of the last periods, their averages for each pair of nodes (transmissions) and each node
  (drops), and the arrows with labels, which are taken over from one update to the next. Numbers are
  exact; the logarithm, the order of dictionaries and the clipping of a line to the window are parameters.
\<close>

section \<open>Scales\<close>

type_synonym point = "rat \<times> rat"

definition PIXELS_PER_METER :: rat where
  "PIXELS_PER_METER = 3"

definition distance_to_canvas :: "rat \<Rightarrow> rat" where
  "distance_to_canvas d = d * PIXELS_PER_METER"

definition point_to_canvas :: "point \<Rightarrow> point" where
  "point_to_canvas p = (fst p * PIXELS_PER_METER, snd p * PIXELS_PER_METER)"

definition distance_to_simulation :: "rat \<Rightarrow> rat" where
  "distance_to_simulation d = d / PIXELS_PER_METER"

definition point_to_simulation :: "point \<Rightarrow> point" where
  "point_to_simulation p = (fst p / PIXELS_PER_METER, snd p / PIXELS_PER_METER)"

lemma scales_inverse [simp]:
  "distance_to_simulation (distance_to_canvas d) = d" "point_to_simulation (point_to_canvas p) = p"
  "distance_to_canvas (distance_to_simulation d) = d" "point_to_canvas (point_to_simulation p) = p"
  by (simp_all add: distance_to_canvas_def distance_to_simulation_def point_to_canvas_def point_to_simulation_def
      PIXELS_PER_METER_def)

section \<open>The samples of the last periods\<close>

text \<open>\<open>while len(samples) > n: samples.pop(0)\<close>.\<close>

fun pop_while :: "int \<Rightarrow> 'a list \<Rightarrow> 'a list res" where
  "pop_while n [] = (if n < 0 then Inl IndexError else Inr [])"
| "pop_while n (x # xs) = (if n < int (length (x # xs)) then pop_while n xs else Inr (x # xs))"

definition smooth_factor :: "rat \<Rightarrow> int" where
  "smooth_factor v = (if 0 \<le> v then \<lfloor>v * 10\<rfloor> else \<lceil>v * 10\<rceil>)"

definition remember :: "rat \<Rightarrow> 'a list \<Rightarrow> 'a \<Rightarrow> 'a list res" where
  "remember smoothing window samples = pop_while (smooth_factor smoothing) (window @ [samples])"

lemma pop_while_last: "0 \<le> n \<Longrightarrow> pop_while n xs = Inr (drop (length xs - nat n) xs)"
proof (induction xs)
  case (Cons x xs)
  then show ?case
    by (cases "n < int (length (x # xs))") (auto simp: Suc_diff_le le_nat_iff)
qed simp

text \<open>After any number of periods the window has the last ones, as many as the smoothing asks for.\<close>

lemma remember_last:
  assumes "1 / 10 \<le> v" "n = nat (smooth_factor v)"
  shows "rfold (remember v) [] samples = Inr (drop (length samples - n) samples)"
proof (induction samples rule: rev_induct)
  case (snoc x samples)
  have n: "0 \<le> smooth_factor v" "smooth_factor v = int n" "1 \<le> n"
    using assms by (auto simp: smooth_factor_def le_floor_iff nat_le_iff le_nat_iff)
  have "length (drop (length samples - n) samples @ [x]) - n = (if n \<le> length samples then 1 else 0)"
    using n(3) by auto
  with n snoc show ?case
    by (auto simp: remember_def pop_while_last Suc_diff_le)
qed simp

section \<open>Averages\<close>

text \<open>A sample is a key with a number of bytes; the key is the pair of nodes, or the node that drops.\<close>

definition add_sample :: "('k, nat \<times> nat) dict \<Rightarrow> 'k \<times> nat \<Rightarrow> ('k, nat \<times> nat) dict" where
  "add_sample averages sample =
     (let (bytes, n) = (case dget averages (fst sample) of None \<Rightarrow> (0, 0) | Some p \<Rightarrow> p) in
      dset (fst sample) (bytes + snd sample, n + 1) averages)"

definition averages_of :: "('k \<times> nat) list list \<Rightarrow> ('k, nat \<times> nat) dict" where
  "averages_of window = foldl add_sample [] (concat window)"

definition samples_of :: "'k \<Rightarrow> ('k \<times> nat) list \<Rightarrow> nat list" where
  "samples_of k samples = map snd (filter (\<lambda>s. fst s = k) samples)"

lemma dget_add_samples:
  "dget (foldl add_sample [] samples) k =
    (if samples_of k samples = [] then None else Some (sum_list (samples_of k samples), length (samples_of k samples)))"
  by (induction samples rule: rev_induct)
    (auto simp: add_sample_def samples_of_def Let_def dget_dset split: option.splits prod.splits)

lemma dict_ok_averages: "dict_ok (averages_of window)"
proof -
  have "dict_ok (foldl add_sample [] samples)" for samples :: "('k \<times> nat) list"
    by (induction samples rule: rev_induct) (auto simp: add_sample_def Let_def dict_ok_dset split: option.splits prod.splits)
  then show ?thesis by (simp add: averages_of_def)
qed

definition ditems :: "('k list \<Rightarrow> 'k list) \<Rightarrow> ('k, 'v) dict \<Rightarrow> ('k \<times> 'v) list" where
  "ditems perm d = concat (map (\<lambda>k. case dget d k of None \<Rightarrow> [] | Some v \<Rightarrow> [(k, v)]) (perm (dkeys d)))"

lemma map_fst_ditems:
  assumes "key_order perm"
  shows "map fst (ditems perm d) = perm (dkeys d)"
proof -
  have "map fst (concat (map (\<lambda>k. case dget d k of None \<Rightarrow> [] | Some v \<Rightarrow> [(k, v)]) ks)) = ks"
    if "set ks \<subseteq> set (dkeys d)" for ks
    using that by (induction ks) (auto simp: set_dkeys split: option.splits)
  then show ?thesis using assms by (simp add: ditems_def)
qed

lemma ditems_iff: "key_order perm \<Longrightarrow> (k, v) \<in> set (ditems perm d) \<longleftrightarrow> dget d k = Some v"
  by (auto simp: ditems_def set_dkeys domIff split: option.splits)

section \<open>Arrows\<close>

text \<open>
  An arrow and its label. \<open>arrow_no\<close> tells the items apart. The label is turned by the angle of the line, which is
  given by its two distances.
\<close>

datatype turning = Translate point | RotateTo point | ScaleBy int int

record arrow =
  arrow_no :: nat
  arrow_shown :: bool
  line_width :: rat
  ends :: "point list"
  label_shown :: bool
  label_font :: string
  label_text :: string
  label_pos :: point
  label_anchor :: string
  label_transform :: "turning list"

definition new_arrow :: "nat \<Rightarrow> arrow" where
  "new_arrow n =
     \<lparr> arrow_no = n, arrow_shown = True, line_width = 2, ends = [], label_shown = True, label_font = [],
       label_text = [], label_pos = (0, 0), label_anchor = [], label_transform = [] \<rparr>"

definition hide_arrow :: "arrow \<Rightarrow> arrow" where
  "hide_arrow a = a\<lparr> arrow_shown := False, label_shown := False \<rparr>"

text \<open>\<open>made\<close> counts the arrows that have been created.\<close>

record traffic =
  node_positions :: "(nat, point) dict"
  arrow_items :: "arrow list"
  made :: nat

definition get_node :: "nat \<Rightarrow> (traffic, point) action" where
  "get_node index s =
     (case dget (node_positions s) index of
        Some p \<Rightarrow> (Inr p, s)
      | None \<Rightarrow> (Inr (0, 0), s\<lparr> node_positions := dset index (0, 0) (node_positions s) \<rparr>))"

text \<open>\<open>old_arrows.pop()\<close>, and a new arrow when there is none.\<close>

definition take_arrow :: "(traffic, arrow) action" where
  "take_arrow s =
     (if arrow_items s = [] then (Inr (new_arrow (made s)), s\<lparr> made := Suc (made s) \<rparr>)
      else (Inr (last (arrow_items s)), s\<lparr> arrow_items := butlast (arrow_items s) \<rparr>))"

definition place_arrow :: "('i \<Rightarrow> nat list) \<Rightarrow> ('i \<Rightarrow> point list \<Rightarrow> arrow \<Rightarrow> arrow res) \<Rightarrow> 'i \<Rightarrow> (traffic, arrow) action" where
  "place_arrow nodes draw item =
     io_bind (io_map get_node (nodes item)) (\<lambda>positions.
     io_bind take_arrow (\<lambda>a. io_lift (draw item positions a)))"

text \<open>
  What the two views have in common: all arrows are hidden, each item gets one, and the ones that are left over are kept
  behind those in use. An exception leaves the list without the arrows that have been taken.
\<close>

definition update_arrows :: "('i \<Rightarrow> nat list) \<Rightarrow> ('i \<Rightarrow> point list \<Rightarrow> arrow \<Rightarrow> arrow res) \<Rightarrow> 'i list \<Rightarrow> (traffic, unit) action" where
  "update_arrows nodes draw items =
     io_seq (\<lambda>s. (Inr (), s\<lparr> arrow_items := map hide_arrow (arrow_items s) \<rparr>))
     (io_bind (io_map (place_arrow nodes draw) items)
       (\<lambda>new_arrows s. (Inr (), s\<lparr> arrow_items := new_arrows @ arrow_items s \<rparr>)))"

text \<open>
  What the views depend on: the logarithm, the size of the nodes, the sample period, and the place of a label over a
  line or the lower edge of the window.
\<close>

record canvas_env =
  log_of :: "rat \<Rightarrow> rat res"
  node_size :: rat
  period :: rat
  from_pixels :: "point \<Rightarrow> point"
  clip_line :: "point \<Rightarrow> point \<Rightarrow> point \<Rightarrow> point \<Rightarrow> point \<times> point"
  scroll_pos :: point
  page_size :: point

definition BITRATE_FONT_SIZE :: rat where
  "BITRATE_FONT_SIZE = 10"

definition get_label_over_line_position :: "canvas_env \<Rightarrow> point \<Rightarrow> point \<Rightarrow> point" where
  "get_label_over_line_position env p1 p2 =
     (let b1 = from_pixels env (scroll_pos env);
          b2 = from_pixels env (fst (scroll_pos env) + fst (page_size env), snd (scroll_pos env) + snd (page_size env));
          (q1, q2) = clip_line env b1 b2 p1 p2
      in ((fst q1 + fst q2) / 2, (snd q1 + snd q2) / 2))"

definition width_of :: "canvas_env \<Rightarrow> nat \<Rightarrow> nat \<Rightarrow> rat res" where
  "width_of env bytes n =
     rbind (log_of env (of_nat bytes / of_nat n / period env)) (\<lambda>l. Inr (max (1 / 10) (l * (node_size env / 5))))"

definition kbit_rate :: "canvas_env \<Rightarrow> nat \<Rightarrow> nat \<Rightarrow> rat" where
  "kbit_rate env bytes n = of_nat (bytes * 8) / 1000 / of_nat n / period env"

definition right_arrow :: string where
  "right_arrow = [CHR 0xE2, CHR 0x86, CHR 0x92]"

definition left_arrow :: string where
  "left_arrow = [CHR 0xE2, CHR 0x86, CHR 0x90]"

text \<open>The angle of the line is between \<open>- pi / 2\<close> and \<open>pi / 2\<close> exactly when the line does not go to the left.\<close>

definition draw_transmission ::
  "canvas_env \<Rightarrow> (nat \<times> nat) \<times> nat \<times> nat \<Rightarrow> point list \<Rightarrow> arrow \<Rightarrow> arrow res" where
  "draw_transmission env item positions a =
     (case item of (key, bytes, n) \<Rightarrow>
        rbind (width_of env bytes n) (\<lambda>w.
          let p1 = positions ! 0; p2 = positions ! 1;
              delta = (fst p2 - fst p1, snd p2 - snd p1);
              rate = fmt_fixed 2 (kbit_rate env bytes n) @ '' kbit/s'';
              centre = get_label_over_line_position env p1 p2;
              font = ''Sans Serif '' @ fmt_fixed 6 (of_int \<lfloor>1 + BITRATE_FONT_SIZE * (node_size env / 5)\<rfloor>);
              b = a\<lparr> arrow_shown := True, line_width := w, ends := [p1, p2], label_shown := True, label_font := font \<rparr>
          in Inr (if 0 \<le> fst delta
                  then b\<lparr> label_text := rate @ '' '' @ right_arrow, label_anchor := ''S'', label_pos := (0, - w / 2),
                         label_transform := [Translate centre, RotateTo delta] \<rparr>
                  else b\<lparr> label_text := left_arrow @ '' '' @ rate, label_anchor := ''N'', label_pos := (0, w / 2),
                         label_transform := [Translate centre, RotateTo delta, ScaleBy (-1) (-1)] \<rparr>)))"

definition draw_drop :: "canvas_env \<Rightarrow> rat \<Rightarrow> nat \<times> nat \<times> nat \<Rightarrow> point list \<Rightarrow> arrow \<Rightarrow> arrow res" where
  "draw_drop env edge_y item positions a =
     (case item of (key, bytes, n) \<Rightarrow>
        rbind (width_of env bytes n) (\<lambda>w.
          let p1 = positions ! 0; p2 = (fst p1, edge_y);
              font = ''Sans Serif '' @ int_str \<lfloor>1 + BITRATE_FONT_SIZE * (node_size env / 5)\<rfloor>
          in Inr (a\<lparr> arrow_shown := True, line_width := w, ends := [p1, p2], label_shown := True, label_font := font,
                    label_text := fmt_fixed 2 (kbit_rate env bytes n) @ '' kbit/s'',
                    label_pos := ((fst p1 + fst p2) / 2, (snd p1 + snd p2) / 2) \<rparr>)))"

definition update_transmissions_view ::
  "canvas_env \<Rightarrow> ((nat \<times> nat) list \<Rightarrow> (nat \<times> nat) list) \<Rightarrow> ((nat \<times> nat) \<times> nat) list list \<Rightarrow> (traffic, unit) action" where
  "update_transmissions_view env perm window =
     update_arrows (\<lambda>item. [fst (fst item), snd (fst item)]) (draw_transmission env) (ditems perm (averages_of window))"

definition update_drops_view ::
  "canvas_env \<Rightarrow> (nat list \<Rightarrow> nat list) \<Rightarrow> (nat \<times> nat) list list \<Rightarrow> (traffic, unit) action" where
  "update_drops_view env perm window =
     update_arrows (\<lambda>item. [fst item])
       (draw_drop env (snd (from_pixels env (0, snd (scroll_pos env) + snd (page_size env)))))
       (ditems perm (averages_of window))"

section \<open>What is shown\<close>

definition node_at :: "traffic \<Rightarrow> nat \<Rightarrow> point" where
  "node_at s index = (case dget (node_positions s) index of None \<Rightarrow> (0, 0) | Some p \<Rightarrow> p)"

definition numbers :: "arrow list \<Rightarrow> nat multiset" where
  "numbers as = mset (map arrow_no as)"

lemma numbers_simps [simp]:
  "numbers [] = {#}" "numbers (a # as) = add_mset (arrow_no a) (numbers as)" "numbers (as @ bs) = numbers as + numbers bs"
  "numbers (map hide_arrow as) = numbers as"
  by (simp_all add: numbers_def hide_arrow_def comp_def)

text \<open>Nodes are where they were; a node that is not known yet is at the origin, before and after it is made.\<close>

lemma get_nodes:
  "\<exists>s'. io_map get_node ns s = (Inr (map (node_at s) ns), s') \<and> node_at s' = node_at s \<and>
    arrow_items s' = arrow_items s \<and> made s' = made s"
proof (induction ns arbitrary: s)
  case (Cons n ns)
  obtain s1 where s1: "get_node n s = (Inr (node_at s n), s1)" "node_at s1 = node_at s"
      "arrow_items s1 = arrow_items s" "made s1 = made s"
    by (cases "dget (node_positions s) n") (auto simp: get_node_def node_at_def dget_dset fun_eq_iff split: option.splits)
  obtain s2 where s2: "io_map get_node ns s1 = (Inr (map (node_at s1) ns), s2)" "node_at s2 = node_at s1"
      "arrow_items s2 = arrow_items s1" "made s2 = made s1"
    using Cons.IH [of s1] by blast
  have "io_map get_node (n # ns) s = (Inr (map (node_at s) (n # ns)), s2)"
    by (simp add: io_bind_def s1(1,2) s2(1))
  with s1 s2 show ?case by auto
qed simp

text \<open>The contract of what draws an arrow: it is shown with its label, and it stays the same item.\<close>

locale arrow_drawer =
  fixes nodes :: "'i \<Rightarrow> nat list"
    and draw :: "'i \<Rightarrow> point list \<Rightarrow> arrow \<Rightarrow> arrow res"
    and problem :: "'i \<Rightarrow> py_error option"
  assumes draws: "draw item ps a = Inr b \<Longrightarrow> arrow_no b = arrow_no a \<and> arrow_shown b \<and> label_shown b"
    and fails: "draw item ps a = Inl e \<longleftrightarrow> problem item = Some e"
begin

lemma place_cases:
  obtains e s' where "problem item = Some e" "place_arrow nodes draw item s = (Inl e, s')"
  | b s' a where "problem item = None" "place_arrow nodes draw item s = (Inr b, s')"
      "draw item (map (node_at s) (nodes item)) a = Inr b" "node_at s' = node_at s"
      "arrow_items s' = butlast (arrow_items s)" "made s \<le> made s'"
      "numbers (arrow_items s') + {# arrow_no b #} = numbers (arrow_items s) + mset [made s ..< made s']"
proof -
  obtain s1 where s1: "io_map get_node (nodes item) s = (Inr (map (node_at s) (nodes item)), s1)"
      "node_at s1 = node_at s" "arrow_items s1 = arrow_items s" "made s1 = made s"
    using get_nodes [of "nodes item" s] by blast
  obtain a s2 where s2: "take_arrow s1 = (Inr a, s2)" "node_at s2 = node_at s" "arrow_items s2 = butlast (arrow_items s)"
      "made s \<le> made s2" "numbers (arrow_items s2) + {# arrow_no a #} = numbers (arrow_items s) + mset [made s ..< made s2]"
  proof (cases "arrow_items s" rule: rev_cases)
    case Nil
    with s1 that show ?thesis by (auto simp: take_arrow_def node_at_def fun_eq_iff new_arrow_def)
  next
    case (snoc as a)
    with s1 that show ?thesis by (auto simp: take_arrow_def node_at_def fun_eq_iff)
  qed
  have run: "place_arrow nodes draw item s = (draw item (map (node_at s) (nodes item)) a, s2)"
    by (simp add: place_arrow_def io_bind_def s1(1) s2(1))
  show ?thesis
  proof (cases "draw item (map (node_at s) (nodes item)) a")
    case (Inl e)
    with run fails show ?thesis by (auto intro: that(1))
  next
    case (Inr b)
    have "problem item = None"
    proof (rule ccontr)
      assume "problem item \<noteq> None"
      then obtain e where "problem item = Some e" by blast
      with Inr fails show False by (metis sum.distinct(1))
    qed
    with run Inr draws [OF Inr] s2 show ?thesis by (auto intro!: that(2) [of b s2 a])
  qed
qed

lemma place_all:
  assumes "io_map (place_arrow nodes draw) items s = (Inr bs, s')"
  shows "list_all2 (\<lambda>item b. \<exists>a. draw item (map (node_at s) (nodes item)) a = Inr b) items bs \<and> node_at s' = node_at s \<and>
    arrow_items s' = take (length (arrow_items s) - length items) (arrow_items s) \<and> made s \<le> made s' \<and>
    numbers (arrow_items s') + numbers bs = numbers (arrow_items s) + mset [made s ..< made s']"
  using assms
proof (induction items arbitrary: s bs)
  case (Cons item items)
  obtain b s1 bs' where step: "place_arrow nodes draw item s = (Inr b, s1)"
      "io_map (place_arrow nodes draw) items s1 = (Inr bs', s')" "bs = b # bs'"
    using Cons.prems by (auto simp: io_bind_eq_Inr)
  show ?case
  proof (cases item s rule: place_cases)
    case (2 b' s1' a)
    with step have a: "draw item (map (node_at s) (nodes item)) a = Inr b" "node_at s1 = node_at s"
      "arrow_items s1 = butlast (arrow_items s)" "made s \<le> made s1"
      "numbers (arrow_items s1) + {# arrow_no b #} = numbers (arrow_items s) + mset [made s ..< made s1]" by auto
    note ih = Cons.IH [OF step(2)]
    have "[made s ..< made s'] = [made s ..< made s1] @ [made s1 ..< made s']"
      using a(4) ih upt_add_eq_append [of "made s" "made s1" "made s' - made s1"] by simp
    moreover have "arrow_items s' = take (length (arrow_items s) - length (item # items)) (arrow_items s)"
      using ih a(3) by (simp add: butlast_conv_take min_def)
    moreover have "numbers (arrow_items s') + numbers bs = numbers (arrow_items s1) + {# arrow_no b #} + mset [made s1 ..< made s']"
    proof -
      have "numbers (arrow_items s') + numbers bs' = numbers (arrow_items s1) + mset [made s1 ..< made s']"
        using ih by blast
      then show ?thesis by (simp only: step(3) numbers_simps) (metis add_mset_add_single union_assoc union_commute)
    qed
    ultimately show ?thesis using a ih step(3) by (auto simp: ac_simps)
  qed (use step in simp)
qed simp

lemma place_succeeds:
  "(\<exists>bs s'. io_map (place_arrow nodes draw) items s = (Inr bs, s')) \<longleftrightarrow> list_all (\<lambda>i. problem i = None) items"
proof (induction items arbitrary: s)
  case (Cons item items)
  show ?case
  proof (cases item s rule: place_cases)
    case (1 e s')
    then show ?thesis by (auto simp: io_bind_eq_Inr)
  next
    case (2 b s' a)
    with Cons.IH [of s'] show ?thesis by (auto simp: io_bind_eq_Inr)
  qed
qed simp

text \<open>After an update each item has one arrow that is shown, and no arrow is lost.\<close>

lemma updated:
  assumes "update_arrows nodes draw items s = (Inr (), s')"
  shows "list_all2 (\<lambda>item b. \<exists>a. draw item (map (node_at s) (nodes item)) a = Inr b) items (filter arrow_shown (arrow_items s')) \<and>
    filter label_shown (arrow_items s') = filter arrow_shown (arrow_items s') \<and> node_at s' = node_at s \<and>
    length (arrow_items s') = max (length (arrow_items s)) (length items) \<and> made s \<le> made s' \<and>
    numbers (arrow_items s') = numbers (arrow_items s) + mset [made s ..< made s']"
proof -
  let ?s = "s\<lparr> arrow_items := map hide_arrow (arrow_items s) \<rparr>"
  obtain new s1 where new: "io_map (place_arrow nodes draw) items ?s = (Inr new, s1)"
      and s': "s' = s1\<lparr> arrow_items := new @ arrow_items s1 \<rparr>"
    using assms by (auto simp: update_arrows_def io_seq_def io_bind_eq_Inr)
  note placed = place_all [OF new]
  have at: "node_at ?s = node_at s" "node_at s' = node_at s1" "made s' = made s1"
    by (simp_all add: node_at_def s' fun_eq_iff)
  have "\<not> arrow_shown a \<and> \<not> label_shown a" if "a \<in> set (arrow_items s1)" for a
    using placed that by (auto dest!: in_set_takeD simp: hide_arrow_def)
  then have rest: "filter arrow_shown (arrow_items s1) = []" "filter label_shown (arrow_items s1) = []"
    by (simp_all add: filter_empty_conv)
  have len: "length new = length items" by (rule list_all2_lengthD [OF conjunct1 [OF placed], symmetric])
  have "arrow_shown b \<and> label_shown b" if b: "b \<in> set new" for b
  proof -
    obtain k where k: "k < length new" "b = new ! k" using b by (auto simp: in_set_conv_nth)
    with placed len obtain a where "draw (items ! k) (map (node_at ?s) (nodes (items ! k))) a = Inr b"
      by (auto simp: list_all2_conv_all_nth)
    from draws [OF this] show ?thesis by simp
  qed
  then have "filter arrow_shown new = new" "filter label_shown new = new" by (auto intro: filter_True)
  with rest have shown: "filter arrow_shown (arrow_items s') = new" "filter label_shown (arrow_items s') = new"
    by (simp_all add: s')
  have "length (arrow_items s') = max (length (arrow_items s)) (length items)"
    using placed len by (auto simp: s')
  moreover have "numbers (arrow_items s') = numbers (arrow_items s) + mset [made s ..< made s']"
  proof -
    have "numbers (arrow_items s1) + numbers new = numbers (arrow_items ?s) + mset [made ?s ..< made s1]"
      using placed by blast
    then show ?thesis by (simp add: s' add.commute)
  qed
  ultimately show ?thesis using placed shown at by simp
qed

lemma update_succeeds:
  "(\<exists>s'. update_arrows nodes draw items s = (Inr (), s')) \<longleftrightarrow> list_all (\<lambda>i. problem i = None) items"
  using place_succeeds [of items "s\<lparr> arrow_items := map hide_arrow (arrow_items s) \<rparr>"]
  by (auto simp: update_arrows_def io_seq_def io_bind_eq_Inr)

end

definition rate_problem :: "canvas_env \<Rightarrow> 'k \<times> nat \<times> nat \<Rightarrow> py_error option" where
  "rate_problem env item =
     (case log_of env (of_nat (fst (snd item)) / of_nat (snd (snd item)) / period env) of Inl e \<Rightarrow> Some e | Inr l \<Rightarrow> None)"

interpretation transmissions: arrow_drawer "\<lambda>item. [fst (fst item), snd (fst item)]" "draw_transmission env" "rate_problem env" for env
proof
  show "draw_transmission env item ps a = Inr b \<Longrightarrow> arrow_no b = arrow_no a \<and> arrow_shown b \<and> label_shown b" for item ps a b
    by (auto simp: draw_transmission_def Let_def rbind_Inr_iff split: prod.splits if_splits)
  show "draw_transmission env item ps a = Inl e \<longleftrightarrow> rate_problem env item = Some e" for item ps a e
    by (cases item) (auto simp: draw_transmission_def rate_problem_def width_of_def Let_def rbind_Inl_iff split: sum.splits)
qed

interpretation drops: arrow_drawer "\<lambda>item. [fst item]" "draw_drop env edge_y" "rate_problem env" for env edge_y
proof
  show "draw_drop env edge_y item ps a = Inr b \<Longrightarrow> arrow_no b = arrow_no a \<and> arrow_shown b \<and> label_shown b" for item ps a b
    by (auto simp: draw_drop_def Let_def rbind_Inr_iff split: prod.splits if_splits)
  show "draw_drop env edge_y item ps a = Inl e \<longleftrightarrow> rate_problem env item = Some e" for item ps a e
    by (cases item) (auto simp: draw_drop_def rate_problem_def width_of_def Let_def rbind_Inl_iff split: sum.splits)
qed

text \<open>What one looks at: the ends of an arrow and the text beside it.\<close>

definition transmission_seen :: "canvas_env \<Rightarrow> traffic \<Rightarrow> (nat \<times> nat) \<times> nat \<times> nat \<Rightarrow> point list \<times> string" where
  "transmission_seen env s item =
     (case item of ((transmitter, receiver), bytes, n) \<Rightarrow>
        let p1 = node_at s transmitter; p2 = node_at s receiver; rate = fmt_fixed 2 (kbit_rate env bytes n) @ '' kbit/s'' in
        ([p1, p2], if fst p1 \<le> fst p2 then rate @ '' '' @ right_arrow else left_arrow @ '' '' @ rate))"

lemma list_all2_map: "list_all2 (\<lambda>x y. f y = g x) xs ys \<Longrightarrow> map f ys = map g xs"
  by (induction rule: list_all2_induct) auto

lemma draw_transmission_seen:
  assumes "draw_transmission env item [node_at s (fst (fst item)), node_at s (snd (fst item))] a = Inr b"
  shows "(ends b, label_text b) = transmission_seen env s item"
proof -
  obtain t r bytes n where item: "item = ((t, r), bytes, n)" by (metis prod.collapse)
  show ?thesis
  proof (cases "fst (node_at s t) \<le> fst (node_at s r)")
    case True
    with assms show ?thesis by (auto simp: item draw_transmission_def transmission_seen_def Let_def rbind_Inr_iff)
  next
    case False
    with assms show ?thesis by (auto simp: item draw_transmission_def transmission_seen_def Let_def rbind_Inr_iff)
  qed
qed

text \<open>
  C23: what is shown after an update. For each pair of nodes with samples in the window there is exactly one arrow, from
  node to node, whose text is the mean rate of all its samples; every arrow that is shown belongs to such a
  pair. The arrows are taken over: none is lost or used twice, and new ones are made only when
  there were too few.
\<close>

theorem transmissions_shown:
  assumes "key_order perm" "update_transmissions_view env perm window s = (Inr (), s')"
    and "items = ditems perm (averages_of window)"
  shows "map (\<lambda>a. (ends a, label_text a)) (filter arrow_shown (arrow_items s')) = map (transmission_seen env s') items \<and>
    filter label_shown (arrow_items s') = filter arrow_shown (arrow_items s') \<and> distinct (map fst items) \<and>
    ((k, bytes, n) \<in> set items \<longleftrightarrow> samples_of k (concat window) \<noteq> [] \<and>
      bytes = sum_list (samples_of k (concat window)) \<and> n = length (samples_of k (concat window))) \<and>
    numbers (arrow_items s') = numbers (arrow_items s) + mset [made s ..< made s'] \<and>
    length (arrow_items s') = max (length (arrow_items s)) (length items)"
proof -
  note updated = transmissions.updated [OF assms(2) [unfolded update_transmissions_view_def]]
  have "list_all2 (\<lambda>item b. (ends b, label_text b) = transmission_seen env s item) items (filter arrow_shown (arrow_items s'))"
    using conjunct1 [OF updated] unfolding assms(3) by (rule list_all2_mono) (auto dest: draw_transmission_seen)
  then have "map (\<lambda>a. (ends a, label_text a)) (filter arrow_shown (arrow_items s')) = map (transmission_seen env s') items"
    using updated by (auto dest!: list_all2_map simp: transmission_seen_def)
  moreover have "distinct (map fst items)"
    using assms(1,3) dict_ok_averages [of window] by (simp add: map_fst_ditems dict_ok_def)
  moreover have "(k, bytes, n) \<in> set items \<longleftrightarrow> dget (averages_of window) k = Some (bytes, n)"
    by (simp add: assms(1,3) ditems_iff)
  ultimately show ?thesis using updated by (auto simp: assms(3) averages_of_def dget_add_samples)
qed

text \<open>
  Drops: one arrow from each node with drops in the window, straight down to the edge of the window.
\<close>

lemma drops_shown:
  assumes "update_drops_view env perm window s = (Inr (), s')"
    and "edge_y = snd (from_pixels env (0, snd (scroll_pos env) + snd (page_size env)))"
  shows "map ends (filter arrow_shown (arrow_items s')) =
      map (\<lambda>(k, bytes, n). [node_at s' k, (fst (node_at s' k), edge_y)]) (ditems perm (averages_of window)) \<and>
    numbers (arrow_items s') = numbers (arrow_items s) + mset [made s ..< made s']"
proof -
  note updated = drops.updated [OF assms(1) [unfolded update_drops_view_def, folded assms(2)]]
  have "list_all2 (\<lambda>item b. ends b = (case item of (k, bytes, n) \<Rightarrow> [node_at s k, (fst (node_at s k), edge_y)]))
    (ditems perm (averages_of window)) (filter arrow_shown (arrow_items s'))"
    using conjunct1 [OF updated]
    by (rule list_all2_mono) (auto simp: draw_drop_def Let_def rbind_Inr_iff)
  then have "map ends (filter arrow_shown (arrow_items s')) =
      map (\<lambda>(k, bytes, n). [node_at s k, (fst (node_at s k), edge_y)]) (ditems perm (averages_of window))"
    by (rule list_all2_map)
  with updated show ?thesis by simp
qed

text \<open>
  The views need a sample with bytes in it for each pair: the logarithm of 0 is a \<open>ValueError\<close>, which ends the update.
\<close>

theorem transmissions_fail:
  assumes "key_order perm" "\<And>x. log_of env x = Inl ValueError \<longleftrightarrow> x \<le> 0" "\<And>x e. log_of env x = Inl e \<Longrightarrow> e = ValueError"
    and "0 < period env"
  shows "(\<exists>s'. update_transmissions_view env perm window s = (Inr (), s')) \<longleftrightarrow>
    (\<forall>k. samples_of k (concat window) \<noteq> [] \<longrightarrow> 0 < sum_list (samples_of k (concat window)))"
proof -
  have problem: "rate_problem env (k, bytes, n) = None \<longleftrightarrow> 0 < bytes" if "0 < n" for k :: "nat \<times> nat" and bytes n
  proof -
    have "(of_nat bytes / of_nat n / period env \<le> (0 :: rat)) \<longleftrightarrow> bytes = 0"
    proof -
      have "0 < of_nat n * period env" using that assms(4) by simp
      then show ?thesis by (simp add: divide_le_0_iff not_le [symmetric])
    qed
    then show ?thesis using assms(2,3) [of "of_nat bytes / of_nat n / period env"]
      by (auto simp: rate_problem_def split: sum.splits)
  qed
  have item: "(k, bytes, n) \<in> set (ditems perm (averages_of window)) \<longleftrightarrow> samples_of k (concat window) \<noteq> [] \<and>
      bytes = sum_list (samples_of k (concat window)) \<and> n = length (samples_of k (concat window))" for k bytes n
    using assms(1) by (auto simp: ditems_iff averages_of_def dget_add_samples)
  have "list_all (\<lambda>i. rate_problem env i = None) (ditems perm (averages_of window)) \<longleftrightarrow>
      (\<forall>k bytes n. (k, bytes, n) \<in> set (ditems perm (averages_of window)) \<longrightarrow> rate_problem env (k, bytes, n) = None)"
    unfolding list_all_iff by (metis prod.collapse)
  also have "\<dots> \<longleftrightarrow> (\<forall>k. samples_of k (concat window) \<noteq> [] \<longrightarrow> 0 < sum_list (samples_of k (concat window)))"
    using problem by (simp add: item)
  finally show ?thesis by (simp add: update_transmissions_view_def transmissions.update_succeeds)
qed

section \<open>A concrete update\<close>

definition demo_env :: canvas_env where
  "demo_env =
     \<lparr> log_of = (\<lambda>x. if x \<le> 0 then Inl ValueError else Inr 1), node_size = 3, period = 1 / 10, from_pixels = (\<lambda>p. p),
       clip_line = (\<lambda>b1 b2 p q. (p, q)), scroll_pos = (0, 0), page_size = (600, 450) \<rparr>"

definition demo_window :: "((nat \<times> nat) \<times> nat) list list" where
  "demo_window = [[((0, 1), 1000)], [((0, 1), 500), ((1, 0), 250)]]"

definition demo_traffic :: traffic where
  "demo_traffic = \<lparr> node_positions = [(0, (0, 0)), (1, (30, 0))], arrow_items = [new_arrow 0], made = 1 \<rparr>"

lemma demo_items: "ditems (\<lambda>ks. ks) (averages_of demo_window) = [((0, 1), 1500, 2), ((1, 0), 250, 1)]"
  by (simp add: demo_window_def averages_of_def add_sample_def ditems_def dkeys_def Let_def numeral_2_eq_2)

lemma demo_update: "\<exists>s'. update_transmissions_view demo_env (\<lambda>ks. ks) demo_window demo_traffic = (Inr (), s') \<and>
    node_at s' 0 = (0, 0) \<and> node_at s' (Suc 0) = (30, 0) \<and> made s' = 2"
  by (simp add: update_transmissions_view_def demo_items update_arrows_def io_seq_def io_bind_def place_arrow_def get_node_def
      demo_traffic_def take_arrow_def draw_transmission_def width_of_def demo_env_def Let_def node_at_def)

lemma key_order_same: "key_order (\<lambda>ks. ks)"
  by (simp add: key_order_def)

theorem transmissions_shown_witness:
  "\<exists>s'. update_transmissions_view demo_env (\<lambda>ks. ks) demo_window demo_traffic = (Inr (), s') \<and>
    map ends (filter arrow_shown (arrow_items s')) = [[(0, 0), (30, 0)], [(30, 0), (0, 0)]] \<and>
    numbers (arrow_items s') = {# 0, 1 #} \<and> length (arrow_items s') = 2"
proof -
  obtain s' where s': "update_transmissions_view demo_env (\<lambda>ks. ks) demo_window demo_traffic = (Inr (), s')"
      "node_at s' 0 = (0, 0)" "node_at s' (Suc 0) = (30, 0)" "made s' = 2"
    using demo_update by blast
  note shown = transmissions_shown [OF key_order_same s'(1) demo_items [symmetric]]
  from conjunct1 [OF shown] have "map fst (map (\<lambda>a. (ends a, label_text a)) (filter arrow_shown (arrow_items s'))) =
      [[(0, 0), (30, 0)], [(30, 0), (0, 0)]]"
    by (simp add: transmission_seen_def s' Let_def)
  moreover have "numbers (arrow_items s') = {# 0, 1 #} \<and> length (arrow_items s') = 2"
    using shown by (simp add: s' demo_traffic_def new_arrow_def numeral_2_eq_2)
  ultimately show ?thesis using s'(1) by (auto simp: comp_def)
qed

end
