(* ===== verification/VizNodes.thy ===== *)
theory VizNodes
  imports VizTraffic
begin

unbundle bit_operations_syntax

text \<open>
  The picture of one node: class \<open>Node\<close> of \<open>src/visualizer/visualizer/core.py\<close> and the icons of
  \<open>svgitem.py\<close>. A node keeps its state (size, colour, label, whether it is selected or under the pointer) and the
  properties of the canvas items that show it, which every operation has to bring up to date.
\<close>

section \<open>Icons\<close>

text \<open>\<open>handle_width\<close> and \<open>handle_height\<close> are the natural size of the image.\<close>

record svg =
  svg_x :: rat
  svg_y :: rat
  scale_x :: rat
  scale_y :: rat
  handle_width :: rat
  handle_height :: rat
  svg_width :: rat
  svg_height :: rat
  custom_width :: "rat option"
  custom_height :: "rat option"

definition new_svg :: "rat \<times> rat \<Rightarrow> rat \<times> rat \<Rightarrow> svg" where
  "new_svg pos handle =
     \<lparr> svg_x = fst pos, svg_y = snd pos, scale_x = 1, scale_y = 1, handle_width = fst handle,
       handle_height = snd handle, svg_width = fst handle, svg_height = snd handle, custom_width = None,
       custom_height = None \<rparr>"

definition float_div :: "rat \<Rightarrow> rat \<Rightarrow> rat res" where
  "float_div a b = (if b = 0 then Inl ZeroDivisionError else Inr (a / b))"

definition size_changed :: "svg \<Rightarrow> svg res" where
  "size_changed i =
     (case (custom_width i, custom_height i) of
        (None, None) \<Rightarrow>
          Inr (i\<lparr> svg_width := handle_width i, svg_height := handle_height i, scale_x := 1, scale_y := 1 \<rparr>)
      | (Some w, None) \<Rightarrow>
          rbind (float_div w (handle_width i)) (\<lambda>s.
            Inr (i\<lparr> svg_width := w, scale_x := s, scale_y := s, svg_height := handle_height i * s \<rparr>))
      | (None, Some h) \<Rightarrow>
          rbind (float_div h (handle_height i)) (\<lambda>s.
            Inr (i\<lparr> svg_height := h, scale_y := s, scale_x := s, svg_width := handle_width i * s \<rparr>))
      | (Some w, Some h) \<Rightarrow>
          rbind (float_div w (handle_width i)) (\<lambda>sx. rbind (float_div h (handle_height i)) (\<lambda>sy.
            Inr (i\<lparr> svg_width := w, svg_height := h, scale_x := sx, scale_y := sy \<rparr>))))"

datatype svg_property = PropX rat | PropY rat | PropWidth rat | PropHeight rat

definition do_set_property :: "svg_property \<Rightarrow> svg \<Rightarrow> svg res" where
  "do_set_property p i =
     (case p of
        PropX v \<Rightarrow> Inr (i\<lparr> svg_x := v \<rparr>)
      | PropY v \<Rightarrow> Inr (i\<lparr> svg_y := v \<rparr>)
      | PropWidth v \<Rightarrow> size_changed (i\<lparr> custom_width := Some v \<rparr>)
      | PropHeight v \<Rightarrow> size_changed (i\<lparr> custom_height := Some v \<rparr>))"

text \<open>Reading a property, with the state it leaves: the width is set back to the natural one before it is returned.\<close>

definition get_width :: "svg \<Rightarrow> rat \<times> svg" where
  "get_width i =
     (let i1 = i\<lparr> svg_width := handle_width i, svg_height := handle_height i \<rparr> in (svg_width i1, i1))"

definition get_height :: "svg \<Rightarrow> rat \<times> svg" where
  "get_height i = (svg_height i, i)"

definition svg_bounds :: "svg \<Rightarrow> (rat \<times> rat) \<times> rat \<times> rat" where
  "svg_bounds i = ((svg_x i, svg_y i), (svg_x i + svg_width i, svg_y i + svg_height i))"

definition is_item_at :: "svg \<Rightarrow> rat \<Rightarrow> rat \<Rightarrow> bool" where
  "is_item_at i x y \<longleftrightarrow>
     \<not> ((x < svg_x i \<or> x > svg_x i + svg_width i) \<or> (y < svg_y i \<or> y > svg_y i + svg_height i))"

text \<open>The image that is painted fills the rectangle of the item; when one size is given the other follows in proportion.\<close>

definition svg_ok :: "svg \<Rightarrow> bool" where
  "svg_ok i \<longleftrightarrow> handle_width i * scale_x i = svg_width i \<and> handle_height i * scale_y i = svg_height i \<and>
     (custom_width i = None \<or> custom_height i = None \<longrightarrow> scale_x i = scale_y i) \<and>
     (\<forall>w. custom_width i = Some w \<longrightarrow> svg_width i = w) \<and> (\<forall>h. custom_height i = Some h \<longrightarrow> svg_height i = h)"

lemma new_svg_ok: "svg_ok (new_svg pos handle)"
  by (simp add: svg_ok_def new_svg_def)

lemma size_changed_ok: "size_changed i = Inr j \<Longrightarrow> svg_ok j"
  by (auto simp: size_changed_def svg_ok_def float_div_def split: option.splits if_splits)

lemma do_set_property_ok: "svg_ok i \<Longrightarrow> do_set_property p i = Inr j \<Longrightarrow> svg_ok j"
  by (cases p) (auto simp: do_set_property_def svg_ok_def dest: size_changed_ok)

text \<open>Reading the width loses a size that was asked for.\<close>

lemma reading_width_resets:
  "\<exists>i. do_set_property (PropWidth 40) (new_svg (0, 0) (20, 10)) = Inr i \<and> svg_width i = 40 \<and>
    fst (get_width i) = 20 \<and> \<not> svg_ok (snd (get_width i))"
  by (simp add: do_set_property_def size_changed_def new_svg_def float_div_def get_width_def svg_ok_def)

section \<open>Nodes\<close>

record node_view =
  centre :: point
  node_selected :: bool
  node_highlighted :: bool
  node_color :: int
  node_extent :: rat
  node_label :: "string option"
  radius :: rat
  fill_color :: int
  border_width :: rat
  border_color :: string
  label_item :: "(point \<times> string) option"
  svg_item :: "(svg \<times> rat \<times> rat) option"

definition DEFAULT_NODE_SIZE :: rat where
  "DEFAULT_NODE_SIZE = 3"

definition update_svg_position :: "point \<Rightarrow> node_view \<Rightarrow> node_view" where
  "update_svg_position p n =
     (case svg_item n of
        None \<Rightarrow> n
      | Some (i, ax, ay) \<Rightarrow>
          n\<lparr> svg_item := Some (i\<lparr> svg_x := fst p - (1 - ax) * svg_width i, svg_y := snd p - (1 - ay) * svg_height i \<rparr>, ax, ay) \<rparr>)"

definition set_node_position :: "point \<Rightarrow> node_view \<Rightarrow> node_view" where
  "set_node_position p n =
     (let n1 = update_svg_position p (n\<lparr> centre := p \<rparr>) in
      case label_item n1 of
        None \<Rightarrow> n1
      | Some (q, shown) \<Rightarrow> n1\<lparr> label_item := Some ((fst p, snd p + node_extent n1 * 3), shown) \<rparr>)"

definition update_position :: "node_view \<Rightarrow> node_view" where
  "update_position n = set_node_position (centre n) n"

definition node_alpha :: "node_view \<Rightarrow> int" where
  "node_alpha n = (if svg_item n \<noteq> None then 0x80 else 0xff)"

definition update_appearance :: "node_view \<Rightarrow> node_view" where
  "update_appearance n =
     (let size = distance_to_canvas (node_extent n);
          n1 = n\<lparr> radius := size, fill_color := (node_color n AND 0xffffff00) OR node_alpha n,
                  border_width := size * (if node_selected n then 3 / 10 else 15 / 100),
                  border_color := (if node_highlighted n then ''yellow'' else ''black'') \<rparr>
      in case node_label n of
           None \<Rightarrow> n1
         | Some s \<Rightarrow>
             update_position
               (n1\<lparr> label_item := Some (case label_item n1 of None \<Rightarrow> ((0, 0), s) | Some (q, old) \<Rightarrow> (q, s)) \<rparr>))"

definition new_node :: node_view where
  "new_node =
     update_appearance
       \<lparr> centre = (0, 0), node_selected = False, node_highlighted = False, node_color = 0x808080ff,
         node_extent = DEFAULT_NODE_SIZE, node_label = None, radius = 0, fill_color = 0, border_width = 0,
         border_color = [], label_item = None, svg_item = None \<rparr>"

text \<open>A colour is a number, or a name whose three 16-bit parts the toolkit looks up.\<close>

datatype color_arg = ColorNumber int | ColorParts int int int

definition set_node_color :: "color_arg \<Rightarrow> node_view \<Rightarrow> node_view" where
  "set_node_color c n =
     update_appearance (n\<lparr> node_color :=
       (case c of
          ColorNumber i \<Rightarrow> i
        | ColorParts r g b \<Rightarrow>
            push_bit 24 (drop_bit 8 r) OR push_bit 16 (drop_bit 8 g) OR push_bit 8 (drop_bit 8 b) OR 0xff) \<rparr>)"

definition set_size_request :: "svg_property option \<Rightarrow> svg \<Rightarrow> svg res" where
  "set_size_request p i = (case p of None \<Rightarrow> Inr i | Some q \<Rightarrow> do_set_property q i)"

text \<open>\<open>handle\<close> is the size of the image that \<open>rsvg_handle_factory\<close> loads.\<close>

definition set_svg_icon :: "rat \<times> rat \<Rightarrow> rat option \<Rightarrow> rat option \<Rightarrow> rat \<Rightarrow> rat \<Rightarrow> node_view \<Rightarrow> node_view res" where
  "set_svg_icon handle width height align_x align_y n =
     (if width = None \<and> height = None then Inl ValueError
      else
        rbind (set_size_request (map_option (\<lambda>w. PropWidth (distance_to_canvas w)) width) (new_svg (centre n) handle)) (\<lambda>i.
        rbind (set_size_request (map_option (\<lambda>h. PropHeight (distance_to_canvas h)) height) i) (\<lambda>j.
          Inr (update_appearance (update_svg_position (centre n) (n\<lparr> svg_item := Some (j, align_x, align_y) \<rparr>))))))"

text \<open>What the program does with a node.\<close>

datatype node_operation =
    SetLabel string
  | SetSelected bool
  | SetHighlighted bool
  | SetSize rat
  | SetPosition point
  | SetColor color_arg
  | SetSvgIcon "rat \<times> rat" "rat option" "rat option" rat rat

definition node_step :: "node_view \<Rightarrow> node_operation \<Rightarrow> node_view res" where
  "node_step n operation =
     (case operation of
        SetLabel s \<Rightarrow> Inr (update_appearance (n\<lparr> node_label := Some s \<rparr>))
      | SetSelected b \<Rightarrow> Inr (update_appearance (n\<lparr> node_selected := b \<rparr>))
      | SetHighlighted b \<Rightarrow> Inr (update_appearance (n\<lparr> node_highlighted := b \<rparr>))
      | SetSize s \<Rightarrow> Inr (update_appearance (n\<lparr> node_extent := s \<rparr>))
      | SetPosition p \<Rightarrow> Inr (set_node_position p n)
      | SetColor c \<Rightarrow> Inr (set_node_color c n)
      | SetSvgIcon handle w h ax ay \<Rightarrow> set_svg_icon handle w h ax ay n)"
text \<open>The items on the canvas show the state of the node.\<close>

definition icon_ok :: "point \<Rightarrow> svg \<times> rat \<times> rat \<Rightarrow> bool" where
  "icon_ok p icon \<longleftrightarrow>
     (case icon of (i, ax, ay) \<Rightarrow>
        svg_ok i \<and> svg_x i = fst p - (1 - ax) * svg_width i \<and> svg_y i = snd p - (1 - ay) * svg_height i)"

definition placed_ok :: "node_view \<Rightarrow> bool" where
  "placed_ok n \<longleftrightarrow> (\<forall>icon. svg_item n = Some icon \<longrightarrow> icon_ok (centre n) icon)"

definition node_ok :: "node_view \<Rightarrow> bool" where
  "node_ok n \<longleftrightarrow> radius n = distance_to_canvas (node_extent n) \<and>
     fill_color n = (node_color n AND 0xffffff00) OR node_alpha n \<and>
     border_width n = radius n * (if node_selected n then 3 / 10 else 15 / 100) \<and>
     border_color n = (if node_highlighted n then ''yellow'' else ''black'') \<and>
     label_item n = map_option (Pair (fst (centre n), snd (centre n) + distance_to_canvas (node_extent n))) (node_label n) \<and>
     placed_ok n"

lemma svg_ok_moved [simp]: "svg_ok (i\<lparr> svg_x := x, svg_y := y \<rparr>) = svg_ok i"
  by (simp add: svg_ok_def)

lemma update_svg_position_keeps [simp]:
  "centre (update_svg_position p n) = centre n" "node_selected (update_svg_position p n) = node_selected n"
  "node_highlighted (update_svg_position p n) = node_highlighted n" "node_color (update_svg_position p n) = node_color n"
  "node_extent (update_svg_position p n) = node_extent n" "node_label (update_svg_position p n) = node_label n"
  "radius (update_svg_position p n) = radius n" "fill_color (update_svg_position p n) = fill_color n"
  "border_width (update_svg_position p n) = border_width n" "border_color (update_svg_position p n) = border_color n"
  "label_item (update_svg_position p n) = label_item n" "node_alpha (update_svg_position p n) = node_alpha n"
  by (simp_all add: update_svg_position_def node_alpha_def split: option.split prod.split)

lemma node_alpha_others [simp]:
  "node_alpha (n\<lparr> label_item := l \<rparr>) = node_alpha n" "node_alpha (n\<lparr> radius := r \<rparr>) = node_alpha n"
  "node_alpha (n\<lparr> fill_color := c \<rparr>) = node_alpha n" "node_alpha (n\<lparr> border_width := w \<rparr>) = node_alpha n"
  "node_alpha (n\<lparr> border_color := b \<rparr>) = node_alpha n" "node_alpha (n\<lparr> centre := p \<rparr>) = node_alpha n"
  by (simp_all add: node_alpha_def)

text \<open>Images that are drawn in proportion, wherever they are.\<close>

definition icons_drawn :: "node_view \<Rightarrow> bool" where
  "icons_drawn n \<longleftrightarrow> (\<forall>i ax ay. svg_item n = Some (i, ax, ay) \<longrightarrow> svg_ok i)"

lemma placed_ok_others [simp]:
  "placed_ok (n\<lparr> label_item := l \<rparr>) = placed_ok n" "placed_ok (n\<lparr> radius := r \<rparr>) = placed_ok n"
  "placed_ok (n\<lparr> fill_color := c \<rparr>) = placed_ok n" "placed_ok (n\<lparr> border_width := w \<rparr>) = placed_ok n"
  "placed_ok (n\<lparr> border_color := b \<rparr>) = placed_ok n" "placed_ok (n\<lparr> node_label := t \<rparr>) = placed_ok n"
  "placed_ok (n\<lparr> node_selected := s \<rparr>) = placed_ok n" "placed_ok (n\<lparr> node_highlighted := h \<rparr>) = placed_ok n"
  "placed_ok (n\<lparr> node_extent := x \<rparr>) = placed_ok n" "placed_ok (n\<lparr> node_color := k \<rparr>) = placed_ok n"
  by (simp_all add: placed_ok_def)

lemma update_svg_position_placed: "icons_drawn n \<Longrightarrow> centre n = p \<Longrightarrow> placed_ok (update_svg_position p n)"
  by (auto simp: icons_drawn_def placed_ok_def icon_ok_def update_svg_position_def split: option.split)

lemma set_node_position_ok: "node_ok n \<Longrightarrow> node_ok (set_node_position p n)"
proof -
  assume ok: "node_ok n"
  have "icons_drawn (n\<lparr> centre := p \<rparr>)"
    using ok by (auto simp: node_ok_def placed_ok_def icons_drawn_def icon_ok_def)
  from update_svg_position_placed [OF this, of p] ok show "node_ok (set_node_position p n)"
    by (auto simp: node_ok_def set_node_position_def Let_def distance_to_canvas_def PIXELS_PER_METER_def
        split: option.splits)
qed

lemma update_appearance_ok:
  assumes "placed_ok n" "node_label n = None \<longrightarrow> label_item n = None"
  shows "node_ok (update_appearance n)"
proof -
  let ?n = "n\<lparr> radius := distance_to_canvas (node_extent n),
      fill_color := (node_color n AND 0xffffff00) OR node_alpha n,
      border_width := distance_to_canvas (node_extent n) * (if node_selected n then 3 / 10 else 15 / 100),
      border_color := (if node_highlighted n then ''yellow'' else ''black'') \<rparr>"
  show ?thesis
  proof (cases "node_label n")
    case None
    with assms show ?thesis by (simp add: update_appearance_def Let_def node_ok_def)
  next
    case (Some s)
    let ?m = "?n\<lparr> label_item := Some (case label_item ?n of None \<Rightarrow> ((0, 0), s) | Some (q, old) \<Rightarrow> (q, s)) \<rparr>"
    have "icons_drawn (?m\<lparr> centre := centre n \<rparr>)"
      using assms(1) by (auto simp: placed_ok_def icons_drawn_def icon_ok_def)
    from update_svg_position_placed [OF this, of "centre n"] Some show ?thesis
      by (auto simp: update_appearance_def Let_def update_position_def set_node_position_def node_ok_def
          distance_to_canvas_def PIXELS_PER_METER_def split: option.splits)
  qed
qed

lemma set_size_request_ok: "svg_ok i \<Longrightarrow> set_size_request p i = Inr j \<Longrightarrow> svg_ok j"
  by (auto simp: set_size_request_def dest: do_set_property_ok split: option.splits)

lemma set_svg_icon_ok:
  assumes "node_ok n" "set_svg_icon handle width height align_x align_y n = Inr m"
  shows "node_ok m"
proof -
  obtain i j where "set_size_request (map_option (\<lambda>w. PropWidth (distance_to_canvas w)) width) (new_svg (centre n) handle) = Inr i"
      "set_size_request (map_option (\<lambda>h. PropHeight (distance_to_canvas h)) height) i = Inr j"
      and m: "m = update_appearance (update_svg_position (centre n) (n\<lparr> svg_item := Some (j, align_x, align_y) \<rparr>))"
    using assms(2) by (auto simp: set_svg_icon_def rbind_Inr_iff split: if_splits)
  then have "svg_ok j" by (blast intro: set_size_request_ok new_svg_ok)
  then have "placed_ok (update_svg_position (centre n) (n\<lparr> svg_item := Some (j, align_x, align_y) \<rparr>))"
    by (auto intro: update_svg_position_placed simp: icons_drawn_def)
  then show ?thesis using assms(1) unfolding m by (intro update_appearance_ok) (auto simp: node_ok_def)
qed

lemma node_step_ok:
  assumes "node_ok n" "node_step n operation = Inr m"
  shows "node_ok m"
proof -
  have keep: "placed_ok n" "node_label n = None \<longrightarrow> label_item n = None" using assms(1) by (auto simp: node_ok_def)
  show ?thesis
    using assms keep
    by (cases operation)
      (auto simp: node_step_def set_node_color_def intro!: update_appearance_ok set_node_position_ok dest: set_svg_icon_ok)
qed

lemma new_node_ok: "node_ok new_node"
  unfolding new_node_def by (rule update_appearance_ok) (simp_all add: placed_ok_def)

fun sets_icon :: "node_operation \<Rightarrow> bool" where
  "sets_icon (SetSvgIcon handle w h ax ay) = True"
| "sets_icon _ = False"

lemma node_step_error: "node_step n operation = Inl e \<Longrightarrow> e \<in> {ValueError, ZeroDivisionError} \<and> sets_icon operation"
  by (cases operation)
    (auto simp: node_step_def set_svg_icon_def set_size_request_def do_set_property_def size_changed_def float_div_def
      rbind_Inl_iff split: if_splits option.splits)


end
