(* ===== verification/VizScene.thy ===== *)
theory VizScene
  imports VizTraffic
begin

text \<open>
  The topology in the visualizer (\<open>src/visualizer/visualizer/core.py\<close>): nodes, channels and the wired links between
  them, as \<open>scan_topology\<close> finds them in the network, and their positions, which come from the mobility
  models or from the layout program. The network and the layout are parameters; the kinds of devices are
  those of \<open>base.py\<close>.
\<close>

section \<open>Kinds of devices\<close>

record traits =
  is_wireless :: "bool option"
  is_virtual :: bool

definition net_device_traits :: "bool option \<Rightarrow> bool \<Rightarrow> traits res" where
  "net_device_traits wireless virtual =
     (if virtual \<or> wireless \<noteq> None then Inr \<lparr> is_wireless = wireless, is_virtual = virtual \<rparr> else Inl AssertionError)"

definition netdevice_traits :: "(string, traits) dict" where
  "netdevice_traits =
     [(''PointToPointNetDevice'', \<lparr> is_wireless = Some False, is_virtual = False \<rparr>),
      (''CsmaNetDevice'', \<lparr> is_wireless = Some False, is_virtual = False \<rparr>),
      (''WifiNetDevice'', \<lparr> is_wireless = Some True, is_virtual = False \<rparr>),
      (''BridgeNetDevice'', \<lparr> is_wireless = None, is_virtual = True \<rparr>),
      (''LoopbackNetDevice'', \<lparr> is_wireless = Some False, is_virtual = True \<rparr>),
      (''MeshPointDevice'', \<lparr> is_wireless = None, is_virtual = True \<rparr>),
      (''SubscriberStationNetDevice'', \<lparr> is_wireless = Some True, is_virtual = False \<rparr>),
      (''BaseStationNetDevice'', \<lparr> is_wireless = Some True, is_virtual = False \<rparr>)]"

text \<open>The traits, and the table afterwards: a kind that is not known is assumed to be wireless, and remembered.\<close>

definition lookup_netdevice_traits :: "(string, traits) dict \<Rightarrow> string \<Rightarrow> traits \<times> (string, traits) dict" where
  "lookup_netdevice_traits table kind =
     (case dget table kind of
        Some t \<Rightarrow> (t, table)
      | None \<Rightarrow> (let t = \<lparr> is_wireless = Some True, is_virtual = False \<rparr> in (t, dset kind t table)))"

lemma remembered_traits:
  "fst (lookup_netdevice_traits (snd (lookup_netdevice_traits table kind)) other) = fst (lookup_netdevice_traits table other)"
  by (auto simp: lookup_netdevice_traits_def dget_dset Let_def split: option.splits)

section \<open>The scene\<close>

datatype endpoint = NodeEnd nat | ChannelEnd nat

text \<open>\<open>link_path\<close> is the line that is drawn, once there is one.\<close>

record link =
  link_from :: nat
  link_to :: endpoint
  link_path :: "(point \<times> point) option"

record scene =
  scene_nodes :: "(nat, point) dict"
  scene_channels :: "(nat, point) dict"
  scene_links :: "link list"

fun end_lookup :: "scene \<Rightarrow> endpoint \<Rightarrow> point option" where
  "end_lookup sc (NodeEnd i) = dget (scene_nodes sc) i"
| "end_lookup sc (ChannelEnd c) = dget (scene_channels sc) c"

definition end_position :: "scene \<Rightarrow> endpoint \<Rightarrow> point" where
  "end_position sc e = (case end_lookup sc e of None \<Rightarrow> (0, 0) | Some p \<Rightarrow> p)"

text \<open>A node or channel that is not known yet is made, at the origin.\<close>

definition get_node_view :: "nat \<Rightarrow> scene \<Rightarrow> scene" where
  "get_node_view i sc =
     (case dget (scene_nodes sc) i of None \<Rightarrow> sc\<lparr> scene_nodes := dset i (0, 0) (scene_nodes sc) \<rparr> | Some p \<Rightarrow> sc)"

definition get_channel_view :: "nat \<Rightarrow> scene \<Rightarrow> scene" where
  "get_channel_view c sc =
     (case dget (scene_channels sc) c of
        None \<Rightarrow> sc\<lparr> scene_channels := dset c (0, 0) (scene_channels sc) \<rparr>
      | Some p \<Rightarrow> sc)"

definition create_link :: "nat \<Rightarrow> endpoint \<Rightarrow> scene \<Rightarrow> scene" where
  "create_link i e sc = sc\<lparr> scene_links := scene_links sc @ [\<lparr> link_from = i, link_to = e, link_path = None \<rparr>] \<rparr>"

definition update_points :: "scene \<Rightarrow> link \<Rightarrow> link" where
  "update_points sc l = l\<lparr> link_path := Some (end_position sc (NodeEnd (link_from l)), end_position sc (link_to l)) \<rparr>"

definition touches :: "endpoint \<Rightarrow> link \<Rightarrow> bool" where
  "touches e l \<longleftrightarrow> NodeEnd (link_from l) = e \<or> link_to l = e"

fun move_end :: "endpoint \<Rightarrow> point \<Rightarrow> scene \<Rightarrow> scene" where
  "move_end (NodeEnd i) p sc = sc\<lparr> scene_nodes := dset i p (scene_nodes sc) \<rparr>"
| "move_end (ChannelEnd c) p sc = sc\<lparr> scene_channels := dset c p (scene_channels sc) \<rparr>"

text \<open>\<open>set_position\<close> of a node or channel, which redraws its links.\<close>

definition set_end_position :: "endpoint \<Rightarrow> point \<Rightarrow> scene \<Rightarrow> scene" where
  "set_end_position e p sc =
     (let sc1 = move_end e p sc in
      sc1\<lparr> scene_links := map (\<lambda>l. if touches e l then update_points sc1 l else l) (scene_links sc1) \<rparr>)"

section \<open>Scanning the network\<close>

record device =
  device_kind :: string
  device_channel :: nat

record net_node =
  mobility :: "point option"
  devices :: "device list"

record graph =
  graph_nodes :: "string list"
  graph_edges :: "(string \<times> string) list"

definition node_name :: "nat \<Rightarrow> string" where
  "node_name i = ''Node '' @ nat_str i"

definition channel_name :: "nat \<Rightarrow> string" where
  "channel_name c = ''Channel '' @ nat_str c"

definition add_node_name :: "string \<Rightarrow> graph \<Rightarrow> graph" where
  "add_node_name n g = (if n \<in> set (graph_nodes g) then g else g\<lparr> graph_nodes := graph_nodes g @ [n] \<rparr>)"

definition add_edge :: "string \<Rightarrow> string \<Rightarrow> graph \<Rightarrow> graph" where
  "add_edge a b g = (let g1 = add_node_name b (add_node_name a g) in g1\<lparr> graph_edges := graph_edges g1 @ [(a, b)] \<rparr>)"

definition REPRESENT_CHANNELS_AS_NODES :: bool where
  "REPRESENT_CHANNELS_AS_NODES = True"

definition has_mobility :: "net_node list \<Rightarrow> nat \<Rightarrow> bool" where
  "has_mobility net i \<longleftrightarrow> i < length net \<and> mobility (net ! i) \<noteq> None"

definition link_other :: "net_node list \<Rightarrow> nat \<Rightarrow> scene \<times> graph \<Rightarrow> nat \<Rightarrow> scene \<times> graph" where
  "link_other net i st other =
     (let sc = get_node_view other (fst st) in
      if other \<noteq> i
      then (create_link i (NodeEnd other) sc,
            if \<not> has_mobility net i \<and> \<not> has_mobility net other then add_edge (node_name i) (node_name other) (snd st) else snd st)
      else (sc, snd st))"

text \<open>\<open>members\<close> gives the nodes of the devices on a channel, one for each device.\<close>

definition scan_device :: "(nat \<Rightarrow> nat list) \<Rightarrow> net_node list \<Rightarrow> nat \<Rightarrow> scene \<times> graph \<Rightarrow> device \<Rightarrow> scene \<times> graph" where
  "scan_device members net i st d =
     (let t = fst (lookup_netdevice_traits netdevice_traits (device_kind d)); c = device_channel d in
      if is_wireless t = Some True then st
      else if is_virtual t then st
      else if length (members c) > 2 then
        if REPRESENT_CHANNELS_AS_NODES
        then (create_link i (ChannelEnd c) (get_channel_view c (fst st)),
              if \<not> has_mobility net i then add_edge (node_name i) (channel_name c) (snd st) else snd st)
        else foldl (link_other net i) st (members c)
      else foldl (link_other net i) st (members c))"

definition scan_node :: "(nat \<Rightarrow> nat list) \<Rightarrow> net_node list \<Rightarrow> scene \<times> graph \<Rightarrow> nat \<Rightarrow> scene \<times> graph" where
  "scan_node members net st i =
     (let sc = get_node_view i (fst st);
          st1 = (case mobility (net ! i) of
                   Some p \<Rightarrow> (set_end_position (NodeEnd i) (point_to_canvas p) sc, snd st)
                 | None \<Rightarrow> (sc, add_node_name (node_name i) (snd st)))
      in foldl (scan_device members net i) st1 (devices (net ! i)))"

definition scan_nodes :: "(nat \<Rightarrow> nat list) \<Rightarrow> net_node list \<Rightarrow> scene \<times> graph" where
  "scan_nodes members net =
     foldl (scan_node members net)
       (\<lparr> scene_nodes = [], scene_channels = [], scene_links = [] \<rparr>, \<lparr> graph_nodes = [], graph_edges = [] \<rparr>)
       [0 ..< length net]"

text \<open>What a name in the graph stands for. With another type of node the name of before is used again.\<close>

definition py_digits :: "string \<Rightarrow> nat res" where
  "py_digits s = (if s \<noteq> [] \<and> list_all is_digit s then Inr (str_nat s) else Inl ValueError)"

definition known_end :: "scene \<Rightarrow> endpoint \<Rightarrow> endpoint res" where
  "known_end sc e = (if end_lookup sc e = None then Inl KeyError else Inr e)"

definition named_end :: "scene \<Rightarrow> endpoint option \<Rightarrow> string \<Rightarrow> endpoint res" where
  "named_end sc before name =
     (case split_on (CHR '' '') name of
        [kind, number] \<Rightarrow>
          if kind = ''Node'' then rbind (py_digits number) (\<lambda>i. known_end sc (NodeEnd i))
          else if kind = ''Channel'' then rbind (py_digits number) (\<lambda>c. known_end sc (ChannelEnd c))
          else (case before of None \<Rightarrow> Inl UnboundLocalError | Some e \<Rightarrow> Inr e)
      | _ \<Rightarrow> Inl ValueError)"

definition place_named :: "endpoint option \<times> scene \<Rightarrow> string \<times> point \<Rightarrow> (endpoint option \<times> scene) res" where
  "place_named st entry =
     rbind (named_end (snd st) (fst st) (fst entry)) (\<lambda>e. Inr (Some e, set_end_position e (snd entry) (snd st)))"

text \<open>\<open>layout\<close> is the layout program: the names of the nodes of the graph with their positions.\<close>

definition scan_topology :: "(nat \<Rightarrow> nat list) \<Rightarrow> (graph \<Rightarrow> (string \<times> point) list) \<Rightarrow> net_node list \<Rightarrow> scene res" where
  "scan_topology members layout net =
     (let (sc, g) = scan_nodes members net in
      rbind (rfold place_named (None, sc) (layout g)) (\<lambda>st. Inr (snd st)))"

section \<open>Lines end where the nodes are\<close>

definition link_ok :: "scene \<Rightarrow> link \<Rightarrow> bool" where
  "link_ok sc l \<longleftrightarrow>
     (case link_path l of
        None \<Rightarrow> True
      | Some path \<Rightarrow> path = (end_position sc (NodeEnd (link_from l)), end_position sc (link_to l)))"

definition lines_ok :: "scene \<Rightarrow> bool" where
  "lines_ok sc \<longleftrightarrow> (\<forall>l \<in> set (scene_links sc). link_ok sc l)"

text \<open>A link without its line.\<close>

definition pair_of :: "link \<Rightarrow> nat \<times> endpoint" where
  "pair_of l = (link_from l, link_to l)"

lemma end_lookup_move [simp]:
  "end_lookup (move_end e p sc) e' = (if e' = e then Some p else end_lookup sc e')"
  by (cases e; cases e') (auto simp: dget_dset)

lemma end_lookup_links [simp]: "end_lookup (sc\<lparr> scene_links := ls \<rparr>) e = end_lookup sc e"
  by (cases e) simp_all

lemma end_position_links [simp]: "end_position (sc\<lparr> scene_links := ls \<rparr>) e = end_position sc e"
  by (simp add: end_position_def)

lemma end_lookup_set [simp]:
  "end_lookup (set_end_position e p sc) e' = (if e' = e then Some p else end_lookup sc e')"
  by (simp add: set_end_position_def Let_def)

lemma end_position_move [simp]:
  "end_position (move_end e p sc) e' = (if e' = e then p else end_position sc e')"
  by (simp add: end_position_def)

lemma links_move [simp]: "scene_links (move_end e p sc) = scene_links sc"
  by (cases e) simp_all

lemma pairs_set [simp]: "map pair_of (scene_links (set_end_position e p sc)) = map pair_of (scene_links sc)"
  by (simp add: set_end_position_def Let_def comp_def pair_of_def update_points_def if_distrib cong: if_cong)

lemma link_ok_same: "(\<And>e. end_position sc' e = end_position sc e) \<Longrightarrow> link_ok sc' l = link_ok sc l"
  by (auto simp: link_ok_def split: option.split)

lemma set_end_position_lines:
  assumes "lines_ok sc"
  shows "lines_ok (set_end_position e p sc)"
proof -
  let ?sc = "move_end e p sc"
  have moved: "link_ok ?sc (if touches e l then update_points ?sc l else l)" if "link_ok sc l" for l
  proof (cases "touches e l")
    case True
    then show ?thesis by (simp add: link_ok_def update_points_def)
  next
    case False
    then have "end_position ?sc (NodeEnd (link_from l)) = end_position sc (NodeEnd (link_from l))"
        "end_position ?sc (link_to l) = end_position sc (link_to l)"
      by (auto simp: touches_def)
    with False that show ?thesis by (auto simp: link_ok_def split: option.splits)
  qed
  have "scene_links (set_end_position e p sc) = map (\<lambda>l. if touches e l then update_points ?sc l else l) (scene_links sc)"
    by (simp add: set_end_position_def Let_def)
  then have "\<forall>l \<in> set (scene_links (set_end_position e p sc)). link_ok ?sc l"
    using assms moved unfolding lines_ok_def by (simp only: set_map ball_simps) blast
  moreover have "link_ok (set_end_position e p sc) l = link_ok ?sc l" for l
    by (rule link_ok_same) (simp add: set_end_position_def Let_def)
  ultimately show ?thesis by (simp add: lines_ok_def)
qed

text \<open>Nodes and channels are only added.\<close>

definition grows :: "scene \<Rightarrow> scene \<Rightarrow> bool" where
  "grows sc sc' \<longleftrightarrow> (\<forall>e p. end_lookup sc e = Some p \<longrightarrow> end_lookup sc' e = Some p) \<and>
     (\<forall>e. end_position sc' e = end_position sc e)"

lemma grows_refl [simp]: "grows sc sc"
  by (simp add: grows_def)

lemma grows_trans: "grows sc sc' \<Longrightarrow> grows sc' sc'' \<Longrightarrow> grows sc sc''"
  by (auto simp: grows_def)

lemma get_node_view_lookup [simp]:
  "end_lookup (get_node_view i sc) e = (if e = NodeEnd i \<and> end_lookup sc e = None then Some (0, 0) else end_lookup sc e)"
  by (cases e) (auto simp: get_node_view_def dget_dset split: option.splits)

lemma get_channel_view_lookup [simp]:
  "end_lookup (get_channel_view c sc) e = (if e = ChannelEnd c \<and> end_lookup sc e = None then Some (0, 0) else end_lookup sc e)"
  by (cases e) (auto simp: get_channel_view_def dget_dset split: option.splits)

lemma create_link_lookup [simp]: "end_lookup (create_link i e sc) e' = end_lookup sc e'"
  by (simp add: create_link_def)

declare end_lookup.simps [simp del]

lemma new_views [simp]:
  "scene_links (get_node_view i sc) = scene_links sc" "scene_links (get_channel_view c sc) = scene_links sc"
  "map pair_of (scene_links (create_link i e sc)) = map pair_of (scene_links sc) @ [(i, e)]"
  by (simp_all add: get_node_view_def get_channel_view_def create_link_def pair_of_def split: option.split)

lemma views_grow:
  "grows sc (get_node_view i sc)" "grows sc (get_channel_view c sc)" "grows sc (create_link i e sc)"
  by (auto simp: grows_def end_position_def split: option.splits)

lemma views_lines:
  "lines_ok sc \<Longrightarrow> lines_ok (get_node_view i sc)" "lines_ok sc \<Longrightarrow> lines_ok (get_channel_view c sc)"
  "lines_ok sc \<Longrightarrow> lines_ok (create_link i e sc)"
proof -
  assume ok: "lines_ok sc"
  have same: "link_ok sc' l = link_ok sc l" if "grows sc sc'" for sc' l
    using that by (intro link_ok_same) (simp add: grows_def)
  show "lines_ok (get_node_view i sc)" "lines_ok (get_channel_view c sc)"
    using ok by (simp_all add: lines_ok_def same [OF views_grow(1)] same [OF views_grow(2)])
  have "link_ok sc' \<lparr> link_from = i, link_to = e, link_path = None \<rparr>" for sc'
    by (simp add: link_ok_def)
  then show "lines_ok (create_link i e sc)"
    using ok by (auto simp: lines_ok_def same [OF views_grow(3)]) (auto simp: create_link_def)
qed

section \<open>What a scan finds\<close>

definition wired :: "device \<Rightarrow> bool" where
  "wired d \<longleftrightarrow> (let t = fst (lookup_netdevice_traits netdevice_traits (device_kind d)) in
     is_wireless t \<noteq> Some True \<and> \<not> is_virtual t)"

text \<open>The links of one device, and the names that its node gets into the graph with.\<close>

definition device_links :: "(nat \<Rightarrow> nat list) \<Rightarrow> nat \<Rightarrow> device \<Rightarrow> (nat \<times> endpoint) list" where
  "device_links members i d =
     (if \<not> wired d then []
      else if length (members (device_channel d)) > 2 then [(i, ChannelEnd (device_channel d))]
      else map (\<lambda>j. (i, NodeEnd j)) (filter (\<lambda>j. j \<noteq> i) (members (device_channel d))))"

fun end_name :: "endpoint \<Rightarrow> string" where
  "end_name (NodeEnd j) = node_name j"
| "end_name (ChannelEnd c) = channel_name c"

fun end_mobile :: "net_node list \<Rightarrow> endpoint \<Rightarrow> bool" where
  "end_mobile net (NodeEnd j) = has_mobility net j"
| "end_mobile net (ChannelEnd c) = False"

definition names_of :: "net_node list \<Rightarrow> (nat \<times> endpoint) list \<Rightarrow> string set" where
  "names_of net ls =
     {n. \<exists>(i, e) \<in> set ls. \<not> has_mobility net i \<and> \<not> end_mobile net e \<and> (n = node_name i \<or> n = end_name e)}"

lemma names_of_append [simp]: "names_of net (xs @ ys) = names_of net xs \<union> names_of net ys"
  by (auto simp: names_of_def)

lemma names_of_Nil [simp]: "names_of net [] = {}"
  by (simp add: names_of_def)

lemma set_add_edge [simp]:
  "set (graph_nodes (add_edge a b g)) = set (graph_nodes g) \<union> {a, b}"
  "set (graph_nodes (add_node_name n g)) = set (graph_nodes g) \<union> {n}"
  by (auto simp: add_edge_def add_node_name_def Let_def)

text \<open>What a step of the scan does, for the links that it adds.\<close>

definition scanned :: "net_node list \<Rightarrow> (nat \<times> endpoint) list \<Rightarrow> scene \<times> graph \<Rightarrow> scene \<times> graph \<Rightarrow> bool" where
  "scanned net ls st st' \<longleftrightarrow> grows (fst st) (fst st') \<and> (lines_ok (fst st) \<longrightarrow> lines_ok (fst st')) \<and>
     map pair_of (scene_links (fst st')) = map pair_of (scene_links (fst st)) @ ls \<and>
     set (graph_nodes (snd st')) = set (graph_nodes (snd st)) \<union> names_of net ls \<and>
     snd ` set ls \<subseteq> dom (end_lookup (fst st'))"

lemma scanned_Nil: "scanned net [] st st"
  by (simp add: scanned_def)

lemma scanned_trans:
  assumes "scanned net ls st st'" "scanned net ls' st' st''"
  shows "scanned net (ls @ ls') st st''"
proof -
  have "dom (end_lookup (fst st')) \<subseteq> dom (end_lookup (fst st''))"
    using assms(2) unfolding scanned_def grows_def by blast
  then have "snd ` set (ls @ ls') \<subseteq> dom (end_lookup (fst st''))"
    using assms unfolding scanned_def set_append image_Un by blast
  moreover have "grows (fst st) (fst st'')" using assms unfolding scanned_def by (blast intro: grows_trans)
  ultimately show ?thesis using assms unfolding scanned_def by (simp add: Un_assoc)
qed

lemma scanned_foldl:
  assumes "\<And>st x. scanned net (ls x) st (f st x)"
  shows "scanned net (concat (map ls xs)) st (foldl f st xs)"
proof (induction xs arbitrary: st)
  case (Cons x xs)
  from scanned_trans [OF assms [of x st] Cons.IH] show ?case by simp
qed (simp add: scanned_Nil)

lemma scanned_link_other: "scanned net (if other = i then [] else [(i, NodeEnd other)]) st (link_other net i st other)"
  by (auto simp: scanned_def link_other_def Let_def names_of_def intro: views_lines views_grow
      grows_trans [OF views_grow(1) views_grow(3)])

lemma concat_singles: "concat (map (\<lambda>x. if P x then [] else [f x]) xs) = map f (filter (\<lambda>x. \<not> P x) xs)"
  by (induction xs) auto

lemma scanned_device: "scanned net (device_links members i d) st (scan_device members net i st d)"
proof -
  have others: "scanned net (map (\<lambda>j. (i, NodeEnd j)) (filter (\<lambda>j. j \<noteq> i) js)) st (foldl (link_other net i) st js)" for js
    using scanned_foldl [where ls = "\<lambda>j. if j = i then [] else [(i, NodeEnd j)]", OF scanned_link_other, of net js st]
    by (simp add: concat_singles)
  show ?thesis
  proof (cases "wired d \<and> length (members (device_channel d)) > 2")
    case True
    then show ?thesis
      by (auto simp: scan_device_def device_links_def wired_def Let_def REPRESENT_CHANNELS_AS_NODES_def scanned_def names_of_def
          intro: views_lines grows_trans [OF views_grow(2) views_grow(3)])
  next
    case False
    with others [of "members (device_channel d)"] show ?thesis
      by (auto simp: scan_device_def device_links_def wired_def Let_def scanned_Nil)
  qed
qed

definition node_links :: "(nat \<Rightarrow> nat list) \<Rightarrow> net_node list \<Rightarrow> nat \<Rightarrow> (nat \<times> endpoint) list" where
  "node_links members net i = concat (map (device_links members i) (devices (net ! i)))"

definition all_links :: "(nat \<Rightarrow> nat list) \<Rightarrow> net_node list \<Rightarrow> nat \<Rightarrow> (nat \<times> endpoint) list" where
  "all_links members net k = concat (map (node_links members net) [0 ..< k])"

definition scan_inv :: "(nat \<Rightarrow> nat list) \<Rightarrow> net_node list \<Rightarrow> nat \<Rightarrow> scene \<times> graph \<Rightarrow> bool" where
  "scan_inv members net k st \<longleftrightarrow> lines_ok (fst st) \<and>
     map pair_of (scene_links (fst st)) = all_links members net k \<and>
     set (graph_nodes (snd st)) = {node_name i | i. i < k \<and> \<not> has_mobility net i} \<union> names_of net (all_links members net k) \<and>
     (\<forall>i < k. end_lookup (fst st) (NodeEnd i) \<noteq> None) \<and>
     (\<forall>i < k. \<forall>p. mobility (net ! i) = Some p \<longrightarrow> end_lookup (fst st) (NodeEnd i) = Some (point_to_canvas p)) \<and>
     snd ` set (all_links members net k) \<subseteq> dom (end_lookup (fst st))"

lemma scan_inv_node:
  assumes inv: "scan_inv members net k st" and k: "k < length net"
  shows "scan_inv members net (Suc k) (scan_node members net st k)"
proof -
  define sc where "sc = get_node_view k (fst st)"
  define st1 where "st1 = (case mobility (net ! k) of
      Some p \<Rightarrow> (set_end_position (NodeEnd k) (point_to_canvas p) sc, snd st)
    | None \<Rightarrow> (sc, add_node_name (node_name k) (snd st)))"
  have st': "scan_node members net st k = foldl (scan_device members net k) st1 (devices (net ! k))"
    by (simp only: scan_node_def st1_def sc_def Let_def)
  have lines: "lines_ok (fst st1)" using inv
    by (auto simp: st1_def sc_def scan_inv_def intro: set_end_position_lines views_lines split: option.split)
  have pairs: "map pair_of (scene_links (fst st1)) = all_links members net k" using inv
    by (simp add: st1_def sc_def scan_inv_def split: option.split)
  have names: "set (graph_nodes (snd st1)) =
      {node_name i | i. i < Suc k \<and> \<not> has_mobility net i} \<union> names_of net (all_links members net k)"
    using inv k by (auto simp: st1_def scan_inv_def has_mobility_def less_Suc_eq split: option.split)
  have known: "end_lookup (fst st1) e = (if e = NodeEnd k
      then Some (case mobility (net ! k) of Some p \<Rightarrow> point_to_canvas p | None \<Rightarrow> end_position (fst st) (NodeEnd k))
      else end_lookup (fst st) e)" for e
    by (auto simp: st1_def sc_def end_position_def split: option.split)
  have devs: "scanned net (node_links members net k) st1 (scan_node members net st k)"
    unfolding st' node_links_def by (rule scanned_foldl) (rule scanned_device)
  have all: "all_links members net (Suc k) = all_links members net k @ node_links members net k"
    by (simp add: all_links_def)
  have grown: "end_lookup (fst (scan_node members net st k)) e = Some p" if "end_lookup (fst st1) e = Some p" for e p
    using devs that unfolding scanned_def grows_def by blast
  have "end_lookup (fst (scan_node members net st k)) (NodeEnd i) \<noteq> None" if "i < Suc k" for i
  proof -
    have "end_lookup (fst st1) (NodeEnd i) \<noteq> None" using that inv unfolding known by (auto simp: scan_inv_def less_Suc_eq)
    then show ?thesis using grown by blast
  qed
  moreover have "end_lookup (fst (scan_node members net st k)) (NodeEnd i) = Some (point_to_canvas p)"
    if "i < Suc k" "mobility (net ! i) = Some p" for i p
    using that inv by (intro grown, cases p) (auto simp: known scan_inv_def less_Suc_eq)
  moreover have "dom (end_lookup (fst st)) \<subseteq> dom (end_lookup (fst st1))" by (auto simp: known split: if_splits)
  then have "dom (end_lookup (fst st)) \<subseteq> dom (end_lookup (fst (scan_node members net st k)))" using grown by blast
  then have "snd ` set (all_links members net (Suc k)) \<subseteq> dom (end_lookup (fst (scan_node members net st k)))"
  proof -
    assume "dom (end_lookup (fst st)) \<subseteq> dom (end_lookup (fst (scan_node members net st k)))"
    moreover have "snd ` set (all_links members net k) \<subseteq> dom (end_lookup (fst st))" using inv by (simp add: scan_inv_def)
    ultimately have "snd ` set (all_links members net k) \<subseteq> dom (end_lookup (fst (scan_node members net st k)))"
      by (rule subset_trans [rotated])
    moreover have "snd ` set (node_links members net k) \<subseteq> dom (end_lookup (fst (scan_node members net st k)))"
      using devs by (simp add: scanned_def)
    ultimately show ?thesis by (simp add: all image_Un)
  qed
  ultimately show ?thesis
    using devs lines pairs names unfolding scan_inv_def by (simp add: scanned_def all Un_assoc)
qed

lemma scan_nodes_inv: "scan_inv members net (length net) (scan_nodes members net)"
proof -
  have "scan_inv members net k (foldl (scan_node members net)
      (\<lparr> scene_nodes = [], scene_channels = [], scene_links = [] \<rparr>, \<lparr> graph_nodes = [], graph_edges = [] \<rparr>) [0 ..< k])"
    if "k \<le> length net" for k
    using that
  proof (induction k)
    case 0
    show ?case by (simp add: scan_inv_def lines_ok_def all_links_def)
  next
    case (Suc k)
    then show ?case using scan_inv_node [of members net k] by simp
  qed
  then show ?thesis by (simp add: scan_nodes_def)
qed

section \<open>The positions of the layout\<close>

lemma digits_no_blank: "CHR '' '' \<notin> set (nat_str i)"
  using nat_str_digits [of i] by (auto simp: is_digit_def of_char_def)

lemma split_name: "split_on (CHR '' '') (kind @ '' '' @ nat_str i) = [kind, nat_str i]" if "CHR '' '' \<notin> set kind"
  using that digits_no_blank [of i] by (simp add: split_on_append split_on_no_sep)

lemma py_digits_nat_str: "py_digits (nat_str i) = Inr i"
  using nat_str_digits [of i] by (simp add: py_digits_def list_all_iff)

lemma named_end_name: "end_lookup sc e \<noteq> None \<Longrightarrow> named_end sc before (end_name e) = Inr e"
proof (cases e)
  case (NodeEnd i)
  assume "end_lookup sc e \<noteq> None"
  with NodeEnd split_name [of "''Node''" i] show ?thesis
    by (simp add: named_end_def node_name_def py_digits_nat_str known_end_def)
next
  case (ChannelEnd c)
  assume "end_lookup sc e \<noteq> None"
  with ChannelEnd split_name [of "''Channel''" c] show ?thesis
    by (simp add: named_end_def channel_name_def py_digits_nat_str known_end_def)
qed

lemma end_name_inject: "end_name e = end_name e' \<longleftrightarrow> e = e'"
proof
  assume eq: "end_name e = end_name e'"
  define sc where "sc = \<lparr> scene_nodes = [], scene_channels = [], scene_links = [] \<rparr>"
  let ?sc = "move_end e (0, 0) (move_end e' (0, 0) sc)"
  have "named_end ?sc None (end_name e) = Inr e" "named_end ?sc None (end_name e') = Inr e'"
    by (rule named_end_name, simp)+
  with eq show "e = e'" by (metis sum.inject(2))
qed simp

lemma place_all_named:
  assumes "\<forall>n \<in> set (map fst entries). \<exists>e. n = end_name e \<and> end_lookup sc e \<noteq> None" "lines_ok sc"
    and "distinct (map fst entries)"
  shows "\<exists>before' sc'. rfold place_named (before, sc) entries = Inr (before', sc') \<and> lines_ok sc' \<and>
    map pair_of (scene_links sc') = map pair_of (scene_links sc) \<and>
    (\<forall>e. end_lookup sc' e = (case map_of entries (end_name e) of Some p \<Rightarrow> Some p | None \<Rightarrow> end_lookup sc e))"
  using assms
proof (induction entries arbitrary: before sc)
  case (Cons entry entries)
  obtain n p where entry: "entry = (n, p)" by (cases entry)
  then have "n \<in> set (map fst (entry # entries))" by simp
  with Cons.prems(1) obtain e where e: "n = end_name e" "end_lookup sc e \<noteq> None" by blast
  let ?sc = "set_end_position e p sc"
  have step: "place_named (before, sc) entry = Inr (Some e, ?sc)"
    by (simp add: place_named_def entry e named_end_name)
  have "\<forall>m \<in> set (map fst entries). \<exists>e'. m = end_name e' \<and> end_lookup ?sc e' \<noteq> None"
  proof
    fix m assume "m \<in> set (map fst entries)"
    then have "m \<in> set (map fst (entry # entries))" by simp
    with Cons.prems(1) obtain e' where "m = end_name e'" "end_lookup sc e' \<noteq> None" by blast
    then have "m = end_name e' \<and> end_lookup ?sc e' \<noteq> None" by simp
    then show "\<exists>e'. m = end_name e' \<and> end_lookup ?sc e' \<noteq> None" by blast
  qed
  with Cons.prems(2,3) Cons.IH [of ?sc "Some e"] set_end_position_lines obtain before' sc' where
    rest: "rfold place_named (Some e, ?sc) entries = Inr (before', sc')" "lines_ok sc'"
      "map pair_of (scene_links sc') = map pair_of (scene_links ?sc)"
      "\<forall>e'. end_lookup sc' e' = (case map_of entries (end_name e') of Some q \<Rightarrow> Some q | None \<Rightarrow> end_lookup ?sc e')"
    by auto
  have "map_of entries (end_name e) = None" using Cons.prems(3) by (simp add: entry e map_of_eq_None_iff)
  with rest show ?case
    by (intro exI [of _ before'] exI [of _ sc'])
      (auto simp: step [unfolded entry e(1)] entry e(1) end_name_inject split: option.split)
qed simp

text \<open>The names in the graph are those of what is on the scene, and of no node that has a position of its own.\<close>

lemma graph_ends:
  assumes inv: "scan_inv members net (length net) (sc, g)"
  shows "\<forall>n \<in> set (graph_nodes g). \<exists>e. n = end_name e \<and> end_lookup sc e \<noteq> None"
proof
  fix n assume "n \<in> set (graph_nodes g)"
  with inv consider k where "k < length net" "n = end_name (NodeEnd k)"
    | k e where "(k, e) \<in> set (all_links members net (length net))" "n = end_name (NodeEnd k) \<or> n = end_name e"
    by (auto simp: scan_inv_def names_of_def)
  then show "\<exists>e. n = end_name e \<and> end_lookup sc e \<noteq> None"
  proof cases
    case (1 k)
    have "end_lookup sc (NodeEnd k) \<noteq> None" using inv 1(1) by (simp add: scan_inv_def)
    with 1(2) show ?thesis by blast
  next
    case (2 k e)
    have "k < length net" using 2(1) by (auto simp: all_links_def node_links_def device_links_def split: if_splits)
    then have "end_lookup sc (NodeEnd k) \<noteq> None" using inv by (simp add: scan_inv_def)
    moreover have "snd ` set (all_links members net (length net)) \<subseteq> dom (end_lookup sc)" using inv by (simp add: scan_inv_def)
    then have "end_lookup sc e \<noteq> None" using image_eqI [OF _ 2(1), of e snd] by auto
    ultimately show ?thesis using 2(2) by blast
  qed
qed

lemma graph_without_mobile:
  assumes "scan_inv members net (length net) (sc, g)" "i < length net"
  shows "node_name i \<in> set (graph_nodes g) \<longleftrightarrow> \<not> has_mobility net i"
proof -
  have same: "node_name i = node_name j \<longleftrightarrow> i = j" "node_name i = end_name e \<longleftrightarrow> e = NodeEnd i" for j e
    using end_name_inject [of "NodeEnd i" "NodeEnd j"] end_name_inject [of "NodeEnd i" e] by auto
  then have "node_name i \<notin> names_of net ls" if "has_mobility net i" for ls
    using that by (auto simp: names_of_def)
  moreover have "set (graph_nodes g) = {node_name i | i. i < length net \<and> \<not> has_mobility net i} \<union>
      names_of net (all_links members net (length net))"
    using assms(1) by (simp add: scan_inv_def)
  ultimately show ?thesis using assms(2) by (auto simp: same)
qed

lemma layout_placed:
  assumes inv: "scan_inv members net (length net) (sc, g)"
    and layout: "distinct (map fst entries)" "set (map fst entries) = set (graph_nodes g)"
  shows "\<exists>before sc'. rfold place_named (None, sc) entries = Inr (before, sc') \<and> lines_ok sc' \<and>
    map pair_of (scene_links sc') = all_links members net (length net) \<and>
    (\<forall>e. end_lookup sc' e = (case map_of entries (end_name e) of Some p \<Rightarrow> Some p | None \<Rightarrow> end_lookup sc e))"
proof -
  have "\<forall>n \<in> set (map fst entries). \<exists>e. n = end_name e \<and> end_lookup sc e \<noteq> None"
    using graph_ends [OF inv] layout(2) by blast
  moreover have "lines_ok sc" "map pair_of (scene_links sc) = all_links members net (length net)"
    using inv by (simp_all add: scan_inv_def)
  ultimately show ?thesis using place_all_named [OF _ _ layout(1), of sc None] by metis
qed


text \<open>
  A network of three nodes: the first two are connected directly, and all are on a bus of three devices; the last one
  moves. The direct connection is drawn twice, once from each side.
\<close>

definition demo_net :: "net_node list" where
  "demo_net =
     [\<lparr> mobility = None, devices = [\<lparr> device_kind = ''PointToPointNetDevice'', device_channel = 0 \<rparr>,
          \<lparr> device_kind = ''CsmaNetDevice'', device_channel = 1 \<rparr>] \<rparr>,
      \<lparr> mobility = None, devices = [\<lparr> device_kind = ''PointToPointNetDevice'', device_channel = 0 \<rparr>,
          \<lparr> device_kind = ''CsmaNetDevice'', device_channel = 1 \<rparr>] \<rparr>,
      \<lparr> mobility = Some (10, 20), devices = [\<lparr> device_kind = ''CsmaNetDevice'', device_channel = 1 \<rparr>,
          \<lparr> device_kind = ''WifiNetDevice'', device_channel = 2 \<rparr>] \<rparr>]"

definition demo_members :: "nat \<Rightarrow> nat list" where
  "demo_members c = (if c = 0 then [0, 1] else if c = 1 then [0, 1, 2] else [2])"

lemma demo_links:
  "all_links demo_members demo_net 3 =
    [(0, NodeEnd 1), (0, ChannelEnd 1), (1, NodeEnd 0), (1, ChannelEnd 1), (2, ChannelEnd 1)]"
  by (simp add: all_links_def node_links_def demo_net_def demo_members_def device_links_def wired_def Let_def
      lookup_netdevice_traits_def netdevice_traits_def upt_rec)

definition on_a_line :: "graph \<Rightarrow> (string \<times> point) list" where
  "on_a_line g = map (\<lambda>n. (n, (0, 0))) (remdups (graph_nodes g))"


section \<open>Moving nodes\<close>

text \<open>
  \<open>_update_node_positions\<close>: every node with a mobility model is moved to where that says. The view follows one node,
  by centring the window on it; \<open>to_pixels\<close> is the conversion of the canvas.
\<close>

definition centre_window :: "(point \<Rightarrow> point) \<Rightarrow> point \<Rightarrow> point \<Rightarrow> point" where
  "centre_window to_pixels page p = (fst (to_pixels p) - fst page / 2, snd (to_pixels p) - snd page / 2)"

definition update_node :: "(nat \<Rightarrow> point option) \<Rightarrow> (point \<Rightarrow> point) \<Rightarrow> point \<Rightarrow> nat option \<Rightarrow> scene \<times> point \<Rightarrow> nat \<Rightarrow> scene \<times> point" where
  "update_node place to_pixels page follow st i =
     (case place i of
        None \<Rightarrow> st
      | Some p \<Rightarrow>
          (set_end_position (NodeEnd i) (point_to_canvas p) (fst st),
           if follow = Some i then centre_window to_pixels page (point_to_canvas p) else snd st))"

definition update_node_positions ::
  "(nat list \<Rightarrow> nat list) \<Rightarrow> (nat \<Rightarrow> point option) \<Rightarrow> (point \<Rightarrow> point) \<Rightarrow> point \<Rightarrow> nat option \<Rightarrow> scene \<times> point \<Rightarrow> scene \<times> point" where
  "update_node_positions perm place to_pixels page follow st =
     foldl (update_node place to_pixels page follow) st (perm (dkeys (scene_nodes (fst st))))"

lemma update_node_lines: "lines_ok (fst st) \<Longrightarrow> lines_ok (fst (update_node place to_pixels page follow st i))"
  by (simp add: update_node_def set_end_position_lines split: option.split)

lemma update_nodes_lines:
  "lines_ok (fst st) \<Longrightarrow> lines_ok (fst (foldl (update_node place to_pixels page follow) st ns))"
  by (induction ns arbitrary: st) (simp_all add: update_node_lines)

lemma update_node_lookup:
  "end_lookup (fst (update_node place to_pixels page follow st i)) (NodeEnd j) =
    (case if i = j then place j else None of None \<Rightarrow> end_lookup (fst st) (NodeEnd j) | Some p \<Rightarrow> Some (point_to_canvas p))"
  by (cases "place i") (auto simp: update_node_def)

lemma update_nodes_lookup:
  "end_lookup (fst (foldl (update_node place to_pixels page follow) st ns)) (NodeEnd j) =
    (case if j \<in> set ns then place j else None of None \<Rightarrow> end_lookup (fst st) (NodeEnd j) | Some p \<Rightarrow> Some (point_to_canvas p))"
proof (induction ns arbitrary: st)
  case (Cons i ns)
  then show ?case by (cases "place j"; cases "i = j") (simp_all add: update_node_lookup)
qed simp

text \<open>
  After an update of the view all nodes are where their mobility models say, the others where they were, and the lines
  go with them, in whatever order the nodes are taken.
\<close>

lemma update_node_positions_spec:
  assumes "key_order perm" "lines_ok (fst st)" "end_lookup (fst st) (NodeEnd j) \<noteq> None"
  shows "lines_ok (fst (update_node_positions perm place to_pixels page follow st)) \<and>
    end_lookup (fst (update_node_positions perm place to_pixels page follow st)) (NodeEnd j) =
      (case place j of None \<Rightarrow> end_lookup (fst st) (NodeEnd j) | Some p \<Rightarrow> Some (point_to_canvas p))"
proof -
  have "j \<in> set (perm (dkeys (scene_nodes (fst st))))"
    using assms(1,3) unfolding end_lookup.simps 
    by (simp add: in_dkeys_iff del: split_paired_Ex)
  then show ?thesis
    unfolding update_node_positions_def using assms(2)
    by (cases "place j") (simp_all add: update_nodes_lines update_nodes_lookup)
qed

end
