(* ===== verification/VizActions.thy ===== *)
theory VizActions
  imports VizNodes VizScene
begin

text \<open>
  What the user does with the visualizer (\<open>src/visualizer/visualizer/core.py\<close>): selecting nodes, choosing whose
  transmissions are shown, dragging nodes and the canvas, zooming, and scaling the view to the network. The
  pictures of the nodes are those of \<open>VizNodes\<close>. The conversion between pixels and the canvas at a zoom, and what the
  scroll bars make of a position, are parameters.
\<close>

section \<open>The state\<close>

datatype transmissions_mode = ShowAll | ShowNone | ShowSelected

text \<open>The handler of the motion signal that a drag connects has a number.\<close>

record node_drag =
  canvas_start :: point
  sim_start :: point
  motion_signal :: nat

record panning =
  initial_mouse_pos :: point
  initial_canvas_pos :: point
  pan_signal :: nat

text \<open>
  \<open>views\<close> has the nodes of the visualizer, \<open>places\<close> the positions of the mobility models, \<open>interest\<close> the nodes that
  the simulation was last told to watch. \<open>motion_handlers\<close> and \<open>pan_handlers\<close> are the handlers of the motion signals
  of the node items and of the canvas.
\<close>

record gui =
  views :: "(nat, node_view) dict"
  selected_node :: "nat option"
  show_mode :: transmissions_mode
  interest :: "nat list"
  places :: "(nat, point) dict"
  drag_state :: "node_drag option"
  motion_handlers :: "(nat \<times> nat) list"
  panning_state :: "panning option"
  pan_handlers :: "nat list"
  next_signal :: nat
  zoom_value :: rat
  scrolled :: point
  follow_node :: "nat option"

record gui_env =
  node_total :: nat
  to_canvas :: "rat \<Rightarrow> point \<Rightarrow> point"
  to_pixels :: "rat \<Rightarrow> point \<Rightarrow> point"
  page_extent :: point
  settle :: "point \<Rightarrow> point"

definition change_view :: "nat \<Rightarrow> (node_view \<Rightarrow> node_view) \<Rightarrow> gui \<Rightarrow> gui" where
  "change_view i f g =
     (case dget (views g) i of None \<Rightarrow> g | Some n \<Rightarrow> g\<lparr> views := dset i (f n) (views g) \<rparr>)"

definition set_selected :: "bool \<Rightarrow> node_view \<Rightarrow> node_view" where
  "set_selected b n = update_appearance (n\<lparr> node_selected := b \<rparr>)"

definition set_highlighted :: "bool \<Rightarrow> node_view \<Rightarrow> node_view" where
  "set_highlighted b n = update_appearance (n\<lparr> node_highlighted := b \<rparr>)"

definition set_size :: "rat \<Rightarrow> node_view \<Rightarrow> node_view" where
  "set_size s n = update_appearance (n\<lparr> node_extent := s \<rparr>)"

lemma single_operations:
  "node_step n (SetSelected b) = Inr (set_selected b n)" "node_step n (SetHighlighted b) = Inr (set_highlighted b n)"
  "node_step n (SetSize s) = Inr (set_size s n)" "node_step n (SetPosition p) = Inr (set_node_position p n)"
  by (simp_all add: node_step_def set_selected_def set_highlighted_def set_size_def)

section \<open>Selecting\<close>

definition set_nodes_of_interest :: "nat list \<Rightarrow> gui \<Rightarrow> gui" where
  "set_nodes_of_interest nodes g = g\<lparr> interest := nodes \<rparr>"

definition set_show_transmissions_mode :: "gui_env \<Rightarrow> transmissions_mode \<Rightarrow> gui \<Rightarrow> gui" where
  "set_show_transmissions_mode env mode g =
     (let g1 = g\<lparr> show_mode := mode \<rparr> in
      case mode of
        ShowAll \<Rightarrow> set_nodes_of_interest [0 ..< node_total env] g1
      | ShowNone \<Rightarrow> set_nodes_of_interest [] g1
      | ShowSelected \<Rightarrow>
          (case selected_node g1 of
             None \<Rightarrow> set_nodes_of_interest [] g1
           | Some i \<Rightarrow> set_nodes_of_interest [i] g1))"

definition select_view :: "nat option \<Rightarrow> gui \<Rightarrow> gui" where
  "select_view node g =
     (if node = selected_node g then g
      else
        let g1 = (case selected_node g of None \<Rightarrow> g | Some i \<Rightarrow> change_view i (set_selected False) g);
            g2 = g1\<lparr> selected_node := node \<rparr>;
            g3 = (case node of None \<Rightarrow> g2 | Some i \<Rightarrow> change_view i (set_selected True) g2)
        in if show_mode g3 = ShowSelected
           then set_nodes_of_interest (case node of None \<Rightarrow> [] | Some i \<Rightarrow> [i]) g3
           else g3)"

text \<open>The argument is a node of the simulator, a number, a node of the visualizer, \<open>None\<close>, or something else.\<close>

datatype node_arg = NetworkNode nat | NodeNumber int | ViewNode nat | NoNode | OtherArg

definition known_view :: "gui \<Rightarrow> int \<Rightarrow> nat res" where
  "known_view g k = (if 0 \<le> k \<and> dget (views g) (nat k) \<noteq> None then Inr (nat k) else Inl KeyError)"

definition select_node :: "node_arg \<Rightarrow> gui \<Rightarrow> gui res" where
  "select_node arg g =
     (case arg of
        NetworkNode i \<Rightarrow> rbind (known_view g (int i)) (\<lambda>i. Inr (select_view (Some i) g))
      | NodeNumber k \<Rightarrow> rbind (known_view g k) (\<lambda>i. Inr (select_view (Some i) g))
      | ViewNode i \<Rightarrow> Inr (select_view (Some i) g)
      | NoNode \<Rightarrow> Inr (select_view None g)
      | OtherArg \<Rightarrow> Inl TypeError)"

definition centre_on :: "gui_env \<Rightarrow> nat \<Rightarrow> gui \<Rightarrow> gui" where
  "centre_on env i g =
     (case dget (views g) i of
        None \<Rightarrow> g
      | Some n \<Rightarrow> g\<lparr> scrolled := settle env (centre_window (to_pixels env (zoom_value g)) (page_extent env) (centre n)) \<rparr>)"

definition center_on_node :: "gui_env \<Rightarrow> node_arg \<Rightarrow> gui \<Rightarrow> gui res" where
  "center_on_node env arg g =
     (case arg of
        NetworkNode i \<Rightarrow> rbind (known_view g (int i)) (\<lambda>i. Inr (centre_on env i g))
      | NodeNumber k \<Rightarrow> rbind (known_view g k) (\<lambda>i. Inr (centre_on env i g))
      | ViewNode i \<Rightarrow> Inr (centre_on env i g)
      | NoNode \<Rightarrow> Inl TypeError
      | OtherArg \<Rightarrow> Inl TypeError)"

section \<open>Dragging a node\<close>

definition begin_node_drag :: "gui_env \<Rightarrow> point \<Rightarrow> nat \<Rightarrow> gui \<Rightarrow> gui" where
  "begin_node_drag env pointer i g =
     (case dget (places g) i of
        None \<Rightarrow> g
      | Some pos \<Rightarrow>
          if drag_state g \<noteq> None then g
          else
            g\<lparr> drag_state := Some \<lparr> canvas_start = to_canvas env (zoom_value g) pointer, sim_start = pos,
                                  motion_signal = next_signal g \<rparr>,
               motion_handlers := motion_handlers g @ [(i, next_signal g)], next_signal := Suc (next_signal g) \<rparr>)"

text \<open>The value says whether the event has been handled.\<close>

definition node_drag_motion :: "gui_env \<Rightarrow> point \<Rightarrow> nat \<Rightarrow> gui \<Rightarrow> bool \<times> gui" where
  "node_drag_motion env pointer i g =
     (case dget (places g) i of
        None \<Rightarrow> (False, g)
      | Some pos \<Rightarrow>
          (case drag_state g of
             None \<Rightarrow> (False, g)
           | Some d \<Rightarrow>
               let c = to_canvas env (zoom_value g) pointer;
                   dx = fst c - fst (canvas_start d); dy = snd c - snd (canvas_start d);
                   pos' = (fst (sim_start d) + distance_to_simulation dx, snd (sim_start d) + distance_to_simulation dy)
               in (True, change_view i (set_node_position (point_to_canvas pos')) (g\<lparr> places := dset i pos' (places g) \<rparr>))))"

definition end_node_drag :: "nat \<Rightarrow> gui \<Rightarrow> gui" where
  "end_node_drag i g =
     (case drag_state g of
        None \<Rightarrow> g
      | Some d \<Rightarrow> g\<lparr> drag_state := None, motion_handlers := remove1 (i, motion_signal d) (motion_handlers g) \<rparr>)"

section \<open>Dragging and scaling the canvas\<close>

definition begin_panning :: "point \<Rightarrow> gui \<Rightarrow> gui" where
  "begin_panning pointer g =
     g\<lparr> panning_state := Some \<lparr> initial_mouse_pos = pointer, initial_canvas_pos = scrolled g, pan_signal = next_signal g \<rparr>,
        pan_handlers := pan_handlers g @ [next_signal g], next_signal := Suc (next_signal g) \<rparr>"

definition end_panning :: "gui \<Rightarrow> gui" where
  "end_panning g =
     (case panning_state g of
        None \<Rightarrow> g
      | Some p \<Rightarrow> g\<lparr> panning_state := None, pan_handlers := remove1 (pan_signal p) (pan_handlers g) \<rparr>)"

definition panning_motion :: "gui_env \<Rightarrow> point \<Rightarrow> gui \<Rightarrow> (bool \<times> gui) res" where
  "panning_motion env pointer g =
     (case panning_state g of
        None \<Rightarrow> Inl AssertionError
      | Some p \<Rightarrow>
          let dx = fst pointer - fst (initial_mouse_pos p); dy = snd pointer - snd (initial_mouse_pos p) in
          Inr (True, g\<lparr> scrolled := settle env (fst (initial_canvas_pos p) - dx, snd (initial_canvas_pos p) - dy) \<rparr>))"

text \<open>The adjustment of the zoom keeps its value between its bounds.\<close>

definition set_zoom :: "rat \<Rightarrow> gui \<Rightarrow> gui" where
  "set_zoom v g = g\<lparr> zoom_value := max (1 / 100) (min 10 v) \<rparr>"

definition canvas_scroll_event :: "bool \<Rightarrow> gui \<Rightarrow> gui" where
  "canvas_scroll_event up g = set_zoom (if up then zoom_value g * (5 / 4) else zoom_value g / (5 / 4)) g"

section \<open>Events\<close>

text \<open>
  A button is pressed on a node, or on something else, whose handler is that of the root of the canvas; what is not
  handled there comes to the handler of the canvas itself. The pointer may have moved to other items
  when the button is let go.
\<close>

datatype event_target = OnNode nat | OnOther

definition canvas_button_press :: "nat \<Rightarrow> point \<Rightarrow> gui \<Rightarrow> gui" where
  "canvas_button_press button pointer g = (if button = 2 then begin_panning pointer g else g)"

definition root_button_press :: "nat \<Rightarrow> point \<Rightarrow> gui \<Rightarrow> gui" where
  "root_button_press button pointer g = (if button = 1 then select_view None g else canvas_button_press button pointer g)"

definition button_press_event :: "gui_env \<Rightarrow> nat \<Rightarrow> event_target \<Rightarrow> point \<Rightarrow> gui \<Rightarrow> gui" where
  "button_press_event env button target pointer g =
     (case target of
        OnNode i \<Rightarrow>
          if button = 1 then select_view (Some i) g
          else if button = 3 then g
          else if button = 2 then begin_node_drag env pointer i g
          else root_button_press button pointer g
      | OnOther \<Rightarrow> root_button_press button pointer g)"

definition button_release_event :: "nat \<Rightarrow> event_target \<Rightarrow> gui \<Rightarrow> gui" where
  "button_release_event button target g =
     (case target of
        OnNode i \<Rightarrow> if button = 2 then end_node_drag i g else g
      | OnOther \<Rightarrow> if button = 2 then end_panning g else g)"

text \<open>
  The handlers of a signal are called in turn until one has handled it. One that raises an exception has not. The
  canvas comes before its items.
\<close>

fun pan_motions :: "gui_env \<Rightarrow> point \<Rightarrow> nat list \<Rightarrow> gui \<Rightarrow> bool \<times> gui" where
  "pan_motions env pointer [] g = (False, g)"
| "pan_motions env pointer (h # hs) g =
     (case panning_motion env pointer g of
        Inl e \<Rightarrow> pan_motions env pointer hs g
      | Inr (handled, g1) \<Rightarrow> if handled then (True, g1) else pan_motions env pointer hs g1)"

fun node_motions :: "gui_env \<Rightarrow> point \<Rightarrow> nat \<Rightarrow> (nat \<times> nat) list \<Rightarrow> gui \<Rightarrow> gui" where
  "node_motions env pointer i [] g = g"
| "node_motions env pointer i (h # hs) g =
     (if fst h = i
      then (case node_drag_motion env pointer i g of
              (handled, g1) \<Rightarrow> if handled then g1 else node_motions env pointer i hs g1)
      else node_motions env pointer i hs g)"

definition motion_notify_event :: "gui_env \<Rightarrow> event_target \<Rightarrow> point \<Rightarrow> gui \<Rightarrow> gui" where
  "motion_notify_event env target pointer g =
     (case pan_motions env pointer (pan_handlers g) g of
        (handled, g1) \<Rightarrow>
          if handled then g1
          else (case target of OnNode i \<Rightarrow> node_motions env pointer i (motion_handlers g1) g1 | OnOther \<Rightarrow> g1))"

definition node_size_changed :: "rat \<Rightarrow> gui \<Rightarrow> gui" where
  "node_size_changed v g = foldl (\<lambda>g i. change_view i (set_size v) g) g (dkeys (views g))"

text \<open>A number is no node of the visualizer, so following it is following none.\<close>

definition set_follow_node :: "node_arg \<Rightarrow> gui \<Rightarrow> gui res" where
  "set_follow_node arg g =
     (case arg of
        NetworkNode i \<Rightarrow> rbind (known_view g (int i)) (\<lambda>i. Inr (g\<lparr> follow_node := Some i \<rparr>))
      | ViewNode i \<Rightarrow> Inr (g\<lparr> follow_node := Some i \<rparr>)
      | _ \<Rightarrow> Inr (g\<lparr> follow_node := None \<rparr>))"

definition update_one_position :: "gui_env \<Rightarrow> gui \<Rightarrow> nat \<Rightarrow> gui" where
  "update_one_position env g i =
     (case dget (places g) i of
        None \<Rightarrow> g
      | Some pos \<Rightarrow>
          let g1 = change_view i (set_node_position (point_to_canvas pos)) g in
          if follow_node g = Some i
          then g1\<lparr> scrolled := settle env (centre_window (to_pixels env (zoom_value g)) (page_extent env) (point_to_canvas pos)) \<rparr>
          else g1)"

definition update_positions :: "gui_env \<Rightarrow> gui \<Rightarrow> gui" where
  "update_positions env g = foldl (update_one_position env) g (dkeys (views g))"

text \<open>The simulation moves nodes as well, and the view follows at its updates.\<close>

datatype user_event =
    Press nat event_target point
  | Release nat event_target
  | Motion event_target point
  | ScrollWheel bool
  | Hover nat bool
  | ChooseMode transmissions_mode
  | SelectNode node_arg
  | CenterOn node_arg
  | Follow node_arg
  | NodeSize rat
  | SimulationMoves nat point
  | ViewUpdate

definition gui_event :: "gui_env \<Rightarrow> user_event \<Rightarrow> gui \<Rightarrow> gui res" where
  "gui_event env e g =
     (case e of
        Press button target pointer \<Rightarrow> Inr (button_press_event env button target pointer g)
      | Release button target \<Rightarrow> Inr (button_release_event button target g)
      | Motion target pointer \<Rightarrow> Inr (motion_notify_event env target pointer g)
      | ScrollWheel up \<Rightarrow> Inr (canvas_scroll_event up g)
      | Hover i b \<Rightarrow> Inr (change_view i (set_highlighted b) g)
      | ChooseMode mode \<Rightarrow> Inr (set_show_transmissions_mode env mode g)
      | SelectNode arg \<Rightarrow> select_node arg g
      | CenterOn arg \<Rightarrow> center_on_node env arg g
      | Follow arg \<Rightarrow> set_follow_node arg g
      | NodeSize v \<Rightarrow> Inr (node_size_changed v g)
      | SimulationMoves i pos \<Rightarrow> Inr (if dget (places g) i = None then g else g\<lparr> places := dset i pos (places g) \<rparr>)
      | ViewUpdate \<Rightarrow> Inr (update_positions env g))"

text \<open>An exception ends the handler, which has changed nothing then; the toolkit goes on.\<close>

definition gui_step :: "gui_env \<Rightarrow> gui \<Rightarrow> user_event \<Rightarrow> gui" where
  "gui_step env g e = (case gui_event env e g of Inl err \<Rightarrow> g | Inr g' \<Rightarrow> g')"

definition new_gui :: "gui_env \<Rightarrow> (nat, node_view) dict \<Rightarrow> (nat, point) dict \<Rightarrow> gui" where
  "new_gui env vs pl =
     set_show_transmissions_mode env ShowAll
       \<lparr> views = vs, selected_node = None, show_mode = ShowAll, interest = [], places = pl, drag_state = None,
         motion_handlers = [], panning_state = None, pan_handlers = [], next_signal = 0, zoom_value = 1,
         scrolled = (0, 0), follow_node = None \<rparr>"

section \<open>What the user sees is what is selected\<close>

definition pictures_ok :: "gui \<Rightarrow> bool" where
  "pictures_ok g \<longleftrightarrow>
     (\<forall>i n. dget (views g) i = Some n \<longrightarrow> node_ok n \<and> (node_selected n \<longleftrightarrow> selected_node g = Some i)) \<and>
     (\<forall>i. selected_node g = Some i \<longrightarrow> dget (views g) i \<noteq> None)"

definition watched :: "gui_env \<Rightarrow> gui \<Rightarrow> nat list" where
  "watched env g =
     (case show_mode g of
        ShowAll \<Rightarrow> [0 ..< node_total env]
      | ShowNone \<Rightarrow> []
      | ShowSelected \<Rightarrow> (case selected_node g of None \<Rightarrow> [] | Some i \<Rightarrow> [i]))"

definition handlers_ok :: "gui \<Rightarrow> bool" where
  "handlers_ok g \<longleftrightarrow>
     (\<forall>d. drag_state g = Some d \<longrightarrow> motion_signal d \<in> snd ` set (motion_handlers g)) \<and>
     (\<forall>p. panning_state g = Some p \<longrightarrow> pan_signal p \<in> set (pan_handlers g))"

definition gui_ok :: "gui_env \<Rightarrow> gui \<Rightarrow> bool" where
  "gui_ok env g \<longleftrightarrow> pictures_ok g \<and> interest g = watched env g \<and> handlers_ok g"

lemma dget_change_view [simp]:
  "dget (views (change_view i f g)) j = (if i = j then map_option f (dget (views g) j) else dget (views g) j)"
  by (auto simp: change_view_def dget_dset split: option.splits)

lemma change_view_keeps [simp]:
  "selected_node (change_view i f g) = selected_node g" "show_mode (change_view i f g) = show_mode g"
  "interest (change_view i f g) = interest g" "places (change_view i f g) = places g"
  "drag_state (change_view i f g) = drag_state g" "motion_handlers (change_view i f g) = motion_handlers g"
  "panning_state (change_view i f g) = panning_state g" "pan_handlers (change_view i f g) = pan_handlers g"
  "zoom_value (change_view i f g) = zoom_value g" "scrolled (change_view i f g) = scrolled g"
  "follow_node (change_view i f g) = follow_node g" "next_signal (change_view i f g) = next_signal g"
  by (simp_all add: change_view_def split: option.split)

lemma operations_selected [simp]:
  "node_selected (set_selected b n) = b" "node_selected (set_highlighted b n) = node_selected n"
  "node_selected (set_size s n) = node_selected n" "node_selected (set_node_position p n) = node_selected n"
proof -
  show pos: "node_selected (set_node_position p n) = node_selected n" for p n
    by (simp add: set_node_position_def Let_def split: option.split)
  have "node_selected (update_appearance m) = node_selected m" for m
    by (simp add: update_appearance_def Let_def update_position_def pos split: option.split)
  then show "node_selected (set_selected b n) = b" "node_selected (set_highlighted b n) = node_selected n"
      "node_selected (set_size s n) = node_selected n"
    by (simp_all add: set_selected_def set_highlighted_def set_size_def)
qed

lemma operations_ok [simp]:
  assumes "node_ok n"
  shows "node_ok (set_selected b n)" "node_ok (set_highlighted b n)" "node_ok (set_size s n)"
    "node_ok (set_node_position p n)"
  using assms single_operations node_step_ok by blast+

lemma pictures_change:
  assumes "pictures_ok g" "\<And>n. node_ok n \<Longrightarrow> node_ok (f n) \<and> node_selected (f n) = node_selected n"
  shows "pictures_ok (change_view i f g)"
  using assms by (auto simp: pictures_ok_def)

lemma select_view_ok:
  assumes "gui_ok env g" "node = None \<or> (\<exists>i. node = Some i \<and> dget (views g) i \<noteq> None)"
  shows "gui_ok env (select_view node g)"
proof (cases "node = selected_node g")
  case True
  with assms show ?thesis by (simp add: select_view_def)
next
  case False
  have "pictures_ok (select_view node g)"
    using assms False
    by (cases "selected_node g"; cases node)
      (auto simp: gui_ok_def pictures_ok_def select_view_def Let_def set_nodes_of_interest_def)
  moreover have "interest (select_view node g) = watched env (select_view node g)"
    using assms(1) False
    by (cases "selected_node g"; cases node)
      (auto simp: gui_ok_def watched_def select_view_def Let_def set_nodes_of_interest_def split: transmissions_mode.split)
  moreover have "handlers_ok (select_view node g)"
    using assms(1)
    by (cases "selected_node g"; cases node)
      (simp_all add: gui_ok_def handlers_ok_def select_view_def Let_def set_nodes_of_interest_def)
  ultimately show ?thesis by (simp add: gui_ok_def)
qed

text \<open>What the other operations leave alone, and the nodes that there are.\<close>

definition same_choice :: "gui \<Rightarrow> gui \<Rightarrow> bool" where
  "same_choice g g' \<longleftrightarrow> selected_node g' = selected_node g \<and> show_mode g' = show_mode g \<and> interest g' = interest g \<and>
     (pictures_ok g \<longrightarrow> pictures_ok g') \<and> (handlers_ok g \<longrightarrow> handlers_ok g') \<and>
     (\<forall>i. dget (views g') i = None \<longleftrightarrow> dget (views g) i = None)"

lemma same_choice_ok: "gui_ok env g \<Longrightarrow> same_choice g g' \<Longrightarrow> gui_ok env g'"
  unfolding gui_ok_def same_choice_def watched_def by simp metis

lemma same_choice_refl [simp]: "same_choice g g"
  by (simp add: same_choice_def)

lemma same_choice_trans: "same_choice g g' \<Longrightarrow> same_choice g' g'' \<Longrightarrow> same_choice g g''"
  by (simp add: same_choice_def)

lemma same_choice_foldl: "(\<And>g x. same_choice g (f g x)) \<Longrightarrow> same_choice g (foldl f g xs)"
  by (induction xs arbitrary: g) (auto intro: same_choice_trans)

lemma handlers_change_view [simp]: "handlers_ok (change_view i f g) = handlers_ok g"
  by (simp add: handlers_ok_def)

lemma same_choice_change_view:
  "(\<And>n. node_ok n \<Longrightarrow> node_ok (f n) \<and> node_selected (f n) = node_selected n) \<Longrightarrow> same_choice g (change_view i f g)"
  by (simp add: same_choice_def pictures_change)

lemma same_choice_others [simp]:
  "same_choice g (g\<lparr> places := pl \<rparr>)" "same_choice g (g\<lparr> scrolled := p \<rparr>)" "same_choice g (g\<lparr> zoom_value := z \<rparr>)"
  "same_choice g (g\<lparr> follow_node := f \<rparr>)"
  by (simp_all add: same_choice_def pictures_ok_def handlers_ok_def)

lemma same_choice_drag:
  "same_choice g (begin_node_drag env p i g)" "same_choice g (end_node_drag i g)"
  "same_choice g (begin_panning p g)" "same_choice g (end_panning g)"
  by (auto simp: same_choice_def pictures_ok_def handlers_ok_def begin_node_drag_def end_node_drag_def begin_panning_def
      end_panning_def split: option.splits)

lemma same_choice_drag_motion: "same_choice g (snd (node_drag_motion env p i g))"
  by (auto simp: node_drag_motion_def Let_def split: option.split
      intro!: same_choice_trans [OF same_choice_others(1) same_choice_change_view])

lemma same_choice_node_motions: "same_choice g (node_motions env p i hs g)"
proof (induction hs arbitrary: g)
  case (Cons h hs)
  show ?case
    using same_choice_drag_motion [of g env p i] Cons.IH
    by (auto split: prod.split intro: same_choice_trans)
qed simp

lemma same_choice_pan_motions: "same_choice g (snd (pan_motions env p hs g))"
proof (induction hs arbitrary: g)
  case (Cons h hs)
  then show ?case by (auto simp: panning_motion_def Let_def split: option.split)
qed simp

lemma same_choice_motion: "same_choice g (motion_notify_event env target p g)"
proof -
  obtain handled g1 where run: "pan_motions env p (pan_handlers g) g = (handled, g1)" by fastforce
  then have "same_choice g g1" using same_choice_pan_motions [of g env p "pan_handlers g"] by simp
  then show ?thesis
    by (auto simp: motion_notify_event_def run split: event_target.split
        intro: same_choice_trans same_choice_node_motions)
qed

lemma same_choice_update: "same_choice g (update_one_position env g i)"
proof -
  have moved: "same_choice g (change_view i (set_node_position q) g)" for q
    by (rule same_choice_change_view) simp
  show ?thesis
  proof (cases "dget (places g) i")
    case (Some pos)
    then show ?thesis
      using moved same_choice_trans [OF moved same_choice_others(2)]
      by (simp add: update_one_position_def Let_def)
  qed (simp add: update_one_position_def)
qed

lemma keys_change_view [simp]: "dget (views (change_view i f g)) j = None \<longleftrightarrow> dget (views g) j = None"
  by simp

text \<open>The events concern nodes that are there.\<close>

fun event_ok :: "gui \<Rightarrow> user_event \<Rightarrow> bool" where
  "event_ok g (Press button (OnNode i) pointer) = (dget (views g) i \<noteq> None)"
| "event_ok g (SelectNode (ViewNode i)) = (dget (views g) i \<noteq> None)"
| "event_ok g _ = True"

lemma select_view_keys [simp]: "dget (views (select_view node g)) j = None \<longleftrightarrow> dget (views g) j = None"
  by (cases "selected_node g"; cases node) (auto simp: select_view_def Let_def set_nodes_of_interest_def)

lemma set_mode_ok:
  "pictures_ok g \<Longrightarrow> handlers_ok g \<Longrightarrow> gui_ok env (set_show_transmissions_mode env mode g)"
  by (cases "selected_node g")
    (auto simp: set_show_transmissions_mode_def Let_def set_nodes_of_interest_def gui_ok_def pictures_ok_def
      handlers_ok_def watched_def split: transmissions_mode.split)

lemma set_mode_keys [simp]: "views (set_show_transmissions_mode env mode g) = views g"
  by (simp add: set_show_transmissions_mode_def Let_def set_nodes_of_interest_def split: transmissions_mode.split option.split)

lemma known_view_Inr: "known_view g k = Inr i \<Longrightarrow> dget (views g) i \<noteq> None"
  by (auto simp: known_view_def split: if_splits)

lemma button_press_cases:
  obtains "same_choice g (button_press_event env button target p g)"
    | "button = 1" "target = OnOther" "button_press_event env button target p g = select_view None g"
    | i where "button = 1" "target = OnNode i" "button_press_event env button target p g = select_view (Some i) g"
proof -
  have "same_choice g (root_button_press button p g) \<or> button = 1 \<and> root_button_press button p g = select_view None g"
    by (simp add: root_button_press_def canvas_button_press_def same_choice_drag)
  then show thesis
    using that
    by (cases target; cases "button = 1"; cases "button = 2"; cases "button = 3")
      (auto simp: button_press_event_def same_choice_drag)
qed

text \<open>An event selects a node that is there or nothing, chooses a mode, or leaves both choices alone.\<close>

lemma gui_step_cases:
  assumes "event_ok g e"
  obtains "same_choice g (gui_step env g e)"
    | node where "gui_step env g e = select_view node g" "node = None \<or> (\<exists>i. node = Some i \<and> dget (views g) i \<noteq> None)"
    | mode where "gui_step env g e = set_show_transmissions_mode env mode g"
proof (cases e)
  case (Press button target p)
  then show thesis
    using that assms by (cases rule: button_press_cases [of g env button target p]) (auto simp: gui_step_def gui_event_def)
next
  case (Release button target)
  then show thesis
    using that(1) by (auto simp: gui_step_def gui_event_def button_release_event_def same_choice_drag split: event_target.splits)
next
  case (Motion target p)
  then show thesis using that(1) by (simp add: gui_step_def gui_event_def same_choice_motion)
next
  case (ScrollWheel up)
  then show thesis using that(1) by (simp add: gui_step_def gui_event_def canvas_scroll_event_def set_zoom_def)
next
  case (Hover i b)
  then show thesis using that(1) by (simp add: gui_step_def gui_event_def same_choice_change_view)
next
  case (ChooseMode mode)
  then show thesis using that(3) by (simp add: gui_step_def gui_event_def)
next
  case (SelectNode arg)
  then show thesis
  proof (cases arg)
    case (NetworkNode i)
    with SelectNode that show thesis
      by (cases "known_view g (int i)") (auto simp: gui_step_def gui_event_def select_node_def dest: known_view_Inr)
  next
    case (NodeNumber k)
    with SelectNode that show thesis
      by (cases "known_view g k") (auto simp: gui_step_def gui_event_def select_node_def dest: known_view_Inr)
  qed (use SelectNode that assms in \<open>auto simp: gui_step_def gui_event_def select_node_def\<close>)
next
  case (CenterOn arg)
  have "same_choice g (centre_on env i g)" for i by (simp add: centre_on_def split: option.split)
  with CenterOn that(1) show thesis
    by (auto simp: gui_step_def gui_event_def center_on_node_def known_view_def split: node_arg.splits sum.splits if_splits)
next
  case (Follow arg)
  with that(1) show thesis
    by (auto simp: gui_step_def gui_event_def set_follow_node_def known_view_def split: node_arg.splits sum.splits if_splits)
next
  case (NodeSize v)
  have "same_choice g (node_size_changed v g)"
    unfolding node_size_changed_def by (rule same_choice_foldl) (simp add: same_choice_change_view)
  with NodeSize that(1) show thesis by (simp add: gui_step_def gui_event_def)
next
  case (SimulationMoves i pos)
  then show thesis using that(1) by (simp add: gui_step_def gui_event_def)
next
  case ViewUpdate
  have "same_choice g (update_positions env g)"
    unfolding update_positions_def by (rule same_choice_foldl) (rule same_choice_update)
  with ViewUpdate that(1) show thesis by (simp add: gui_step_def gui_event_def)
qed

lemma gui_step_ok: "gui_ok env g \<Longrightarrow> event_ok g e \<Longrightarrow> gui_ok env (gui_step env g e)"
proof (cases rule: gui_step_cases [of g e env])
  assume "gui_ok env g" "event_ok g e"
  then show "event_ok g e" by simp
next
  assume "gui_ok env g" "same_choice g (gui_step env g e)"
  then show "gui_ok env (gui_step env g e)" by (rule same_choice_ok)
next
  fix node assume "gui_ok env g" "gui_step env g e = select_view node g"
    "node = None \<or> (\<exists>i. node = Some i \<and> dget (views g) i \<noteq> None)"
  then show "gui_ok env (gui_step env g e)" by (metis select_view_ok)
next
  fix mode assume "gui_ok env g" "gui_step env g e = set_show_transmissions_mode env mode g"
  then show "gui_ok env (gui_step env g e)" by (simp add: set_mode_ok gui_ok_def [of env g])
qed

lemma gui_step_keys: "event_ok g e \<Longrightarrow> dget (views (gui_step env g e)) i = None \<longleftrightarrow> dget (views g) i = None"
  by (cases rule: gui_step_cases [of g e env]) (simp_all add: same_choice_def)

lemma event_ok_same: "(\<And>i. dget (views g') i = None \<longleftrightarrow> dget (views g) i = None) \<Longrightarrow> event_ok g' e = event_ok g e"
  by (cases "(g, e)" rule: event_ok.cases) simp_all

lemma gui_steps_ok:
  assumes "gui_ok env g" "list_all (event_ok g) es"
  shows "gui_ok env (foldl (gui_step env) g es) \<and> (\<forall>i. dget (views (foldl (gui_step env) g es)) i = None \<longleftrightarrow> dget (views g) i = None)"
  using assms
proof (induction es arbitrary: g)
  case (Cons e es)
  have same: "dget (views (gui_step env g e)) i = None \<longleftrightarrow> dget (views g) i = None" for i
    using Cons.prems(2) by (simp add: gui_step_keys)
  have "list_all (event_ok (gui_step env g e)) es"
    using Cons.prems(2) event_ok_same [OF same] by (simp add: list_all_iff)
  with Cons.IH [of "gui_step env g e"] Cons.prems same show ?case by (simp add: gui_step_ok)
qed simp

text \<open>
  C0: whatever the user does, the pictures of all nodes are right, exactly the selected node is drawn as selected,
  and the simulation has been told to watch the nodes that the chosen mode asks for.
\<close>

theorem gui_invariant:
  assumes "\<And>i n. dget vs i = Some n \<Longrightarrow> node_ok n \<and> \<not> node_selected n"
    and "list_all (event_ok (new_gui env vs pl)) es"
    and "g = foldl (gui_step env) (new_gui env vs pl) es"
  shows "(\<forall>i. selected_node g = Some i \<longrightarrow> dget (views g) i \<noteq> None) \<and>
    (\<forall>i n. dget (views g) i = Some n \<longrightarrow> node_ok n \<and> (node_selected n \<longleftrightarrow> selected_node g = Some i)) \<and>
    interest g = watched env g"
proof -
  have "gui_ok env (new_gui env vs pl)"
    unfolding new_gui_def by (rule set_mode_ok) (use assms(1) in \<open>auto simp: pictures_ok_def handlers_ok_def\<close>)
  from gui_steps_ok [OF this assms(2)] show ?thesis
    unfolding assms(3) gui_ok_def pictures_ok_def by blast
qed

section \<open>A node that is dragged\<close>

text \<open>
  While no button is pressed or let go, the start of a drag stands, and so do its handler and the mobility model of
  the node.
\<close>

fun no_button :: "user_event \<Rightarrow> bool" where
  "no_button (Press button target pointer) = False"
| "no_button (Release button target) = False"
| "no_button _ = True"

definition same_drag :: "gui \<Rightarrow> gui \<Rightarrow> bool" where
  "same_drag g g' \<longleftrightarrow> drag_state g' = drag_state g \<and> motion_handlers g' = motion_handlers g \<and>
     pan_handlers g' = pan_handlers g \<and> (\<forall>i. dget (places g') i = None \<longleftrightarrow> dget (places g) i = None) \<and>
     (\<forall>i. dget (views g') i = None \<longleftrightarrow> dget (views g) i = None)"

lemma same_drag_refl [simp]: "same_drag g g"
  by (simp add: same_drag_def)

lemma same_drag_trans: "same_drag g g' \<Longrightarrow> same_drag g' g'' \<Longrightarrow> same_drag g g''"
  by (simp add: same_drag_def)

lemma same_drag_foldl: "(\<And>g x. x \<in> set xs \<Longrightarrow> same_drag g (f g x)) \<Longrightarrow> same_drag g (foldl f g xs)"
  by (induction xs arbitrary: g) (auto intro: same_drag_trans)

lemma same_drag_simps [simp]:
  "same_drag g (change_view i f g)" "same_drag g (g\<lparr> scrolled := p \<rparr>)" "same_drag g (g\<lparr> zoom_value := z \<rparr>)"
  "same_drag g (g\<lparr> follow_node := n \<rparr>)" "same_drag g (set_nodes_of_interest ns g)"
  "same_drag g (g\<lparr> show_mode := mode \<rparr>)" "same_drag g (g\<lparr> selected_node := node \<rparr>)"
  by (simp_all add: same_drag_def set_nodes_of_interest_def)

lemma same_drag_select [simp]: "same_drag g (select_view node g)"
proof -
  have "same_drag g (set_nodes_of_interest ns (change_view i f ((change_view j f' g)\<lparr> selected_node := node \<rparr>)))" for ns i f j f'
    by (simp add: same_drag_def set_nodes_of_interest_def)
  then show ?thesis
    by (auto simp: select_view_def Let_def same_drag_def set_nodes_of_interest_def split: option.split)
qed

lemma same_drag_node_motion: "same_drag g (snd (node_drag_motion env p i g))"
  by (auto simp: node_drag_motion_def same_drag_def Let_def dget_dset split: option.split)

lemma same_drag_node_motions: "same_drag g (node_motions env p i hs g)"
proof (induction hs arbitrary: g)
  case (Cons h hs)
  show ?case
    using same_drag_node_motion [of g env p i] Cons.IH by (auto split: prod.split intro: same_drag_trans)
qed simp

lemma same_drag_pan_motions: "same_drag g (snd (pan_motions env p hs g))"
  by (induction hs arbitrary: g) (auto simp: panning_motion_def Let_def split: option.split)

lemma same_drag_motion: "same_drag g (motion_notify_event env target p g)"
proof -
  obtain handled g1 where run: "pan_motions env p (pan_handlers g) g = (handled, g1)" by fastforce
  then have "same_drag g g1" using same_drag_pan_motions [of g env p "pan_handlers g"] by simp
  then show ?thesis
    by (auto simp: motion_notify_event_def run split: event_target.split intro: same_drag_trans same_drag_node_motions)
qed

lemma same_drag_update: "same_drag g (update_one_position env g i)"
  by (auto simp: update_one_position_def Let_def same_drag_def split: option.split)

lemma same_drag_step:
  assumes "no_button e"
  shows "same_drag g (gui_step env g e)"
proof (cases e)
  case (ChooseMode mode)
  have "same_drag g (set_nodes_of_interest ns (g\<lparr> show_mode := m \<rparr>))" for ns m
    by (simp add: same_drag_def set_nodes_of_interest_def)
  with ChooseMode show ?thesis
    by (simp add: gui_step_def gui_event_def set_show_transmissions_mode_def Let_def split: transmissions_mode.split option.split)
next
  case (SelectNode arg)
  then show ?thesis
    by (auto simp: gui_step_def gui_event_def select_node_def known_view_def split: node_arg.split sum.split)
next
  case (CenterOn arg)
  have "same_drag g (centre_on env i g)" for i by (simp add: centre_on_def split: option.split)
  with CenterOn show ?thesis
    by (auto simp: gui_step_def gui_event_def center_on_node_def known_view_def split: node_arg.split sum.split)
next
  case (Follow arg)
  then show ?thesis
    by (auto simp: gui_step_def gui_event_def set_follow_node_def known_view_def split: node_arg.split sum.split)
next
  case (SimulationMoves i pos)
  then show ?thesis by (auto simp: gui_step_def gui_event_def same_drag_def dget_dset)
qed (use assms in \<open>simp_all add: gui_step_def gui_event_def same_drag_motion canvas_scroll_event_def set_zoom_def
      node_size_changed_def update_positions_def same_drag_foldl same_drag_update\<close>)

lemma same_drag_steps: "list_all no_button es \<Longrightarrow> same_drag g (foldl (gui_step env) g es)"
  by (rule same_drag_foldl) (simp add: list_all_iff same_drag_step)

lemma node_motions_first:
  assumes "node_drag_motion env p i g = (True, g1)" "i \<in> fst ` set hs"
  shows "node_motions env p i hs g = g1"
  using assms by (induction hs) auto

lemma centre_set_position [simp]: "centre (set_node_position p n) = p"
  by (simp add: set_node_position_def Let_def split: option.split)

text \<open>
  C0: a node that is dragged stays under the pointer. However the simulation moves it and the view is updated in
  between, after a motion it is where the drag began, moved as far on the canvas as the pointer was; the
  mobility model agrees with the picture. Letting go ends the drag and leaves no handler behind.
\<close>

theorem dragged_node:
  assumes start: "dget (places g) i = Some s" "dget (views g) i \<noteq> None"
    and idle: "drag_state g = None" "motion_handlers g = []" "pan_handlers g = []"
    and run: "g1 = gui_step env g (Press 2 (OnNode i) p0)" "list_all no_button es" "g2 = foldl (gui_step env) g1 es"
      "g3 = gui_step env g2 (Motion (OnNode i) p)" "g4 = gui_step env g3 (Release 2 (OnNode i))"
  shows "\<exists>n. dget (views g4) i = Some n \<and> dget (places g4) i = Some (point_to_simulation (centre n)) \<and>
    fst (centre n) - fst (point_to_canvas s) = fst (to_canvas env (zoom_value g2) p) - fst (to_canvas env (zoom_value g) p0) \<and>
    snd (centre n) - snd (point_to_canvas s) = snd (to_canvas env (zoom_value g2) p) - snd (to_canvas env (zoom_value g) p0) \<and>
    drag_state g4 = None \<and> motion_handlers g4 = []"
proof -
  let ?d = "\<lparr> canvas_start = to_canvas env (zoom_value g) p0, sim_start = s, motion_signal = next_signal g \<rparr>"
  have g1: "drag_state g1 = Some ?d" "motion_handlers g1 = [(i, next_signal g)]" "pan_handlers g1 = []"
      "places g1 = places g" "views g1 = views g"
    using start idle by (simp_all add: run(1) gui_step_def gui_event_def button_press_event_def begin_node_drag_def)
  have "same_drag g1 g2" unfolding run(3) by (rule same_drag_steps [OF run(2)])
  then have g2: "drag_state g2 = Some ?d" "motion_handlers g2 = [(i, next_signal g)]" "pan_handlers g2 = []"
      "dget (places g2) i \<noteq> None" "dget (views g2) i \<noteq> None"
    using g1 start unfolding same_drag_def by simp_all
  obtain q n where q: "dget (places g2) i = Some q" and n: "dget (views g2) i = Some n" using g2(4,5) by blast
  let ?c = "to_canvas env (zoom_value g2) p" and ?start = "to_canvas env (zoom_value g) p0"
  let ?pos = "(fst s + distance_to_simulation (fst ?c - fst ?start), snd s + distance_to_simulation (snd ?c - snd ?start))"
  have "node_drag_motion env p i g2 =
      (True, change_view i (set_node_position (point_to_canvas ?pos)) (g2\<lparr> places := dset i ?pos (places g2) \<rparr>))"
    by (simp add: node_drag_motion_def q g2(1) Let_def)
  then have "g3 = change_view i (set_node_position (point_to_canvas ?pos)) (g2\<lparr> places := dset i ?pos (places g2) \<rparr>)"
    unfolding run(4) by (simp add: gui_step_def gui_event_def motion_notify_event_def g2 node_motions_first)
  then have "dget (views g4) i = Some (set_node_position (point_to_canvas ?pos) n)" "dget (places g4) i = Some ?pos"
      "drag_state g4 = None" "motion_handlers g4 = []"
    unfolding run(5)
    by (simp_all add: gui_step_def gui_event_def button_release_event_def end_node_drag_def g2 n dget_dset)
  then show ?thesis
    by (simp add: point_to_canvas_def distance_to_simulation_def PIXELS_PER_METER_def point_to_simulation_def field_simps)
qed

text \<open>
  A second press of the button before it is let go, as in a double click, leaves a handler on the canvas that raises
  an exception at every motion from then on.
\<close>

lemma pan_handler_left:
  assumes "panning_state g = None" "pan_handlers g = []"
    and "g' = foldl (gui_step env) g [Press 2 OnOther p, Press 2 OnOther p, Release 2 OnOther]"
  shows "pan_handlers g' = [next_signal g] \<and> panning_motion env q g' = Inl AssertionError"
  using assms
  by (simp add: gui_step_def gui_event_def button_press_event_def root_button_press_def canvas_button_press_def
      begin_panning_def button_release_event_def end_panning_def panning_motion_def)

section \<open>Scaling the view to the network\<close>

definition view_centres :: "gui \<Rightarrow> point list" where
  "view_centres g = concat (map (\<lambda>i. case dget (views g) i of None \<Rightarrow> [] | Some n \<Rightarrow> [centre n]) (dkeys (views g)))"

definition view_bounds :: "gui \<Rightarrow> point \<times> point" where
  "view_bounds g =
     (let xs = map fst (view_centres g); ys = map snd (view_centres g) in
      ((Min (set xs), Min (set ys)), (Max (set xs), Max (set ys))))"

definition autoscale_view :: "gui_env \<Rightarrow> gui \<Rightarrow> gui" where
  "autoscale_view env g =
     (if views g = [] then g
      else
        let g1 = update_positions env g;
            (low, high) = view_bounds g1;
            low_px = to_pixels env (zoom_value g1) low; high_px = to_pixels env (zoom_value g1) high;
            new_dx = 3 / 2 * (fst high_px - fst low_px); new_dy = 3 / 2 * (snd high_px - snd low_px)
        in if new_dx = 0 \<or> new_dy = 0 then g1
           else
             let g2 = set_zoom (min (fst (page_extent env) / new_dx) (snd (page_extent env) / new_dy)) g1;
                 a = to_canvas env (zoom_value g2) (scrolled g2);
                 b = to_canvas env (zoom_value g2)
                       (fst (scrolled g2) + fst (page_extent env), snd (scrolled g2) + snd (page_extent env));
                 left = (fst low + fst high) / 2 - (fst b - fst a) / 2;
                 top = (snd low + snd high) / 2 - (snd b - snd a) / 2
             in g2\<lparr> scrolled := settle env (to_pixels env (zoom_value g2) (left, top)) \<rparr>)"

text \<open>A canvas whose scale is the zoom, and that can be scrolled to everywhere.\<close>

definition plain_canvas :: "gui_env \<Rightarrow> point \<Rightarrow> bool" where
  "plain_canvas env corner \<longleftrightarrow>
     (\<forall>z p. to_pixels env z p = ((fst p - fst corner) * z, (snd p - snd corner) * z)) \<and>
     (\<forall>z p. 0 < z \<longrightarrow> to_canvas env z p = (fst p / z + fst corner, snd p / z + snd corner)) \<and>
     (\<forall>p. settle env p = p)"

text \<open>In one direction: nodes between \<open>low\<close> and \<open>high\<close> are on a page of the size \<open>size\<close>.\<close>

lemma shown_in_page:
  fixes low high x z size corner :: rat
  assumes "low \<le> x" "x \<le> high" "0 < z" "z * (3 / 2 * (high - low)) \<le> size"
  shows "let offset = (x - corner) * z - ((low + high) / 2 - size / z / 2 - corner) * z in
    size / 6 \<le> offset \<and> offset \<le> 5 / 6 * size"
proof -
  have "(x - corner) * z - ((low + high) / 2 - size / z / 2 - corner) * z = (x - low) * z - (high - low) * z / 2 + size / 2"
    using assms(3) by (simp add: field_simps)
  moreover have "0 \<le> (x - low) * z" "(x - low) * z \<le> (high - low) * z" using assms(1-3) by simp_all
  moreover have "(high - low) * z \<le> 2 / 3 * size" using assms(4) by (simp add: algebra_simps)
  ultimately show ?thesis unfolding Let_def by (intro conjI) linarith+
qed

lemma update_positions_zoom [simp]: "zoom_value (update_positions env g) = zoom_value g"
proof -
  have "zoom_value (foldl (update_one_position env) g is) = zoom_value g" for "is"
    by (induction "is" arbitrary: g) (auto simp: update_one_position_def Let_def split: option.split)
  then show ?thesis by (simp add: update_positions_def)
qed

lemma in_view_bounds:
  assumes "dget (views g) i = Some n" "view_bounds g = (low, high)"
  shows "fst low \<le> fst (centre n) \<and> fst (centre n) \<le> fst high \<and> snd low \<le> snd (centre n) \<and> snd (centre n) \<le> snd high"
proof -
  have "i \<in> set (dkeys (views g))" unfolding in_dkeys_iff using assms(1) by blast
  then have "centre n \<in> set (view_centres g)" using assms(1) by (auto simp: view_centres_def intro: bexI [of _ i])
  then show ?thesis using assms(2) by (auto simp: view_bounds_def Let_def)
qed

lemma zoom_fits:
  fixes width height dx dy z :: rat
  assumes "z = max (1 / 100) (min 10 (min (width / (3 / 2 * dx)) (height / (3 / 2 * dy))))" "1 / 100 < z" "0 < dx" "0 < dy"
  shows "z * (3 / 2 * dx) \<le> width \<and> z * (3 / 2 * dy) \<le> height"
proof -
  have "z \<le> width / (3 / 2 * dx)" "z \<le> height / (3 / 2 * dy)" using assms(1,2) by linarith+
  then show ?thesis using assms(3,4) by (simp only: pos_le_divide_eq [of "3 / 2 * dx"] pos_le_divide_eq [of "3 / 2 * dy"])
qed

text \<open>
  C0: scaling the view at the initial zoom shows every node, with a sixth of the page to spare on each side, unless the
  nodes are all in one line or the network is so large that the zoom is at its least.
\<close>

theorem autoscale_shows_all:
  assumes canvas: "plain_canvas env corner" "zoom_value g = 1"
    and bounds: "view_bounds (update_positions env g) = (low, high)" "fst low < fst high" "snd low < snd high"
    and scaled: "g' = autoscale_view env g" "zoom_value g' > 1 / 100" "dget (views g') i = Some n"
  shows "let q = to_pixels env (zoom_value g') (centre n);
             dx = fst q - fst (scrolled g'); dy = snd q - snd (scrolled g') in
    fst (page_extent env) / 6 \<le> dx \<and> dx \<le> 5 / 6 * fst (page_extent env) \<and>
    snd (page_extent env) / 6 \<le> dy \<and> dy \<le> 5 / 6 * snd (page_extent env)"
proof -
  let ?page = "page_extent env"
  define z where "z = max (1 / 100) (min 10 (min (fst ?page / (3 / 2 * (fst high - fst low))) (snd ?page / (3 / 2 * (snd high - snd low)))))"
  have px: "to_pixels env z p = ((fst p - fst corner) * z, (snd p - snd corner) * z)" "settle env p = p"
      "0 < z \<Longrightarrow> to_canvas env z p = (fst p / z + fst corner, snd p / z + snd corner)" for z p
    using canvas(1) unfolding plain_canvas_def by blast+
  have some: "views g \<noteq> []"
    using scaled(1,3) by (auto simp: autoscale_view_def)
  have pos: "0 < z" by (simp add: z_def)
  let ?g1 = "update_positions env g"
  have diff: "fst (to_pixels env (zoom_value ?g1) high) - fst (to_pixels env (zoom_value ?g1) low) = fst high - fst low"
      "snd (to_pixels env (zoom_value ?g1) high) - snd (to_pixels env (zoom_value ?g1) low) = snd high - snd low"
    by (simp_all add: px canvas(2))
  define g2 where "g2 = set_zoom (min (fst ?page / (3 / 2 * (fst high - fst low))) (snd ?page / (3 / 2 * (snd high - snd low)))) ?g1"
  have g2: "zoom_value g2 = z" "views g2 = views ?g1" by (simp_all add: g2_def set_zoom_def z_def)
  have "\<not> (3 / 2 * (fst high - fst low) = 0 \<or> 3 / 2 * (snd high - snd low) = 0)" using bounds(2,3) by simp
  then have "g' = (let a = to_canvas env z (scrolled g2);
                 b = to_canvas env z (fst (scrolled g2) + fst ?page, snd (scrolled g2) + snd ?page);
                 left = (fst low + fst high) / 2 - (fst b - fst a) / 2;
                 top = (snd low + snd high) / 2 - (snd b - snd a) / 2
             in g2\<lparr> scrolled := settle env (to_pixels env z (left, top)) \<rparr>)"
    unfolding scaled(1) autoscale_view_def using some
    by (simp only: if_False Let_def prod.case bounds(1) diff g2_def [symmetric] g2(1))
  then have g': "zoom_value g' = z" "views g' = views (update_positions env g)"
      "scrolled g' = (((fst low + fst high) / 2 - fst ?page / z / 2 - fst corner) * z, ((snd low + snd high) / 2 - snd ?page / z / 2 - snd corner) * z)"
    using g2 by (simp_all add: Let_def px pos add_divide_distrib)
  note inside = in_view_bounds [OF scaled(3) [unfolded g'(2)] bounds(1)]
  have "0 < fst high - fst low" "0 < snd high - snd low" "1 / 100 < z" using bounds(2,3) scaled(2) g'(1) by simp_all
  then have fits: "z * (3 / 2 * (fst high - fst low)) \<le> fst ?page" "z * (3 / 2 * (snd high - snd low)) \<le> snd ?page"
    using zoom_fits [OF z_def] by blast+
  show ?thesis
    using shown_in_page [of "fst low" "fst (centre n)" "fst high" z "fst ?page" "fst corner"]
      shown_in_page [of "snd low" "snd (centre n)" "snd high" z "snd ?page" "snd corner"] inside fits pos
    unfolding Let_def g'(1,3) px fst_conv snd_conv by blast
qed

section \<open>Concrete runs\<close>

definition plain_env :: gui_env where
  "plain_env =
     \<lparr> node_total = 2, to_canvas = (\<lambda>z p. (fst p / z, snd p / z)), to_pixels = (\<lambda>z p. (fst p * z, snd p * z)),
       page_extent = (600, 450), settle = (\<lambda>p. p) \<rparr>"

lemma plain_env_fields [simp]:
  "to_canvas plain_env z p = (fst p / z, snd p / z)" "to_pixels plain_env z p = (fst p * z, snd p * z)"
  "settle plain_env p = p" "page_extent plain_env = (600, 450)" "node_total plain_env = 2"
  by (simp_all add: plain_env_def)

lemma new_gui_fields [simp]:
  "views (new_gui env vs pl) = vs" "places (new_gui env vs pl) = pl" "selected_node (new_gui env vs pl) = None"
  "drag_state (new_gui env vs pl) = None" "motion_handlers (new_gui env vs pl) = []" "pan_handlers (new_gui env vs pl) = []"
  "zoom_value (new_gui env vs pl) = 1"
  by (simp_all add: new_gui_def set_show_transmissions_mode_def set_nodes_of_interest_def Let_def)

definition two_views :: "(nat, node_view) dict" where
  "two_views = [(0, new_node), (1, new_node)]"

definition two_places :: "(nat, point) dict" where
  "two_places = [(0, (0, 0)), (1, (100, 100))]"

lemma new_node_facts [simp]: "node_ok new_node" "node_selected new_node = False"
  by (simp_all add: new_node_ok) (simp add: new_node_def update_appearance_def Let_def)

lemma choices [simp]:
  "selected_node (select_view node g) = node" "show_mode (select_view node g) = show_mode g"
  "selected_node (set_show_transmissions_mode env mode g) = selected_node g"
  "show_mode (set_show_transmissions_mode env mode g) = mode"
  by (auto simp: select_view_def set_show_transmissions_mode_def Let_def set_nodes_of_interest_def
      split: option.split transmissions_mode.split)

lemma known_view_same [simp]:
  "known_view (select_view node g) k = known_view g k"
  "known_view (set_show_transmissions_mode env mode g) k = known_view g k"
  by (simp_all only: known_view_def select_view_keys set_mode_keys)

lemma known_view_two [simp]:
  "known_view (new_gui env two_views pl) 1 = Inr 1" "known_view g (- 1) = Inl KeyError"
  by (simp_all add: known_view_def two_views_def)

text \<open>The second node is selected, then those of the selected node are to be watched.\<close>

definition selecting :: "user_event list" where
  "selecting = [Press 1 (OnNode 0) (0, 0), SelectNode (NodeNumber 1), SelectNode (NodeNumber (- 1)), ChooseMode ShowSelected, SelectNode OtherArg]"

theorem gui_invariant_witness:
  "\<exists>g. g = foldl (gui_step plain_env) (new_gui plain_env two_views two_places) selecting \<and>
    selected_node g = Some 1 \<and> interest g = [1]"
proof -
  let ?g = "foldl (gui_step plain_env) (new_gui plain_env two_views two_places) selecting"
  have "list_all (event_ok (new_gui plain_env two_views two_places)) selecting"
    by (simp add: selecting_def two_views_def)
  moreover have "node_ok n \<and> \<not> node_selected n" if "dget two_views i = Some n" for i n
    using that by (simp add: two_views_def split: if_splits)
  ultimately have "interest ?g = watched plain_env ?g"
    using gui_invariant [of two_views plain_env two_places selecting ?g] by blast
  moreover have "selected_node ?g = Some 1" "show_mode ?g = ShowSelected"
    by (simp_all add: selecting_def gui_step_def gui_event_def button_press_event_def select_node_def)
  ultimately show ?thesis by (simp add: watched_def)
qed

text \<open>A node is dragged while the simulation moves it as well, and the user zooms in.\<close>

theorem dragged_node_witness:
  "\<exists>g n. g = foldl (gui_step plain_env) (new_gui plain_env two_views two_places)
      [Press 2 (OnNode 1) (20, 20), SimulationMoves 1 (7, 7), ScrollWheel True, Motion (OnNode 1) (50, 100), Release 2 (OnNode 1)] \<and>
    dget (views g) 1 = Some n \<and> centre n = (320, 360) \<and> dget (places g) 1 = Some (320 / 3, 120)"
proof -
  let ?g = "new_gui plain_env two_views two_places"
  let ?g1 = "gui_step plain_env ?g (Press 2 (OnNode 1) (20, 20))"
  let ?g2 = "foldl (gui_step plain_env) ?g1 [SimulationMoves 1 (7, 7), ScrollWheel True]"
  let ?g4 = "gui_step plain_env (gui_step plain_env ?g2 (Motion (OnNode 1) (50, 100))) (Release 2 (OnNode 1))"
  have g: "dget (places ?g) 1 = Some (100, 100)" "dget (views ?g) 1 \<noteq> None" "drag_state ?g = None"
      "motion_handlers ?g = []" "pan_handlers ?g = []" "zoom_value ?g = 1"
    by (simp_all add: two_places_def two_views_def)
  have zoom: "zoom_value ?g2 = 5 / 4"
    by (simp add: gui_step_def gui_event_def canvas_scroll_event_def set_zoom_def button_press_event_def begin_node_drag_def
        g split: option.split)
  from dragged_node [OF g(1-5) refl _ refl refl refl, of "[SimulationMoves 1 (7, 7), ScrollWheel True]" plain_env "(20, 20)" "(50, 100)"]
  obtain n where "dget (views ?g4) 1 = Some n" "dget (places ?g4) 1 = Some (point_to_simulation (centre n))"
      "fst (centre n) = 320" "snd (centre n) = 360"
    unfolding zoom g(6) plain_env_fields by (auto simp: point_to_canvas_def PIXELS_PER_METER_def)
  moreover from this have "centre n = (320, 360)" by (simp add: prod_eq_iff)
  ultimately show ?thesis by (auto simp: point_to_simulation_def PIXELS_PER_METER_def)
qed

lemma two_bounds:
  assumes "g = new_gui plain_env two_views two_places \<or> g = (new_gui plain_env two_views two_places)\<lparr> zoom_value := z \<rparr>"
  shows "view_bounds (update_positions plain_env g) = ((0, 0), (300, 300)) \<and> (\<exists>n. dget (views (update_positions plain_env g)) 1 = Some n \<and> centre n = (300, 300))"
proof -
  have "views (update_positions plain_env g) =
      [(0, set_node_position (0, 0) new_node), (1, set_node_position (300, 300) new_node)]"
    using assms
    by (auto simp: update_positions_def dkeys_def two_views_def two_places_def update_one_position_def change_view_def
        point_to_canvas_def PIXELS_PER_METER_def Let_def dset.simps)
  then show ?thesis by (simp add: view_bounds_def view_centres_def dkeys_def)
qed

theorem autoscale_witness:
  "\<exists>g' n. g' = autoscale_view plain_env (new_gui plain_env two_views two_places) \<and> dget (views g') 1 = Some n \<and>
    centre n = (300, 300) \<and> zoom_value g' = 1 \<and> 75 \<le> 300 - snd (scrolled g') \<and> 300 - snd (scrolled g') \<le> 375"
proof -
  let ?g = "new_gui plain_env two_views two_places"
  obtain n where n: "dget (views (update_positions plain_env ?g)) 1 = Some n" "centre n = (300, 300)"
      and bounds: "view_bounds (update_positions plain_env ?g) = ((0, 0), (300, 300))"
    using two_bounds [of ?g] by blast
  have scaled: "zoom_value (autoscale_view plain_env ?g) = 1" "views (autoscale_view plain_env ?g) = views (update_positions plain_env ?g)"
    using bounds by (simp_all add: autoscale_view_def two_views_def set_zoom_def Let_def)
  have "plain_canvas plain_env (0, 0)" by (simp add: plain_canvas_def)
  from autoscale_shows_all [OF this _ bounds _ _ refl, of 1 n] scaled n show ?thesis by (auto simp: Let_def)
qed

text \<open>The distances are measured at the old zoom: when the view has been zoomed out, the new zoom is too large.\<close>

lemma autoscale_zoomed_out:
  assumes "g' = autoscale_view plain_env ((new_gui plain_env two_views two_places)\<lparr> zoom_value := 1 / 4 \<rparr>)"
  shows "zoom_value g' = 4 \<and> fst (to_pixels plain_env (zoom_value g') (300, 300)) - fst (scrolled g') > fst (page_extent plain_env)"
  using two_bounds [of "(new_gui plain_env two_views two_places)\<lparr> zoom_value := 1 / 4 \<rparr>" "1 / 4"]
  by (simp add: assms autoscale_view_def two_views_def set_zoom_def Let_def add_divide_distrib)

end
