(* ===== verification/VizPlugins.thy ===== *)
theory VizPlugins
  imports VizTraffic
begin

text \<open>
  Two plugins of the visualizer (\<open>src/visualizer/visualizer/plugins/\<close>): \<open>wifi_intrastructure_link.py\<close>, which draws a
  link from each wireless station to its access point, and the collector of \<open>interface_statistics.py\<close>. What the
  simulator tells of devices is a parameter.
\<close>

section \<open>Wireless links\<close>

text \<open>
  A link is known by its number, the place in \<open>wifi_links\<close>. \<open>node_links\<close> are the links that a node redraws when it is
  moved. A link is seen when it is visible and has been given points.
\<close>

record wifi_link =
  link_sta :: "nat option"
  link_ap :: "nat option"
  link_visible :: bool
  link_points :: "(point \<times> point) option"

record wifi =
  wifi_links :: "wifi_link list"
  node_links :: "nat \<Rightarrow> nat list"
  node_pos :: "nat \<Rightarrow> point"
  access_points :: "(string, nat) dict"
  stations :: "((nat \<times> nat) \<times> nat \<times> nat) list"

definition change_link :: "nat \<Rightarrow> (wifi_link \<Rightarrow> wifi_link) \<Rightarrow> wifi \<Rightarrow> wifi" where
  "change_link l f w = w\<lparr> wifi_links := (wifi_links w)[l := f (wifi_links w ! l)] \<rparr>"

definition update_link_points :: "nat \<Rightarrow> wifi \<Rightarrow> wifi" where
  "update_link_points l w =
     (case (link_sta (wifi_links w ! l), link_ap (wifi_links w ! l)) of
        (Some i, Some j) \<Rightarrow> change_link l (\<lambda>k. k\<lparr> link_points := Some (node_pos w i, node_pos w j) \<rparr>) w
      | _ \<Rightarrow> w)"

definition add_link :: "nat \<Rightarrow> nat \<Rightarrow> wifi \<Rightarrow> wifi" where
  "add_link i l w = w\<lparr> node_links := (node_links w)(i := node_links w i @ [l]) \<rparr>"

definition remove_link :: "nat \<Rightarrow> nat \<Rightarrow> (wifi, unit) action" where
  "remove_link i l w =
     (if l \<in> set (node_links w i) then (Inr (), w\<lparr> node_links := (node_links w)(i := remove1 l (node_links w i)) \<rparr>)
      else (Inl ValueError, w))"

definition attach :: "nat option \<Rightarrow> nat \<Rightarrow> wifi \<Rightarrow> wifi" where
  "attach ap l w =
     (let w1 = change_link l (\<lambda>k. k\<lparr> link_ap := ap, link_visible := (ap \<noteq> None) \<rparr>) w in
      update_link_points l (case ap of None \<Rightarrow> w1 | Some i \<Rightarrow> add_link i l w1))"

definition set_ap :: "nat option \<Rightarrow> nat \<Rightarrow> (wifi, unit) action" where
  "set_ap ap l w =
     (if ap = link_ap (wifi_links w ! l) then (Inr (), w)
      else
        (case link_ap (wifi_links w ! l) of
           None \<Rightarrow> (Inr (), attach ap l w)
         | Some i \<Rightarrow>
             (case remove_link i l w of
                (Inl e, w1) \<Rightarrow> (Inl e, w1)
              | (Inr _, w1) \<Rightarrow> (Inr (), attach ap l w1))))"

text \<open>A new link has no access point, so its first \<open>set_ap(None)\<close> does not even hide it.\<close>

definition new_link :: "nat \<Rightarrow> wifi_link" where
  "new_link sta = \<lparr> link_sta = Some sta, link_ap = None, link_visible = True, link_points = None \<rparr>"

definition destroy_link :: "nat \<Rightarrow> wifi \<Rightarrow> wifi" where
  "destroy_link l = change_link l (\<lambda>k. k\<lparr> link_sta := None, link_ap := None, link_visible := False \<rparr>)"

text \<open>The wireless devices of a node: stations and access points, with the address of the latter.\<close>

datatype wifi_mac = StaMac | ApMac string | OtherMac

definition scan_wifi_device :: "nat \<Rightarrow> wifi \<Rightarrow> nat \<times> wifi_mac option \<Rightarrow> wifi" where
  "scan_wifi_device i w d =
     (case snd d of
        None \<Rightarrow> w
      | Some StaMac \<Rightarrow>
          w\<lparr> wifi_links := wifi_links w @ [new_link i], stations := stations w @ [((i, fst d), i, length (wifi_links w))] \<rparr>
      | Some (ApMac bssid) \<Rightarrow> w\<lparr> access_points := dset bssid i (access_points w) \<rparr>
      | Some OtherMac \<Rightarrow> w)"

definition scan_wifi_nodes :: "(nat \<Rightarrow> wifi_mac option list) \<Rightarrow> nat list \<Rightarrow> wifi \<Rightarrow> wifi" where
  "scan_wifi_nodes net nodes w =
     (let w1 = foldl (\<lambda>w s. destroy_link (snd (snd s)) w) w (stations w);
          w2 = w1\<lparr> access_points := [], stations := [] \<rparr>
      in foldl (\<lambda>w i. foldl (scan_wifi_device i) w (enumerate 0 (net i))) w2 nodes)"

text \<open>For each device: whether its link is up, and the address of its access point.\<close>

definition update_station :: "(nat \<times> nat \<Rightarrow> bool \<times> string) \<Rightarrow> (nat \<times> nat) \<times> nat \<times> nat \<Rightarrow> (wifi, unit) action" where
  "update_station status s w =
     (case status (fst s) of
        (up, bssid) \<Rightarrow>
          if \<not> up then set_ap None (snd (snd s)) w
          else if bssid = ''00:00:00:00:00:00'' then set_ap None (snd (snd s)) w
          else
            (case dget (access_points w) bssid of
               None \<Rightarrow> (Inl KeyError, w)
             | Some ap \<Rightarrow> set_ap (Some ap) (snd (snd s)) w))"

definition wifi_periodic_update :: "(nat \<times> nat \<Rightarrow> bool \<times> string) \<Rightarrow> (wifi, unit) action" where
  "wifi_periodic_update status w = io_each (update_station status) (stations w) w"

definition wifi_update_view :: "wifi \<Rightarrow> wifi" where
  "wifi_update_view w = foldl (\<lambda>w s. update_link_points (snd (snd s)) w) w (stations w)"

text \<open>\<open>set_position\<close> of a node, as far as it concerns these links.\<close>

definition move_node :: "nat \<Rightarrow> point \<Rightarrow> wifi \<Rightarrow> wifi" where
  "move_node i p w =
     (let w1 = w\<lparr> node_pos := (node_pos w)(i := p) \<rparr> in foldl (\<lambda>w l. update_link_points l w) w1 (node_links w1 i))"

datatype wifi_event =
    ScanWifi "nat \<Rightarrow> wifi_mac option list" "nat list"
  | WifiUpdate "nat \<times> nat \<Rightarrow> bool \<times> string"
  | WifiView
  | MoveNode nat point

definition wifi_step :: "wifi \<Rightarrow> wifi_event \<Rightarrow> wifi" where
  "wifi_step w e =
     (case e of
        ScanWifi net nodes \<Rightarrow> scan_wifi_nodes net nodes w
      | WifiUpdate status \<Rightarrow> snd (wifi_periodic_update status w)
      | WifiView \<Rightarrow> wifi_update_view w
      | MoveNode i p \<Rightarrow> move_node i p w)"

definition no_wifi :: "(nat \<Rightarrow> point) \<Rightarrow> wifi" where
  "no_wifi pos = \<lparr> wifi_links = [], node_links = (\<lambda>_. []), node_pos = pos, access_points = [], stations = [] \<rparr>"

section \<open>What is seen\<close>

definition seen :: "wifi_link \<Rightarrow> bool" where
  "seen k \<longleftrightarrow> link_visible k \<and> link_points k \<noteq> None"

text \<open>
  The links of the stations are different, are seen exactly when they have an access point, and are among the links
  of that node and of no other. A number that has not been given yet is nowhere.
\<close>

definition station_ok :: "wifi \<Rightarrow> nat \<Rightarrow> nat \<Rightarrow> bool" where
  "station_ok w sta l \<longleftrightarrow> l < length (wifi_links w) \<and> link_sta (wifi_links w ! l) = Some sta \<and>
     (seen (wifi_links w ! l) \<longleftrightarrow> link_ap (wifi_links w ! l) \<noteq> None) \<and>
     (\<forall>i. count_list (node_links w i) l = (if link_ap (wifi_links w ! l) = Some i then 1 else 0))"

definition wifi_ok :: "wifi \<Rightarrow> bool" where
  "wifi_ok w \<longleftrightarrow> distinct (map (snd \<circ> snd) (stations w)) \<and>
     (\<forall>s \<in> set (stations w). station_ok w (fst (snd s)) (snd (snd s))) \<and>
     (\<forall>i. \<forall>l \<in> set (node_links w i). l < length (wifi_links w))"

lemma change_link_simps [simp]:
  "length (wifi_links (change_link l f w)) = length (wifi_links w)" "node_links (change_link l f w) = node_links w"
  "node_pos (change_link l f w) = node_pos w" "access_points (change_link l f w) = access_points w"
  "stations (change_link l f w) = stations w"
  "l < length (wifi_links w) \<Longrightarrow> wifi_links (change_link l f w) ! m = (if m = l then f (wifi_links w ! l) else wifi_links w ! m)"
  by (simp_all add: change_link_def)

lemma add_link_simps [simp]:
  "wifi_links (add_link i l w) = wifi_links w" "node_pos (add_link i l w) = node_pos w"
  "access_points (add_link i l w) = access_points w" "stations (add_link i l w) = stations w"
  by (simp_all add: add_link_def)

text \<open>Drawing a link again.\<close>

lemma update_points_same:
  "length (wifi_links (update_link_points l w)) = length (wifi_links w) \<and> node_links (update_link_points l w) = node_links w \<and>
    node_pos (update_link_points l w) = node_pos w \<and> access_points (update_link_points l w) = access_points w \<and>
    stations (update_link_points l w) = stations w"
  by (simp add: update_link_points_def split: option.split)

lemma update_points_nth:
  "wifi_links (update_link_points l w) ! m =
    (if m = l \<and> l < length (wifi_links w)
     then (case (link_sta (wifi_links w ! l), link_ap (wifi_links w ! l)) of
             (Some i, Some j) \<Rightarrow> (wifi_links w ! l)\<lparr> link_points := Some (node_pos w i, node_pos w j) \<rparr>
           | _ \<Rightarrow> wifi_links w ! l)
     else wifi_links w ! m)"
  by (cases "l < length (wifi_links w)"; cases "link_sta (wifi_links w ! l)"; cases "link_ap (wifi_links w ! l)")
    (simp_all add: update_link_points_def change_link_def nth_list_update list_update_beyond)

lemma update_points_link:
  "link_sta (wifi_links (update_link_points l w) ! m) = link_sta (wifi_links w ! m)"
  "link_ap (wifi_links (update_link_points l w) ! m) = link_ap (wifi_links w ! m)"
  "link_visible (wifi_links (update_link_points l w) ! m) = link_visible (wifi_links w ! m)"
  by (cases "link_sta (wifi_links w ! l)"; cases "link_ap (wifi_links w ! l)"; simp add: update_points_nth)+

lemma update_points_seen:
  "link_points (wifi_links (update_link_points l w) ! m) \<noteq> None \<longleftrightarrow>
    link_points (wifi_links w ! m) \<noteq> None \<or>
    m = l \<and> l < length (wifi_links w) \<and> link_sta (wifi_links w ! l) \<noteq> None \<and> link_ap (wifi_links w ! l) \<noteq> None"
  by (cases "link_sta (wifi_links w ! l)"; cases "link_ap (wifi_links w ! l)") (auto simp: update_points_nth)

lemma update_points_station: "station_ok w sta m \<Longrightarrow> station_ok (update_link_points l w) sta m"
  unfolding station_ok_def seen_def update_points_seen update_points_link using update_points_same [of l w] by auto

lemma update_points_ok: "wifi_ok w \<Longrightarrow> wifi_ok (update_link_points l w)"
  using update_points_same [of l w] update_points_station unfolding wifi_ok_def by metis

lemma update_all_ok: "wifi_ok w \<Longrightarrow> wifi_ok (foldl (\<lambda>w x. update_link_points (f x) w) w xs)"
  by (induction xs arbitrary: w) (simp_all add: update_points_ok)

text \<open>Giving a link another access point.\<close>

lemma attach_result:
  assumes "l < length (wifi_links w)" "link_sta (wifi_links w ! l) = Some sta" "\<And>i. count_list (node_links w i) l = 0"
  shows "station_ok (attach ap l w) sta l \<and> link_ap (wifi_links (attach ap l w) ! l) = ap"
proof (cases ap)
  case None
  let ?w = "change_link l (\<lambda>k. k\<lparr> link_ap := None, link_visible := False \<rparr>) w"
  have "attach ap l w = update_link_points l ?w" by (simp add: attach_def None)
  then show ?thesis
    using assms by (simp add: None update_link_points_def station_ok_def seen_def)
next
  case (Some i)
  then show ?thesis
    using assms
    by (auto simp: attach_def Let_def update_link_points_def station_ok_def seen_def add_link_def)
qed

lemma attach_other:
  assumes "l < length (wifi_links w)" "m \<noteq> l" "station_ok w sta m"
  shows "station_ok (attach ap l w) sta m \<and> link_ap (wifi_links (attach ap l w) ! m) = link_ap (wifi_links w ! m)"
  using assms
  by (cases ap) (auto simp: attach_def Let_def update_link_points_def station_ok_def seen_def add_link_def split: option.split)

lemma attach_same:
  assumes "l < length (wifi_links w)"
  shows "stations (attach ap l w) = stations w \<and> access_points (attach ap l w) = access_points w \<and>
    length (wifi_links (attach ap l w)) = length (wifi_links w) \<and>
    set (node_links (attach ap l w) i) \<subseteq> insert l (set (node_links w i))"
  using assms
  by (cases ap) (auto simp: attach_def Let_def update_link_points_def add_link_def split: option.split)

lemma count_list_remove1: "count_list (remove1 a xs) b = count_list xs b - (if a = b then 1 else 0)"
  by (induction xs) auto

definition unlink :: "nat \<Rightarrow> nat \<Rightarrow> wifi \<Rightarrow> wifi" where
  "unlink i l w = w\<lparr> node_links := (node_links w)(i := remove1 l (node_links w i)) \<rparr>"

lemma set_ap_attached:
  assumes "station_ok w sta l"
  shows "set_ap ap l w = (Inr (),
    if ap = link_ap (wifi_links w ! l) then w
    else attach ap l (case link_ap (wifi_links w ! l) of None \<Rightarrow> w | Some i \<Rightarrow> unlink i l w))"
proof (cases "link_ap (wifi_links w ! l)")
  case (Some i)
  then have "count_list (node_links w i) l = 1" using assms by (simp add: station_ok_def)
  then have "l \<in> set (node_links w i)" by (metis count_list_0_iff zero_neq_one)
  with Some show ?thesis by (simp add: set_ap_def remove_link_def unlink_def)
qed (simp add: set_ap_def)

lemma unlink_result:
  assumes "station_ok w sta l" "link_ap (wifi_links w ! l) = Some i"
  shows "count_list (node_links (unlink i l w) j) l = 0"
  using assms by (auto simp: station_ok_def unlink_def count_list_remove1)

lemma unlink_other: "m \<noteq> l \<Longrightarrow> station_ok w sta m \<Longrightarrow> station_ok (unlink i l w) sta m"
  by (auto simp: station_ok_def unlink_def count_list_remove1)

lemma unlink_same [simp]:
  "wifi_links (unlink i l w) = wifi_links w" "stations (unlink i l w) = stations w"
  "access_points (unlink i l w) = access_points w" "set (node_links (unlink i l w) j) \<subseteq> set (node_links w j)"
  using set_remove1_subset [of l "node_links w i"] by (auto simp: unlink_def)

text \<open>What \<open>set_ap\<close> does to a link of a station, and to the others.\<close>

lemma set_ap_spec:
  assumes "station_ok w sta l"
  obtains w' where "set_ap ap l w = (Inr (), w')" "station_ok w' sta l" "link_ap (wifi_links w' ! l) = ap"
    "\<And>m sta'. m \<noteq> l \<Longrightarrow> station_ok w sta' m \<Longrightarrow> station_ok w' sta' m \<and> link_ap (wifi_links w' ! m) = link_ap (wifi_links w ! m)"
    "stations w' = stations w" "access_points w' = access_points w" "length (wifi_links w') = length (wifi_links w)"
    "\<And>i. set (node_links w' i) \<subseteq> insert l (set (node_links w i))"
proof -
  have l: "l < length (wifi_links w)" "link_sta (wifi_links w ! l) = Some sta" using assms by (simp_all add: station_ok_def)
  note run = set_ap_attached [OF assms, of ap]
  show thesis
  proof (cases "ap = link_ap (wifi_links w ! l)")
    case True
    with assms run that show thesis by auto
  next
    case False
    show thesis
    proof (cases "link_ap (wifi_links w ! l)")
      case None
      have "count_list (node_links w i) l = 0" for i using assms None by (simp add: station_ok_def)
      note parts = attach_result [OF l this, of ap] attach_other [OF l(1), where ap = ap] attach_same [OF l(1), of ap]
      have "set_ap ap l w = (Inr (), attach ap l w)" using run False by (auto simp: None)
      then show thesis by (rule that) (use parts in \<open>blast+\<close>)
    next
      case (Some i)
      let ?w = "unlink i l w"
      have l': "l < length (wifi_links ?w)" "link_sta (wifi_links ?w ! l) = Some sta" using l by simp_all
      have other: "station_ok (attach ap l ?w) sta' m \<and> link_ap (wifi_links (attach ap l ?w) ! m) = link_ap (wifi_links w ! m)"
        if "m \<noteq> l" "station_ok w sta' m" for m sta'
        using attach_other [OF l'(1) that(1) unlink_other [OF that]] by simp
      have "set (node_links (attach ap l ?w) j) \<subseteq> insert l (set (node_links w j))" for j
        using attach_same [OF l'(1), of ap j] unlink_same(4) [of i l w j] by blast
      note parts = attach_result [OF l' unlink_result [OF assms Some], of ap] other attach_same [OF l'(1), of ap, simplified] this
      have "set_ap ap l w = (Inr (), attach ap l ?w)" using run False by (auto simp: Some)
      then show thesis by (rule that) (use parts in \<open>blast+\<close>)
    qed
  qed
qed

section \<open>Updates of the stations\<close>

text \<open>The access point that a station should be shown with, or the exception for an address that is not known.\<close>

definition ap_of :: "(nat \<times> nat \<Rightarrow> bool \<times> string) \<Rightarrow> (string, nat) dict \<Rightarrow> nat \<times> nat \<Rightarrow> nat option res" where
  "ap_of status known dev =
     (if \<not> fst (status dev) \<or> snd (status dev) = ''00:00:00:00:00:00'' then Inr None
      else (case dget known (snd (status dev)) of None \<Rightarrow> Inl KeyError | Some i \<Rightarrow> Inr (Some i)))"

lemma update_station_ap:
  "update_station status s w =
    (case ap_of status (access_points w) (fst s) of Inl e \<Rightarrow> (Inl e, w) | Inr ap \<Rightarrow> set_ap ap (snd (snd s)) w)"
  by (auto simp: update_station_def ap_of_def split: prod.split option.split)

lemma set_ap_ok:
  assumes "wifi_ok w" "station_ok w sta l" "l \<in> set (map (snd \<circ> snd) (stations w))"
  obtains w' where "set_ap ap l w = (Inr (), w')" "wifi_ok w'" "stations w' = stations w" "access_points w' = access_points w"
    "link_ap (wifi_links w' ! l) = ap"
    "\<And>s. s \<in> set (stations w) \<Longrightarrow> snd (snd s) \<noteq> l \<Longrightarrow> link_ap (wifi_links w' ! snd (snd s)) = link_ap (wifi_links w ! snd (snd s))"
proof -
  from set_ap_spec [OF assms(2), of ap] obtain w' where w': "set_ap ap l w = (Inr (), w')" "station_ok w' sta l"
      "link_ap (wifi_links w' ! l) = ap"
      "\<And>m sta'. m \<noteq> l \<Longrightarrow> station_ok w sta' m \<Longrightarrow> station_ok w' sta' m \<and> link_ap (wifi_links w' ! m) = link_ap (wifi_links w ! m)"
      "stations w' = stations w" "access_points w' = access_points w" "length (wifi_links w') = length (wifi_links w)"
      "\<And>i. set (node_links w' i) \<subseteq> insert l (set (node_links w i))"
    by blast
  have here: "station_ok w' (fst (snd s)) (snd (snd s))" if "s \<in> set (stations w)" for s
  proof (cases "snd (snd s) = l")
    case True
    have "station_ok w (fst (snd s)) l" using assms(1) that True by (auto simp: wifi_ok_def)
    with assms(2) w'(2) True show ?thesis by (simp add: station_ok_def)
  next
    case False
    with w'(4) assms(1) that show ?thesis by (auto simp: wifi_ok_def)
  qed
  have "l < length (wifi_links w)" using assms(2) by (simp add: station_ok_def)
  then have "wifi_ok w'"
    using here assms(1) w'(5,7,8) unfolding wifi_ok_def by (metis insertE subsetD)
  moreover have "link_ap (wifi_links w' ! snd (snd s)) = link_ap (wifi_links w ! snd (snd s))"
    if "s \<in> set (stations w)" "snd (snd s) \<noteq> l" for s
    using w'(4) [OF that(2)] assms(1) that(1) by (auto simp: wifi_ok_def)
  ultimately show thesis using that w'(1,3,5,6) by blast
qed

lemma update_stations:
  assumes "wifi_ok w" "set ss \<subseteq> set (stations w)" "distinct (map (snd \<circ> snd) ss)"
  shows "\<exists>r w'. io_each (update_station status) ss w = (r, w') \<and> wifi_ok w' \<and> stations w' = stations w \<and>
    access_points w' = access_points w \<and>
    (\<forall>s \<in> set (stations w). snd (snd s) \<notin> (snd \<circ> snd) ` set ss \<longrightarrow>
       link_ap (wifi_links w' ! snd (snd s)) = link_ap (wifi_links w ! snd (snd s))) \<and>
    (case r of Inl e \<Rightarrow> e = KeyError \<and> (\<exists>s \<in> set ss. ap_of status (access_points w) (fst s) = Inl KeyError)
     | Inr _ \<Rightarrow> \<forall>s \<in> set ss. ap_of status (access_points w) (fst s) = Inr (link_ap (wifi_links w' ! snd (snd s))))"
  using assms
proof (induction ss arbitrary: w)
  case (Cons s ss)
  show ?case
  proof (cases "ap_of status (access_points w) (fst s)")
    case (Inl e)
    then have "e = KeyError" by (auto simp: ap_of_def split: if_splits option.splits)
    with Inl Cons.prems show ?thesis by (auto simp: update_station_ap io_seq_def io_bind_def)
  next
    case (Inr ap)
    have "station_ok w (fst (snd s)) (snd (snd s))" using Cons.prems by (auto simp: wifi_ok_def)
    then obtain w1 where w1: "set_ap ap (snd (snd s)) w = (Inr (), w1)" "wifi_ok w1" "stations w1 = stations w"
        "access_points w1 = access_points w" "link_ap (wifi_links w1 ! snd (snd s)) = ap"
        "\<And>s'. s' \<in> set (stations w) \<Longrightarrow> snd (snd s') \<noteq> snd (snd s) \<Longrightarrow>
          link_ap (wifi_links w1 ! snd (snd s')) = link_ap (wifi_links w ! snd (snd s'))"
      using set_ap_ok [OF Cons.prems(1), of "fst (snd s)" "snd (snd s)" ap] Cons.prems(2) by auto
    have first: "update_station status s w = (Inr (), w1)" using Inr w1(1) by (simp add: update_station_ap)
    obtain r w' where rest: "io_each (update_station status) ss w1 = (r, w')" "wifi_ok w'" "stations w' = stations w1"
        "access_points w' = access_points w1"
        "\<forall>s \<in> set (stations w1). snd (snd s) \<notin> (snd \<circ> snd) ` set ss \<longrightarrow>
           link_ap (wifi_links w' ! snd (snd s)) = link_ap (wifi_links w1 ! snd (snd s))"
        "case r of Inl e \<Rightarrow> e = KeyError \<and> (\<exists>s \<in> set ss. ap_of status (access_points w1) (fst s) = Inl KeyError)
         | Inr _ \<Rightarrow> \<forall>s \<in> set ss. ap_of status (access_points w1) (fst s) = Inr (link_ap (wifi_links w' ! snd (snd s)))"
      using Cons.IH [OF w1(2)] Cons.prems(2,3) w1(3) by auto
    have "snd (snd s) \<notin> (snd \<circ> snd) ` set ss" using Cons.prems(3) by auto
    then have "link_ap (wifi_links w' ! snd (snd s)) = ap" using rest(5) w1(3,5) Cons.prems(2) by auto
    with rest first Inr w1 show ?thesis by (auto split: sum.splits)
  qed
qed auto

section \<open>All events\<close>

lemma destroyed:
  "stations (foldl (\<lambda>w s. destroy_link (f s) w) w ss) = stations w \<and>
    node_links (foldl (\<lambda>w s. destroy_link (f s) w) w ss) = node_links w \<and>
    length (wifi_links (foldl (\<lambda>w s. destroy_link (f s) w) w ss)) = length (wifi_links w)"
  by (induction ss arbitrary: w) (simp_all add: destroy_link_def)

lemma scan_device_ok: "wifi_ok w \<Longrightarrow> wifi_ok (scan_wifi_device i w d)"
proof (cases "snd d = Some StaMac")
  case True
  assume ok: "wifi_ok w"
  let ?l = "length (wifi_links w)"
  let ?w = "w\<lparr> wifi_links := wifi_links w @ [new_link i], stations := stations w @ [((i, fst d), i, ?l)] \<rparr>"
  have old: "station_ok ?w sta l" if "station_ok w sta l" for sta l
    using that by (simp add: station_ok_def nth_append)
  have "count_list (node_links w j) ?l = 0" for j using ok unfolding wifi_ok_def count_list_0_iff by blast
  then have new: "station_ok ?w i ?l" by (simp add: station_ok_def seen_def new_link_def)
  have "snd (snd s) \<noteq> ?l" if "s \<in> set (stations w)" for s
    using ok that unfolding wifi_ok_def station_ok_def by (metis less_irrefl)
  then have "?l \<notin> set (map (snd \<circ> snd) (stations w))" by (simp add: image_iff) metis
  moreover have "\<forall>s \<in> set (stations w). station_ok ?w (fst (snd s)) (snd (snd s))"
    using ok old unfolding wifi_ok_def by blast
  ultimately have "wifi_ok ?w" using ok new by (simp add: wifi_ok_def less_Suc_eq)
  with True show "wifi_ok (scan_wifi_device i w d)" by (simp add: scan_wifi_device_def)
qed (auto simp: scan_wifi_device_def wifi_ok_def station_ok_def split: option.split wifi_mac.split)

lemma scan_ok:
  assumes "wifi_ok w"
  shows "wifi_ok (scan_wifi_nodes net nodes w)"
proof -
  let ?w1 = "foldl (\<lambda>w s. destroy_link (snd (snd s)) w) w (stations w)"
  have start: "wifi_ok (?w1\<lparr> access_points := [], stations := [] \<rparr>)"
    using assms destroyed [of "\<lambda>s. snd (snd s)" w "stations w"] by (simp add: wifi_ok_def)
  have devices: "wifi_ok (foldl (scan_wifi_device i) w ds)" if "wifi_ok w" for i w ds
    using that by (induction ds arbitrary: w) (simp_all add: scan_device_ok)
  have "wifi_ok (foldl (\<lambda>w i. foldl (scan_wifi_device i) w (enumerate 0 (net i))) w nodes)" if "wifi_ok w" for w
    using that by (induction nodes arbitrary: w) (simp_all add: devices)
  with start show ?thesis by (simp add: scan_wifi_nodes_def Let_def)
qed

lemma wifi_step_ok:
  assumes "wifi_ok w"
  shows "wifi_ok (wifi_step w e)"
proof (cases e)
  case (WifiUpdate status)
  have "distinct (map (snd \<circ> snd) (stations w))" using assms by (simp add: wifi_ok_def)
  from update_stations [OF assms subset_refl this, of status] show ?thesis
    by (auto simp: WifiUpdate wifi_step_def wifi_periodic_update_def)
next
  case (MoveNode i p)
  have "wifi_ok (w\<lparr> node_pos := (node_pos w)(i := p) \<rparr>)" using assms by (simp add: wifi_ok_def station_ok_def)
  from update_all_ok [OF this, of "\<lambda>l. l"] show ?thesis by (simp add: MoveNode wifi_step_def move_node_def Let_def)
qed (simp_all add: assms wifi_step_def scan_ok wifi_update_view_def update_all_ok)

lemma wifi_steps_ok: "wifi_ok (foldl wifi_step (no_wifi pos) es)"
proof (induction es rule: rev_induct)
  case Nil
  then show ?case by (simp add: no_wifi_def wifi_ok_def)
qed (simp add: wifi_step_ok)

text \<open>
  C0: whatever happens, the link of a station is seen exactly when it has an access point, and is redrawn with this
  node and no other. A periodic update raises no exception but \<open>KeyError\<close>, and that only for an address that is no
  access point's; otherwise it shows each station with its access point, or without one.
\<close>

theorem wifi_links_shown:
  assumes "w = foldl wifi_step (no_wifi pos) es" "s \<in> set (stations w)" "wifi_periodic_update status w = (r, w')"
  shows "(seen (wifi_links w ! snd (snd s)) \<longleftrightarrow> link_ap (wifi_links w ! snd (snd s)) \<noteq> None) \<and>
    (snd (snd s) \<in> set (node_links w i) \<longleftrightarrow> link_ap (wifi_links w ! snd (snd s)) = Some i) \<and>
    (case r of Inl e \<Rightarrow> e = KeyError \<and> (\<exists>t \<in> set (stations w). ap_of status (access_points w) (fst t) = Inl KeyError)
     | Inr _ \<Rightarrow> ap_of status (access_points w) (fst s) = Inr (link_ap (wifi_links w' ! snd (snd s))))"
proof -
  have ok: "wifi_ok w" using wifi_steps_ok assms(1) by simp
  then have here: "station_ok w (fst (snd s)) (snd (snd s))" "distinct (map (snd \<circ> snd) (stations w))"
    using assms(2) by (auto simp: wifi_ok_def)
  have "snd (snd s) \<in> set (node_links w i) \<longleftrightarrow> count_list (node_links w i) (snd (snd s)) \<noteq> 0"
    by (simp add: count_list_0_iff)
  with here(1) have "(seen (wifi_links w ! snd (snd s)) \<longleftrightarrow> link_ap (wifi_links w ! snd (snd s)) \<noteq> None) \<and>
      (snd (snd s) \<in> set (node_links w i) \<longleftrightarrow> link_ap (wifi_links w ! snd (snd s)) = Some i)"
    by (auto simp: station_ok_def)
  with update_stations [OF ok subset_refl here(2), of status] assms(2,3) show ?thesis
    by (auto simp: wifi_periodic_update_def split: sum.splits)
qed

text \<open>Two stations and an access point.\<close>

definition demo_wifi :: "nat \<Rightarrow> wifi_mac option list" where
  "demo_wifi i = (if i = 0 then [None, Some StaMac] else if i = 1 then [Some StaMac] else [Some (ApMac ''00:00:00:00:00:07'')])"

definition demo_status :: "string \<Rightarrow> nat \<times> nat \<Rightarrow> bool \<times> string" where
  "demo_status bssid dev = (True, if fst dev = 0 then bssid else ''00:00:00:00:00:07'')"

definition demo_scan :: wifi where
  "demo_scan = wifi_step (no_wifi (\<lambda>_. (0, 0))) (ScanWifi demo_wifi [0, 1, 2])"

lemma demo_scan_eq:
  "stations demo_scan = [((0, 1), 0, 0), ((1, 0), 1, 1)]" "wifi_links demo_scan = [new_link 0, new_link 1]"
  "access_points demo_scan = [(''00:00:00:00:00:07'', 2)]" "node_links demo_scan = (\<lambda>_. [])"
  by (simp_all add: demo_scan_def wifi_step_def scan_wifi_nodes_def scan_wifi_device_def demo_wifi_def no_wifi_def Let_def
      dset.simps)

theorem wifi_links_witness:
  "\<exists>w. fst (wifi_periodic_update (demo_status ''00:00:00:00:00:07'') demo_scan) = Inr () \<and>
    w = snd (wifi_periodic_update (demo_status ''00:00:00:00:00:07'') demo_scan) \<and> link_ap (wifi_links w ! 0) = Some 2"
proof -
  let ?status = "demo_status ''00:00:00:00:00:07''"
  obtain r w where run: "wifi_periodic_update ?status demo_scan = (r, w)" by fastforce
  have "demo_scan = foldl wifi_step (no_wifi (\<lambda>_. (0, 0))) [ScanWifi demo_wifi [0, 1, 2]]" by (simp add: demo_scan_def)
  note shown = wifi_links_shown [OF this _ run, of "((0, 1), 0, 0)" 0]
  have "r = Inr () \<and> link_ap (wifi_links w ! 0) = Some 2"
    by (cases r) (use shown in \<open>auto simp: demo_scan_eq ap_of_def demo_status_def\<close>)
  then show ?thesis by (simp add: run)
qed

text \<open>An address that is not known ends the update, so that the stations behind it are not updated.\<close>

lemma unknown_access_point:
  "wifi_periodic_update (demo_status ''00:00:00:00:00:08'') demo_scan = (Inl KeyError, demo_scan)"
  by (simp add: wifi_periodic_update_def demo_scan_eq update_station_def demo_status_def io_seq_def io_bind_def)

text \<open>Scanning again leaves the links of before with the access point.\<close>

lemma dead_links_stay:
  assumes "w = snd (wifi_periodic_update (demo_status ''00:00:00:00:00:07'') demo_scan)"
  shows "node_links (wifi_step w (ScanWifi demo_wifi [0, 1, 2])) 2 = [0, 1]"
  by (simp add: assms wifi_periodic_update_def demo_scan_eq update_station_def demo_status_def io_seq_def io_bind_def set_ap_def
      attach_def add_link_def change_link_def update_link_points_def new_link_def wifi_step_def scan_wifi_nodes_def Let_def
      scan_wifi_device_def demo_wifi_def destroy_link_def)

section \<open>Statistics of interfaces\<close>

record interface_stats =
  transmitted_packets :: nat
  transmitted_bytes :: nat
  received_packets :: nat
  received_bytes :: nat

record net_dev_stats =
  tx_packets :: nat
  tx_bytes :: nat
  rx_packets :: nat
  rx_bytes :: nat
  tx_packet_rate :: rat
  rx_packet_rate :: rat
  tx_bit_rate :: rat
  rx_bit_rate :: rat

definition NODE_STATISTICS_MEMORY :: nat where
  "NODE_STATISTICS_MEMORY = 10"

text \<open>A sample of a node has the figures of each of its interfaces.\<close>

type_synonym collector = "(nat, interface_stats list list) dict"

definition collect_node :: "collector \<Rightarrow> nat \<times> interface_stats list \<Rightarrow> collector res" where
  "collect_node c sample =
     rbind (pop_while (int NODE_STATISTICS_MEMORY) ((case dget c (fst sample) of None \<Rightarrow> [] | Some samples \<Rightarrow> samples) @ [snd sample]))
       (\<lambda>samples. Inr (dset (fst sample) samples c))"

definition collect_statistics :: "collector \<Rightarrow> (nat \<times> interface_stats list) list \<Rightarrow> collector res" where
  "collect_statistics c samples = rfold collect_node c samples"

definition rates_of :: "rat \<Rightarrow> interface_stats list \<Rightarrow> nat \<times> interface_stats \<Rightarrow> net_dev_stats res" where
  "rates_of k old item =
     (case item of (iface, s) \<Rightarrow>
        if length old \<le> iface then Inl IndexError
        else if k = 0 then Inl ZeroDivisionError
        else
          Inr \<lparr> tx_packets = transmitted_packets s, tx_bytes = transmitted_bytes s, rx_packets = received_packets s,
                rx_bytes = received_bytes s,
                tx_packet_rate = (of_nat (transmitted_packets s) - of_nat (transmitted_packets (old ! iface))) / k,
                rx_packet_rate = (of_nat (received_packets s) - of_nat (received_packets (old ! iface))) / k,
                tx_bit_rate = (of_nat (transmitted_bytes s) - of_nat (transmitted_bytes (old ! iface))) * 8 / k,
                rx_bit_rate = (of_nat (received_bytes s) - of_nat (received_bytes (old ! iface))) * 8 / k \<rparr>)"

definition get_interface_statistics :: "rat \<Rightarrow> collector \<Rightarrow> nat \<Rightarrow> net_dev_stats list res" where
  "get_interface_statistics sample_period c node =
     (case dget c node of
        None \<Rightarrow> Inr []
      | Some samples \<Rightarrow>
          if length samples < NODE_STATISTICS_MEMORY then Inr []
          else if length samples \<noteq> NODE_STATISTICS_MEMORY then Inl AssertionError
          else rmap (rates_of (sample_period * of_nat (NODE_STATISTICS_MEMORY - 1)) (hd samples)) (enumerate 0 (last samples)))"

text \<open>The collector has the last ten samples of each node.\<close>

lemma collect_one:
  assumes "case dget c i of None \<Rightarrow> True | Some samples \<Rightarrow> length samples \<le> NODE_STATISTICS_MEMORY"
  shows "collect_node c (i, s) = Inr (dset i (let all = (case dget c i of None \<Rightarrow> [] | Some samples \<Rightarrow> samples) @ [s] in
    drop (length all - NODE_STATISTICS_MEMORY) all) c)"
  by (simp add: collect_node_def pop_while_last Let_def)

lemma collect_all: "rfold collect_statistics c periods = rfold collect_node c (concat periods)"
  by (induction periods arbitrary: c) (simp_all add: collect_statistics_def)

definition samples_for :: "nat \<Rightarrow> (nat \<times> interface_stats list) list \<Rightarrow> interface_stats list list" where
  "samples_for i samples = map snd (filter (\<lambda>p. fst p = i) samples)"

lemma last_window:
  assumes "1 \<le> m"
  shows "drop (length (drop (length xs - m) xs @ [x]) - m) (drop (length xs - m) xs @ [x]) = drop (length (xs @ [x]) - m) (xs @ [x])"
proof (cases "m \<le> length xs")
  case True
  then have "length (drop (length xs - m) xs @ [x]) - m = 1" by simp
  with True assms show ?thesis by (simp add: Suc_diff_le)
qed simp

lemma collected:
  "\<exists>c. rfold collect_node [] samples = Inr c \<and>
    (\<forall>i. dget c i = (if samples_for i samples = [] then None
      else Some (drop (length (samples_for i samples) - NODE_STATISTICS_MEMORY) (samples_for i samples))))"
proof (induction samples rule: rev_induct)
  case Nil
  then show ?case by (simp add: samples_for_def)
next
  case (snoc p samples)
  obtain i s where p: "p = (i, s)" by fastforce
  from snoc obtain c where c: "rfold collect_node [] samples = Inr c"
      "\<And>j. dget c j = (if samples_for j samples = [] then None
        else Some (drop (length (samples_for j samples) - NODE_STATISTICS_MEMORY) (samples_for j samples)))"
    by blast
  have "case dget c i of None \<Rightarrow> True | Some samples \<Rightarrow> length samples \<le> NODE_STATISTICS_MEMORY"
    by (simp add: c(2)) linarith
  from collect_one [OF this, of s]
  have "collect_node c (i, s) = Inr (dset i (drop (length (samples_for i samples @ [s]) - NODE_STATISTICS_MEMORY) (samples_for i samples @ [s])) c)"
    using last_window [of NODE_STATISTICS_MEMORY "samples_for i samples" s]
    by (cases "samples_for i samples = []") (simp_all add: c(2) Let_def NODE_STATISTICS_MEMORY_def)
  then show ?case by (simp add: p c samples_for_def dget_dset)
qed

lemma rmap_guard:
  "(\<And>x. g x = (if bad x then Inl e else Inr (f x))) \<Longrightarrow>
    rmap g xs = (if \<exists>x \<in> set xs. bad x then Inl e else Inr (map f xs))"
  by (induction xs) auto

definition rate_values :: "rat \<Rightarrow> interface_stats list \<Rightarrow> nat \<times> interface_stats \<Rightarrow> net_dev_stats" where
  "rate_values k old item = (case rates_of k (old @ replicate (Suc (fst item)) (snd item)) item of Inr r \<Rightarrow> r)"

lemma rates_all:
  assumes "k \<noteq> 0"
  shows "rmap (rates_of k old) (enumerate 0 new) =
    (if length old < length new then Inl IndexError else Inr (map (rate_values k old) (enumerate 0 new)))"
proof -
  have "rates_of k old x = (if length old \<le> fst x then Inl IndexError else Inr (rate_values k old x))" for x
    using assms by (cases x) (simp add: rates_of_def rate_values_def nth_append)
  note all = rmap_guard [of "rates_of k old", OF this, of "enumerate 0 new"]
  have "(\<exists>x \<in> set (enumerate 0 new). length old \<le> fst x) \<longleftrightarrow> length old < length new"
    by (auto simp: in_set_enumerate_eq intro!: bexI [of _ "(length old, new ! length old)"])
  then show ?thesis using all by simp
qed

text \<open>
  C0: what is shown of the interfaces of a node. Before ten samples there is nothing; afterwards the totals are those of
  the last sample, and the rates are taken over the nine periods between the oldest of the last ten samples and
  the last one. An interface that is newer than the oldest sample is an \<open>IndexError\<close>.
\<close>

theorem interface_rates:
  assumes "0 < T" "all = samples_for i (concat periods)" "n = length all"
    and "rfold collect_statistics [] periods = Inr c"
  shows "if n < 10 then get_interface_statistics T c i = Inr []
    else if length (all ! (n - 10)) < length (last all) then get_interface_statistics T c i = Inl IndexError
    else \<exists>stats. get_interface_statistics T c i = Inr stats \<and> length stats = length (last all) \<and>
      (\<forall>k < length stats. let new = last all ! k; old = all ! (n - 10) ! k in
         tx_bytes (stats ! k) = transmitted_bytes new \<and> rx_bytes (stats ! k) = received_bytes new \<and>
         tx_packet_rate (stats ! k) * (9 * T) = of_nat (transmitted_packets new) - of_nat (transmitted_packets old) \<and>
         rx_packet_rate (stats ! k) * (9 * T) = of_nat (received_packets new) - of_nat (received_packets old) \<and>
         tx_bit_rate (stats ! k) * (9 * T) = 8 * (of_nat (transmitted_bytes new) - of_nat (transmitted_bytes old)) \<and>
         rx_bit_rate (stats ! k) * (9 * T) = 8 * (of_nat (received_bytes new) - of_nat (received_bytes old)))"
proof -
  have c: "dget c i = (if all = [] then None else Some (drop (n - 10) all))"
    using collected [of "concat periods"] assms(2-4) by (auto simp: collect_all NODE_STATISTICS_MEMORY_def)
  show ?thesis
  proof (cases "n < 10")
    case True
    then show ?thesis using assms(3) by (simp add: get_interface_statistics_def c NODE_STATISTICS_MEMORY_def)
  next
    case False
    let ?old = "all ! (n - 10)" and ?new = "last all"
    have "hd (drop (n - 10) all) = ?old" "last (drop (n - 10) all) = ?new" "length (drop (n - 10) all) = 10" "all \<noteq> []"
      using False assms(3) by (auto simp: hd_drop_conv_nth)
    then have get: "get_interface_statistics T c i =
        (if length ?old < length ?new then Inl IndexError else Inr (map (rate_values (T * 9) ?old) (enumerate 0 ?new)))"
      using rates_all [of "T * 9" ?old ?new] assms(1)
      by (simp add: get_interface_statistics_def c NODE_STATISTICS_MEMORY_def)
    show ?thesis
    proof (cases "length ?old < length ?new")
      case True
      with get False show ?thesis by simp
    next
      case enough: False
      have "rate_values (T * 9) ?old (k, s) = (case rates_of (T * 9) ?old (k, s) of Inr r \<Rightarrow> r)" if "k < length ?new" for k s
        using enough that assms(1) by (simp add: rate_values_def rates_of_def nth_append)
      with get False enough assms(1) show ?thesis
        by (simp add: nth_enumerate_eq Let_def rates_of_def)
    qed
  qed
qed

text \<open>A node with one interface, which sends 100 bytes in each period of a tenth of a second.\<close>

definition demo_periods :: "nat \<Rightarrow> (nat \<times> interface_stats list) list list" where
  "demo_periods n = map (\<lambda>k. [(0, [\<lparr> transmitted_packets = k, transmitted_bytes = 100 * k, received_packets = 0, received_bytes = 0 \<rparr>])]) [0 ..< n]"

theorem interface_rates_witness:
  "\<exists>c stats. rfold collect_statistics [] (demo_periods 12) = Inr c \<and> get_interface_statistics (1 / 10) c 0 = Inr stats \<and>
    tx_bit_rate (stats ! 0) = 8000 \<and> tx_bytes (stats ! 0) = 1100"
proof -
  obtain c where c: "rfold collect_statistics [] (demo_periods 12) = Inr c"
    using collected [of "concat (demo_periods 12)"] by (auto simp: collect_all)
  have all: "samples_for 0 (concat (demo_periods 12)) =
      map (\<lambda>k. [\<lparr> transmitted_packets = k, transmitted_bytes = 100 * k, received_packets = 0, received_bytes = 0 \<rparr>]) [0 ..< 12]"
    by (simp add: demo_periods_def samples_for_def upt_rec)
  from interface_rates [OF _ refl refl c, of "1 / 10" 0] show ?thesis
    unfolding all by (auto simp: c Let_def last_map)
qed

end
