(* ===== verification/VizThreads.thy ===== *)
theory VizThreads
  imports Complex_Main Prelude
begin

text \<open>
  The two threads of the visualizer (\<open>src/visualizer/visualizer/core.py\<close>). The simulation thread runs the
  simulator up to the target time each time it is told to go; the view thread runs the main loop of the
  toolkit, and in it the timeout that shows the state of the simulation and sets the next target, and
  what the user does. They share a lock, the flag \<open>go\<close> (a \<open>threading.Event\<close>), the flag \<open>quit\<close>, the
  target time and the pause messages. One step is what one thread does between two accesses to what is
  shared. Each thread is deterministic; what is open is which one steps, and what happens in the
  main loop.
\<close>

section \<open>The state\<close>

datatype thread = SimThread | ViewThread

text \<open>
  Where the simulation thread is in \<open>run\<close>: before the test of the loop, in \<open>wait\<close>, before \<open>clear\<close>, before the second
  test, before \<open>acquire\<close>, before running the simulator, before \<open>release\<close>, and at the end.
\<close>

datatype sim_point = AtLoop | InWait | BeforeClear | BeforeTest | BeforeLock | BeforeRun | BeforeRelease | SimDone

text \<open>
  Where the view thread is: in the main loop, in a timeout callback before it tries the lock, with the lock, after
  the view has been updated, and after the lock has been released (with the pause messages it has taken);
  in another callback that waits for the lock or has it; in \<open>_quit\<close>; after the main loop has ended.
\<close>

datatype view_point =
    InLoop
  | TryLock
  | GotLock
  | ViewUpdated "string list"
  | LockReleased "string list"
  | WaitsForLock
  | HasLock
  | Quitting
  | Joining
  | ViewDone

text \<open>
  \<open>frames\<close> has the source numbers of the timeout callbacks that have been entered and not left: while the lock
  is taken, such a callback runs the main loop itself. \<open>timers\<close> are the timeout sources that exist.
  \<open>view_time\<close> is the time that the time label shows (0 before the first one).
\<close>

record viz =
  v_lock :: "thread option"
  v_go :: bool
  v_quit :: bool
  target_time :: rat
  pause_messages :: "string list"
  sim_at :: sim_point
  sim_now :: rat
  said :: "string list"
  idle_updates :: nat
  view_at :: view_point
  frames :: "nat list"
  timers :: "nat list"
  update_timeout_id :: "nat option"
  next_source :: nat
  play_active :: bool
  sample_period :: rat
  view_time :: rat
  dialogs :: "string list"
  main_quit :: bool

definition SAMPLE_PERIOD :: rat where
  "SAMPLE_PERIOD = 1 / 10"

text \<open>After \<open>create_gui\<close>, which has set the speed to 1 and so started the timer, when the main loop starts.\<close>

definition viz_init :: viz where
  "viz_init =
     \<lparr> v_lock = None, v_go = False, v_quit = False, target_time = 0, pause_messages = [], sim_at = AtLoop,
       sim_now = 0, said = [], idle_updates = 0, view_at = InLoop, frames = [], timers = [0],
       update_timeout_id = Some 0, next_source = 1, play_active = False, sample_period = SAMPLE_PERIOD,
       view_time = 0, dialogs = [], main_quit = False \<rparr>"

section \<open>The simulation thread\<close>

text \<open>
  \<open>run_until\<close> is \<open>SimulatorRunUntil\<close>, which gives the time at which the simulator stops and the pause messages of
  this run.
\<close>

definition sim_step :: "(rat \<Rightarrow> rat \<Rightarrow> rat \<times> string list) \<Rightarrow> viz \<Rightarrow> viz option" where
  "sim_step run_until s =
     (case sim_at s of
        AtLoop \<Rightarrow> Some (s\<lparr> sim_at := if v_quit s then SimDone else InWait \<rparr>)
      | InWait \<Rightarrow> if v_go s then Some (s\<lparr> sim_at := BeforeClear \<rparr>) else None
      | BeforeClear \<Rightarrow> Some (s\<lparr> v_go := False, sim_at := BeforeTest \<rparr>)
      | BeforeTest \<Rightarrow> Some (s\<lparr> sim_at := if v_quit s then SimDone else BeforeLock \<rparr>)
      | BeforeLock \<Rightarrow> if v_lock s = None then Some (s\<lparr> v_lock := Some SimThread, sim_at := BeforeRun \<rparr>) else None
      | BeforeRun \<Rightarrow>
          (case run_until (sim_now s) (target_time s) of (now, messages) \<Rightarrow>
             Some (s\<lparr> sim_now := now, said := said s @ messages, pause_messages := pause_messages s @ messages,
                     idle_updates := Suc (idle_updates s), sim_at := BeforeRelease \<rparr>))
      | BeforeRelease \<Rightarrow> Some (s\<lparr> v_lock := None, sim_at := AtLoop \<rparr>)
      | SimDone \<Rightarrow> None)"

section \<open>The view thread\<close>

definition source_remove :: "nat option \<Rightarrow> viz \<Rightarrow> viz" where
  "source_remove source s = (case source of None \<Rightarrow> s | Some i \<Rightarrow> s\<lparr> timers := remove1 i (timers s) \<rparr>)"

definition start_update_timer :: "viz \<Rightarrow> viz" where
  "start_update_timer s =
     (let s1 = source_remove (update_timeout_id s) s in
      s1\<lparr> timers := timers s1 @ [next_source s1], update_timeout_id := Some (next_source s1),
          next_source := Suc (next_source s1) \<rparr>)"

definition on_play_button_toggled :: "viz \<Rightarrow> viz" where
  "on_play_button_toggled s =
     (if play_active s then start_update_timer s else source_remove (update_timeout_id s) s)"

text \<open>\<open>set_active\<close> of the toolkit emits the signal when it changes the state.\<close>

definition set_active :: "bool \<Rightarrow> viz \<Rightarrow> viz" where
  "set_active b s = (if play_active s = b then s else on_play_button_toggled (s\<lparr> play_active := b \<rparr>))"

text \<open>The end of \<open>update_view_timeout\<close>. A callback that returns \<open>False\<close> removes its source.\<close>

definition end_timeout :: "nat \<Rightarrow> string list \<Rightarrow> viz \<Rightarrow> viz" where
  "end_timeout source messages s =
     (let s1 = (if messages \<noteq> [] then set_active False (s\<lparr> dialogs := dialogs s @ messages \<rparr>) else s) in
      if \<not> play_active s1 then source_remove (Some source) (s1\<lparr> update_timeout_id := None \<rparr>)
      else s1\<lparr> v_go := True \<rparr>)"

text \<open>
  What the view thread does next when it is in a callback. In the main loop of a timeout callback that is to try the
  lock again, this is going back to that callback.
\<close>

definition view_step :: "viz \<Rightarrow> viz option" where
  "view_step s =
     (case view_at s of
        InLoop \<Rightarrow>
          if frames s \<noteq> [] then Some (s\<lparr> view_at := TryLock \<rparr>)
          else if main_quit s then Some (s\<lparr> view_at := ViewDone \<rparr>) else None
      | TryLock \<Rightarrow>
          if v_lock s = None then Some (s\<lparr> v_lock := Some ViewThread, view_at := GotLock \<rparr>)
          else Some (s\<lparr> view_at := InLoop \<rparr>)
      | GotLock \<Rightarrow>
          Some (s\<lparr> pause_messages := [], view_time := sim_now s, target_time := sim_now s + sample_period s,
                  view_at := ViewUpdated (pause_messages s) \<rparr>)
      | ViewUpdated messages \<Rightarrow> Some (s\<lparr> v_lock := None, view_at := LockReleased messages \<rparr>)
      | LockReleased messages \<Rightarrow>
          (case frames s of
             [] \<Rightarrow> None
           | source # fs \<Rightarrow> Some (end_timeout source messages (s\<lparr> frames := fs, view_at := InLoop \<rparr>)))
      | WaitsForLock \<Rightarrow> if v_lock s = None then Some (s\<lparr> v_lock := Some ViewThread, view_at := HasLock \<rparr>) else None
      | HasLock \<Rightarrow> Some (s\<lparr> v_lock := None, view_at := InLoop \<rparr>)
      | Quitting \<Rightarrow> Some (s\<lparr> v_go := True, view_at := Joining \<rparr>)
      | Joining \<Rightarrow> if sim_at s = SimDone then Some (s\<lparr> main_quit := True, view_at := InLoop \<rparr>) else None
      | ViewDone \<Rightarrow> None)"

text \<open>
  What the main loop can dispatch: a timeout (not one whose callback is running), a call of \<open>update_model\<close>, and what
  the user does: pressing the play button, changing the speed, an action that needs the simulation (as
  selecting a node does), and closing the window.
\<close>

datatype loop_event = Timeout nat | UpdateModel | PressPlay | SetSpeed rat | UseModel | CloseWindow

definition loop_runs :: "viz \<Rightarrow> bool" where
  "loop_runs s \<longleftrightarrow> view_at s = InLoop \<and> (frames s = [] \<longrightarrow> \<not> main_quit s)"

definition dispatch_event :: "loop_event \<Rightarrow> viz \<Rightarrow> viz option" where
  "dispatch_event e s =
     (if \<not> loop_runs s then None
      else
        (case e of
           Timeout i \<Rightarrow>
             if i \<in> set (timers s) \<and> i \<notin> set (frames s) then Some (s\<lparr> frames := i # frames s, view_at := TryLock \<rparr>)
             else None
         | UpdateModel \<Rightarrow>
             if 0 < idle_updates s then Some (s\<lparr> idle_updates := idle_updates s - 1, view_at := WaitsForLock \<rparr>) else None
         | PressPlay \<Rightarrow> if v_quit s then None else Some (set_active (\<not> play_active s) s)
         | SetSpeed v \<Rightarrow>
             if v_quit s \<or> v < 1 / 100 \<or> 10 < v then None
             else Some (start_update_timer (s\<lparr> sample_period := SAMPLE_PERIOD * v \<rparr>))
         | UseModel \<Rightarrow> if v_quit s then None else Some (s\<lparr> view_at := WaitsForLock \<rparr>)
         | CloseWindow \<Rightarrow>
             if v_quit s then None
             else
               Some ((source_remove (update_timeout_id s) s)\<lparr> update_timeout_id := None, v_quit := True,
                       view_at := Quitting \<rparr>)))"

section \<open>The steps of both\<close>

datatype turn = SimTurn | ViewTurn | Event loop_event

definition take_turn :: "(rat \<Rightarrow> rat \<Rightarrow> rat \<times> string list) \<Rightarrow> turn \<Rightarrow> viz \<Rightarrow> viz option" where
  "take_turn run_until t s =
     (case t of SimTurn \<Rightarrow> sim_step run_until s | ViewTurn \<Rightarrow> view_step s | Event e \<Rightarrow> dispatch_event e s)"

inductive viz_step :: "(rat \<Rightarrow> rat \<Rightarrow> rat \<times> string list) \<Rightarrow> viz \<Rightarrow> viz \<Rightarrow> bool"
  for run_until :: "rat \<Rightarrow> rat \<Rightarrow> rat \<times> string list" where
  sim_turn: "sim_step run_until s = Some s' \<Longrightarrow> viz_step run_until s s'"
| view_turn: "view_step s = Some s' \<Longrightarrow> viz_step run_until s s'"
| loop_turn: "dispatch_event e s = Some s' \<Longrightarrow> viz_step run_until s s'"

inductive_cases viz_stepE: "viz_step run_until s s'"

definition viz_reach :: "(rat \<Rightarrow> rat \<Rightarrow> rat \<times> string list) \<Rightarrow> viz \<Rightarrow> bool" where
  "viz_reach run_until s \<longleftrightarrow> (viz_step run_until)\<^sup>*\<^sup>* viz_init s"

text \<open>A schedule of turns, for concrete runs.\<close>

fun take_turns :: "(rat \<Rightarrow> rat \<Rightarrow> rat \<times> string list) \<Rightarrow> turn list \<Rightarrow> viz \<Rightarrow> viz option" where
  "take_turns run_until [] s = Some s"
| "take_turns run_until (t # ts) s =
     (case take_turn run_until t s of None \<Rightarrow> None | Some s' \<Rightarrow> take_turns run_until ts s')"

lemma take_turn_step: "take_turn run_until t s = Some s' \<Longrightarrow> viz_step run_until s s'"
  by (cases t) (auto simp: take_turn_def intro: viz_step.intros)

lemma take_turns_reach:
  "take_turns run_until ts s = Some s' \<Longrightarrow> (viz_step run_until)\<^sup>*\<^sup>* s s'"
  by (induction ts arbitrary: s)
    (auto split: option.splits intro: converse_rtranclp_into_rtranclp dest: take_turn_step)

section \<open>What always holds\<close>

text \<open>The simulator neither goes back nor past the time that it is given.\<close>

definition runs_to :: "(rat \<Rightarrow> rat \<Rightarrow> rat \<times> string list) \<Rightarrow> bool" where
  "runs_to run_until \<longleftrightarrow> (\<forall>now goal. now \<le> goal \<longrightarrow> now \<le> fst (run_until now goal) \<and> fst (run_until now goal) \<le> goal)"

definition sim_inside :: "viz \<Rightarrow> bool" where
  "sim_inside s \<longleftrightarrow> sim_at s = BeforeRun \<or> sim_at s = BeforeRelease"

fun view_inside :: "view_point \<Rightarrow> bool" where
  "view_inside GotLock = True"
| "view_inside (ViewUpdated m) = True"
| "view_inside HasLock = True"
| "view_inside _ = False"

fun in_hand :: "view_point \<Rightarrow> string list" where
  "in_hand (ViewUpdated m) = m"
| "in_hand (LockReleased m) = m"
| "in_hand _ = []"

fun in_timeout :: "view_point \<Rightarrow> bool" where
  "in_timeout TryLock = True"
| "in_timeout GotLock = True"
| "in_timeout (ViewUpdated m) = True"
| "in_timeout (LockReleased m) = True"
| "in_timeout _ = False"

definition lock_ok :: "viz \<Rightarrow> bool" where
  "lock_ok s \<longleftrightarrow> (v_lock s = Some SimThread \<longleftrightarrow> sim_inside s) \<and> (v_lock s = Some ViewThread \<longleftrightarrow> view_inside (view_at s))"

definition times_ok :: "viz \<Rightarrow> bool" where
  "times_ok s \<longleftrightarrow> 0 < sample_period s \<and> sample_period s \<le> 1 \<and>
     view_time s \<le> sim_now s \<and> sim_now s \<le> target_time s \<and> target_time s \<le> view_time s + 1"

definition messages_ok :: "viz \<Rightarrow> bool" where
  "messages_ok s \<longleftrightarrow> said s = dialogs s @ in_hand (view_at s) @ pause_messages s"

definition timer_ok :: "viz \<Rightarrow> bool" where
  "timer_ok s \<longleftrightarrow> distinct (timers s) \<and> (\<forall>i \<in> set (timers s). i < next_source s) \<and>
     (\<forall>i. update_timeout_id s = Some i \<longrightarrow> i < next_source s) \<and>
     (play_active s \<and> \<not> v_quit s \<longrightarrow> (\<exists>i. update_timeout_id s = Some i \<and> i \<in> set (timers s)))"

definition ending_ok :: "viz \<Rightarrow> bool" where
  "ending_ok s \<longleftrightarrow> (in_timeout (view_at s) \<longrightarrow> frames s \<noteq> []) \<and>
     (view_at s = Quitting \<or> view_at s = Joining \<longrightarrow> v_quit s) \<and>
     (view_at s = Joining \<longrightarrow> v_go s \<or> sim_at s \<noteq> InWait) \<and> (sim_at s = SimDone \<longrightarrow> v_quit s) \<and>
     (main_quit s \<longrightarrow> sim_at s = SimDone)"

lemmas viz_parts = lock_ok_def times_ok_def messages_ok_def timer_ok_def ending_ok_def sim_inside_def

lemma source_remove_keeps [simp]:
  "v_lock (source_remove i s) = v_lock s" "v_go (source_remove i s) = v_go s" "v_quit (source_remove i s) = v_quit s"
  "target_time (source_remove i s) = target_time s" "pause_messages (source_remove i s) = pause_messages s"
  "sim_at (source_remove i s) = sim_at s" "sim_now (source_remove i s) = sim_now s" "said (source_remove i s) = said s"
  "view_at (source_remove i s) = view_at s" "frames (source_remove i s) = frames s"
  "update_timeout_id (source_remove i s) = update_timeout_id s" "next_source (source_remove i s) = next_source s"
  "play_active (source_remove i s) = play_active s" "sample_period (source_remove i s) = sample_period s"
  "view_time (source_remove i s) = view_time s" "dialogs (source_remove i s) = dialogs s"
  "main_quit (source_remove i s) = main_quit s"
  by (simp_all add: source_remove_def split: option.splits)

lemma timers_source_remove [simp]:
  "timers (source_remove i s) = (case i of None \<Rightarrow> timers s | Some k \<Rightarrow> remove1 k (timers s))"
  by (simp add: source_remove_def split: option.splits)

lemma timer_changes_keep:
  assumes "f = start_update_timer \<or> f = on_play_button_toggled \<or> f = set_active b"
  shows "v_lock (f s) = v_lock s \<and> v_go (f s) = v_go s \<and> v_quit (f s) = v_quit s \<and> target_time (f s) = target_time s \<and>
    pause_messages (f s) = pause_messages s \<and> sim_at (f s) = sim_at s \<and> sim_now (f s) = sim_now s \<and> said (f s) = said s \<and>
    view_at (f s) = view_at s \<and> frames (f s) = frames s \<and> sample_period (f s) = sample_period s \<and>
    view_time (f s) = view_time s \<and> dialogs (f s) = dialogs s \<and> main_quit (f s) = main_quit s"
  using assms
  by (auto simp: start_update_timer_def on_play_button_toggled_def set_active_def Let_def split: if_splits)

lemmas timer_changes =
  timer_changes_keep [of start_update_timer, simplified] timer_changes_keep [of on_play_button_toggled, simplified]
  timer_changes_keep [of "set_active b" b for b, simplified]

lemma start_update_timer_ok: "timer_ok s \<Longrightarrow> timer_ok (start_update_timer s)"
  by (auto simp: timer_ok_def start_update_timer_def Let_def distinct_remove1 split: option.splits
      dest: notin_set_remove1 set_remove1_subset [THEN subsetD])

lemma set_active_ok: "timer_ok s \<Longrightarrow> timer_ok (set_active b s) \<and> play_active (set_active b s) = b"
proof (cases "play_active s = b")
  case False
  assume ok: "timer_ok s"
  show ?thesis
  proof (cases b)
    case True
    with False ok show ?thesis
      by (auto simp: timer_ok_def set_active_def on_play_button_toggled_def start_update_timer_def Let_def
          distinct_remove1 split: option.splits dest: set_remove1_subset [THEN subsetD])
  next
    case b: False
    with False ok show ?thesis
      by (auto simp: timer_ok_def set_active_def on_play_button_toggled_def distinct_remove1 split: option.splits
          dest: set_remove1_subset [THEN subsetD])
  qed
qed (simp add: set_active_def)

text \<open>Each part depends on few of the fields.\<close>

lemma unchanged_parts [simp]:
  "lock_ok (s\<lparr> v_go := x1 \<rparr>) = lock_ok s" "lock_ok (s\<lparr> v_quit := x2 \<rparr>) = lock_ok s"
  "lock_ok (s\<lparr> target_time := x3 \<rparr>) = lock_ok s"
  "lock_ok (s\<lparr> pause_messages := x4 \<rparr>) = lock_ok s"
  "lock_ok (s\<lparr> sim_now := x6 \<rparr>) = lock_ok s" "lock_ok (s\<lparr> said := x7 \<rparr>) = lock_ok s"
  "lock_ok (s\<lparr> idle_updates := x8 \<rparr>) = lock_ok s"
  "lock_ok (s\<lparr> frames := x10 \<rparr>) = lock_ok s" "lock_ok (s\<lparr> timers := x11 \<rparr>) = lock_ok s"
  "lock_ok (s\<lparr> update_timeout_id := x12 \<rparr>) = lock_ok s"
  "lock_ok (s\<lparr> next_source := x13 \<rparr>) = lock_ok s"
  "lock_ok (s\<lparr> play_active := x14 \<rparr>) = lock_ok s"
  "lock_ok (s\<lparr> sample_period := x15 \<rparr>) = lock_ok s"
  "lock_ok (s\<lparr> view_time := x16 \<rparr>) = lock_ok s"
  "lock_ok (s\<lparr> dialogs := x17 \<rparr>) = lock_ok s"
  "lock_ok (s\<lparr> main_quit := x18 \<rparr>) = lock_ok s"
  "times_ok (s\<lparr> v_lock := x0 \<rparr>) = times_ok s" "times_ok (s\<lparr> v_go := x1 \<rparr>) = times_ok s"
  "times_ok (s\<lparr> v_quit := x2 \<rparr>) = times_ok s"
  "times_ok (s\<lparr> pause_messages := x4 \<rparr>) = times_ok s"
  "times_ok (s\<lparr> sim_at := x5 \<rparr>) = times_ok s" "times_ok (s\<lparr> said := x7 \<rparr>) = times_ok s"
  "times_ok (s\<lparr> idle_updates := x8 \<rparr>) = times_ok s"
  "times_ok (s\<lparr> view_at := x9 \<rparr>) = times_ok s"
  "times_ok (s\<lparr> frames := x10 \<rparr>) = times_ok s"
  "times_ok (s\<lparr> timers := x11 \<rparr>) = times_ok s"
  "times_ok (s\<lparr> update_timeout_id := x12 \<rparr>) = times_ok s"
  "times_ok (s\<lparr> next_source := x13 \<rparr>) = times_ok s"
  "times_ok (s\<lparr> play_active := x14 \<rparr>) = times_ok s"
  "times_ok (s\<lparr> dialogs := x17 \<rparr>) = times_ok s"
  "times_ok (s\<lparr> main_quit := x18 \<rparr>) = times_ok s"
  "messages_ok (s\<lparr> v_lock := x0 \<rparr>) = messages_ok s"
  "messages_ok (s\<lparr> v_go := x1 \<rparr>) = messages_ok s"
  "messages_ok (s\<lparr> v_quit := x2 \<rparr>) = messages_ok s"
  "messages_ok (s\<lparr> target_time := x3 \<rparr>) = messages_ok s"
  "messages_ok (s\<lparr> sim_at := x5 \<rparr>) = messages_ok s"
  "messages_ok (s\<lparr> sim_now := x6 \<rparr>) = messages_ok s"
  "messages_ok (s\<lparr> idle_updates := x8 \<rparr>) = messages_ok s"
  "messages_ok (s\<lparr> frames := x10 \<rparr>) = messages_ok s"
  "messages_ok (s\<lparr> timers := x11 \<rparr>) = messages_ok s"
  "messages_ok (s\<lparr> update_timeout_id := x12 \<rparr>) = messages_ok s"
  "messages_ok (s\<lparr> next_source := x13 \<rparr>) = messages_ok s"
  "messages_ok (s\<lparr> play_active := x14 \<rparr>) = messages_ok s"
  "messages_ok (s\<lparr> sample_period := x15 \<rparr>) = messages_ok s"
  "messages_ok (s\<lparr> view_time := x16 \<rparr>) = messages_ok s"
  "messages_ok (s\<lparr> main_quit := x18 \<rparr>) = messages_ok s"
  "timer_ok (s\<lparr> v_lock := x0 \<rparr>) = timer_ok s" "timer_ok (s\<lparr> v_go := x1 \<rparr>) = timer_ok s"
  "timer_ok (s\<lparr> target_time := x3 \<rparr>) = timer_ok s"
  "timer_ok (s\<lparr> pause_messages := x4 \<rparr>) = timer_ok s"
  "timer_ok (s\<lparr> sim_at := x5 \<rparr>) = timer_ok s" "timer_ok (s\<lparr> sim_now := x6 \<rparr>) = timer_ok s"
  "timer_ok (s\<lparr> said := x7 \<rparr>) = timer_ok s"
  "timer_ok (s\<lparr> idle_updates := x8 \<rparr>) = timer_ok s"
  "timer_ok (s\<lparr> view_at := x9 \<rparr>) = timer_ok s"
  "timer_ok (s\<lparr> frames := x10 \<rparr>) = timer_ok s"
  "timer_ok (s\<lparr> sample_period := x15 \<rparr>) = timer_ok s"
  "timer_ok (s\<lparr> view_time := x16 \<rparr>) = timer_ok s"
  "timer_ok (s\<lparr> dialogs := x17 \<rparr>) = timer_ok s"
  "timer_ok (s\<lparr> main_quit := x18 \<rparr>) = timer_ok s"
  "ending_ok (s\<lparr> v_lock := x0 \<rparr>) = ending_ok s"
  "ending_ok (s\<lparr> target_time := x3 \<rparr>) = ending_ok s"
  "ending_ok (s\<lparr> pause_messages := x4 \<rparr>) = ending_ok s"
  "ending_ok (s\<lparr> sim_now := x6 \<rparr>) = ending_ok s"
  "ending_ok (s\<lparr> said := x7 \<rparr>) = ending_ok s"
  "ending_ok (s\<lparr> idle_updates := x8 \<rparr>) = ending_ok s"
  "ending_ok (s\<lparr> timers := x11 \<rparr>) = ending_ok s"
  "ending_ok (s\<lparr> update_timeout_id := x12 \<rparr>) = ending_ok s"
  "ending_ok (s\<lparr> next_source := x13 \<rparr>) = ending_ok s"
  "ending_ok (s\<lparr> play_active := x14 \<rparr>) = ending_ok s"
  "ending_ok (s\<lparr> sample_period := x15 \<rparr>) = ending_ok s"
  "ending_ok (s\<lparr> view_time := x16 \<rparr>) = ending_ok s"
  "ending_ok (s\<lparr> dialogs := x17 \<rparr>) = ending_ok s"
  by (simp_all add: viz_parts)

definition viz_ok :: "viz \<Rightarrow> bool" where
  "viz_ok s \<longleftrightarrow> lock_ok s \<and> times_ok s \<and> messages_ok s \<and> timer_ok s \<and> ending_ok s"

lemma viz_init_ok: "viz_ok viz_init"
  by (simp add: viz_ok_def viz_parts viz_init_def SAMPLE_PERIOD_def)

lemma sim_step_parts:
  assumes "sim_step run_until s = Some s'"
  shows "lock_ok s \<Longrightarrow> lock_ok s'" "messages_ok s \<Longrightarrow> messages_ok s'" "timer_ok s \<Longrightarrow> timer_ok s'"
    "lock_ok s \<Longrightarrow> ending_ok s \<Longrightarrow> ending_ok s'"
  subgoal using assms
    by (cases "sim_at s") (auto simp: sim_step_def lock_ok_def sim_inside_def split: if_splits prod.splits)
  subgoal using assms
    by (cases "sim_at s") (auto simp: sim_step_def messages_ok_def split: if_splits prod.splits)
  subgoal using assms by (cases "sim_at s") (auto simp: sim_step_def split: if_splits prod.splits)
  subgoal using assms
    by (cases "sim_at s") (auto simp: sim_step_def ending_ok_def split: if_splits prod.splits)
  done

lemma sim_step_times:
  assumes "runs_to run_until" "times_ok s" "sim_step run_until s = Some s'"
  shows "times_ok s'"
proof (cases "sim_at s")
  case BeforeRun
  have "sim_now s \<le> target_time s" using assms(2) by (simp add: times_ok_def)
  then have "sim_now s \<le> fst (run_until (sim_now s) (target_time s))"
    "fst (run_until (sim_now s) (target_time s)) \<le> target_time s"
    using assms(1) unfolding runs_to_def by blast+
  with assms(2,3) BeforeRun show ?thesis
    by (auto simp: sim_step_def times_ok_def split: prod.splits)
qed (use assms(2,3) in \<open>auto simp: sim_step_def split: if_splits\<close>)

lemma sim_step_ok: "runs_to run_until \<Longrightarrow> viz_ok s \<Longrightarrow> sim_step run_until s = Some s' \<Longrightarrow> viz_ok s'"
  unfolding viz_ok_def using sim_step_parts sim_step_times by blast

lemma source_remove_parts:
  "lock_ok (source_remove i s) = lock_ok s" "times_ok (source_remove i s) = times_ok s"
  "messages_ok (source_remove i s) = messages_ok s" "ending_ok (source_remove i s) = ending_ok s"
  by (simp_all add: source_remove_def split: option.splits)

lemma end_timeout_ok:
  assumes "viz_ok s" "view_at s = LockReleased messages" "frames s = source # fs"
  shows "viz_ok (end_timeout source messages (s\<lparr> frames := fs, view_at := InLoop \<rparr>))"
proof -
  let ?s = "s\<lparr> frames := fs, view_at := InLoop, dialogs := dialogs s @ messages \<rparr>"
  let ?t = "if messages \<noteq> [] then set_active False ?s else ?s"
  have ok: "viz_ok ?s" using assms by (simp add: viz_ok_def lock_ok_def messages_ok_def ending_ok_def sim_inside_def)
  then have t: "viz_ok ?t" using set_active_ok [of ?s False]
    by (auto simp: viz_ok_def lock_ok_def times_ok_def messages_ok_def ending_ok_def sim_inside_def timer_changes)
  have "end_timeout source messages (s\<lparr> frames := fs, view_at := InLoop \<rparr>) =
    (if \<not> play_active ?t then source_remove (Some source) (?t\<lparr> update_timeout_id := None \<rparr>) else ?t\<lparr> v_go := True \<rparr>)"
    by (simp add: end_timeout_def Let_def)
  moreover have "timer_ok (source_remove (Some source) (?t\<lparr> update_timeout_id := None \<rparr>))" if "\<not> play_active ?t"
    using t that by (auto simp: viz_ok_def timer_ok_def distinct_remove1 dest: set_remove1_subset [THEN subsetD])
  moreover have "ending_ok (?t\<lparr> v_go := True \<rparr>)" using t by (simp add: viz_ok_def ending_ok_def)
  ultimately show ?thesis using t by (simp add: viz_ok_def source_remove_parts)
qed

lemma view_step_parts:
  assumes "view_step s = Some s'" "\<And>m. view_at s \<noteq> LockReleased m"
  shows "lock_ok s \<Longrightarrow> lock_ok s'" "messages_ok s \<Longrightarrow> messages_ok s'" "timer_ok s \<Longrightarrow> timer_ok s'"
    "times_ok s \<Longrightarrow> times_ok s'" "ending_ok s \<Longrightarrow> ending_ok s'"
  subgoal using assms by (cases "view_at s") (auto simp: view_step_def lock_ok_def sim_inside_def split: if_splits)
  subgoal using assms by (cases "view_at s") (auto simp: view_step_def messages_ok_def split: if_splits)
  subgoal using assms by (cases "view_at s") (auto simp: view_step_def split: if_splits)
  subgoal using assms by (cases "view_at s") (auto simp: view_step_def times_ok_def split: if_splits)
  subgoal using assms by (cases "view_at s") (auto simp: view_step_def ending_ok_def split: if_splits)
  done

lemma view_step_ok:
  assumes "viz_ok s" "view_step s = Some s'"
  shows "viz_ok s'"
proof (cases "\<exists>m. view_at s = LockReleased m")
  case True
  with assms end_timeout_ok [OF assms(1)] show ?thesis by (auto simp: view_step_def split: list.splits)
next
  case False
  with assms show ?thesis unfolding viz_ok_def using view_step_parts by blast
qed

lemma timer_changes_parts:
  assumes "f = start_update_timer \<or> f = set_active b"
  shows "lock_ok (f s) = lock_ok s \<and> messages_ok (f s) = messages_ok s \<and> times_ok (f s) = times_ok s \<and>
    ending_ok (f s) = ending_ok s"
proof -
  have "f = start_update_timer \<or> f = on_play_button_toggled \<or> f = set_active b" using assms by blast
  from timer_changes_keep [OF this, of s] show ?thesis
    by (simp add: lock_ok_def messages_ok_def times_ok_def ending_ok_def sim_inside_def)
qed

lemmas timer_parts =
  timer_changes_parts [of start_update_timer, simplified] timer_changes_parts [of "set_active b" b for b, simplified]

lemma leave_loop:
  assumes "view_at s = InLoop" "\<not> view_inside v" "in_hand v = []"
  shows "lock_ok (s\<lparr> view_at := v \<rparr>) = lock_ok s" "messages_ok (s\<lparr> view_at := v \<rparr>) = messages_ok s"
  using assms by (simp_all add: lock_ok_def messages_ok_def sim_inside_def)

lemma new_period: "times_ok s \<Longrightarrow> 0 < p \<Longrightarrow> p \<le> 1 \<Longrightarrow> times_ok (s\<lparr> sample_period := p \<rparr>)"
  by (simp add: times_ok_def)

lemma dispatch_event_parts:
  assumes "dispatch_event e s = Some s'"
  shows "lock_ok s \<Longrightarrow> lock_ok s'" "messages_ok s \<Longrightarrow> messages_ok s'" "timer_ok s \<Longrightarrow> timer_ok s'"
    "times_ok s \<Longrightarrow> times_ok s'" "ending_ok s \<Longrightarrow> ending_ok s'"
proof -
  have at: "view_at s = InLoop" using assms by (auto simp: dispatch_event_def loop_runs_def split: if_splits)
  show "lock_ok s'" if "lock_ok s"
    using assms that at by (cases e) (auto simp: dispatch_event_def timer_parts leave_loop source_remove_parts split: if_splits)
  show "messages_ok s'" if "messages_ok s"
    using assms that at by (cases e) (auto simp: dispatch_event_def timer_parts leave_loop source_remove_parts split: if_splits)
  show "times_ok s'" if "times_ok s"
    using assms that
    by (cases e)
      (auto simp: dispatch_event_def timer_parts source_remove_parts new_period SAMPLE_PERIOD_def split: if_splits)
  show "ending_ok s'" if "ending_ok s"
    using assms that at
    by (cases e) (auto simp: dispatch_event_def timer_changes ending_ok_def split: if_splits)
  assume ok: "timer_ok s"
  show "timer_ok s'"
  proof (cases "e = CloseWindow")
    case True
    with ok assms show ?thesis
      by (auto simp: dispatch_event_def timer_ok_def distinct_remove1 split: if_splits option.splits
          dest: set_remove1_subset [THEN subsetD])
  next
    case False
    with ok assms set_active_ok [of s] start_update_timer_ok show ?thesis
      by (cases e) (auto simp: dispatch_event_def split: if_splits)
  qed
qed

lemma viz_reach_ok:
  assumes "runs_to run_until" "viz_reach run_until s"
  shows "viz_ok s"
  using assms(2) unfolding viz_reach_def
proof (induction rule: rtranclp_induct)
  case base show ?case by (rule viz_init_ok)
next
  case (step s s')
  have "viz_ok s'" if "dispatch_event e s = Some s'" for e
    using step.IH dispatch_event_parts [OF that] by (simp add: viz_ok_def)
  with step.hyps(2) step.IH show ?case
    by (auto elim!: viz_stepE dest: sim_step_ok [OF assms(1)] view_step_ok)
qed


section \<open>The simulation thread gets on\<close>

text \<open>How many turns the simulation thread needs until the simulator has been run, when it may run.\<close>

fun turns_to_run :: "sim_point \<Rightarrow> nat" where
  "turns_to_run AtLoop = 6"
| "turns_to_run InWait = 5"
| "turns_to_run BeforeClear = 4"
| "turns_to_run BeforeTest = 3"
| "turns_to_run BeforeLock = 2"
| "turns_to_run BeforeRun = 1"
| "turns_to_run BeforeRelease = 7"
| "turns_to_run SimDone = 0"

text \<open>The request is on its way: it has been made and the run that follows it has not begun.\<close>

definition requested :: "viz \<Rightarrow> bool" where
  "requested s \<longleftrightarrow> v_go s \<or> sim_at s \<in> {BeforeClear, BeforeTest, BeforeLock, BeforeRun}"

lemma lock_free: "lock_ok s \<Longrightarrow> \<not> view_inside (view_at s) \<Longrightarrow> \<not> sim_inside s \<Longrightarrow> v_lock s = None"
  by (cases "v_lock s") (auto simp: lock_ok_def intro: thread.exhaust)

lemmas turn_defs = take_turn_def sim_step_def sim_inside_def eval_nat_numeral

lemma runs_the_simulator:
  assumes "lock_ok s" "\<not> view_inside (view_at s)" "\<not> v_quit s" "requested s" "sim_at s \<noteq> SimDone"
  shows "\<exists>s'. take_turns run_until (replicate (turns_to_run (sim_at s)) SimTurn) s = Some s' \<and>
    sim_at s' = BeforeRelease \<and> target_time s' = target_time s \<and>
    sim_now s' = fst (run_until (sim_now s) (target_time s))"
proof (cases "sim_at s")
  case BeforeRun
  then show ?thesis by (simp add: turn_defs split: prod.splits)
next
  case BeforeRelease
  with assms show ?thesis by (simp add: turn_defs requested_def split: prod.splits)
qed (use assms lock_free [OF assms(1,2)] in \<open>simp_all add: turn_defs requested_def split: prod.splits\<close>)

lemma request_step:
  assumes "viz_step run_until s s'" "requested s" "\<not> v_quit s"
  shows "requested s' \<or> v_quit s' \<or> sim_at s' = BeforeRelease \<and> sim_now s' = fst (run_until (sim_now s) (target_time s))"
  using assms(1)
proof (rule viz_stepE)
  assume "sim_step run_until s = Some s'"
  with assms(2,3) show ?thesis
    by (cases "sim_at s") (auto simp: sim_step_def requested_def split: if_splits prod.splits)
next
  assume "view_step s = Some s'"
  then have "sim_at s' = sim_at s \<and> (v_go s \<longrightarrow> v_go s')"
    by (cases "view_at s") (auto simp: view_step_def end_timeout_def Let_def timer_changes split: if_splits list.splits)
  with assms(2) show ?thesis by (auto simp: requested_def)
next
  fix e
  assume "dispatch_event e s = Some s'"
  then have "sim_at s' = sim_at s \<and> v_go s' = v_go s"
    by (cases e) (auto simp: dispatch_event_def timer_changes split: if_splits)
  with assms(2) show ?thesis by (simp add: requested_def)
qed

text \<open>
  C6: no request is lost. Once the view has told the simulation thread to go, this stands until the simulator is run to the
  target that is then set, or the window is closed; and whenever the view does not have the lock, the simulation
  thread gets there in at most seven turns of its own.
\<close>

theorem viz_request_served:
  assumes "runs_to run_until" "viz_reach run_until s" "requested s" "\<not> v_quit s"
  shows "(viz_step run_until s s' \<longrightarrow> requested s' \<or> v_quit s' \<or>
      sim_at s' = BeforeRelease \<and> sim_now s' = fst (run_until (sim_now s) (target_time s))) \<and>
    (\<not> view_inside (view_at s) \<longrightarrow> (\<exists>n \<le> 7. \<exists>s''. take_turns run_until (replicate n SimTurn) s = Some s'' \<and>
      sim_at s'' = BeforeRelease \<and> target_time s'' = target_time s \<and>
      sim_now s'' = fst (run_until (sim_now s) (target_time s))))"
proof
  have ok: "lock_ok s" "ending_ok s" using viz_reach_ok [OF assms(1,2)] by (simp_all add: viz_ok_def)
  then have "sim_at s \<noteq> SimDone" using assms(4) by (auto simp: ending_ok_def)
  moreover have "turns_to_run p \<le> 7" for p by (cases p) simp_all
  ultimately show "\<not> view_inside (view_at s) \<longrightarrow> (\<exists>n \<le> 7. \<exists>s''. take_turns run_until (replicate n SimTurn) s = Some s'' \<and>
      sim_at s'' = BeforeRelease \<and> target_time s'' = target_time s \<and>
      sim_now s'' = fst (run_until (sim_now s) (target_time s)))"
    using runs_the_simulator [OF ok(1) _ assms(4,3)] by blast
qed (use assms(3,4) in \<open>blast dest: request_step\<close>)

section \<open>Closing the window\<close>

fun turns_to_end :: "sim_point \<Rightarrow> nat" where
  "turns_to_end BeforeLock = 4"
| "turns_to_end BeforeRun = 3"
| "turns_to_end InWait = 3"
| "turns_to_end BeforeRelease = 2"
| "turns_to_end BeforeClear = 2"
| "turns_to_end AtLoop = 1"
| "turns_to_end BeforeTest = 1"
| "turns_to_end SimDone = 0"

lemma ends_the_loop:
  assumes "viz_ok s" "view_at s = Joining"
  shows "\<exists>s'. take_turns run_until (replicate (turns_to_end (sim_at s)) SimTurn @ [ViewTurn]) s = Some s' \<and> main_quit s'"
proof -
  have "v_quit s" "sim_at s = InWait \<longrightarrow> v_go s" using assms by (auto simp: viz_ok_def ending_ok_def)
  moreover have "\<not> sim_inside s \<Longrightarrow> v_lock s = None" using assms lock_free [of s] by (simp add: viz_ok_def)
  ultimately show ?thesis using assms(2)
    by (cases "sim_at s") (simp_all add: turn_defs view_step_def split: prod.splits)
qed

lemma joining_step:
  assumes "viz_ok s" "view_at s = Joining" "viz_step run_until s s'"
  shows "main_quit s' \<or> view_at s' = Joining \<and> turns_to_end (sim_at s') < turns_to_end (sim_at s)"
  using assms(3)
proof (rule viz_stepE)
  assume "sim_step run_until s = Some s'"
  moreover have "v_quit s" using assms(1,2) by (simp add: viz_ok_def ending_ok_def)
  ultimately show ?thesis using assms(2)
    by (cases "sim_at s") (auto simp: sim_step_def split: if_splits prod.splits)
qed (use assms(2) in \<open>auto simp: view_step_def dispatch_event_def loop_runs_def split: if_splits\<close>)

text \<open>
  C7: closing the window always ends the program. From every state in which the view waits for the simulation thread, that
  thread comes to its end in at most four turns and the view leaves the main loop; no other step is possible,
  and each one of the simulation thread brings its end nearer.
\<close>

theorem viz_quits:
  assumes "runs_to run_until" "viz_reach run_until s" "view_at s = Joining"
  shows "(\<exists>n \<le> 4. \<exists>s''. take_turns run_until (replicate n SimTurn @ [ViewTurn]) s = Some s'' \<and> main_quit s'') \<and>
    (viz_step run_until s s' \<longrightarrow>
      main_quit s' \<or> view_at s' = Joining \<and> turns_to_end (sim_at s') < turns_to_end (sim_at s))"
proof -
  have "turns_to_end p \<le> 4" for p by (cases p) simp_all
  moreover have "viz_ok s" by (rule viz_reach_ok [OF assms(1,2)])
  ultimately show ?thesis using ends_the_loop [of s] joining_step [of s] assms(3) by blast
qed

section \<open>Concrete runs\<close>

text \<open>A simulator that always gets to its goal, and one that pauses on the way, after one twentieth of a second.\<close>

definition steady :: "rat \<Rightarrow> rat \<Rightarrow> rat \<times> string list" where
  "steady now goal = (max now goal, [])"

definition pausing :: "rat \<Rightarrow> rat \<Rightarrow> rat \<times> string list" where
  "pausing now goal = (if now < 1 / 20 \<and> 1 / 20 < goal then (1 / 20, [''pause'']) else (max now goal, []))"

lemma both_run: "runs_to steady \<and> runs_to pausing"
  by (auto simp: runs_to_def steady_def pausing_def)

text \<open>One tick: the timeout is dispatched, takes the lock, updates the view, and tells the simulation thread to go.\<close>

definition tick :: "nat \<Rightarrow> turn list" where
  "tick i = [Event (Timeout i), ViewTurn, ViewTurn, ViewTurn, ViewTurn]"

lemmas run_defs = take_turn_def sim_step_def view_step_def dispatch_event_def loop_runs_def source_remove_def
  start_update_timer_def on_play_button_toggled_def set_active_def end_timeout_def tick_def viz_init_def
  SAMPLE_PERIOD_def steady_def pausing_def Let_def eval_nat_numeral

lemma take_turns_viz_reach: "take_turns run_until ts viz_init = Some s \<Longrightarrow> viz_reach run_until s"
  by (simp add: viz_reach_def take_turns_reach)

text \<open>Playing, after the simulation has been run once and the view has been updated again.\<close>

definition two_ticks :: "turn list" where
  "two_ticks = Event PressPlay # tick 1 @ replicate 7 SimTurn @ tick 1"

lemma two_ticks_run:
  "\<exists>s. take_turns steady two_ticks viz_init = Some s \<and> view_time s = 1 / 10 \<and> sim_now s = 1 / 10 \<and>
    target_time s = 1 / 5 \<and> v_go s \<and> \<not> v_quit s \<and> view_at s = InLoop \<and> play_active s"
  by (simp add: two_ticks_def run_defs)


theorem viz_request_witness:
  "\<exists>s s''. viz_reach steady s \<and> requested s \<and> (\<exists>n. n \<le> 7 \<and> take_turns steady (replicate n SimTurn) s = Some s'') \<and>
    sim_at s'' = BeforeRelease \<and> sim_now s'' = 1 / 5"
proof -
  obtain s where s: "take_turns steady two_ticks viz_init = Some s" "sim_now s = 1 / 10" "target_time s = 1 / 5"
      "v_go s" "\<not> v_quit s" "view_at s = InLoop"
    using two_ticks_run by blast
  then have "requested s" "\<not> view_inside (view_at s)" by (simp_all add: requested_def)
  with viz_request_served [OF _ take_turns_viz_reach [OF s(1)]] both_run s take_turns_viz_reach [OF s(1)]
  show ?thesis by (fastforce simp: steady_def)
qed

theorem viz_quits_witness:
  "\<exists>s s''. viz_reach steady s \<and> (\<exists>n. n \<le> 4 \<and> take_turns steady (replicate n SimTurn @ [ViewTurn]) s = Some s'') \<and> main_quit s''"
proof -
  have "\<exists>s. take_turns steady (two_ticks @ [SimTurn, Event CloseWindow, ViewTurn]) viz_init = Some s \<and> view_at s = Joining"
    by (simp add: two_ticks_def run_defs)
  then obtain s where s: "take_turns steady (two_ticks @ [SimTurn, Event CloseWindow, ViewTurn]) viz_init = Some s"
      "view_at s = Joining" by blast
  from viz_quits [OF _ take_turns_viz_reach [OF s(1)] s(2)] both_run take_turns_viz_reach [OF s(1)]
  show ?thesis by blast
qed

text \<open>
  The flag can be set twice for one run: the second time after it has been cleared and before the lock is taken. Then the
  simulator, which has paused, is run on to the target before the pause message is shown.
\<close>

lemma pause_overrun:
  "\<exists>s. take_turns pausing (Event PressPlay # tick 1 @ replicate 3 SimTurn @ tick 1 @ replicate 10 SimTurn) viz_init = Some s \<and>
    pause_messages s = [''pause''] \<and> dialogs s = [] \<and> sim_now s = 1 / 10"
  by (simp add: run_defs)

text \<open>
  The number of a timeout that is running can be forgotten while it waits for the lock; then pressing the play button
  leaves two timeouts running.
\<close>

lemma two_timers:
  "\<exists>s. take_turns steady (Event PressPlay # tick 1 @ replicate 5 SimTurn @ [Event PressPlay, Event (SetSpeed 2)] @
      [Event (Timeout 2), ViewTurn, Event (SetSpeed 1), SimTurn, SimTurn] @ replicate 5 ViewTurn @ [Event PressPlay]) viz_init = Some s \<and>
    play_active s \<and> length (timers s) = 2"
  by (simp add: run_defs)

end
