(* ===== verification/Widget.thy ===== *)
theory Widget
  imports Canvas
begin

text \<open>
  The mouse handling of \<open>utils/grid.py\<close> (\<open>GtkGraphicRenderer\<close>) as a state machine: what the
  buttons and the motion of the pointer do to the mode of dragging and to the range shown. The
  toolkit reports an exception of a handler and goes on with the state it left. The shape of the
  pointer is left out.
\<close>

section \<open>The handlers\<close>

text \<open>
  The positions are attributes that do not exist before they are first assigned (\<open>None\<close>).
  \<open>motion_notify\<close> assigns the width of the widget to \<open>__moving_right\<close>, which counts as true
  unless it is 0.
\<close>

record widget =
  picture :: graphic
  moving_left :: bool
  moving_right :: bool
  moving_both :: bool
  moving_top :: bool
  left_cur :: "pynum option"
  right_cur :: "pynum option"
  both_start :: "pynum option"
  both_cur :: "pynum option"
  top_start :: "pynum option"
  top_cur :: "pynum option"
  w_width :: pynum
  full_redraw :: bool

definition new_widget :: "graphic \<Rightarrow> pynum \<Rightarrow> widget" where
  "new_widget g width =
     \<lparr> picture = g, moving_left = False, moving_right = False, moving_both = False, moving_top = False,
       left_cur = None, right_cur = None, both_start = None, both_cur = None, top_start = None, top_cur = None,
       w_width = width, full_redraw = True \<rparr>"

text \<open>\<open>set_range\<close> on the data, followed by a full redraw when it raises no exception.\<close>

definition show_range :: "pynum \<Rightarrow> pynum \<Rightarrow> bool \<Rightarrow> widget \<Rightarrow> bool res \<times> widget" where
  "show_range a b answer w =
     (case set_range a b (picture w) of
        (Inl e, g) \<Rightarrow> (Inl e, w\<lparr> picture := g \<rparr>)
      | (Inr _, g) \<Rightarrow> (Inr answer, w\<lparr> picture := g, full_redraw := True \<rparr>))"

definition attribute :: "pynum option \<Rightarrow> pynum res" where
  "attribute a = (case a of None \<Rightarrow> Inl AttributeError | Some x \<Rightarrow> Inr x)"

definition set_smaller_zoom :: "widget \<Rightarrow> bool res \<times> widget" where
  "set_smaller_zoom w =
     (case get_range (picture w) of (start, stop) \<Rightarrow>
        show_range start (nadd start (nmul (nsub stop start) (PInt 2))) False w)"

definition set_bigger_zoom :: "widget \<Rightarrow> bool res \<times> widget" where
  "set_bigger_zoom w =
     (case get_range (picture w) of (start, stop) \<Rightarrow>
        case ndiv (nsub stop start) (PInt 2) of
          Inl e \<Rightarrow> (Inl e, w)
        | Inr half \<Rightarrow> show_range start (nadd start half) False w)"

definition near :: "pynum \<Rightarrow> pynum \<Rightarrow> bool" where
  "near a b \<longleftrightarrow> nlt (nabs (nsub a b)) (PInt 5)"

definition between :: "pynum \<Rightarrow> pynum \<Rightarrow> pynum \<Rightarrow> bool" where
  "between a x b \<longleftrightarrow> nlt a x \<and> nlt x b"

definition button_press :: "pynum \<Rightarrow> pynum \<Rightarrow> widget \<Rightarrow> bool res \<times> widget" where
  "button_press ex ey w =
     (case get_selection_rectangle (picture w) of
        Inl e \<Rightarrow> (Inl e, w)
      | Inr (x, y, width, height) \<Rightarrow>
         (case get_data_rectangle (picture w) of (d_x, d_y, d_width, d_height) \<Rightarrow>
          if between y ey (nadd y height) \<and> near ex x then (Inr True, w\<lparr> moving_left := True \<rparr>)
          else if between y ey (nadd y height) \<and> near ex (nadd x width) then (Inr True, w\<lparr> moving_right := True \<rparr>)
          else if between y ey (nadd y height) \<and> between x ex (nadd x width) then
            (Inr True, w\<lparr> moving_both := True, both_start := Some ex, both_cur := Some ex \<rparr>)
          else if between d_y ey (nadd d_y d_height) \<and> between d_x ex (nadd d_x d_width) then
            (Inr True, w\<lparr> moving_top := True, top_start := Some ex, top_cur := Some ex \<rparr>)
          else (Inr False, w)))"

definition release_left :: "widget \<Rightarrow> bool res \<times> widget" where
  "release_left w =
     (case rbind (attribute (left_cur w)) (\<lambda>c. scale_selection c (picture w)) of
        Inl e \<Rightarrow> (Inl e, w)
      | Inr left \<Rightarrow> show_range left (snd (get_range (picture w))) True w)"

definition release_right :: "widget \<Rightarrow> bool res \<times> widget" where
  "release_right w =
     (case rbind (attribute (right_cur w)) (\<lambda>c. scale_selection c (picture w)) of
        Inl e \<Rightarrow> (Inl e, w)
      | Inr right \<Rightarrow> show_range (fst (get_range (picture w))) right True w)"

definition release_both :: "widget \<Rightarrow> bool res \<times> widget" where
  "release_both w =
     (case rbind (attribute (both_cur w)) (\<lambda>c. rbind (attribute (both_start w)) (\<lambda>s.
             scale_selection (nsub c s) (picture w))) of
        Inl e \<Rightarrow> (Inl e, w)
      | Inr delta \<Rightarrow>
         (case get_range (picture w) of (left, right) \<Rightarrow> show_range (nadd left delta) (nadd right delta) True w))"

definition button_release :: "widget \<Rightarrow> bool res \<times> widget" where
  "button_release w =
     (if moving_left w then release_left (w\<lparr> moving_left := False \<rparr>)
      else if moving_right w then release_right (w\<lparr> moving_right := False \<rparr>)
      else if moving_both w then release_both (w\<lparr> moving_both := False \<rparr>)
      else (Inr False, w\<lparr> moving_top := False \<rparr>))"

definition move_left :: "pynum \<Rightarrow> pynum \<times> pynum \<times> pynum \<times> pynum \<Rightarrow> widget \<Rightarrow> widget" where
  "move_left ex rect w =
     (case rect of (x, y, width, height) \<Rightarrow>
        w\<lparr> left_cur := Some (if nle ex (PInt 0) then PInt 0
                             else if nle (nadd x width) ex then nadd x width else ex) \<rparr>)"

definition move_right :: "pynum \<Rightarrow> pynum \<times> pynum \<times> pynum \<times> pynum \<Rightarrow> widget \<Rightarrow> widget" where
  "move_right ex rect w =
     (case rect of (x, y, width, height) \<Rightarrow>
        if nle (w_width w) ex then w\<lparr> moving_right := (val (w_width w) \<noteq> 0) \<rparr>
        else if nlt ex x then w\<lparr> right_cur := Some x \<rparr>
        else w\<lparr> right_cur := Some ex \<rparr>)"

definition move_both :: "pynum \<Rightarrow> pynum \<times> pynum \<times> pynum \<times> pynum \<Rightarrow> widget \<Rightarrow> bool res \<times> widget" where
  "move_both ex rect w =
     (case (rect, both_start w) of
        (_, None) \<Rightarrow> (Inl AttributeError, w)
      | ((x, y, width, height), Some start) \<Rightarrow>
          let cur_e = nsub (w_width w) (nsub (nadd x width) start); cur_s = nsub start x in
          (Inr True, w\<lparr> both_cur := Some (if nlt ex cur_s then cur_s else if nlt cur_e ex then cur_e else ex) \<rparr>))"

text \<open>The pointer position is stored last, and only if the range could be set.\<close>

definition move_top :: "pynum \<Rightarrow> widget \<Rightarrow> bool res \<times> widget" where
  "move_top ex w =
     (let w1 = w\<lparr> top_cur := Some ex \<rparr> in
      case rbind (attribute (top_start w1)) (\<lambda>s. scale_data (nsub s ex) (picture w1)) of
        Inl e \<Rightarrow> (Inl e, w1)
      | Inr delta \<Rightarrow>
         (case get_range (picture w1) of (left, right) \<Rightarrow>
          case show_range (nadd left delta) (nadd right delta) True w1 of
            (Inl e, w2) \<Rightarrow> (Inl e, w2)
          | (Inr b, w2) \<Rightarrow> (Inr b, w2\<lparr> top_start := Some ex \<rparr>)))"

definition motion_notify :: "pynum \<Rightarrow> pynum \<Rightarrow> widget \<Rightarrow> bool res \<times> widget" where
  "motion_notify ex ey w =
     (case get_selection_rectangle (picture w) of
        Inl e \<Rightarrow> (Inl e, w)
      | Inr (x, y, width, height) \<Rightarrow>
         (if moving_left w then (Inr True, move_left ex (x, y, width, height) w)
          else if moving_right w then (Inr True, move_right ex (x, y, width, height) w)
          else if moving_both w then move_both ex (x, y, width, height) w
          else if moving_top w then move_top ex w
          else
            (case get_data_rectangle (picture w) of (d_x, d_y, d_width, d_height) \<Rightarrow>
             (Inr (between y ey (nadd y height) \<and>
                     (near ex x \<or> near ex (nadd x width) \<or> between x ex (nadd x width)) \<or>
                   between d_y ey (nadd d_y d_height) \<and> between d_x ex (nadd d_x d_width)), w))))"

definition size_allocate :: "pynum \<Rightarrow> pynum \<Rightarrow> widget \<Rightarrow> bool res \<times> widget" where
  "size_allocate width height w =
     (let w1 = w\<lparr> w_width := width \<rparr> in
      case g_layout width height (picture w1) of
        (Inl e, g) \<Rightarrow> (Inl e, w1\<lparr> picture := g \<rparr>)
      | (Inr _, g) \<Rightarrow> (Inr False, w1\<lparr> picture := g, full_redraw := True \<rparr>))"

text \<open>
  \<open>expose\<close> draws the picture into a buffer when it has changed, copies the buffer to the window and
  draws the borders that are being moved. The result are the calls for the window.
\<close>

definition border_line :: "pynum \<Rightarrow> pynum \<Rightarrow> pynum \<Rightarrow> cairo list" where
  "border_line x y height = [MoveTo x y, RelLineTo (PInt 0) height, ClosePath]"

definition moving_borders :: "pynum \<times> pynum \<times> pynum \<times> pynum \<Rightarrow> widget \<Rightarrow> cairo list res" where
  "moving_borders rect w =
     (case rect of (x, y, width, height) \<Rightarrow>
      rbind (if moving_left w then
               rbind (attribute (left_cur w)) (\<lambda>c.
                 Inr (border_line (nmax c (PInt 2)) y height @ [SetLineWidth 1, black, Stroke]))
             else Inr []) (\<lambda>l.
      rbind (if moving_right w then
               rbind (attribute (right_cur w)) (\<lambda>c.
                 Inr (border_line (nmin c (nsub (w_width w) (PInt 2))) y height @ [SetLineWidth 1, black, Stroke]))
             else Inr []) (\<lambda>r.
      rbind (if moving_both w then
               rbind (attribute (both_cur w)) (\<lambda>c. rbind (attribute (both_start w)) (\<lambda>s.
                 let delta_x = nsub c s in
                 Inr (border_line (nadd x delta_x) y height @ border_line (nadd (nadd x width) delta_x) y height @
                      [black, SetLineWidth 1, Stroke])))
             else Inr []) (\<lambda>b. Inr (l @ r @ b)))))"

definition expose_window :: "pynum \<times> pynum \<times> pynum \<times> pynum \<Rightarrow> widget \<Rightarrow> cairo list res" where
  "expose_window area w =
     (case area of (ax, ay, aw, ah) \<Rightarrow>
      rbind (get_selection_rectangle (picture w)) (\<lambda>rect.
      rbind (moving_borders rect w) (\<lambda>borders.
        Inr ([Rectangle ax ay aw ah, Clip, PaintBuffer] @ borders))))"

definition expose :: "pynum \<times> pynum \<times> pynum \<times> pynum \<Rightarrow> color list \<Rightarrow> colors \<Rightarrow> widget \<Rightarrow>
    cairo list res \<times> colors \<times> widget" where
  "expose area legend_cs cs w =
     (if full_redraw w then
        (case draw_graphic (picture w) legend_cs cs of
           Inl e \<Rightarrow> (Inl e, cs, w)
         | Inr (cs', buffer) \<Rightarrow> let w1 = w\<lparr> full_redraw := False \<rparr> in (expose_window area w1, cs', w1))
      else (expose_window area w, cs, w))"

section \<open>The steps\<close>

text \<open>One button is used: it is pressed only when it is not held.\<close>

inductive widget_step :: "bool \<times> widget \<Rightarrow> bool \<times> widget \<Rightarrow> bool" where
  press: "button_press ex ey w = (r, w') \<Longrightarrow> widget_step (False, w) (True, w')"
| release: "button_release w = (r, w') \<Longrightarrow> widget_step (True, w) (False, w')"
| motion: "motion_notify ex ey w = (r, w') \<Longrightarrow> widget_step (held, w) (held, w')"
| zoom_out: "set_smaller_zoom w = (r, w') \<Longrightarrow> widget_step (held, w) (held, w')"
| zoom_in: "set_bigger_zoom w = (r, w') \<Longrightarrow> widget_step (held, w) (held, w')"
| resize: "size_allocate width height w = (r, w') \<Longrightarrow> widget_step (held, w) (held, w')"
| redraw: "expose area legend_cs cs w = (r, cs', w') \<Longrightarrow> widget_step (held, w) (held, w')"

inductive_cases widget_stepE: "widget_step s s'"

definition widget_reach :: "graphic \<Rightarrow> pynum \<Rightarrow> bool \<times> widget \<Rightarrow> bool" where
  "widget_reach g width s \<longleftrightarrow> widget_step\<^sup>*\<^sup>* (False, new_widget g width) s"

section \<open>The invariant\<close>

definition modes :: "widget \<Rightarrow> bool list" where
  "modes w = filter id [moving_left w, moving_right w, moving_both w, moving_top w]"

fun widget_ok :: "bool \<times> widget \<Rightarrow> bool" where
  "widget_ok (held, w) \<longleftrightarrow> length (modes w) \<le> (if held then 1 else 0) \<and> in_bounds (picture w) \<and>
     (moving_both w \<longrightarrow> both_start w \<noteq> None \<and> both_cur w \<noteq> None) \<and> (moving_top w \<longrightarrow> top_start w \<noteq> None)"

text \<open>What the handlers that set the range leave alone.\<close>

lemma show_range_keeps [simp]:
  "moving_left (snd (show_range a b r w)) = moving_left w" "moving_right (snd (show_range a b r w)) = moving_right w"
  "moving_both (snd (show_range a b r w)) = moving_both w" "moving_top (snd (show_range a b r w)) = moving_top w"
  "both_start (snd (show_range a b r w)) = both_start w" "both_cur (snd (show_range a b r w)) = both_cur w"
  "top_start (snd (show_range a b r w)) = top_start w"
  by (simp_all add: show_range_def split: prod.split sum.split)

lemma picture_show_range: "picture (snd (show_range a b r w)) = snd (set_range a b (picture w))"
  by (cases "set_range a b (picture w)") (simp add: show_range_def split: sum.split)

lemma show_range_in_bounds [simp]: "in_bounds (picture (snd (show_range a b r w)))"
  by (simp add: picture_show_range set_range_in_bounds)

lemma picture_size_allocate: "picture (snd (size_allocate a b w)) = snd (g_layout a b (picture w))"
  by (cases "g_layout a b (picture w)") (simp add: size_allocate_def Let_def split: sum.split)

lemma size_allocate_keeps [simp]:
  "modes (snd (size_allocate a b w)) = modes w" "moving_both (snd (size_allocate a b w)) = moving_both w"
  "moving_top (snd (size_allocate a b w)) = moving_top w" "both_start (snd (size_allocate a b w)) = both_start w"
  "both_cur (snd (size_allocate a b w)) = both_cur w" "top_start (snd (size_allocate a b w)) = top_start w"
  by (simp_all add: size_allocate_def modes_def Let_def split: prod.split sum.split)

lemma modes_show_range [simp]: "modes (snd (show_range a b r w)) = modes w"
  by (simp add: modes_def)

lemma zoom_ok:
  "widget_ok (held, w) \<Longrightarrow> widget_ok (held, snd (set_smaller_zoom w))"
  "widget_ok (held, w) \<Longrightarrow> widget_ok (held, snd (set_bigger_zoom w))"
  by (auto simp: set_smaller_zoom_def set_bigger_zoom_def split: prod.split sum.split)

lemma resize_ok: "widget_ok (held, w) \<Longrightarrow> widget_ok (held, snd (size_allocate a b w))"
  using g_layout_in_bounds [of "picture w" a b] by (auto simp: picture_size_allocate)

lemma press_ok: "widget_ok (False, w) \<Longrightarrow> widget_ok (True, snd (button_press ex ey w))"
  by (auto simp: button_press_def modes_def split: prod.split sum.split if_splits)

lemma release_ok: "widget_ok (True, w) \<Longrightarrow> widget_ok (False, snd (button_release w))"
  by (auto simp: button_release_def release_left_def release_right_def release_both_def modes_def
      split: prod.split sum.split if_splits)

lemma move_top_cases:
  obtains "snd (move_top ex w) = w\<lparr> top_cur := Some ex \<rparr>"
  | a b where "snd (move_top ex w) = snd (show_range a b True (w\<lparr> top_cur := Some ex \<rparr>))"
  | a b where "snd (move_top ex w) = (snd (show_range a b True (w\<lparr> top_cur := Some ex \<rparr>)))\<lparr> top_start := Some ex \<rparr>"
proof -
  let ?w1 = "w\<lparr> top_cur := Some ex \<rparr>"
  let ?delta = "rbind (attribute (top_start ?w1)) (\<lambda>s. scale_data (nsub s ex) (picture ?w1))"
  obtain left right where lr: "get_range (picture ?w1) = (left, right)" by fastforce
  show thesis
  proof (cases ?delta)
    case (Inl e)
    then show thesis using that(1) by (simp add: move_top_def Let_def)
  next
    case (Inr delta)
    let ?s = "show_range (nadd left delta) (nadd right delta) True ?w1"
    have run: "move_top ex w = (case ?s of (Inl e, w2) \<Rightarrow> (Inl e, w2) | (Inr b, w2) \<Rightarrow> (Inr b, w2\<lparr> top_start := Some ex \<rparr>))"
      using Inr lr by (simp add: move_top_def Let_def)
    obtain r w2 where s: "?s = (r, w2)" by fastforce
    then show thesis
      using run that(2) [of "nadd left delta" "nadd right delta"] that(3) [of "nadd left delta" "nadd right delta"]
      by (cases r) simp_all
  qed
qed

lemma move_top_ok: "widget_ok (held, w) \<Longrightarrow> moving_top w \<Longrightarrow> widget_ok (held, snd (move_top ex w))"
proof -
  assume ok: "widget_ok (held, w)" "moving_top w"
  have m: "modes (w\<lparr> top_cur := c \<rparr>) = modes w" "modes (w\<lparr> top_start := c \<rparr>) = modes w" for c w
    by (simp_all add: modes_def)
  show ?thesis by (rule move_top_cases [of ex w]) (use ok in \<open>auto simp: m\<close>)
qed

lemma motion_ok: "widget_ok (held, w) \<Longrightarrow> widget_ok (held, snd (motion_notify ex ey w))"
  using move_top_ok [of held w ex]
  by (auto simp: motion_notify_def move_left_def move_right_def move_both_def modes_def Let_def
      split: prod.split sum.split option.split if_splits)

lemma widget_ok_step: "widget_step s s' \<Longrightarrow> widget_ok s \<Longrightarrow> widget_ok s'"
proof (induction rule: widget_step.induct)
  case (press ex ey w r w')
  then show ?case using press_ok [of w ex ey] by simp
next
  case (release w r w')
  then show ?case using release_ok [of w] by simp
next
  case (motion ex ey w r w' held)
  then show ?case using motion_ok [of held w ex ey] by simp
next
  case (zoom_out w r w' held)
  then show ?case using zoom_ok(1) [of held w] by simp
next
  case (zoom_in w r w' held)
  then show ?case using zoom_ok(2) [of held w] by simp
next
  case (resize width height w r w' held)
  then show ?case using resize_ok [of held w width height] by simp
next
  case (redraw area legend_cs cs w r cs' w' held)
  then show ?case by (auto simp: expose_def modes_def Let_def split: if_splits sum.splits prod.splits)
qed


text \<open>The numbers raise no other exception than a division by zero.\<close>

lemma scale_delta_error: "scale_delta a b = Inl e \<Longrightarrow> e = ZeroDivisionError"
  by (auto simp: scale_delta_def first_tick_def last_tick_def ndiv_def nmod_def rbind_Inl_iff Let_def
      split: if_splits)

lemma show_range_error: "fst (show_range a b r w) = Inl e \<Longrightarrow> e = ZeroDivisionError"
  using scale_delta_error
  by (auto simp: show_range_def set_range_def g_layout_def Let_def split: prod.splits sum.splits)

lemma scale_selection_error: "scale_selection x g = Inl e \<Longrightarrow> e = ZeroDivisionError"
  by (auto simp: scale_selection_def ndiv_def rbind_Inl_iff split: if_splits)

text \<open>Letting go of a border that has not been moved since it was taken.\<close>

lemma release_unmoved:
  "moving_left w \<Longrightarrow> left_cur w = None \<Longrightarrow> fst (button_release w) = Inl AttributeError"
  "\<not> moving_left w \<Longrightarrow> moving_right w \<Longrightarrow> right_cur w = None \<Longrightarrow>
    button_release w = (Inl AttributeError, w\<lparr> moving_right := False \<rparr>)"
  by (simp_all add: button_release_def release_left_def release_right_def attribute_def)

lemma release_moved:
  assumes "fst (button_release w) = Inl AttributeError" "widget_ok (held, w)"
  shows "moving_left w \<and> left_cur w = None \<or> moving_right w \<and> right_cur w = None"
proof -
  have left: "fst (release_left v) = Inl AttributeError \<Longrightarrow> left_cur v = None" for v
    using scale_selection_error show_range_error
    by (fastforce simp: release_left_def attribute_def split: sum.splits option.splits)
  have right: "fst (release_right v) = Inl AttributeError \<Longrightarrow> right_cur v = None" for v
    using scale_selection_error show_range_error
    by (fastforce simp: release_right_def attribute_def split: sum.splits option.splits)
  have both: "fst (release_both v) = Inl AttributeError \<Longrightarrow> both_cur v = None \<or> both_start v = None" for v
    using scale_selection_error show_range_error
    by (fastforce simp: release_both_def attribute_def split: sum.splits prod.splits option.splits)
  show ?thesis
    using assms left [of "w\<lparr> moving_left := False \<rparr>"] right [of "w\<lparr> moving_right := False \<rparr>"]
      both [of "w\<lparr> moving_both := False \<rparr>"]
    by (auto simp: button_release_def split: if_splits)
qed

text \<open>Redrawing while a border is held that has not been moved yet.\<close>

lemma expose_unmoved:
  assumes "moving_left w \<and> left_cur w = None \<or> moving_right w \<and> right_cur w = None"
    and "get_selection_rectangle (picture w) = Inr rect" "\<not> full_redraw w"
  shows "fst (expose area legend_cs cs w) = Inl AttributeError"
  using assms
  by (cases rect; cases area; cases "left_cur w")
    (auto simp: expose_def expose_window_def moving_borders_def attribute_def)

text \<open>
  Pulling the right border to the edge of the widget. When the pointer goes straight to the
  edge or beyond it, the motion does not store the position (the width is assigned to the mode
  instead), and letting go raises \<open>AttributeError\<close>: the range stays as it was.
\<close>

theorem right_edge_lost:
  assumes "\<not> moving_left w" "moving_right w" "right_cur w = None"
    and "get_selection_rectangle (picture w) = Inr rect" "val (w_width w) \<le> val ex" "val (w_width w) \<noteq> 0"
  shows "fst (button_release (snd (motion_notify ex ey w))) = Inl AttributeError \<and>
    picture (snd (button_release (snd (motion_notify ex ey w)))) = picture w"
proof -
  obtain x y a b where rect: "rect = (x, y, a, b)" by (cases rect)
  have "snd (motion_notify ex ey w) = w\<lparr> moving_right := True \<rparr>"
    using assms rect by (simp add: motion_notify_def move_right_def nle_def)
  then show ?thesis using assms(1-3) release_unmoved(2) [of "w\<lparr> moving_right := True \<rparr>"] by simp
qed

definition sample_graphic :: graphic where
  "sample_graphic = new_graphic (\<lambda>s. \<lparr> y_bearing = PInt 0, text_width = PInt 0, text_height = PInt 0 \<rparr>) [] []
     (PInt 0) (PInt 100)"


theorem right_edge_witness:
  "fst (button_release (snd (motion_notify (PInt 250) (PInt 0)
     ((new_widget sample_graphic (PInt 200))\<lparr> moving_right := True \<rparr>)))) = Inl AttributeError"
proof -
  let ?w = "(new_widget sample_graphic (PInt 200))\<lparr> moving_right := True \<rparr>"
  obtain rect where "get_selection_rectangle (picture ?w) = Inr rect"
    by (auto simp: new_widget_def sample_graphic_def new_graphic_def get_selection_rectangle_def get_position_def
        num_ops Let_def)
  then show ?thesis
    using right_edge_lost [of ?w rect "PInt 250" "PInt 0"] by (simp add: new_widget_def)
qed

end
