(* ===== verification/Spec2Isabelle.thy ===== *)
theory Spec2Isabelle
  imports Actions BuildModules Canvas Cflags CreateModule Cycles Dispatch Files FlowResults GridData GridView Html Jobs Markup ModuleFiles ModuleScan Ns3rc Patches Paths Prelude PyNum RadBits RadNum RadSeq RadStats Reports Results Runner Scale ShellCmd ShellRun ShellTask Shlex Style Timeline Topsort VizActions VizNodes VizPlugins VizScene VizThreads VizTraffic Widget WorkerPool Wutils
begin

text \<open>
  The Python programs of the network simulator ns-3 (\<open>src/repos/ns-3-dev/\<close>, Python 2) that have
  logic of their own. They are separate programs and libraries, which share the language only; each
  has its theories, and all rest on Prelude.

  Parts of the program and their theories.

  Prelude has what the language itself does: exceptions as the type \<open>py_error\<close> and fallible code as
  \<open>py_error + 'a\<close> (\<open>rbind\<close>, \<open>rmap\<close>, \<open>rfold\<close> are its sequencing and loops), indices and slices with
  negative bounds, strings, and dictionaries as association lists. Where code walks a dictionary the
  order is a parameter (\<open>key_order\<close>), so theorems hold for every order.

  \<open>bindings/python/rad_util.py\<close>: RadSeq (sequences, \<open>get_args\<close>), RadBits (binary strings, Gray codes)
  and RadNum (integers, fractions, rounding, areas). \<open>bindings/python/topsort.py\<close>: Topsort (\<open>topsort\<close>
  and the levels) and Cycles (\<open>find_cycles\<close>). A generator is the list of what it yields together with
  the way it ends.

  \<open>test.py\<close>, the parallel test runner: Jobs (class \<open>Job\<close>, command lines, \<open>run_job_synchronously\<close>),
  WorkerPool (\<open>worker_thread\<close>, the two queues, dispatching, the interrupt and joining, as the step
  relations \<open>worker_step\<close> and \<open>pool_step\<close>), Results (counters, \<open>results.xml\<close>, exit status), Markup,
  Reports and Html (the reports made from the element tree of the results), Dispatch (from options and
  configuration to the list of jobs) and Runner (\<open>run_tests\<close> and \<open>main\<close>). Dispatch makes the jobs,
  the pool turns them into results in some order, Results and the reports consume them; Runner puts
  them together, and \<open>run_tests_refines\<close> says that the parallel run is as good as running the jobs
  one after the other.

  \<open>utils/check-style.py\<close>: Files (actions on an explicit world of files and streams), Patches (the patch
  classes, their parser and writer, and the removal of white space changes) and Style (checking and
  indenting files). \<open>utils.py\<close>: Ns3rc (the configuration reader of \<open>test.py\<close> and the build scripts).

  \<open>utils/grid.py\<close>, the timeline viewer: Timeline (ranges, events, binary searches), GridData
  (collections by name, colours, \<open>read_data\<close>), PyNum (integers and floats with the mixed arithmetic of
  Python 2), Scale (marks of a scale), GridView (layout and the range shown), Canvas (drawing, as the
  list of calls to the graphics library) and Widget (the mouse handlers as the step relation
  \<open>widget_step\<close>). \<open>read_data\<close> feeds the collections, the layout measures them, the handlers of the
  mouse change the range shown through \<open>set_range\<close>, and drawing reads all of it.

  What the lemmas show. The thread pool: conservation of jobs, freedom from deadlock, a bound on the
  steps and independence of the schedule. The runner: exit status, well-formedness of the reports,
  which jobs are dispatched. The style checker: what passes, which files are written, the parser and
  writer of patches as inverses, well-formedness of parsed patches. The sorter and the search for cycles:
  soundness, completeness and no duplicates. The number and bit routines: agreement with reference
  definitions and round trips. The viewer: what the searches find, how many marks a scale has, that
  drawing raises no exception, and the invariant of the mouse handlers. Errors are part of each of
  these statements: the exceptions the code raises are branches of the definitions, and the theorems
  of the kind error say when they occur.

  Interfaces. \<open>registry\<close> in GridData is the contract of the three lookups that create what they do
  not find, interpreted on ranges, events and timelines.

  Bounds and termination. No definition uses fuel: loops are structural recursions or functions with
  a termination proof, and the endless parts of the pool are step relations with a measure. Python
  integers are unbounded and are \<open>int\<close> or \<open>nat\<close>; no machine integers occur in the code. Floats are
  exact rationals in PyNum and Results; rounding errors of the hardware are not modelled.

  Parameters. Code outside of the repository is an argument: the runs of external programs (test
  programs, \<open>waf\<close>, \<open>uncrustify\<close>, \<open>patch\<close>, \<open>hg\<close>), the contents of files, the evaluation of Python text,
  the differences computed by \<open>difflib\<close>, the random numbers, the order of dictionaries, the measures of
  texts in the graphics library. What the code relies on is a named hypothesis of the theorem, with a
  witness on a concrete instance.

  Not modelled. The generated bindings (\<open>bindings/modulegen__*.py\<close> of the modules) are tables of calls
  to PyBindGen. The API scanner, the customizations of the bindings, the build scripts and the
  visualizer are glue around programs and libraries that are not in the repository. Of the modelled
  files: texts of option parsers and of \<open>--verbose\<close>, the making and removing of output directories,
  float cases of RadNum, the shape of the pointer, the window and PNG output of the viewer. Still
  planned: the remaining routines of \<open>rad_util.py\<close> (\<open>quantile\<close>, \<open>trim\<close>, \<open>nice_units\<close>, \<open>float_range\<close>),
  \<open>wutils.py\<close>, \<open>src/create-module.py\<close> and the type transformations of \<open>ns3modulescan.py\<close>.
\<close>

end
